(* ===== verification/Prelude.thy ===== *)
theory Prelude
  imports Main "HOL-Library.Word"
begin

unbundle bit_operations_syntax

text \<open>
  Shared ground of the development: the machine integers of the Rust sources as words, the
  outcome of a Rust call (a value, an error value, or a panic), readers over byte slices, the
  big-endian integers of \<^verbatim>\<open>to_be_bytes\<close> / \<^verbatim>\<open>from_be_bytes\<close> (which \<^verbatim>\<open>ReadBytesExt\<close> and
  \<^verbatim>\<open>WriteBytesExt\<close> of the wire code use), \<^verbatim>\<open>slice::chunks\<close>, and the interface of a wire codec
  with the lemmas every codec of the development inherits.
\<close>

section \<open>Machine integers\<close>

type_synonym byte = "8 word"
type_synonym u16 = "16 word"
type_synonym u32 = "32 word"
type_synonym u64 = "64 word"

named_theorems wire_simps \<open>evaluation rules of readers and of the big-endian integers\<close>
named_theorems roundtrip \<open>decoding an encoding gives the value back\<close>
named_theorems sizes \<open>lengths of encodings\<close>

text \<open>A statement about all words below a bound is checked on the numbers below it.\<close>

lemma all_words_below:
  assumes "list_all (\<lambda>k. P (word_of_nat k)) [0..<m]" and "unat (w :: 'a::len word) < m"
  shows "P w"
proof -
  from assms(2) have "unat w \<in> set [0..<m]"
    by simp
  with assms(1) have "P (word_of_nat (unat w))"
    unfolding list_all_iff by blast
  then show ?thesis by simp
qed

section \<open>Outcomes\<close>

text \<open>
  A Rust function of type \<^verbatim>\<open>Result<T, E>\<close> returns \<open>Ok\<close> or \<open>Err\<close>; an out-of-range index, a failed
  \<^verbatim>\<open>expect\<close> and an arithmetic overflow in a checked build panic. All three are values here.
\<close>

datatype ('a, 'e) outcome = Ok 'a | Err 'e | Panic

fun obind :: "('a, 'e) outcome \<Rightarrow> ('a \<Rightarrow> ('b, 'e) outcome) \<Rightarrow> ('b, 'e) outcome" where
  "obind (Ok a) f = f a"
| "obind (Err e) f = Err e"
| "obind Panic f = Panic"

fun omap :: "('a \<Rightarrow> 'b) \<Rightarrow> ('a, 'e) outcome \<Rightarrow> ('b, 'e) outcome" where
  "omap f (Ok a) = Ok (f a)"
| "omap f (Err e) = Err e"
| "omap f Panic = Panic"

fun map_err :: "('e \<Rightarrow> 'f) \<Rightarrow> ('a, 'e) outcome \<Rightarrow> ('a, 'f) outcome" where
  "map_err f (Ok a) = Ok a"
| "map_err f (Err e) = Err (f e)"
| "map_err f Panic = Panic"

fun is_ok :: "('a, 'e) outcome \<Rightarrow> bool" where
  "is_ok (Ok _) = True"
| "is_ok _ = False"

lemma obind_eq_Ok: "obind m f = Ok b \<longleftrightarrow> (\<exists>a. m = Ok a \<and> f a = Ok b)"
  by (cases m) auto

lemma obind_eq_Panic: "obind m f = Panic \<longleftrightarrow> m = Panic \<or> (\<exists>a. m = Ok a \<and> f a = Panic)"
  by (cases m) auto

lemma obind_eq_Err: "obind m f = Err e \<longleftrightarrow> m = Err e \<or> (\<exists>a. m = Ok a \<and> f a = Err e)"
  by (cases m) auto

lemma omap_eq_Ok: "omap f m = Ok b \<longleftrightarrow> (\<exists>a. m = Ok a \<and> b = f a)"
  by (cases m) auto

lemma omap_eq_Panic: "omap f m = Panic \<longleftrightarrow> m = Panic"
  by (cases m) auto

lemma map_err_eq_Ok [simp]: "map_err f m = Ok b \<longleftrightarrow> m = Ok b"
  by (cases m) auto

lemma map_err_eq_Panic [simp]: "map_err f m = Panic \<longleftrightarrow> m = Panic"
  by (cases m) auto

lemma obind_cong [fundef_cong]:
  assumes "m = m'" and "\<And>a. m' = Ok a \<Longrightarrow> f a = f' a"
  shows "obind m f = obind m' f'"
  using assms by (cases m') auto

lemma is_ok_iff: "is_ok m \<longleftrightarrow> (\<exists>a. m = Ok a)"
  by (cases m) auto

lemmas outcome_elims = obind_eq_Ok obind_eq_Panic obind_eq_Err omap_eq_Ok omap_eq_Panic

section \<open>Big-endian integers\<close>

fun to_be :: "nat \<Rightarrow> 'a::len word \<Rightarrow> byte list" where
  "to_be 0 w = []"
| "to_be (Suc n) w = ucast (drop_bit (8 * n) w) # to_be n w"

definition from_be :: "byte list \<Rightarrow> 'a::len word" where
  "from_be bs = foldl (\<lambda>acc b. push_bit 8 acc OR ucast b) 0 bs"

lemma length_to_be [simp, sizes]: "length (to_be n w) = n"
  by (induction n) auto

lemma to_be_eval:
  "to_be 1 w = [ucast w]"
  "to_be 2 w = [ucast (drop_bit 8 w), ucast w]"
  "to_be 3 w = [ucast (drop_bit 16 w), ucast (drop_bit 8 w), ucast w]"
  "to_be 4 w = [ucast (drop_bit 24 w), ucast (drop_bit 16 w), ucast (drop_bit 8 w), ucast w]"
  by (simp_all add: eval_nat_numeral)

lemma ucast_byte_roundtrip: "(ucast (ucast (x :: 'a::len word) :: byte) :: 'a word) = take_bit 8 x"
  by (rule bit_word_eqI) (auto simp: bit_simps)

lemma from_be_step:
  "push_bit (8 * n) (push_bit 8 acc OR take_bit 8 (drop_bit (8 * n) w)) OR take_bit (8 * n) w
   = push_bit (8 * Suc n) acc OR take_bit (8 * Suc n) (w :: 'a::len word)"
proof (rule bit_word_eqI)
  fix i
  assume i: "i < LENGTH('a)"
  consider "i < 8 * n" | "8 * n \<le> i" "i < 8 * Suc n" | "8 * Suc n \<le> i"
    by linarith
  then show "bit (push_bit (8 * n) (push_bit 8 acc OR take_bit 8 (drop_bit (8 * n) w))
        OR take_bit (8 * n) w) i
    = bit (push_bit (8 * Suc n) acc OR take_bit (8 * Suc n) w) i"
    using i by cases (auto simp: bit_simps add.commute)
qed

lemma from_be_acc:
  "foldl (\<lambda>acc b. push_bit 8 acc OR ucast b) acc (to_be n w)
   = push_bit (8 * n) acc OR take_bit (8 * n) (w :: 'a::len word)"
proof (induction n arbitrary: acc)
  case 0
  then show ?case by simp
next
  case (Suc n)
  then show ?case
    by (simp only: to_be.simps foldl_Cons ucast_byte_roundtrip from_be_step)
qed

lemma from_be_to_be [roundtrip]: "from_be (to_be n w) = take_bit (8 * n) w"
  by (simp add: from_be_def from_be_acc)

lemma take_bit_full [simp]:
  "take_bit 8 (b :: byte) = b" "take_bit 16 (h :: u16) = h" "take_bit 32 (w :: u32) = w"
  "take_bit 64 (x :: u64) = x"
  by (simp_all add: take_bit_word_eq_self)

lemma to_be_from_be_acc:
  assumes "8 * length bs \<le> LENGTH('a)"
  shows "to_be (length bs) (foldl (\<lambda>acc b. push_bit 8 acc OR ucast b) acc bs :: 'a::len word) = bs"
  using assms
proof (induction bs arbitrary: acc rule: rev_induct)
  case Nil
  then show ?case by simp
next
  case (snoc b bs)
  let ?f = "\<lambda>acc b. push_bit 8 acc OR ucast b :: 'a word"
  have shift: "to_be (Suc n) (push_bit 8 v OR ucast b :: 'a word) = to_be n v @ [b]"
    if "8 * Suc n \<le> LENGTH('a)" for n v
    using that
  proof (induction n)
    case 0
    have "(ucast (push_bit 8 v OR ucast b :: 'a word) :: byte) = b"
      using 0 by (intro bit_word_eqI) (auto simp: bit_simps)
    then show ?case by simp
  next
    case (Suc n)
    have "(ucast (drop_bit (8 * Suc n) (push_bit 8 v OR ucast b :: 'a word)) :: byte)
      = ucast (drop_bit (8 * n) v)"
      using Suc.prems by (intro bit_word_eqI) (auto simp: bit_simps not_less algebra_simps dest: bit_imp_le_length)
    then show ?case using Suc by simp
  qed
  from snoc show ?case by (simp add: shift del: to_be.simps)
qed

lemma to_be_from_be [roundtrip]:
  "8 * length bs \<le> LENGTH('a) \<Longrightarrow> to_be (length bs) (from_be bs :: 'a::len word) = bs"
  by (simp add: from_be_def to_be_from_be_acc)

section \<open>Readers\<close>

text \<open>
  A reader over a byte slice returns the value and the bytes it has not consumed
  (\<^verbatim>\<open>Read\<close> on a cursor or a \<^verbatim>\<open>BufReader\<close> over a slice). The \<^verbatim>\<open>?\<close> operator is \<open>rbind\<close>. The
  error for a slice that ends too early is an argument, because the callers convert it.
\<close>

type_synonym ('a, 'e) reader = "byte list \<Rightarrow> ('a \<times> byte list, 'e) outcome"

definition rret :: "'a \<Rightarrow> ('a, 'e) reader" where
  "rret a bs = Ok (a, bs)"

definition rfail :: "'e \<Rightarrow> ('a, 'e) reader" where
  "rfail e bs = Err e"

definition rbind :: "('a, 'e) reader \<Rightarrow> ('a \<Rightarrow> ('b, 'e) reader) \<Rightarrow> ('b, 'e) reader" where
  "rbind m f bs = obind (m bs) (\<lambda>(a, rest). f a rest)"

definition read_exact :: "'e \<Rightarrow> nat \<Rightarrow> (byte list, 'e) reader" where
  "read_exact eof n bs = (if n \<le> length bs then Ok (take n bs, drop n bs) else Err eof)"

definition read_to_end :: "(byte list, 'e) reader" where
  "read_to_end bs = Ok (bs, [])"

definition read_uint :: "'e \<Rightarrow> nat \<Rightarrow> ('a::len word, 'e) reader" where
  "read_uint eof n = rbind (read_exact eof n) (\<lambda>b. rret (from_be b))"

fun read_many :: "nat \<Rightarrow> ('a, 'e) reader \<Rightarrow> ('a list, 'e) reader" where
  "read_many 0 r = rret []"
| "read_many (Suc n) r = rbind r (\<lambda>x. rbind (read_many n r) (\<lambda>xs. rret (x # xs)))"

lemma rret_apply [simp, wire_simps]: "rret a bs = Ok (a, bs)"
  by (simp add: rret_def)

lemma rfail_apply [simp, wire_simps]: "rfail e bs = Err e"
  by (simp add: rfail_def)

lemma read_to_end_apply [simp, wire_simps]: "read_to_end bs = Ok (bs, [])"
  by (simp add: read_to_end_def)

lemma rbind_Ok [wire_simps]: "m bs = Ok (a, rest) \<Longrightarrow> rbind m f bs = f a rest"
  by (simp add: rbind_def)

lemma rbind_Err [wire_simps]: "m bs = Err e \<Longrightarrow> rbind m f bs = Err e"
  by (simp add: rbind_def)

lemma rbind_eq_Ok:
  "rbind m f bs = Ok r \<longleftrightarrow> (\<exists>a rest. m bs = Ok (a, rest) \<and> f a rest = Ok r)"
  by (auto simp: rbind_def obind_eq_Ok)

lemma rbind_eq_Panic:
  "rbind m f bs = Panic \<longleftrightarrow> m bs = Panic \<or> (\<exists>a rest. m bs = Ok (a, rest) \<and> f a rest = Panic)"
  by (auto simp: rbind_def obind_eq_Panic)

lemma rbind_cong [fundef_cong]:
  assumes "m bs = m' bs'" and "\<And>a rest. m' bs' = Ok (a, rest) \<Longrightarrow> f a rest = f' a rest" and "bs = bs'"
  shows "rbind m f bs = rbind m' f' bs'"
  using assms by (cases "m' bs'") (auto simp: rbind_def)

lemma read_exact_append [simp, wire_simps]:
  "n = length xs \<Longrightarrow> read_exact eof n (xs @ rest) = Ok (xs, rest)"
  by (simp add: read_exact_def)

lemma read_exact_self [simp, wire_simps]:
  "n = length xs \<Longrightarrow> read_exact eof n xs = Ok (xs, [])"
  by (simp add: read_exact_def)

lemma read_exact_eq_Ok:
  "read_exact eof n bs = Ok (xs, rest) \<longleftrightarrow> bs = xs @ rest \<and> length xs = n"
  by (auto simp: read_exact_def)

lemma read_exact_no_panic [simp]: "read_exact eof n bs \<noteq> Panic"
  by (simp add: read_exact_def)

lemma read_uint_to_be [simp, wire_simps]:
  "read_uint eof n (to_be n w @ rest) = Ok (take_bit (8 * n) w, rest)"
  by (simp add: read_uint_def rbind_Ok from_be_to_be)

lemma read_uint_no_panic [simp]: "read_uint eof n bs \<noteq> Panic"
  by (simp add: read_uint_def rbind_eq_Panic)

lemma read_uint_eq_Ok:
  "read_uint eof n bs = Ok (w, rest) \<longleftrightarrow> (\<exists>xs. bs = xs @ rest \<and> length xs = n \<and> w = from_be xs)"
  by (auto simp: read_uint_def rbind_eq_Ok read_exact_eq_Ok)

lemma read_many_no_panic:
  "(\<And>bs. r bs \<noteq> Panic) \<Longrightarrow> read_many n r bs \<noteq> Panic"
  by (induction n arbitrary: bs) (auto simp: rbind_eq_Panic)

lemma read_many_length: "read_many n r bs = Ok (xs, rest) \<Longrightarrow> length xs = n"
  by (induction n arbitrary: bs xs rest) (auto simp: rbind_eq_Ok)

text \<open>A reader that only ever consumes a prefix of its input.\<close>

definition consumes_prefix :: "('a, 'e) reader \<Rightarrow> bool" where
  "consumes_prefix r \<longleftrightarrow> (\<forall>bs a rest. r bs = Ok (a, rest) \<longrightarrow> (\<exists>pre. bs = pre @ rest))"

lemma consumes_prefixD: "consumes_prefix r \<Longrightarrow> r bs = Ok (a, rest) \<Longrightarrow> \<exists>pre. bs = pre @ rest"
  by (auto simp: consumes_prefix_def)

lemma consumes_prefix_rbind [intro]:
  assumes "consumes_prefix m" and "\<And>a. consumes_prefix (f a)"
  shows "consumes_prefix (rbind m f)"
  unfolding consumes_prefix_def
proof (intro allI impI)
  fix bs b rest
  assume "rbind m f bs = Ok (b, rest)"
  then obtain a mid where "m bs = Ok (a, mid)" and "f a mid = Ok (b, rest)"
    by (auto simp: rbind_eq_Ok)
  with assms obtain p q where "bs = p @ mid" and "mid = q @ rest"
    by (meson consumes_prefixD)
  then show "\<exists>pre. bs = pre @ rest" by auto
qed

lemma consumes_prefix_basic [intro, simp]:
  "consumes_prefix (rret a)" "consumes_prefix (rfail e)" "consumes_prefix read_to_end"
  "consumes_prefix (read_exact eof n)" "consumes_prefix (read_uint eof n)"
  by (auto simp: consumes_prefix_def read_exact_eq_Ok read_uint_eq_Ok)

section \<open>slice::chunks\<close>

function chunks :: "nat \<Rightarrow> 'a list \<Rightarrow> 'a list list" where
  "chunks n xs = (if n = 0 \<or> xs = [] then [] else take n xs # chunks n (drop n xs))"
  by pat_completeness auto
termination
  by (relation "measure (\<lambda>(n, xs). length xs)") auto

declare chunks.simps [simp del]

lemma chunks_Nil [simp]: "chunks n [] = []"
  by (simp add: chunks.simps)

lemma concat_chunks: "0 < n \<Longrightarrow> concat (chunks n xs) = xs"
proof (induction n xs rule: chunks.induct)
  case (1 n xs)
  then show ?case by (cases "xs = []") (simp_all add: chunks.simps [of n xs])
qed

lemma chunks_length: "c \<in> set (chunks n xs) \<Longrightarrow> 0 < length c \<and> length c \<le> n"
proof (induction n xs rule: chunks.induct)
  case (1 n xs)
  then show ?case by (auto simp: chunks.simps [of n xs] split: if_splits)
qed

lemma chunks_short: "xs \<noteq> [] \<Longrightarrow> length xs \<le> n \<Longrightarrow> chunks n xs = [xs]"
  by (subst chunks.simps) (cases xs; auto)

lemma chunks_append_exact:
  "length x = n \<Longrightarrow> 0 < n \<Longrightarrow> chunks n (x @ xs) = x # chunks n xs"
  by (subst chunks.simps) auto

lemma chunks_concat_exact:
  assumes "0 < n" and "\<And>x. x \<in> set xss \<Longrightarrow> length x = n"
  shows "chunks n (concat xss) = xss"
  using assms(2) by (induction xss) (auto simp: chunks_append_exact assms(1))

section \<open>UTF-8\<close>

text \<open>
  What \<^verbatim>\<open>String::from_utf8\<close> and \<^verbatim>\<open>read_to_string\<close> accept: the well-formed byte sequences of the
  Unicode standard (no overlong forms, no surrogates, nothing above U+10FFFF).
\<close>

definition utf8_cont :: "byte \<Rightarrow> bool" where
  "utf8_cont b \<longleftrightarrow> 0x80 \<le> b \<and> b \<le> 0xBF"

fun utf8_valid :: "byte list \<Rightarrow> bool" where
  "utf8_valid [] = True"
| "utf8_valid (a # rest) =
     (if a < 0x80 then utf8_valid rest
      else case rest of
        [] \<Rightarrow> False
      | b # rest2 \<Rightarrow>
          if 0xC2 \<le> a \<and> a \<le> 0xDF then utf8_cont b \<and> utf8_valid rest2
          else case rest2 of
            [] \<Rightarrow> False
          | c # rest3 \<Rightarrow>
              if 0xE0 \<le> a \<and> a \<le> 0xEF
              then utf8_cont b \<and> (a = 0xE0 \<longrightarrow> 0xA0 \<le> b) \<and> (a = 0xED \<longrightarrow> b \<le> 0x9F)
                \<and> utf8_cont c \<and> utf8_valid rest3
              else case rest3 of
                [] \<Rightarrow> False
              | d # rest4 \<Rightarrow>
                  0xF0 \<le> a \<and> a \<le> 0xF4 \<and> utf8_cont b \<and> (a = 0xF0 \<longrightarrow> 0x90 \<le> b)
                  \<and> (a = 0xF4 \<longrightarrow> b \<le> 0x8F) \<and> utf8_cont c \<and> utf8_cont d \<and> utf8_valid rest4)"

lemma utf8_valid_ascii: "list_all (\<lambda>b. b < 0x80) bs \<Longrightarrow> utf8_valid bs"
  by (induction bs) auto

section \<open>The interface of a wire codec\<close>

text \<open>
  What a field of a message promises to the message that holds it: decoding the bytes of a
  valid value, whatever follows them, gives the value again and leaves what follows. The
  clients of the interface are the vectors of fields (\<open>many\<close>) and the unambiguity of the
  encoding (\<open>prefix_free\<close>).
\<close>

locale wire_codec =
  fixes enc :: "'a \<Rightarrow> byte list"
    and dec :: "('a, 'e) reader"
    and valid :: "'a \<Rightarrow> bool"
  assumes dec_enc: "valid x \<Longrightarrow> dec (enc x @ rest) = Ok (x, rest)"
begin

lemma dec_enc_self: "valid x \<Longrightarrow> dec (enc x) = Ok (x, [])"
  using dec_enc [of x "[]"] by simp

lemma many:
  assumes "list_all valid xs"
  shows "read_many (length xs) dec (concat (map enc xs) @ rest) = Ok (xs, rest)"
  using assms by (induction xs) (auto simp: rbind_Ok dec_enc)

lemma prefix_free:
  assumes "valid x" and "valid y" and "enc x @ r = enc y @ s"
  shows "x = y \<and> r = s"
proof -
  have "Ok (x, r) = dec (enc y @ s)"
    unfolding assms(3) [symmetric] using assms(1) by (rule dec_enc [symmetric])
  also have "\<dots> = Ok (y, s)"
    using assms(2) by (rule dec_enc)
  finally show ?thesis by simp
qed

end

text \<open>A codec whose encodings all have the same width.\<close>

locale fixed_codec = wire_codec +
  fixes width :: nat
  assumes width: "length (enc x) = width"
begin

lemma many_length: "length (concat (map enc xs)) = width * length xs"
  by (induction xs) (auto simp: width)

end

section \<open>Refinement\<close>

text \<open>
  A detailed system refines an abstract one when an abstraction function maps its initial states to
  initial states and each of its steps to at most one abstract step. Everything that holds in the
  reachable abstract states then holds of the abstraction of the reachable detailed ones.
\<close>

locale simulation =
  fixes cinit :: "'c \<Rightarrow> bool" and cstep :: "'c \<Rightarrow> 'c \<Rightarrow> bool"
    and ainit :: "'a \<Rightarrow> bool" and astep :: "'a \<Rightarrow> 'a \<Rightarrow> bool"
    and abs :: "'c \<Rightarrow> 'a"
  assumes sim_init: "cinit c \<Longrightarrow> ainit (abs c)"
    and sim_step: "cstep c c' \<Longrightarrow> abs c' = abs c \<or> astep (abs c) (abs c')"
begin

lemma sim_steps: "cstep\<^sup>*\<^sup>* c c' \<Longrightarrow> astep\<^sup>*\<^sup>* (abs c) (abs c')"
proof (induction rule: rtranclp_induct)
  case (step c' c'')
  then show ?case using sim_step [of c' c''] by (auto intro: rtranclp.rtrancl_into_rtrancl)
qed simp

lemma sim_reachable: "cinit c \<Longrightarrow> cstep\<^sup>*\<^sup>* c c' \<Longrightarrow> \<exists>a. ainit a \<and> astep\<^sup>*\<^sup>* a (abs c')"
  using sim_init sim_steps by blast

lemma transfer:
  assumes "cinit c" and "cstep\<^sup>*\<^sup>* c c'"
    and "\<And>a. ainit a \<Longrightarrow> P a" and "\<And>a a'. P a \<Longrightarrow> astep a a' \<Longrightarrow> P a'"
  shows "P (abs c')"
  using sim_steps [OF assms(2)]
  by (induction rule: rtranclp_induct) (auto intro: assms(3,4) sim_init [OF assms(1)])

end

end
