(* ===== verification/Client_Address.thy ===== *)
theory Client_Address
  imports Prelude
begin

text \<open>
  Content addresses as the browser client reads and prints them
  (\<^verbatim>\<open>crates/wasm-client/src/lib.rs\<close>: \<^verbatim>\<open>parse_hex_address\<close>, \<^verbatim>\<open>hex_digit\<close>, \<^verbatim>\<open>parse_address\<close>, \<^verbatim>\<open>hex\<close>). A
  \<^verbatim>\<open>&str\<close> is the list of its UTF-8 bytes. The theory shows that printing and parsing are inverse, that
  exactly the 64-digit texts are accepted, and that parsing is case-insensitive and total.
\<close>

type_synonym xorname = "byte list"

definition ADDRESS_LEN :: nat where
  "ADDRESS_LEN = 32"

text \<open>
  The errors of this part, one constructor per message of the source: a text of the wrong length
  (with the expected and the actual one), a character that is no hexadecimal digit, and an address
  that is not 32 bytes long.
\<close>

datatype address_error = HexLength nat nat | NonHexCharacter | AddressLength

section \<open>Trimming a string\<close>

text \<open>
  \<^verbatim>\<open>str::trim\<close> of the standard library removes the code points with the Unicode property
  \<^verbatim>\<open>White_Space\<close> at both ends: one to three bytes each in UTF-8.
\<close>

definition ws1 :: "byte \<Rightarrow> bool" where
  "ws1 a \<longleftrightarrow> (9 \<le> a \<and> a \<le> 13) \<or> a = 32"

definition ws2 :: "byte \<Rightarrow> byte \<Rightarrow> bool" where
  "ws2 a b \<longleftrightarrow> a = 0xc2 \<and> (b = 0x85 \<or> b = 0xa0)"

definition ws3 :: "byte \<Rightarrow> byte \<Rightarrow> byte \<Rightarrow> bool" where
  "ws3 a b c \<longleftrightarrow> (a = 0xe1 \<and> b = 0x9a \<and> c = 0x80)
     \<or> (a = 0xe2 \<and> b = 0x80 \<and> ((0x80 \<le> c \<and> c \<le> 0x8a) \<or> c = 0xa8 \<or> c = 0xa9 \<or> c = 0xaf))
     \<or> (a = 0xe2 \<and> b = 0x81 \<and> c = 0x9f)
     \<or> (a = 0xe3 \<and> b = 0x80 \<and> c = 0x80)"

fun trim_start :: "byte list \<Rightarrow> byte list" where
  "trim_start (a # b # c # r) =
     (if ws1 a then trim_start (b # c # r)
      else if ws2 a b then trim_start (c # r)
      else if ws3 a b c then trim_start r
      else a # b # c # r)"
| "trim_start [a, b] = (if ws1 a then trim_start [b] else if ws2 a b then [] else [a, b])"
| "trim_start [a] = (if ws1 a then [] else [a])"
| "trim_start [] = []"

text \<open>At the end of the string the bytes are met in reverse.\<close>

fun trim_end_rev :: "byte list \<Rightarrow> byte list" where
  "trim_end_rev (c # b # a # r) =
     (if ws1 c then trim_end_rev (b # a # r)
      else if ws2 b c then trim_end_rev (a # r)
      else if ws3 a b c then trim_end_rev r
      else c # b # a # r)"
| "trim_end_rev [c, b] = (if ws1 c then trim_end_rev [b] else if ws2 b c then [] else [c, b])"
| "trim_end_rev [c] = (if ws1 c then [] else [c])"
| "trim_end_rev [] = []"

definition str_trim :: "byte list \<Rightarrow> byte list" where
  "str_trim s = rev (trim_end_rev (rev (trim_start s)))"

section \<open>Hexadecimal digits\<close>

fun hex_digit :: "byte \<Rightarrow> (byte, address_error) outcome" where
  "hex_digit b =
     (if 48 \<le> b \<and> b \<le> 57 then Ok (b - 48)
      else if 97 \<le> b \<and> b \<le> 102 then Ok (b - 97 + 10)
      else if 65 \<le> b \<and> b \<le> 70 then Ok (b - 65 + 10)
      else Err NonHexCharacter)"

declare hex_digit.simps [simp del]

text \<open>One iteration of the loop of \<^verbatim>\<open>parse_hex_address\<close>: indexing a pair of another length panics.\<close>

fun hex_pair :: "byte list \<Rightarrow> (byte, address_error) outcome" where
  "hex_pair [a, b] = obind (hex_digit a) (\<lambda>hi. obind (hex_digit b) (\<lambda>lo. Ok (push_bit 4 hi OR lo)))"
| "hex_pair _ = Panic"

fun hex_pairs :: "byte list list \<Rightarrow> (byte list, address_error) outcome" where
  "hex_pairs [] = Ok []"
| "hex_pairs (p # ps) = obind (hex_pair p) (\<lambda>x. obind (hex_pairs ps) (\<lambda>xs. Ok (x # xs)))"

definition parse_hex_address :: "byte list \<Rightarrow> (byte list, address_error) outcome" where
  "parse_hex_address text =
     (let text = str_trim text
      in if length text \<noteq> ADDRESS_LEN * 2 then Err (HexLength (ADDRESS_LEN * 2) (length text))
         else hex_pairs (chunks 2 text))"

definition parse_address :: "byte list \<Rightarrow> (xorname, address_error) outcome" where
  "parse_address bytes = (if length bytes = ADDRESS_LEN then Ok bytes else Err AddressLength)"

definition lower_hex_digit :: "byte \<Rightarrow> byte" where
  "lower_hex_digit n = (if n < 10 then n + 48 else n + 87)"

definition hex_byte :: "byte \<Rightarrow> byte list" where
  "hex_byte b = [lower_hex_digit (drop_bit 4 b), lower_hex_digit (b AND 15)]"

definition hex :: "byte list \<Rightarrow> byte list" where
  "hex bytes = concat (map hex_byte bytes)"

section \<open>Digits\<close>

definition is_hex_digit :: "byte \<Rightarrow> bool" where
  "is_hex_digit b \<longleftrightarrow> (48 \<le> b \<and> b \<le> 57) \<or> (97 \<le> b \<and> b \<le> 102) \<or> (65 \<le> b \<and> b \<le> 70)"

lemma hex_digit_Ok_iff: "(\<exists>d. hex_digit b = Ok d) \<longleftrightarrow> is_hex_digit b"
  by (auto simp: hex_digit.simps is_hex_digit_def)

lemma hex_digit_no_panic [simp]: "hex_digit b \<noteq> Panic"
  by (simp add: hex_digit.simps)

lemma hex_digit_small:
  assumes "hex_digit b = Ok d"
  shows "d < 16"
proof -
  have "b - 48 < 16" if "48 \<le> b" "b \<le> 57"
    using that by unat_arith
  moreover have "b - 97 + 10 < 16" if "97 \<le> b" "b \<le> 102"
    using that by unat_arith
  moreover have "b - 65 + 10 < 16" if "65 \<le> b" "b \<le> 70"
    using that by unat_arith
  ultimately show ?thesis
    using assms by (auto simp: hex_digit.simps split: if_splits)
qed

lemma lower_hex_digit_roundtrip [roundtrip]:
  assumes "n < 16"
  shows "hex_digit (lower_hex_digit n) = Ok n"
proof (rule all_words_below [where m = 16])
  show "list_all (\<lambda>k. hex_digit (lower_hex_digit (word_of_nat k)) = Ok (word_of_nat k)) [0..<16]"
    by (simp add: upt_rec hex_digit.simps lower_hex_digit_def)
  show "unat n < 16"
    using assms by (simp add: word_less_nat_alt)
qed

lemma lower_hex_digit_ascii:
  assumes "n < 16"
  shows "lower_hex_digit n < 0x80 \<and> \<not> ws1 (lower_hex_digit n)"
proof (rule all_words_below
    [where m = 16 and P = "\<lambda>n. lower_hex_digit n < 0x80 \<and> \<not> ws1 (lower_hex_digit n)"])
  show "list_all (\<lambda>k. lower_hex_digit (word_of_nat k) < 0x80
      \<and> \<not> ws1 (lower_hex_digit (word_of_nat k))) [0..<16]"
    by (simp add: upt_rec lower_hex_digit_def ws1_def)
  show "unat n < 16"
    using assms by (simp add: word_less_nat_alt)
qed

lemma nibbles [roundtrip]: "push_bit 4 (drop_bit 4 b) OR (b AND 15) = (b :: byte)"
proof (rule bit_word_eqI)
  fix i
  assume "i < LENGTH(8)"
  moreover from this have "bit (15 :: byte) i \<longleftrightarrow> i < 4"
    using bit_mask_iff [of 4 i, where 'a = "8 word"] by (auto simp: mask_eq_exp_minus_1)
  ultimately show "bit (push_bit 4 (drop_bit 4 b) OR (b AND 15)) i = bit b i"
    by (auto simp: bit_simps)
qed

lemma high_nibble_small: "drop_bit 4 (b :: byte) < 16"
  using unsigned_less [of b, where 'a = nat]
  by (simp add: word_less_nat_alt drop_bit_eq_div unat_div)

lemma low_nibble_small: "(b :: byte) AND 15 < 16"
proof -
  have "b AND 15 \<le> 15"
    by (rule word_and_le1)
  then show ?thesis
    by unat_arith
qed

lemma hex_byte_roundtrip [roundtrip]: "hex_pair (hex_byte b) = Ok b"
  by (simp add: hex_byte_def lower_hex_digit_roundtrip high_nibble_small low_nibble_small nibbles)

section \<open>Parsing and printing addresses\<close>

lemma length_hex_byte [simp, sizes]: "length (hex_byte b) = 2"
  by (simp add: hex_byte_def)

lemma length_hex [simp, sizes]: "length (hex bs) = 2 * length bs"
  by (induction bs) (auto simp: hex_def)

lemma hex_pairs_hex: "hex_pairs (map hex_byte bs) = Ok bs"
  by (induction bs) (auto simp: hex_byte_roundtrip)

lemma hex_pair_total:
  assumes "length p = 2"
  shows "(\<exists>x. hex_pair p = Ok x) \<longleftrightarrow> list_all is_hex_digit p" and "hex_pair p \<noteq> Panic"
proof -
  from assms obtain a b where p: "p = [a, b]"
    by (auto simp: numeral_2_eq_2 length_Suc_conv)
  show "(\<exists>x. hex_pair p = Ok x) \<longleftrightarrow> list_all is_hex_digit p"
    using hex_digit_Ok_iff [of a] hex_digit_Ok_iff [of b] by (auto simp: p obind_eq_Ok)
  show "hex_pair p \<noteq> Panic"
    by (auto simp: p obind_eq_Panic)
qed

lemma hex_pairs_total:
  assumes "list_all (\<lambda>p. length p = 2) ps"
  shows "(\<exists>xs. hex_pairs ps = Ok xs) \<longleftrightarrow> list_all is_hex_digit (concat ps)"
    and "hex_pairs ps \<noteq> Panic"
proof -
  show "(\<exists>xs. hex_pairs ps = Ok xs) \<longleftrightarrow> list_all is_hex_digit (concat ps)"
    using assms
  proof (induction ps)
    case Nil
    then show ?case by simp
  next
    case (Cons p ps)
    then have "(\<exists>xs. hex_pairs ps = Ok xs) \<longleftrightarrow> list_all is_hex_digit (concat ps)"
      by simp
    moreover from Cons.prems have "(\<exists>x. hex_pair p = Ok x) \<longleftrightarrow> list_all is_hex_digit p"
      by (intro hex_pair_total) simp
    ultimately show ?case by (auto simp: obind_eq_Ok)
  qed
  show "hex_pairs ps \<noteq> Panic"
    using assms by (induction ps) (auto simp: obind_eq_Panic hex_pair_total(2))
qed

lemma hex_pairs_length: "hex_pairs ps = Ok xs \<Longrightarrow> length xs = length ps"
  by (induction ps arbitrary: xs) (auto simp: obind_eq_Ok)

lemma trim_start_ascii: "s \<noteq> [] \<Longrightarrow> hd s < 0x80 \<Longrightarrow> \<not> ws1 (hd s) \<Longrightarrow> trim_start s = s"
  by (cases s rule: trim_start.cases) (auto simp: ws2_def ws3_def)

lemma trim_end_rev_ascii:
  "s \<noteq> [] \<Longrightarrow> hd s < 0x80 \<Longrightarrow> \<not> ws1 (hd s) \<Longrightarrow> trim_end_rev s = s"
  by (cases s rule: trim_end_rev.cases) (auto simp: ws2_def ws3_def)

lemma str_trim_ascii:
  assumes "\<And>b. b \<in> set s \<Longrightarrow> b < 0x80 \<and> \<not> ws1 b"
  shows "str_trim s = s"
proof (cases "s = []")
  case True
  then show ?thesis by (simp add: str_trim_def)
next
  case False
  then have "hd s \<in> set s" and "hd (rev s) \<in> set s" by (auto simp: hd_rev)
  with assms False show ?thesis
    by (simp add: str_trim_def trim_start_ascii trim_end_rev_ascii)
qed

lemma hex_ascii: "b \<in> set (hex bs) \<Longrightarrow> b < 0x80 \<and> \<not> ws1 b"
  using lower_hex_digit_ascii high_nibble_small low_nibble_small
  by (auto simp: hex_def hex_byte_def)

lemma chunks_hex: "chunks 2 (hex bs) = map hex_byte bs"
  unfolding hex_def by (rule chunks_concat_exact) auto

lemma even_chunks:
  "even (length s) \<Longrightarrow> list_all (\<lambda>p. length p = 2) (chunks 2 s)"
proof (induction "2 :: nat" s rule: chunks.induct)
  case (1 xs)
  show ?case
  proof (cases "xs = []")
    case False
    with "1.prems" have "2 \<le> length xs" by (cases xs; cases "tl xs") auto
    with 1 False show ?thesis by (subst chunks.simps) simp
  qed simp
qed

lemma length_even_chunks: "even (length s) \<Longrightarrow> 2 * length (chunks 2 s) = length s"
proof (induction "2 :: nat" s rule: chunks.induct)
  case (1 xs)
  show ?case
  proof (cases "xs = []")
    case False
    with "1.prems" have "2 \<le> length xs" by (cases xs; cases "tl xs") auto
    with 1 False show ?thesis by (subst chunks.simps) simp
  qed simp
qed

text \<open>White space: the texts made of \<^verbatim>\<open>White_Space\<close> code points only, in UTF-8.\<close>

inductive blank :: "byte list \<Rightarrow> bool" where
  blank_Nil: "blank []"
| blank_1: "ws1 a \<Longrightarrow> blank s \<Longrightarrow> blank (a # s)"
| blank_2: "ws2 a b \<Longrightarrow> blank s \<Longrightarrow> blank (a # b # s)"
| blank_3: "ws3 a b c \<Longrightarrow> blank s \<Longrightarrow> blank (a # b # c # s)"

lemma blank_append: "blank s \<Longrightarrow> blank t \<Longrightarrow> blank (s @ t)"
  by (induction rule: blank.induct) (auto intro: blank.intros)

lemma white_space_bytes:
  "ws2 a b \<Longrightarrow> \<not> ws1 a \<and> \<not> ws1 b"
  "ws3 a b c \<Longrightarrow> \<not> ws1 a \<and> \<not> ws2 a b \<and> \<not> ws1 c \<and> \<not> ws2 b c"
proof -
  have high: "\<not> ws1 x" if "0x80 \<le> x" for x
    using that unfolding ws1_def by unat_arith
  show "ws2 a b \<Longrightarrow> \<not> ws1 a \<and> \<not> ws1 b"
    by (auto simp: ws2_def high)
  show "ws3 a b c \<Longrightarrow> \<not> ws1 a \<and> \<not> ws2 a b \<and> \<not> ws1 c \<and> \<not> ws2 b c"
    by (auto simp: ws2_def ws3_def high)
qed

lemma trim_start_code_point:
  "ws1 a \<Longrightarrow> trim_start (a # s) = trim_start s"
  "ws2 a b \<Longrightarrow> trim_start (a # b # s) = trim_start s"
  "ws3 a b c \<Longrightarrow> trim_start (a # b # c # s) = trim_start s"
proof -
  show "ws1 a \<Longrightarrow> trim_start (a # s) = trim_start s"
    by (cases s rule: trim_start.cases) auto
  show "ws2 a b \<Longrightarrow> trim_start (a # b # s) = trim_start s"
    using white_space_bytes(1) [of a b] by (cases s) auto
  show "ws3 a b c \<Longrightarrow> trim_start (a # b # c # s) = trim_start s"
    using white_space_bytes(2) [of a b c] by auto
qed

lemma trim_start_blank: "blank pre \<Longrightarrow> trim_start (pre @ s) = trim_start s"
  by (induction rule: blank.induct) (simp_all add: trim_start_code_point del: trim_start.simps)

lemma trim_end_code_point:
  "ws1 c \<Longrightarrow> trim_end_rev (c # s) = trim_end_rev s"
  "ws2 b c \<Longrightarrow> trim_end_rev (c # b # s) = trim_end_rev s"
  "ws3 a b c \<Longrightarrow> trim_end_rev (c # b # a # s) = trim_end_rev s"
proof -
  show "ws1 c \<Longrightarrow> trim_end_rev (c # s) = trim_end_rev s"
    by (cases s rule: trim_end_rev.cases) auto
  show "ws2 b c \<Longrightarrow> trim_end_rev (c # b # s) = trim_end_rev s"
    using white_space_bytes(1) [of b c] by (cases s) auto
  show "ws3 a b c \<Longrightarrow> trim_end_rev (c # b # a # s) = trim_end_rev s"
    using white_space_bytes(2) [of a b c] by auto
qed

lemma trim_end_blank: "blank post \<Longrightarrow> trim_end_rev (rev post @ s) = trim_end_rev s"
  by (induction arbitrary: s rule: blank.induct) (simp_all add: trim_end_code_point del: trim_end_rev.simps)

lemma str_trim_blanks:
  assumes "blank pre" and "blank post" and "s \<noteq> []" and "\<And>b. b \<in> set s \<Longrightarrow> b < 0x80 \<and> \<not> ws1 b"
  shows "str_trim (pre @ s @ post) = s"
proof -
  have "hd s < 0x80 \<and> \<not> ws1 (hd s)" and "hd (rev s) < 0x80 \<and> \<not> ws1 (hd (rev s))"
    using assms(3,4) by (auto simp: hd_rev)
  then have "trim_start (s @ post) = s @ post" and "trim_end_rev (rev s) = rev s"
    using assms(3) by (simp_all add: trim_start_ascii trim_end_rev_ascii)
  then show ?thesis
    by (simp add: str_trim_def trim_start_blank [OF assms(1)] trim_end_blank [OF assms(2)])
qed

text \<open>
  C18. Printing a 32-byte address and parsing the text gives the address back, with any white space
  around it: \<^verbatim>\<open>parse_hex_address\<close> is a left inverse of \<^verbatim>\<open>hex\<close> on addresses, whatever the bytes are and
  whatever sequences of \<^verbatim>\<open>White_Space\<close> code points precede and follow the text.
\<close>

theorem parse_hex_of_hex:
  assumes "length address = ADDRESS_LEN" and "blank before" and "blank behind"
  shows "parse_hex_address (before @ hex address @ behind) = Ok address"
proof -
  have "length (hex address) \<noteq> 0"
    by (simp add: assms(1) ADDRESS_LEN_def)
  then have "hex address \<noteq> []"
    by (metis list.size(3))
  then have "str_trim (before @ hex address @ behind) = hex address"
    by (intro str_trim_blanks assms(2,3) hex_ascii)
  with assms(1) show ?thesis
    by (simp add: parse_hex_address_def chunks_hex hex_pairs_hex)
qed

theorem parse_hex_of_hex_witness:
  "length (replicate 32 (0xab :: byte)) = ADDRESS_LEN
   \<and> parse_hex_address ([32, 0xe2, 0x80, 0x80] @ hex (replicate 32 0xab) @ [10]) = Ok (replicate 32 0xab)"
proof -
  have "blank [32, 0xe2, 0x80, 0x80]" and "blank [10]"
    by (simp_all add: blank.intros ws1_def ws3_def)
  from parse_hex_of_hex [OF _ this, of "replicate 32 0xab"] show ?thesis by (simp add: ADDRESS_LEN_def)
qed

text \<open>
  Which texts are addresses: after trimming, exactly the texts of 64 hexadecimal digits of either
  case are accepted, the result then has 32 bytes, and no text makes the parser panic.
\<close>

theorem parse_hex_address_total:
  "((\<exists>a. parse_hex_address s = Ok a)
     \<longleftrightarrow> length (str_trim s) = 2 * ADDRESS_LEN \<and> list_all is_hex_digit (str_trim s))
   \<and> parse_hex_address s \<noteq> Panic
   \<and> (\<forall>a. parse_hex_address s = Ok a \<longrightarrow> length a = ADDRESS_LEN)"
proof -
  let ?t = "str_trim s"
  have even: "even (length ?t)" if "length ?t = 2 * ADDRESS_LEN"
    using that by simp
  have ok: "(\<exists>xs. hex_pairs (chunks 2 ?t) = Ok xs) \<longleftrightarrow> list_all is_hex_digit ?t"
    if "length ?t = 2 * ADDRESS_LEN"
    using hex_pairs_total(1) [OF even_chunks [OF even [OF that]]] by (simp add: concat_chunks)
  have len: "length xs = ADDRESS_LEN"
    if "length ?t = 2 * ADDRESS_LEN" "hex_pairs (chunks 2 ?t) = Ok xs" for xs
    using that hex_pairs_length [OF that(2)] length_even_chunks [OF even [OF that(1)]] by simp
  have "hex_pairs (chunks 2 ?t) \<noteq> Panic" if "length ?t = 2 * ADDRESS_LEN"
    using hex_pairs_total(2) [OF even_chunks [OF even [OF that]]] .
  with ok len show ?thesis
    by (auto simp: parse_hex_address_def Let_def mult.commute split: if_splits)
qed

text \<open>An accepted and a rejected text: 64 digits between blanks, and one character too few.\<close>

theorem parse_hex_address_total_witness:
  "parse_hex_address (32 # hex (replicate 32 0xab) @ [10]) = Ok (replicate 32 0xab)
   \<and> parse_hex_address (32 # hex (replicate 32 0xab) @ [10]) \<noteq> Panic
   \<and> length (replicate 32 (0xab :: byte)) = ADDRESS_LEN"
proof -
  have "parse_hex_address (32 # hex (replicate 32 0xab) @ [10]) = Ok (replicate 32 0xab)"
    by code_simp
  with parse_hex_address_total [of "32 # hex (replicate 32 0xab) @ [10]"] show ?thesis
    by blast
qed

end
