(* ===== verification/Client_Retrieval.thy ===== *)
theory Client_Retrieval
  imports Client_Address
begin

text \<open>
  The browser client's retrieval state machine (\<^verbatim>\<open>Retrieval\<close> in \<^verbatim>\<open>crates/wasm-client/src/lib.rs\<close>)
  and the loop that drives it (\<^verbatim>\<open>retrieve\<close> in \<^verbatim>\<open>web/src/retrieve.js\<close>). The libraries the client
  calls (\<^verbatim>\<open>self_encryption\<close>, \<^verbatim>\<open>rmp_serde\<close>) are the fields of a record that every operation takes;
  what a theorem relies on of them is a named hypothesis.
  The theory shows the trust boundary (every cached chunk was verified under its address, and two
  networks cannot make one address yield two plaintexts), the effect of each operation, and that
  the loop returns the content when the network serves it.
\<close>

section \<open>The libraries\<close>

text \<open>
  \<^verbatim>\<open>self_encryption\<close>: \<open>'map\<close> is \<^verbatim>\<open>DataMap\<close>, \<open>'info\<close> its \<^verbatim>\<open>ChunkInfo\<close>, \<open>'chunk\<close> an \<^verbatim>\<open>EncryptedChunk\<close>,
  \<open>'se\<close> its error; \<open>generic_error\<close> is \<^verbatim>\<open>Error::Generic\<close>. \<^verbatim>\<open>rmp_serde::from_slice\<close> decodes a data map.
\<close>

record ('map, 'info, 'chunk, 'se, 'rmp) client_libs =
  verify_chunk :: "xorname \<Rightarrow> byte list \<Rightarrow> ('chunk, 'se) outcome"
  from_slice :: "byte list \<Rightarrow> ('map, 'rmp) outcome"
  is_child :: "'map \<Rightarrow> bool"
  infos :: "'map \<Rightarrow> 'info list"
  dst_hash :: "'info \<Rightarrow> xorname"
  content :: "'chunk \<Rightarrow> byte list"
  get_root_data_map :: "'map \<Rightarrow> (xorname \<Rightarrow> (byte list, 'se) outcome) \<Rightarrow> ('map, 'se) outcome"
  decrypt :: "'map \<Rightarrow> 'chunk list \<Rightarrow> (byte list, 'se) outcome"
  generic_error :: "byte list \<Rightarrow> 'se"

datatype ('se, 'rmp) client_error =
    BadAddress address_error
  | DataMapVerification 'se
  | NotADataMap 'rmp
  | ChunkVerification xorname 'se
  | RootMapFailed 'se
  | CannotFinish
  | MissingChunk xorname
  | DecryptionFailed 'se

section \<open>The state and its operations\<close>

record ('map, 'chunk) retrieval =
  rmap :: 'map
  root_resolved :: bool
  cache :: "xorname \<rightharpoonup> 'chunk"

definition retrieval_begin ::
  "('map, 'info, 'chunk, 'se, 'rmp) client_libs \<Rightarrow> byte list \<Rightarrow> byte list
     \<Rightarrow> (('map, 'chunk) retrieval, ('se, 'rmp) client_error) outcome" where
  "retrieval_begin L address bytes =
     obind (map_err BadAddress (parse_address address)) (\<lambda>address.
     obind (map_err DataMapVerification (verify_chunk L address bytes)) (\<lambda>_.
     obind (map_err NotADataMap (from_slice L bytes)) (\<lambda>map.
       Ok \<lparr>rmap = map, root_resolved = (\<not> is_child L map), cache = Map.empty\<rparr>)))"

definition required_addresses ::
  "('map, 'info, 'chunk, 'se, 'rmp) client_libs \<Rightarrow> ('map, 'chunk) retrieval \<Rightarrow> byte list" where
  "required_addresses L r =
     concat (map (\<lambda>info. if cache r (dst_hash L info) = None then dst_hash L info else [])
       (infos L (rmap r)))"

definition retrieval_supply ::
  "('map, 'info, 'chunk, 'se, 'rmp) client_libs \<Rightarrow> byte list \<Rightarrow> byte list \<Rightarrow> ('map, 'chunk) retrieval
     \<Rightarrow> (('map, 'chunk) retrieval, ('se, 'rmp) client_error) outcome" where
  "retrieval_supply L address bytes r =
     obind (map_err BadAddress (parse_address address)) (\<lambda>address.
     obind (map_err (ChunkVerification address) (verify_chunk L address bytes)) (\<lambda>chunk.
       Ok (r\<lparr>cache := (cache r)(address \<mapsto> chunk)\<rparr>)))"

definition missing_wrapper_text :: "byte list" where
  "missing_wrapper_text = map of_char ''missing wrapper chunk ''"

definition cache_fetch ::
  "('map, 'info, 'chunk, 'se, 'rmp) client_libs \<Rightarrow> (xorname \<rightharpoonup> 'chunk) \<Rightarrow> xorname
     \<Rightarrow> (byte list, 'se) outcome" where
  "cache_fetch L ca address =
     (case ca address of
        Some chunk \<Rightarrow> Ok (content L chunk)
      | None \<Rightarrow> Err (generic_error L (missing_wrapper_text @ hex address)))"

definition retrieval_advance ::
  "('map, 'info, 'chunk, 'se, 'rmp) client_libs \<Rightarrow> ('map, 'chunk) retrieval
     \<Rightarrow> (('map, 'chunk) retrieval, ('se, 'rmp) client_error) outcome" where
  "retrieval_advance L r =
     (if root_resolved r \<or> required_addresses L r \<noteq> [] then Ok r
      else obind (map_err RootMapFailed (get_root_data_map L (rmap r) (cache_fetch L (cache r))))
        (\<lambda>root. Ok (r\<lparr>rmap := root, root_resolved := True\<rparr>)))"

definition is_complete ::
  "('map, 'info, 'chunk, 'se, 'rmp) client_libs \<Rightarrow> ('map, 'chunk) retrieval \<Rightarrow> bool" where
  "is_complete L r \<longleftrightarrow> root_resolved r \<and> required_addresses L r = []"

definition chunk_count ::
  "('map, 'info, 'chunk, 'se, 'rmp) client_libs \<Rightarrow> ('map, 'chunk) retrieval \<Rightarrow> nat" where
  "chunk_count L r = length (infos L (rmap r))"

definition chunks_held ::
  "('map, 'info, 'chunk, 'se, 'rmp) client_libs \<Rightarrow> ('map, 'chunk) retrieval \<Rightarrow> nat" where
  "chunks_held L r = length (filter (\<lambda>info. cache r (dst_hash L info) \<noteq> None) (infos L (rmap r)))"

fun collect_chunks ::
  "(xorname \<rightharpoonup> 'chunk) \<Rightarrow> xorname list \<Rightarrow> ('chunk list, ('se, 'rmp) client_error) outcome" where
  "collect_chunks ca [] = Ok []"
| "collect_chunks ca (a # as) =
     (case ca a of
        None \<Rightarrow> Err (MissingChunk a)
      | Some c \<Rightarrow> obind (collect_chunks ca as) (\<lambda>cs. Ok (c # cs)))"

definition retrieval_finish ::
  "('map, 'info, 'chunk, 'se, 'rmp) client_libs \<Rightarrow> ('map, 'chunk) retrieval
     \<Rightarrow> (byte list, ('se, 'rmp) client_error) outcome" where
  "retrieval_finish L r =
     (if \<not> is_complete L r then Err CannotFinish
      else obind (collect_chunks (cache r) (map (dst_hash L) (infos L (rmap r)))) (\<lambda>chunks.
        map_err DecryptionFailed (decrypt L (rmap r) chunks)))"

section \<open>The driver\<close>

text \<open>
  \<^verbatim>\<open>getChunk\<close> is the network: the \<open>n\<close>-th request may be answered differently from the others, so
  the answer depends on the number of the request too. \<open>None\<close> is \<^verbatim>\<open>null\<close> (nothing stored), an
  error is a transport failure.
\<close>

type_synonym 'te network = "nat \<Rightarrow> xorname \<Rightarrow> (byte list option, 'te) outcome"

datatype ('se, 'rmp, 'te) retrieve_error =
    Transport 'te
  | NoDataStored
  | ChunkMissing xorname
  | ClientError "('se, 'rmp) client_error"
  | Stalled
  | Unresolved nat

definition MAX_ROUNDS :: nat where
  "MAX_ROUNDS = 16"

definition split_addresses :: "byte list \<Rightarrow> xorname list" where
  "split_addresses flat = chunks ADDRESS_LEN flat"

fun fetch_all ::
  "('map, 'info, 'chunk, 'se, 'rmp) client_libs \<Rightarrow> 'te network \<Rightarrow> xorname list \<Rightarrow> nat
     \<Rightarrow> ('map, 'chunk) retrieval
     \<Rightarrow> (nat \<times> ('map, 'chunk) retrieval, ('se, 'rmp, 'te) retrieve_error) outcome" where
  "fetch_all L get [] n r = Ok (n, r)"
| "fetch_all L get (addr # addrs) n r =
     obind (map_err Transport (get n addr)) (\<lambda>answer.
       case answer of
         None \<Rightarrow> Err (ChunkMissing addr)
       | Some bytes \<Rightarrow> obind (map_err ClientError (retrieval_supply L addr bytes r)) (\<lambda>r'.
           fetch_all L get addrs (Suc n) r'))"

fun retrieve_rounds ::
  "('map, 'info, 'chunk, 'se, 'rmp) client_libs \<Rightarrow> 'te network \<Rightarrow> nat \<Rightarrow> nat
     \<Rightarrow> ('map, 'chunk) retrieval \<Rightarrow> (byte list, ('se, 'rmp, 'te) retrieve_error) outcome" where
  "retrieve_rounds L get 0 n r =
     (if is_complete L r then map_err ClientError (retrieval_finish L r)
      else Err (Unresolved MAX_ROUNDS))"
| "retrieve_rounds L get (Suc k) n r =
     (if is_complete L r then map_err ClientError (retrieval_finish L r)
      else obind (fetch_all L get (split_addresses (required_addresses L r)) n r) (\<lambda>(n', r').
           obind (map_err ClientError (retrieval_advance L r')) (\<lambda>r''.
             if \<not> is_complete L r'' \<and> required_addresses L r'' = [] then Err Stalled
             else retrieve_rounds L get k n' r'')))"

definition retrieve ::
  "('map, 'info, 'chunk, 'se, 'rmp) client_libs \<Rightarrow> 'te network \<Rightarrow> xorname
     \<Rightarrow> (byte list, ('se, 'rmp, 'te) retrieve_error) outcome" where
  "retrieve L get address =
     obind (map_err Transport (get 0 address)) (\<lambda>answer.
       case answer of
         None \<Rightarrow> Err NoDataStored
       | Some bytes \<Rightarrow> obind (map_err ClientError (retrieval_begin L address bytes)) (\<lambda>r.
           retrieve_rounds L get MAX_ROUNDS 1 r))"

section \<open>What is relied on of the libraries\<close>

text \<open>
  \<open>h\<close> is BLAKE3. \<^verbatim>\<open>verify_chunk\<close> accepts bytes under an address only if they hash to it and then
  returns the chunk that holds these bytes (\<open>verify_sound\<close>); it does accept such bytes
  (\<open>verify_total\<close>). A \<^verbatim>\<open>XorName\<close> is an array of 32 bytes (\<open>xorname_width\<close>).
\<close>

definition verify_sound ::
  "(byte list \<Rightarrow> xorname) \<Rightarrow> ('map, 'info, 'chunk, 'se, 'rmp) client_libs \<Rightarrow> bool" where
  "verify_sound h L \<longleftrightarrow>
     (\<forall>a bs c. verify_chunk L a bs = Ok c \<longrightarrow> h bs = a \<and> content L c = bs)"

definition verify_total ::
  "(byte list \<Rightarrow> xorname) \<Rightarrow> ('map, 'info, 'chunk, 'se, 'rmp) client_libs \<Rightarrow> bool" where
  "verify_total h L \<longleftrightarrow> (\<forall>bs. \<exists>c. verify_chunk L (h bs) bs = Ok c)"

definition xorname_width :: "('map, 'info, 'chunk, 'se, 'rmp) client_libs \<Rightarrow> bool" where
  "xorname_width L \<longleftrightarrow> (\<forall>i. length (dst_hash L i) = ADDRESS_LEN)"

section \<open>The addresses still needed\<close>

definition missing ::
  "('map, 'info, 'chunk, 'se, 'rmp) client_libs \<Rightarrow> ('map, 'chunk) retrieval \<Rightarrow> xorname list" where
  "missing L r = filter (\<lambda>a. cache r a = None) (map (dst_hash L) (infos L (rmap r)))"

lemma required_addresses_concat: "required_addresses L r = concat (missing L r)"
proof -
  have "concat (map (\<lambda>i. if cache r (f i) = None then f i else []) xs)
      = concat (filter (\<lambda>a. cache r a = None) (map f xs))" for f and xs :: "'b list"
    by (induction xs) auto
  then show ?thesis by (simp add: required_addresses_def missing_def)
qed

lemma missing_width: "xorname_width L \<Longrightarrow> a \<in> set (missing L r) \<Longrightarrow> length a = ADDRESS_LEN"
  by (auto simp: missing_def xorname_width_def)

lemma split_required: "xorname_width L \<Longrightarrow> split_addresses (required_addresses L r) = missing L r"
  unfolding split_addresses_def required_addresses_concat
  by (rule chunks_concat_exact) (auto simp: missing_width, simp add: ADDRESS_LEN_def)

lemma required_Nil: "xorname_width L \<Longrightarrow> required_addresses L r = [] \<longleftrightarrow> missing L r = []"
  by (metis concat.simps(1) required_addresses_concat split_addresses_def split_required chunks_Nil)

lemma missing_Nil_iff:
  "missing L r = [] \<longleftrightarrow> (\<forall>i \<in> set (infos L (rmap r)). cache r (dst_hash L i) \<noteq> None)"
  by (auto simp: missing_def filter_empty_conv)

section \<open>The effect of each operation\<close>

lemma begin_Ok:
  assumes "retrieval_begin L address bytes = Ok r"
  shows "length address = ADDRESS_LEN" and "\<exists>c. verify_chunk L address bytes = Ok c"
    and "from_slice L bytes = Ok (rmap r)" and "root_resolved r = (\<not> is_child L (rmap r))"
    and "cache r = Map.empty"
  using assms
  by (auto simp: retrieval_begin_def obind_eq_Ok parse_address_def split: if_splits)

lemma supply_Ok_iff:
  "retrieval_supply L address bytes r = Ok r' \<longleftrightarrow>
     length address = ADDRESS_LEN
     \<and> (\<exists>c. verify_chunk L address bytes = Ok c \<and> r' = r\<lparr>cache := (cache r)(address \<mapsto> c)\<rparr>)"
  by (auto simp: retrieval_supply_def obind_eq_Ok parse_address_def split: if_splits)

lemma missing_supply:
  "retrieval_supply L address bytes r = Ok r' \<Longrightarrow>
     missing L r' = filter (\<lambda>a. a \<noteq> address) (missing L r)"
  by (auto simp: supply_Ok_iff missing_def intro: filter_cong)

lemma supply_frame:
  "retrieval_supply L address bytes r = Ok r' \<Longrightarrow>
     rmap r' = rmap r \<and> root_resolved r' = root_resolved r"
  by (auto simp: supply_Ok_iff)

lemma advance_Ok_cache: "retrieval_advance L r = Ok r' \<Longrightarrow> cache r' = cache r"
  by (auto simp: retrieval_advance_def obind_eq_Ok split: if_splits)

lemma collect_chunks_present:
  assumes "\<forall>a \<in> set as. ca a \<noteq> None"
  shows "collect_chunks ca as = Ok (map (\<lambda>a. the (ca a)) as)"
  using assms by (induction as) auto

lemma finish_complete:
  assumes "xorname_width L" and "is_complete L r"
  shows "retrieval_finish L r = map_err DecryptionFailed
     (decrypt L (rmap r) (map (\<lambda>i. the (cache r (dst_hash L i))) (infos L (rmap r))))"
proof -
  from assms have "missing L r = []"
    by (simp add: is_complete_def required_Nil)
  then have "\<forall>a \<in> set (map (dst_hash L) (infos L (rmap r))). cache r a \<noteq> None"
    by (auto simp: missing_Nil_iff)
  with assms(2) show ?thesis
    by (simp add: retrieval_finish_def collect_chunks_present o_def)
qed

section \<open>The trust boundary as an invariant\<close>

text \<open>The states a caller can reach: a successful start, then supplies and advances in any order.\<close>

inductive retrieval_reachable ::
  "('map, 'info, 'chunk, 'se, 'rmp) client_libs \<Rightarrow> ('map, 'chunk) retrieval \<Rightarrow> bool"
  for L where
  started: "retrieval_begin L address bytes = Ok r \<Longrightarrow> retrieval_reachable L r"
| supplied: "retrieval_reachable L r \<Longrightarrow> retrieval_supply L address bytes r = Ok r' \<Longrightarrow>
     retrieval_reachable L r'"
| advanced: "retrieval_reachable L r \<Longrightarrow> retrieval_advance L r = Ok r' \<Longrightarrow>
     retrieval_reachable L r'"

definition cache_verified ::
  "(byte list \<Rightarrow> xorname) \<Rightarrow> ('map, 'info, 'chunk, 'se, 'rmp) client_libs
     \<Rightarrow> ('map, 'chunk) retrieval \<Rightarrow> bool" where
  "cache_verified h L r \<longleftrightarrow>
     (\<forall>a c. cache r a = Some c \<longrightarrow> length a = ADDRESS_LEN \<and> h (content L c) = a)"

lemma reachable_cache_verified:
  assumes "verify_sound h L" and "retrieval_reachable L r"
  shows "cache_verified h L r"
  using assms(2)
proof (induction rule: retrieval_reachable.induct)
  case (started address bytes r)
  then show ?case by (simp add: cache_verified_def begin_Ok(5))
next
  case (supplied r address bytes r')
  then show ?case
    using assms(1) by (auto simp: cache_verified_def supply_Ok_iff verify_sound_def split: if_splits)
next
  case (advanced r r')
  then show ?case by (simp add: cache_verified_def advance_Ok_cache)
qed

text \<open>
  C5. The trust boundary: whatever a caller supplies and in whatever order, every chunk the client
  holds hashes to the address it is held under, the chunks it decrypts are exactly the ones its map
  names, in the map's order, and it decrypts nothing before all of them are there.
\<close>

theorem finish_only_verified:
  assumes "verify_sound h L" and "xorname_width L" and "retrieval_reachable L r"
    and "retrieval_finish L r = Ok plaintext"
  shows "is_complete L r
    \<and> (\<exists>chunks. decrypt L (rmap r) chunks = Ok plaintext
        \<and> map (\<lambda>c. h (content L c)) chunks = map (dst_hash L) (infos L (rmap r)))"
proof -
  let ?chunks = "map (\<lambda>i. the (cache r (dst_hash L i))) (infos L (rmap r))"
  from assms(4) have complete: "is_complete L r"
    by (auto simp: retrieval_finish_def split: if_splits)
  with assms(2,4) have "decrypt L (rmap r) ?chunks = Ok plaintext"
    by (simp add: finish_complete)
  moreover have "h (content L (the (cache r (dst_hash L i)))) = dst_hash L i"
    if "i \<in> set (infos L (rmap r))" for i
    using that complete assms(2) reachable_cache_verified [OF assms(1,3)]
    by (auto simp: is_complete_def required_Nil missing_Nil_iff cache_verified_def)
  then have "map (\<lambda>c. h (content L c)) ?chunks = map (dst_hash L) (infos L (rmap r))"
    by simp
  ultimately show ?thesis using complete by blast
qed

section \<open>Two networks cannot disagree\<close>

lemma supply_unique:
  assumes "verify_sound h L"
    and "retrieval_supply L a x r = Ok r1" and "retrieval_supply L a y r = Ok r2"
    and "h x = h y \<Longrightarrow> x = y"
  shows "r1 = r2"
  using assms by (auto simp: supply_Ok_iff verify_sound_def)

text \<open>The answers of two networks, taken together, contain no hash collision.\<close>

definition no_collision :: "(byte list \<Rightarrow> xorname) \<Rightarrow> 'te network \<Rightarrow> 'te network \<Rightarrow> bool" where
  "no_collision h get1 get2 \<longleftrightarrow>
     (\<forall>n m a b x y. get1 n a = Ok (Some x) \<longrightarrow> get2 m b = Ok (Some y) \<longrightarrow> h x = h y \<longrightarrow> x = y)"

lemma fetch_all_unique:
  assumes "verify_sound h L" and "no_collision h get1 get2"
    and "fetch_all L get1 addrs n r = Ok (n1, r1)" and "fetch_all L get2 addrs n r = Ok (n2, r2)"
  shows "n1 = n2 \<and> r1 = r2"
  using assms(3,4)
proof (induction addrs arbitrary: n r)
  case Nil
  then show ?case by simp
next
  case (Cons a addrs)
  from Cons.prems obtain x y r1' r2'
    where x: "get1 n a = Ok (Some x)" "retrieval_supply L a x r = Ok r1'"
        "fetch_all L get1 addrs (Suc n) r1' = Ok (n1, r1)"
      and y: "get2 n a = Ok (Some y)" "retrieval_supply L a y r = Ok r2'"
        "fetch_all L get2 addrs (Suc n) r2' = Ok (n2, r2)"
    by (auto simp: obind_eq_Ok split: option.splits)
  from x(1) y(1) assms(2) have "h x = h y \<Longrightarrow> x = y"
    unfolding no_collision_def by blast
  with assms(1) x(2) y(2) have "r1' = r2'" by (rule supply_unique)
  with x(3) y(3) show ?case using Cons.IH by blast
qed

lemma rounds_unique:
  assumes "verify_sound h L" and "no_collision h get1 get2"
    and "retrieve_rounds L get1 k n r = Ok p1" and "retrieve_rounds L get2 k n r = Ok p2"
  shows "p1 = p2"
  using assms(3,4)
proof (induction k arbitrary: n r)
  case 0
  then show ?case by (auto split: if_splits)
next
  case (Suc k)
  show ?case
  proof (cases "is_complete L r")
    case True
    with Suc.prems show ?thesis by simp
  next
    case False
    let ?addrs = "split_addresses (required_addresses L r)"
    from False Suc.prems obtain n1 r1 r1' n2 r2 r2'
      where "fetch_all L get1 ?addrs n r = Ok (n1, r1)" "retrieval_advance L r1 = Ok r1'"
          "retrieve_rounds L get1 k n1 r1' = Ok p1"
        and "fetch_all L get2 ?addrs n r = Ok (n2, r2)" "retrieval_advance L r2 = Ok r2'"
          "retrieve_rounds L get2 k n2 r2' = Ok p2"
      by (auto simp: obind_eq_Ok split: if_splits)
    moreover from this fetch_all_unique [OF assms(1,2)] have "n1 = n2 \<and> r1 = r2"
      by blast
    ultimately show ?thesis using Suc.IH by (metis outcome.inject(1))
  qed
qed

text \<open>
  C2. A network can withhold but not forge: if retrieving one address succeeds over two networks, with
  arbitrary and changing answers, the plaintexts are the same, unless the two networks exhibit a
  collision of the hash.
\<close>

theorem retrieve_unforgeable:
  assumes "verify_sound h L" and "no_collision h get1 get2"
    and "retrieve L get1 address = Ok p1" and "retrieve L get2 address = Ok p2"
  shows "p1 = p2"
proof -
  from assms(3,4) obtain x y r1 r2
    where x: "get1 0 address = Ok (Some x)" "retrieval_begin L address x = Ok r1"
        "retrieve_rounds L get1 MAX_ROUNDS 1 r1 = Ok p1"
      and y: "get2 0 address = Ok (Some y)" "retrieval_begin L address y = Ok r2"
        "retrieve_rounds L get2 MAX_ROUNDS 1 r2 = Ok p2"
    by (auto simp: retrieve_def obind_eq_Ok split: option.splits)
  from begin_Ok(2) [OF x(2)] begin_Ok(2) [OF y(2)] assms(1) have "h x = h y"
    by (auto simp: verify_sound_def)
  with assms(2) x(1) y(1) have "x = y"
    unfolding no_collision_def by blast
  with x(2) y(2) have "r1 = r2" by simp
  with x(3) y(3) show ?thesis
    using rounds_unique [OF assms(1,2)] by blast
qed

section \<open>An honest network is enough\<close>

lemma fetch_all_honest:
  assumes "verify_total h L"
    and "\<And>n a. a \<in> set addrs \<Longrightarrow> \<exists>bs. get n a = Ok (Some bs) \<and> h bs = a"
    and "\<And>a. a \<in> set addrs \<Longrightarrow> length a = ADDRESS_LEN"
  shows "\<exists>n' r'. fetch_all L get addrs n r = Ok (n', r')
    \<and> rmap r' = rmap r \<and> root_resolved r' = root_resolved r
    \<and> missing L r' = filter (\<lambda>a. a \<notin> set addrs) (missing L r)"
  using assms(2,3)
proof (induction addrs arbitrary: n r)
  case Nil
  then show ?case by simp
next
  case (Cons a addrs)
  from Cons.prems(1) [of a n] obtain bs where bs: "get n a = Ok (Some bs)" "h bs = a"
    by auto
  with assms(1) obtain c where "verify_chunk L a bs = Ok c"
    unfolding verify_total_def by blast
  with Cons.prems(2) [of a] obtain r1 where r1: "retrieval_supply L a bs r = Ok r1"
    by (simp add: supply_Ok_iff)
  from Cons.IH [of "Suc n" r1] Cons.prems obtain n' r'
    where "fetch_all L get addrs (Suc n) r1 = Ok (n', r')" "rmap r' = rmap r1"
      "root_resolved r' = root_resolved r1"
      "missing L r' = filter (\<lambda>a. a \<notin> set addrs) (missing L r1)"
    by auto
  with bs(1) r1 supply_frame [OF r1] missing_supply [OF r1] show ?case
    by (auto simp: conj_commute intro!: filter_cong)
qed

text \<open>
  What a publisher stored: every address of \<open>needs\<close> is answered, at any time, by bytes that hash to it.
\<close>

definition serves :: "(byte list \<Rightarrow> xorname) \<Rightarrow> 'te network \<Rightarrow> xorname list \<Rightarrow> bool" where
  "serves h get needs \<longleftrightarrow> (\<forall>n. \<forall>a \<in> set needs. \<exists>bs. get n a = Ok (Some bs) \<and> h bs = a)"

lemma fetch_missing:
  assumes "verify_total h L" and "xorname_width L"
    and "serves h get (map (dst_hash L) (infos L (rmap r)))"
  shows "\<exists>n' r'. fetch_all L get (split_addresses (required_addresses L r)) n r = Ok (n', r')
    \<and> rmap r' = rmap r \<and> root_resolved r' = root_resolved r \<and> missing L r' = []"
proof -
  have sub: "set (missing L r) \<subseteq> set (map (dst_hash L) (infos L (rmap r)))"
    by (auto simp: missing_def)
  have "\<exists>bs. get n a = Ok (Some bs) \<and> h bs = a" if "a \<in> set (missing L r)" for n a
    using that sub assms(3) unfolding serves_def by blast
  from fetch_all_honest [OF assms(1) this missing_width [OF assms(2)]]
  show ?thesis
    unfolding split_required [OF assms(2)] by fastforce
qed

text \<open>A store that never changes, and a cache that holds nothing but its contents.\<close>

definition answers_from :: "(xorname \<rightharpoonup> byte list) \<Rightarrow> 'te network \<Rightarrow> bool" where
  "answers_from S get \<longleftrightarrow> (\<forall>n a. length a = ADDRESS_LEN \<longrightarrow> get n a = Ok (S a))"

definition stores :: "(byte list \<Rightarrow> xorname) \<Rightarrow> (xorname \<rightharpoonup> byte list) \<Rightarrow> xorname list \<Rightarrow> bool" where
  "stores h S needs \<longleftrightarrow> (\<forall>a \<in> set needs. \<exists>bs. S a = Some bs \<and> h bs = a)"

lemma stores_serves:
  "xorname_width L \<Longrightarrow> answers_from S get \<Longrightarrow> stores h S (map (dst_hash L) is) \<Longrightarrow>
     serves h get (map (dst_hash L) is)"
  by (auto simp: stores_def serves_def answers_from_def xorname_width_def)

definition cached_from ::
  "(xorname \<rightharpoonup> byte list) \<Rightarrow> ('map, 'info, 'chunk, 'se, 'rmp) client_libs
     \<Rightarrow> ('map, 'chunk) retrieval \<Rightarrow> bool" where
  "cached_from S L r \<longleftrightarrow> (\<forall>a c. cache r a = Some c \<longrightarrow> S a = Some (content L c))"

lemma fetch_all_cached_from:
  assumes "verify_sound h L" and "answers_from S get" and "cached_from S L r"
    and "fetch_all L get addrs n r = Ok (n', r')"
  shows "cached_from S L r'"
  using assms(3,4)
proof (induction addrs arbitrary: n r)
  case Nil
  then show ?case by simp
next
  case (Cons a addrs)
  from Cons.prems(2) assms(2) obtain bs r1 where "S a = Some bs" "retrieval_supply L a bs r = Ok r1"
    "fetch_all L get addrs (Suc n) r1 = Ok (n', r')"
    by (auto simp: obind_eq_Ok answers_from_def supply_Ok_iff split: option.splits)
  moreover from this(1,2) Cons.prems(1) assms(1) have "cached_from S L r1"
    by (auto simp: cached_from_def supply_Ok_iff verify_sound_def split: if_splits)
  ultimately show ?case using Cons.IH by blast
qed

lemma cached_content:
  assumes "cached_from S L r" and "missing L r = []" and "i \<in> set (infos L (rmap r))"
  shows "\<exists>c. cache r (dst_hash L i) = Some c \<and> S (dst_hash L i) = Some (content L c)"
  using assms by (auto simp: cached_from_def missing_Nil_iff)

text \<open>
  The stored data are decryptable: chunks that hold what the store has under the addresses of the
  root map decrypt to the plaintext; a wrapping map resolves to its root from what the store has under
  its own addresses.
\<close>

definition decrypts_to ::
  "(xorname \<rightharpoonup> byte list) \<Rightarrow> ('map, 'info, 'chunk, 'se, 'rmp) client_libs \<Rightarrow> 'map \<Rightarrow> byte list \<Rightarrow> bool" where
  "decrypts_to S L root plaintext \<longleftrightarrow>
     (\<forall>cs. map (content L) cs = map (\<lambda>i. the (S (dst_hash L i))) (infos L root)
        \<longrightarrow> decrypt L root cs = Ok plaintext)"

definition resolves_to ::
  "(xorname \<rightharpoonup> byte list) \<Rightarrow> ('map, 'info, 'chunk, 'se, 'rmp) client_libs \<Rightarrow> 'map \<Rightarrow> 'map \<Rightarrow> bool" where
  "resolves_to S L m root \<longleftrightarrow>
     (if is_child L m
      then \<forall>fetch. (\<forall>i \<in> set (infos L m). fetch (dst_hash L i) = Ok (the (S (dst_hash L i))))
             \<longrightarrow> get_root_data_map L m fetch = Ok root
      else root = m)"

lemma finish_from_store:
  assumes "xorname_width L" and "is_complete L r" and "cached_from S L r"
    and "decrypts_to S L (rmap r) plaintext"
  shows "retrieval_finish L r = Ok plaintext"
proof -
  let ?cs = "map (\<lambda>i. the (cache r (dst_hash L i))) (infos L (rmap r))"
  from assms(1,2) have "missing L r = []"
    by (simp add: is_complete_def required_Nil)
  with assms(3) have "content L (the (cache r (dst_hash L i))) = the (S (dst_hash L i))"
    if "i \<in> set (infos L (rmap r))" for i
    using cached_content [OF assms(3) _ that] by auto
  then have "map (content L) ?cs = map (\<lambda>i. the (S (dst_hash L i))) (infos L (rmap r))"
    by simp
  with assms(4) have "decrypt L (rmap r) ?cs = Ok plaintext"
    unfolding decrypts_to_def by blast
  with assms(1,2) show ?thesis by (simp add: finish_complete)
qed

lemma rounds_resolved:
  assumes "verify_sound h L" and "verify_total h L" and "xorname_width L"
    and "root_resolved r" and "cached_from S L r"
    and "stores h S (map (dst_hash L) (infos L (rmap r)))"
    and "decrypts_to S L (rmap r) plaintext" and "answers_from S get"
  shows "retrieve_rounds L get (Suc k) n r = Ok plaintext"
proof (cases "is_complete L r")
  case True
  then show ?thesis by (simp add: finish_from_store [OF assms(3) True assms(5,7)])
next
  case False
  obtain n' r' where r': "fetch_all L get (split_addresses (required_addresses L r)) n r
      = Ok (n', r')" "rmap r' = rmap r" "root_resolved r' = root_resolved r" "missing L r' = []"
    using fetch_missing [OF assms(2,3) stores_serves [OF assms(3,8,6)], of n] by blast
  have complete: "is_complete L r'"
    using r' assms(3,4) by (simp add: is_complete_def required_Nil)
  have "cached_from S L r'"
    by (rule fetch_all_cached_from [OF assms(1,8,5) r'(1)])
  with complete r'(2) assms(3,7) have "retrieval_finish L r' = Ok plaintext"
    by (simp add: finish_from_store)
  moreover have "retrieval_advance L r' = Ok r'"
    using r'(3) assms(4) by (simp add: retrieval_advance_def)
  ultimately show ?thesis
    using False r'(1) complete by (cases k) simp_all
qed

lemma rounds_child:
  assumes "verify_sound h L" and "verify_total h L" and "xorname_width L"
    and "\<not> root_resolved r" and "is_child L (rmap r)" and "cached_from S L r"
    and "resolves_to S L (rmap r) root"
    and "stores h S (map (dst_hash L) (infos L (rmap r)))"
    and "stores h S (map (dst_hash L) (infos L root))"
    and "decrypts_to S L root plaintext" and "answers_from S get"
  shows "retrieve_rounds L get (Suc (Suc k)) n r = Ok plaintext"
proof -
  obtain n' r' where r': "fetch_all L get (split_addresses (required_addresses L r)) n r
      = Ok (n', r')" "rmap r' = rmap r" "root_resolved r' = root_resolved r" "missing L r' = []"
    using fetch_missing [OF assms(2,3) stores_serves [OF assms(3,11,8)], of n] by blast
  have from': "cached_from S L r'"
    by (rule fetch_all_cached_from [OF assms(1,11,6) r'(1)])
  have "cache_fetch L (cache r') (dst_hash L i) = Ok (the (S (dst_hash L i)))"
    if "i \<in> set (infos L (rmap r))" for i
    using cached_content [OF from' r'(4), of i] that r'(2) by (auto simp: cache_fetch_def)
  with assms(5,7) r'(2) have "get_root_data_map L (rmap r') (cache_fetch L (cache r')) = Ok root"
    by (simp add: resolves_to_def)
  then have adv: "retrieval_advance L r' = Ok (r'\<lparr>rmap := root, root_resolved := True\<rparr>)"
    using r'(3,4) assms(3,4) by (simp add: retrieval_advance_def required_Nil)
  let ?r = "r'\<lparr>rmap := root, root_resolved := True\<rparr>"
  have "cached_from S L ?r"
    using from' by (simp add: cached_from_def)
  then have "retrieve_rounds L get (Suc k) n' ?r = Ok plaintext"
    using assms by (intro rounds_resolved) simp_all
  moreover have "\<not> is_complete L r"
    using assms(4) by (simp add: is_complete_def)
  moreover have "is_complete L ?r \<or> required_addresses L ?r \<noteq> []"
    by (simp add: is_complete_def)
  ultimately show ?thesis
    using r'(1) adv by simp
qed

lemma retrieve_served:
  assumes "verify_sound h L" and "verify_total h L" and "xorname_width L"
    and "length (h bytes) = ADDRESS_LEN" and "S (h bytes) = Some bytes"
    and "from_slice L bytes = Ok m" and "resolves_to S L m root"
    and "stores h S (map (dst_hash L) (infos L m))"
    and "stores h S (map (dst_hash L) (infos L root))"
    and "decrypts_to S L root plaintext" and "answers_from S get"
  shows "retrieve L get (h bytes) = Ok plaintext"
proof -
  let ?r = "\<lparr>rmap = m, root_resolved = (\<not> is_child L m), cache = Map.empty\<rparr>"
  have "retrieval_begin L (h bytes) bytes = Ok ?r"
    using assms(2,4,6) by (auto simp: retrieval_begin_def parse_address_def verify_total_def obind_eq_Ok)
  moreover have "retrieve_rounds L get (Suc (Suc 14)) 1 ?r = Ok plaintext"
  proof (cases "is_child L m")
    case True
    with assms show ?thesis by (intro rounds_child) (simp_all add: cached_from_def)
  next
    case False
    with assms(7) have "root = m" by (simp add: resolves_to_def)
    with False assms show ?thesis by (intro rounds_resolved) (simp_all add: cached_from_def)
  qed
  ultimately show ?thesis
    using assms(4,5,11) by (simp add: retrieve_def answers_from_def MAX_ROUNDS_def eval_nat_numeral)
qed

text \<open>
  C3. Retrieval succeeds on an honest network, for flat and for wrapped data maps: when the address
  holds a data map, every chunk the map and its root name is stored, and the stored chunks decrypt
  to a plaintext, the driver returns that plaintext (within its bound of 16 rounds).
\<close>

theorem retrieve_from_store:
  assumes "verify_sound h L" and "verify_total h L" and "xorname_width L"
    and "length (h bytes) = ADDRESS_LEN" and "S (h bytes) = Some bytes"
    and "from_slice L bytes = Ok m" and "resolves_to S L m root"
    and "stores h S (map (dst_hash L) (infos L m))"
    and "stores h S (map (dst_hash L) (infos L root))"
    and "decrypts_to S L root plaintext" and "answers_from S get"
  shows "retrieve L get (h bytes) = Ok plaintext"
  using assms by (rule retrieve_served)

section \<open>A concrete instance of the libraries\<close>

text \<open>
  An instance on which the hypotheses above hold: the "hash" is the first 32 bytes, a data map is a
  flag byte (1 for a wrapping map) and the addresses, decryption is concatenation.
\<close>

definition demo_hash :: "byte list \<Rightarrow> xorname" where
  "demo_hash bs = take 32 (bs @ replicate 32 0)"

fun demo_from_slice :: "byte list \<Rightarrow> (bool \<times> xorname list, nat) outcome" where
  "demo_from_slice [] = Err 1"
| "demo_from_slice (b # bs) = Ok (b = 1, chunks 32 bs)"

fun demo_root :: "bool \<times> xorname list \<Rightarrow> (xorname \<Rightarrow> (byte list, nat) outcome)
    \<Rightarrow> (bool \<times> xorname list, nat) outcome" where
  "demo_root (child, []) fetch = Err 2"
| "demo_root (child, a # as) fetch = obind (fetch a) demo_from_slice"

definition demo_libs :: "(bool \<times> xorname list, xorname, byte list, nat, nat) client_libs" where
  "demo_libs = \<lparr>
     verify_chunk = (\<lambda>a bs. if demo_hash bs = a then Ok bs else Err 3),
     from_slice = demo_from_slice, is_child = fst, infos = snd,
     dst_hash = (\<lambda>a. take 32 (a @ replicate 32 0)), content = (\<lambda>c. c),
     get_root_data_map = demo_root, decrypt = (\<lambda>_ cs. Ok (concat cs)),
     generic_error = length\<rparr>"

definition demo_chunk1 :: "byte list" where "demo_chunk1 = [104, 101, 108]"
definition demo_chunk2 :: "byte list" where "demo_chunk2 = [108, 111]"
definition demo_root_map :: "byte list" where
  "demo_root_map = 0 # demo_hash demo_chunk1 @ demo_hash demo_chunk2"
definition demo_wrapper :: "byte list" where "demo_wrapper = 1 # demo_hash demo_root_map"

fun demo_lookup :: "byte list list \<Rightarrow> xorname \<Rightarrow> byte list option" where
  "demo_lookup [] a = None"
| "demo_lookup (bs # bss) a = (if demo_hash bs = a then Some bs else demo_lookup bss a)"

definition demo_store :: "xorname \<Rightarrow> byte list option" where
  "demo_store = demo_lookup [demo_chunk1, demo_chunk2, demo_root_map, demo_wrapper]"

definition demo_network :: "nat network" where
  "demo_network n a = Ok (demo_store a)"

definition demo_withholding :: "nat network" where
  "demo_withholding n a = (if n < 5 then Ok (demo_store a) else Err 7)"

lemma demo_sound: "verify_sound demo_hash demo_libs"
  by (auto simp: verify_sound_def demo_libs_def split: if_splits)

lemma demo_total: "verify_total demo_hash demo_libs"
  by (simp add: verify_total_def demo_libs_def)

lemma demo_width: "xorname_width demo_libs"
  by (auto simp: xorname_width_def demo_libs_def ADDRESS_LEN_def)

lemma demo_answers: "answers_from demo_store demo_network"
  by (simp add: answers_from_def demo_network_def)

lemma demo_lookup_hash: "demo_lookup bss a = Some x \<Longrightarrow> demo_hash x = a \<and> x \<in> set bss"
  by (induction bss) (auto split: if_splits)

lemma demo_lookup_inj:
  assumes "distinct (map demo_hash bss)" and "demo_lookup bss a = Some x" and "demo_lookup bss b = Some y"
    and "demo_hash x = demo_hash y"
  shows "x = y"
  using assms demo_lookup_hash [OF assms(2)] demo_lookup_hash [OF assms(3)]
  by (auto simp: distinct_map inj_on_def)

lemma demo_no_collision: "no_collision demo_hash demo_network demo_withholding"
proof -
  have "distinct (map demo_hash [demo_chunk1, demo_chunk2, demo_root_map, demo_wrapper])"
    by code_simp
  from demo_lookup_inj [OF this] have "x = y"
    if "demo_store a = Some x" "demo_store b = Some y" "demo_hash x = demo_hash y" for a b x y
    using that unfolding demo_store_def by blast
  then show ?thesis
    by (auto simp: no_collision_def demo_network_def demo_withholding_def split: if_splits)
qed

lemma demo_resolves: "resolves_to demo_store demo_libs
    (True, [demo_hash demo_root_map]) (False, [demo_hash demo_chunk1, demo_hash demo_chunk2])"
proof -
  have 1: "the (demo_store (demo_hash demo_root_map)) = demo_root_map"
    by code_simp
  have 2: "demo_from_slice demo_root_map = Ok (False, [demo_hash demo_chunk1, demo_hash demo_chunk2])"
    by code_simp
  have 3: "dst_hash demo_libs (demo_hash demo_root_map) = demo_hash demo_root_map"
    by code_simp
  show ?thesis
    unfolding resolves_to_def using 1 2 3 by (simp add: demo_libs_def)
qed

lemma demo_decrypts: "decrypts_to demo_store demo_libs
    (False, [demo_hash demo_chunk1, demo_hash demo_chunk2]) [104, 101, 108, 108, 111]"
proof -
  have 1: "map (\<lambda>i. the (demo_store (dst_hash demo_libs i))) [demo_hash demo_chunk1, demo_hash demo_chunk2]
      = [demo_chunk1, demo_chunk2]"
    by code_simp
  have 2: "concat [demo_chunk1, demo_chunk2] = [104, 101, 108, 108, 111]"
    by code_simp
  have 3: "content demo_libs = (\<lambda>c. c)" "infos demo_libs = snd"
      "decrypt demo_libs = (\<lambda>_ cs. Ok (concat cs))"
    by (simp_all add: demo_libs_def)
  show ?thesis
    unfolding decrypts_to_def using 1 2 by (simp add: 3)
qed

lemmas demo_facts = demo_sound demo_total demo_width

section \<open>Witnesses\<close>

theorem retrieve_unforgeable_witness:
  "retrieve demo_libs demo_network (demo_hash demo_wrapper) = Ok [104, 101, 108, 108, 111]
   \<and> retrieve demo_libs demo_withholding (demo_hash demo_wrapper) = Ok [104, 101, 108, 108, 111]"
proof -
  have 1: "retrieve demo_libs demo_network (demo_hash demo_wrapper) = Ok [104, 101, 108, 108, 111]"
    by code_simp
  have 2: "is_ok (retrieve demo_libs demo_withholding (demo_hash demo_wrapper))"
    by code_simp
  then obtain p where "retrieve demo_libs demo_withholding (demo_hash demo_wrapper) = Ok p"
    by (auto simp: is_ok_iff)
  with 1 retrieve_unforgeable [OF demo_sound demo_no_collision 1] show ?thesis by auto
qed

theorem retrieve_from_store_witness:
  "retrieve demo_libs demo_network (demo_hash demo_wrapper) = Ok [104, 101, 108, 108, 111]"
proof (rule retrieve_from_store [OF demo_facts])
  show "length (demo_hash demo_wrapper) = ADDRESS_LEN"
    "demo_store (demo_hash demo_wrapper) = Some demo_wrapper"
    "from_slice demo_libs demo_wrapper = Ok (True, [demo_hash demo_root_map])"
    by code_simp+
  show "stores demo_hash demo_store (map (dst_hash demo_libs) (infos demo_libs (True, [demo_hash demo_root_map])))"
  proof -
    have "map (dst_hash demo_libs) (infos demo_libs (True, [demo_hash demo_root_map])) = [demo_hash demo_root_map]"
      "demo_store (demo_hash demo_root_map) = Some demo_root_map"
      by code_simp+
    then show ?thesis by (simp add: stores_def)
  qed
  show "stores demo_hash demo_store
    (map (dst_hash demo_libs) (infos demo_libs (False, [demo_hash demo_chunk1, demo_hash demo_chunk2])))"
  proof -
    have "map (dst_hash demo_libs) (infos demo_libs (False, [demo_hash demo_chunk1, demo_hash demo_chunk2]))
        = [demo_hash demo_chunk1, demo_hash demo_chunk2]"
      "demo_store (demo_hash demo_chunk1) = Some demo_chunk1"
      "demo_store (demo_hash demo_chunk2) = Some demo_chunk2"
      by code_simp+
    then show ?thesis by (simp add: stores_def)
  qed
qed (rule demo_resolves demo_decrypts demo_answers)+

definition demo_state :: "(bool \<times> xorname list, byte list) retrieval" where
  "demo_state = \<lparr>rmap = (False, [demo_hash demo_chunk1]), root_resolved = True,
     cache = Map.empty(demo_hash demo_chunk1 \<mapsto> demo_chunk1)\<rparr>"

definition demo_flat_map :: "byte list" where "demo_flat_map = 0 # demo_hash demo_chunk1"

definition demo_begun :: "(bool \<times> xorname list, byte list) retrieval" where
  "demo_begun = \<lparr>rmap = (False, [demo_hash demo_chunk1]), root_resolved = True, cache = Map.empty\<rparr>"

lemma demo_steps:
  "retrieval_begin demo_libs (demo_hash demo_flat_map) demo_flat_map = Ok demo_begun"
  "retrieval_supply demo_libs (demo_hash demo_chunk1) demo_chunk1 demo_begun = Ok demo_state"
proof -
  have 1: "length (demo_hash demo_flat_map) = ADDRESS_LEN"
    "demo_from_slice demo_flat_map = Ok (False, [demo_hash demo_chunk1])"
    "length (demo_hash demo_chunk1) = ADDRESS_LEN"
    by code_simp+
  then show "retrieval_begin demo_libs (demo_hash demo_flat_map) demo_flat_map = Ok demo_begun"
    by (simp add: retrieval_begin_def parse_address_def demo_libs_def demo_begun_def)
  show "retrieval_supply demo_libs (demo_hash demo_chunk1) demo_chunk1 demo_begun = Ok demo_state"
    using 1 by (simp add: supply_Ok_iff demo_libs_def demo_state_def demo_begun_def)
qed

lemma demo_reachable: "retrieval_reachable demo_libs demo_state"
  by (rule supplied [OF started [OF demo_steps(1)] demo_steps(2)])

theorem finish_only_verified_witness:
  "is_complete demo_libs demo_state
    \<and> (\<exists>chunks. decrypt demo_libs (rmap demo_state) chunks = Ok demo_chunk1
        \<and> map (\<lambda>c. demo_hash (content demo_libs c)) chunks
          = map (dst_hash demo_libs) (infos demo_libs (rmap demo_state)))"
  by (rule finish_only_verified [OF demo_sound demo_width demo_reachable]) code_simp

end
