(* ===== verification/Proxy_Protocol.thy ===== *)
theory Proxy_Protocol
  imports Client_Address
begin

text \<open>
  The one RPC of the system (\<^verbatim>\<open>crates/proxy/src/protocol.rs\<close>) and the half of it the browser speaks
  (\<^verbatim>\<open>getChunk\<close> in \<^verbatim>\<open>web/src/fetch-client.js\<close>). A stream is a record of what will still arrive, of
  what has been sent, and of where the transport fails; every operation threads it, and keeps it
  when it fails. The theory shows that requests and responses survive any fragmentation, that a
  response is sent in flushed pieces no larger than a transport message, and that a failing
  transport can only cut a response short.
\<close>

section \<open>Streams\<close>

text \<open>
  \<open>inbound\<close> holds the deliveries not read yet and \<open>inbound_end\<close> how the inbound side ends (\<open>None\<close>: the
  peer closes). \<open>fault k\<close> tells whether the \<open>k\<close>-th operation of the outbound side fails, and how many
  bytes of a write the transport still accepts then.
\<close>

datatype io_error = UnexpectedEof | InvalidData string | TransportFailed nat

datatype out_event = Write "byte list" | Flush | Close

record stream =
  inbound :: "byte list list"
  inbound_end :: "io_error option"
  outbound :: "out_event list"
  outbound_ops :: nat
  fault :: "nat \<Rightarrow> (nat \<times> io_error) option"

type_synonym 'a io = "stream \<Rightarrow> ('a, io_error) outcome \<times> stream"

definition io_return :: "'a \<Rightarrow> 'a io" where
  "io_return a s = (Ok a, s)"

definition io_fail :: "io_error \<Rightarrow> 'a io" where
  "io_fail e s = (Err e, s)"

definition io_bind :: "'a io \<Rightarrow> ('a \<Rightarrow> 'b io) \<Rightarrow> 'b io" where
  "io_bind m f s = (case m s of
       (Ok a, s') \<Rightarrow> f a s'
     | (Err e, s') \<Rightarrow> (Err e, s')
     | (Panic, s') \<Rightarrow> (Panic, s'))"

text \<open>\<^verbatim>\<open>AsyncReadExt::read\<close>: at most \<open>cap\<close> bytes of the next delivery; no bytes means end of file.\<close>

fun stream_read :: "nat \<Rightarrow> byte list io" where
  "stream_read cap s =
     (case inbound s of
        [] \<Rightarrow> (case inbound_end s of None \<Rightarrow> (Ok [], s) | Some e \<Rightarrow> (Err e, s))
      | d # ds \<Rightarrow> (Ok (take cap d),
          s\<lparr>inbound := (if length d \<le> cap then ds else drop cap d # ds)\<rparr>))"

text \<open>\<^verbatim>\<open>AsyncReadExt::read_exact\<close>: reads until the buffer is full.\<close>

function stream_read_exact :: "nat \<Rightarrow> byte list io" where
  "stream_read_exact n s =
     (if n = 0 then (Ok [], s)
      else case stream_read n s of
          (Ok bs, s') \<Rightarrow>
            (if bs = [] then (Err UnexpectedEof, s')
             else case stream_read_exact (n - length bs) s' of
                 (Ok tail, s'') \<Rightarrow> (Ok (bs @ tail), s'')
               | (Err e, s'') \<Rightarrow> (Err e, s'')
               | (Panic, s'') \<Rightarrow> (Panic, s''))
        | (Err e, s') \<Rightarrow> (Err e, s')
        | (Panic, s') \<Rightarrow> (Panic, s'))"
  by pat_completeness auto
termination
  by (relation "measure (\<lambda>(n, s). n)") auto

declare stream_read_exact.simps [simp del]

definition stream_write_all :: "byte list \<Rightarrow> unit io" where
  "stream_write_all bs s =
     (case fault s (outbound_ops s) of
        None \<Rightarrow> (Ok (), s\<lparr>outbound := outbound s @ [Write bs], outbound_ops := Suc (outbound_ops s)\<rparr>)
      | Some (m, e) \<Rightarrow> (Err e, s\<lparr>outbound := outbound s @ [Write (take m bs)],
          outbound_ops := Suc (outbound_ops s)\<rparr>))"

definition stream_signal :: "out_event \<Rightarrow> unit io" where
  "stream_signal ev s =
     (case fault s (outbound_ops s) of
        None \<Rightarrow> (Ok (), s\<lparr>outbound := outbound s @ [ev], outbound_ops := Suc (outbound_ops s)\<rparr>)
      | Some (_, e) \<Rightarrow> (Err e, s\<lparr>outbound_ops := Suc (outbound_ops s)\<rparr>))"

abbreviation stream_flush :: "unit io" where
  "stream_flush \<equiv> stream_signal Flush"

abbreviation stream_close :: "unit io" where
  "stream_close \<equiv> stream_signal Close"

section \<open>protocol.rs\<close>

definition STATUS_OK :: byte where "STATUS_OK = 0"
definition STATUS_NOT_FOUND :: byte where "STATUS_NOT_FOUND = 1"
definition STATUS_REFUSED :: byte where "STATUS_REFUSED = 2"

definition MAX_MESSAGE_PAYLOAD :: nat where
  "MAX_MESSAGE_PAYLOAD = 16 * 1024 - 64"

definition MAX_RESPONSE_LEN :: u32 where
  "MAX_RESPONSE_LEN = 8 * 1024 * 1024"

definition read_request :: "xorname io" where
  "read_request = stream_read_exact ADDRESS_LEN"

fun write_pieces :: "byte list list \<Rightarrow> unit io" where
  "write_pieces [] = io_return ()"
| "write_pieces (piece # pieces) =
     io_bind (stream_write_all piece) (\<lambda>_. io_bind stream_flush (\<lambda>_. write_pieces pieces))"

definition write_found :: "byte list \<Rightarrow> unit io" where
  "write_found data =
     (if 2 ^ 32 \<le> length data then io_fail (InvalidData ''chunk exceeds u32 length'')
      else let len = word_of_nat (length data) :: u32 in
        if MAX_RESPONSE_LEN < len
        then io_fail (InvalidData ''chunk exceeds maximum response length'')
        else
          io_bind (stream_write_all [STATUS_OK]) (\<lambda>_.
          io_bind (stream_write_all (to_be 4 len)) (\<lambda>_.
          io_bind (write_pieces (chunks MAX_MESSAGE_PAYLOAD data)) (\<lambda>_.
          stream_close))))"

function drain_to_eof :: "stream \<Rightarrow> stream" where
  "drain_to_eof s =
     (case stream_read 64 s of
        (Ok bs, s') \<Rightarrow> if bs = [] then s' else drain_to_eof s'
      | (Err e, s') \<Rightarrow> s'
      | (Panic, s') \<Rightarrow> s')"
  by pat_completeness auto
termination
  by (relation "measure (\<lambda>s. length (concat (inbound s)))")
    (auto split: list.splits option.splits if_splits)

declare drain_to_eof.simps [simp del]

definition write_status :: "byte \<Rightarrow> unit io" where
  "write_status status = io_bind (stream_write_all [status]) (\<lambda>_. stream_close)"

section \<open>The browser's half\<close>

text \<open>
  \<^verbatim>\<open>exactReader\<close> keeps the pieces it has received in a queue; what it returns depends on their
  concatenation only, so the queue is one byte list here. The iterator of the stream is the list of
  the deliveries to come.
\<close>

datatype fetch_error = StreamEnded nat nat | Refused | UnknownStatus byte | Oversized u32 | BadRequest nat

fun exact_read :: "nat \<Rightarrow> byte list \<Rightarrow> byte list list
    \<Rightarrow> (byte list \<times> byte list \<times> byte list list, fetch_error) outcome" where
  "exact_read wanted queue [] =
     (if length queue < wanted then Err (StreamEnded (length queue) wanted)
      else Ok (take wanted queue, drop wanted queue, []))"
| "exact_read wanted queue (d # ds) =
     (if length queue < wanted then exact_read wanted (queue @ d) ds
      else Ok (take wanted queue, drop wanted queue, d # ds))"

text \<open>What \<^verbatim>\<open>getChunk\<close> makes of the deliveries of one response.\<close>

definition get_chunk_response :: "byte list list \<Rightarrow> (byte list option, fetch_error) outcome" where
  "get_chunk_response deliveries =
     obind (exact_read 1 [] deliveries) (\<lambda>(b, q, ds).
       let status = hd b in
       if status = STATUS_NOT_FOUND then Ok None
       else if status = STATUS_REFUSED then Err Refused
       else if status \<noteq> STATUS_OK then Err (UnknownStatus status)
       else obind (exact_read 4 q ds) (\<lambda>(header, q, ds).
         let len = from_be header :: u32 in
         if MAX_RESPONSE_LEN < len then Err (Oversized len)
         else obind (exact_read (unat len) q ds) (\<lambda>(data, _, _). Ok (Some data))))"

section \<open>Reading is independent of fragmentation\<close>

definition readable :: "stream \<Rightarrow> bool" where
  "readable s \<longleftrightarrow> [] \<notin> set (inbound s)"

lemma stream_read_Ok:
  assumes "stream_read cap s = (Ok bs, s')" and "readable s" and "0 < cap"
  shows "concat (inbound s) = bs @ concat (inbound s')" and "readable s'" and "length bs \<le> cap"
    and "bs = [] \<longleftrightarrow> concat (inbound s) = []" and "s' = s\<lparr>inbound := inbound s'\<rparr>"
  using assms by (auto simp: readable_def split: list.splits option.splits if_splits)

lemma stream_read_Err:
  "stream_read cap s = (Err e, s') \<Longrightarrow> inbound s = [] \<and> inbound_end s = Some e \<and> s' = s"
  by (auto split: list.splits option.splits if_splits)

lemma stream_read_no_panic: "stream_read cap s \<noteq> (Panic, s')"
  by (auto split: list.splits option.splits)

lemma readable_concat_Nil: "readable s \<Longrightarrow> concat (inbound s) = [] \<longleftrightarrow> inbound s = []"
  by (cases "inbound s") (auto simp: readable_def)

definition eof_error :: "stream \<Rightarrow> io_error" where
  "eof_error s = (case inbound_end s of None \<Rightarrow> UnexpectedEof | Some e \<Rightarrow> e)"

lemma stream_read_exact_enough:
  assumes "readable s" and "n \<le> length (concat (inbound s))"
  shows "\<exists>ds. stream_read_exact n s = (Ok (take n (concat (inbound s))), s\<lparr>inbound := ds\<rparr>)
    \<and> concat ds = drop n (concat (inbound s)) \<and> [] \<notin> set ds"
  using assms
proof (induction n s rule: stream_read_exact.induct)
  case (1 n s)
  show ?case
  proof (cases "n = 0")
    case True
    with 1 show ?thesis
      by (auto simp: stream_read_exact.simps [of 0 s] readable_def intro!: exI [of _ "inbound s"])
  next
    case False
    obtain bs s' where rd: "stream_read n s = (Ok bs, s')"
      using 1(2,3) False stream_read_Err stream_read_no_panic readable_concat_Nil
      by (metis length_greater_0_conv list.size(3) not_gr_zero not_le outcome.exhaust surj_pair)
    note ok = stream_read_Ok [OF rd 1(2)]
    have bs: "bs \<noteq> []"
      using ok(4) False 1(3) by (metis le_zero_eq list.size(3) neq0_conv)
    have "n - length bs \<le> length (concat (inbound s'))"
      using ok(1) False 1(3) by simp
    from 1(1) [OF False rd [symmetric] refl bs ok(2) this] False obtain ds where
      "stream_read_exact (n - length bs) s' = (Ok (take (n - length bs) (concat (inbound s'))), s'\<lparr>inbound := ds\<rparr>)"
      "concat ds = drop (n - length bs) (concat (inbound s'))" "[] \<notin> set ds"
      by blast
    moreover have "s'\<lparr>inbound := ds\<rparr> = s\<lparr>inbound := ds\<rparr>"
      using rd by (auto split: list.splits option.splits)
    ultimately show ?thesis
      using False rd bs ok(1,3) by (subst stream_read_exact.simps) auto
  qed
qed

lemma stream_read_exact_short:
  assumes "readable s" and "length (concat (inbound s)) < n"
  shows "stream_read_exact n s = (Err (eof_error s), s\<lparr>inbound := []\<rparr>)"
  using assms
proof (induction n s rule: stream_read_exact.induct)
  case (1 n s)
  then have n: "n \<noteq> 0" by auto
  show ?case
  proof (cases "inbound s = []")
    case True
    then have "s\<lparr>inbound := []\<rparr> = s" by simp
    with True n show ?thesis
      by (subst stream_read_exact.simps) (auto simp: eof_error_def split: option.splits)
  next
    case False
    then obtain bs s' where rd: "stream_read n s = (Ok bs, s')"
      by (cases "inbound s") auto
    note ok = stream_read_Ok [OF rd 1(2)]
    have bs: "bs \<noteq> []"
      using ok(4) n False readable_concat_Nil [OF 1(2)] by auto
    have "length (concat (inbound s')) < n - length bs"
      using ok(1) n 1(3) by simp
    from 1(1) [OF n rd [symmetric] refl bs _ this] ok(2) n
    have "stream_read_exact (n - length bs) s' = (Err (eof_error s'), s'\<lparr>inbound := []\<rparr>)"
      by blast
    moreover have "s'\<lparr>inbound := []\<rparr> = s\<lparr>inbound := []\<rparr>" "eof_error s' = eof_error s"
      using rd by (auto simp: eof_error_def split: list.splits option.splits)
    ultimately show ?thesis
      using n rd bs by (subst stream_read_exact.simps) auto
  qed
qed

lemma exact_read_enough:
  assumes "wanted \<le> length (queue @ concat ds)"
  shows "\<exists>q ds'. exact_read wanted queue ds = Ok (take wanted (queue @ concat ds), q, ds')
    \<and> q @ concat ds' = drop wanted (queue @ concat ds)"
  using assms by (induction wanted queue ds rule: exact_read.induct) auto

lemma exact_read_short:
  assumes "length (queue @ concat ds) < wanted"
  shows "exact_read wanted queue ds = Err (StreamEnded (length (queue @ concat ds)) wanted)"
  using assms by (induction wanted queue ds rule: exact_read.induct) auto

section \<open>What reaches the wire\<close>

fun sent_bytes :: "out_event list \<Rightarrow> byte list" where
  "sent_bytes [] = []"
| "sent_bytes (Write bs # evs) = bs @ sent_bytes evs"
| "sent_bytes (_ # evs) = sent_bytes evs"

lemma sent_bytes_append [simp]: "sent_bytes (xs @ ys) = sent_bytes xs @ sent_bytes ys"
  by (induction xs rule: sent_bytes.induct) auto

text \<open>
  \<open>emits m evs\<close>: the computation sends the events \<open>evs\<close>; when the transport fails on the way the
  bytes sent are a prefix of theirs.
\<close>

definition emits :: "unit io \<Rightarrow> out_event list \<Rightarrow> bool" where
  "emits m evs \<longleftrightarrow> (\<forall>s r s'. m s = (r, s') \<longrightarrow>
     inbound s' = inbound s \<and> inbound_end s' = inbound_end s \<and> fault s' = fault s \<and> r \<noteq> Panic
     \<and> ((\<forall>k. fault s k = None) \<longrightarrow> r = Ok ())
     \<and> (\<exists>done. outbound s' = outbound s @ done
          \<and> (if r = Ok () then done = evs else \<exists>rest. sent_bytes evs = sent_bytes done @ rest)))"

lemma emitsD:
  assumes "emits m evs" and "m s = (r, s')"
  shows "\<exists>done. outbound s' = outbound s @ done
          \<and> (if r = Ok () then done = evs else \<exists>rest. sent_bytes evs = sent_bytes done @ rest)"
    and "inbound s' = inbound s" and "inbound_end s' = inbound_end s" and "fault s' = fault s"
    and "r \<noteq> Panic" and "(\<forall>k. fault s k = None) \<Longrightarrow> r = Ok ()"
  using assms unfolding emits_def by blast+

lemma emits_write [intro]: "emits (stream_write_all bs) [Write bs]"
proof -
  have "\<exists>rest. bs = take m bs @ rest" for m
    by (metis append_take_drop_id)
  then show ?thesis
    by (auto simp: emits_def stream_write_all_def split: option.splits)
qed

lemma emits_flush [intro]: "emits stream_flush [Flush]"
  by (auto simp: emits_def stream_signal_def split: option.splits)

lemma emits_close [intro]: "emits stream_close [Close]"
  by (auto simp: emits_def stream_signal_def split: option.splits)

lemma emits_return [intro]: "emits (io_return ()) []"
  by (auto simp: emits_def io_return_def)

lemma emits_bind [intro]:
  assumes 1: "emits m xs" and 2: "\<And>u. emits (f u) ys"
  shows "emits (io_bind m f) (xs @ ys)"
  unfolding emits_def
proof (intro allI impI, goal_cases)
  case (1 s r s')
  obtain r1 s1 where m: "m s = (r1, s1)" by fastforce
  note m1 = emitsD [OF assms(1) m]
  show ?case
  proof (cases "r1 = Ok ()")
    case True
    with 1 m have f: "f () s1 = (r, s')" by (simp add: io_bind_def)
    note f1 = emitsD [OF 2 f]
    from m1(1) f1(1) True obtain d where
      "outbound s1 = outbound s @ xs" "outbound s' = outbound s1 @ d"
      "if r = Ok () then d = ys else \<exists>rest. sent_bytes ys = sent_bytes d @ rest"
      by auto
    then have "\<exists>done. outbound s' = outbound s @ done
        \<and> (if r = Ok () then done = xs @ ys else \<exists>rest. sent_bytes (xs @ ys) = sent_bytes done @ rest)"
      by (intro exI [of _ "xs @ d"]) auto
    with m1(2-4) f1(2-6) show ?thesis by auto
  next
    case False
    with m1(5) 1 m have "r = r1" "s' = s1" "r \<noteq> Ok ()"
      by (cases r1; auto simp: io_bind_def)+
    moreover from m1(1) calculation obtain d rest
      where "outbound s1 = outbound s @ d" "sent_bytes xs = sent_bytes d @ rest"
      by auto
    moreover have "\<not> (\<forall>k. fault s k = None)" using m1(6) calculation by blast
    ultimately show ?thesis using m1(2-5) by auto
  qed
qed

lemma emits_pieces [intro]:
  "emits (write_pieces ps) (concat (map (\<lambda>p. [Write p, Flush]) ps))"
proof (induction ps)
  case Nil
  then show ?case by auto
next
  case (Cons p ps)
  have "emits (write_pieces (p # ps)) ([Write p] @ [Flush] @ concat (map (\<lambda>p. [Write p, Flush]) ps))"
    unfolding write_pieces.simps using Cons by blast
  then show ?case by simp
qed

text \<open>The events of a whole response, and the byte grammar of the module's documentation.\<close>

definition found_events :: "byte list \<Rightarrow> out_event list" where
  "found_events data =
     [Write [STATUS_OK]] @ [Write (to_be 4 (word_of_nat (length data) :: u32))]
     @ concat (map (\<lambda>p. [Write p, Flush]) (chunks MAX_MESSAGE_PAYLOAD data)) @ [Close]"

definition found_bytes :: "byte list \<Rightarrow> byte list" where
  "found_bytes data = STATUS_OK # to_be 4 (word_of_nat (length data) :: u32) @ data"

definition sendable :: "byte list \<Rightarrow> bool" where
  "sendable data \<longleftrightarrow> length data \<le> 8 * 1024 * 1024"

lemma payload_pos [simp]: "0 < MAX_MESSAGE_PAYLOAD"
  by (simp add: MAX_MESSAGE_PAYLOAD_def)

lemma sent_found: "sent_bytes (found_events data) = found_bytes data"
proof -
  have "sent_bytes (concat (map (\<lambda>p. [Write p, Flush]) ps)) = concat ps" for ps
    by (induction ps) auto
  then show ?thesis
    by (simp add: found_events_def found_bytes_def concat_chunks)
qed

lemma sendable_u32:
  assumes "length data < 2 ^ 32"
  shows "word_of_nat (length data) \<le> MAX_RESPONSE_LEN \<longleftrightarrow> sendable data"
    and "unat (word_of_nat (length data) :: u32) = length data"
proof -
  show "unat (word_of_nat (length data) :: u32) = length data"
    using assms by (simp add: unat_of_nat)
  then show "word_of_nat (length data) \<le> MAX_RESPONSE_LEN \<longleftrightarrow> sendable data"
    by (simp add: word_le_nat_alt MAX_RESPONSE_LEN_def sendable_def)
qed

lemma write_found_sendable:
  assumes "sendable data"
  shows "emits (write_found data) (found_events data)"
proof -
  from assms have "length data < 2 ^ 32" by (simp add: sendable_def)
  with sendable_u32 [OF this] assms have "write_found data =
      io_bind (stream_write_all [STATUS_OK]) (\<lambda>_.
      io_bind (stream_write_all (to_be 4 (word_of_nat (length data) :: u32))) (\<lambda>_.
      io_bind (write_pieces (chunks MAX_MESSAGE_PAYLOAD data)) (\<lambda>_. stream_close)))"
    by (simp add: write_found_def Let_def linorder_not_less [symmetric])
  then show ?thesis
    unfolding found_events_def by (simp only:) (intro emits_bind emits_write emits_pieces emits_close)
qed

lemma write_found_ok:
  assumes "sendable data" and "\<forall>k. fault s k = None"
  shows "\<exists>s'. write_found data s = (Ok (), s') \<and> outbound s' = outbound s @ found_events data"
proof -
  obtain r s' where w: "write_found data s = (r, s')" by fastforce
  note e = emitsD [OF write_found_sendable [OF assms(1)] w]
  from e(6) assms(2) have "r = Ok ()" by blast
  with e(1) w show ?thesis by simp
qed

lemma write_found_oversized:
  assumes "\<not> sendable data"
  shows "\<exists>msg. write_found data s = (Err (InvalidData msg), s)"
  using assms sendable_u32 [of data]
  by (auto simp: write_found_def Let_def io_fail_def not_le)

section \<open>Properties\<close>

text \<open>
  C15. A request survives fragmentation: however its bytes are cut into deliveries, the proxy reads
  the first 32 of them and leaves the others; a stream with fewer is an error that names how the
  stream ended, and nothing is sent in either case.
\<close>

theorem read_request_any_fragmentation:
  assumes "readable s"
  shows "case read_request s of
      (Ok address, s') \<Rightarrow> length address = ADDRESS_LEN
        \<and> concat (inbound s) = address @ concat (inbound s') \<and> outbound s' = outbound s
    | (Err e, s') \<Rightarrow> length (concat (inbound s)) < ADDRESS_LEN \<and> e = eof_error s
        \<and> outbound s' = outbound s
    | (Panic, s') \<Rightarrow> False"
proof (cases "ADDRESS_LEN \<le> length (concat (inbound s))")
  case True
  with stream_read_exact_enough [OF assms True] show ?thesis
    by (auto simp: read_request_def)
next
  case False
  then show ?thesis
    using stream_read_exact_short [OF assms] by (simp add: read_request_def)
qed

definition demo_stream :: "byte list list \<Rightarrow> (nat \<Rightarrow> (nat \<times> io_error) option) \<Rightarrow> stream" where
  "demo_stream ds flt = \<lparr>inbound = ds, inbound_end = None, outbound = [], outbound_ops = 0, fault = flt\<rparr>"

theorem read_request_any_fragmentation_witness:
  "case read_request (demo_stream [replicate 20 7, replicate 20 9] (\<lambda>_. None)) of
      (Ok address, s') \<Rightarrow> length address = ADDRESS_LEN
        \<and> replicate 20 7 @ replicate 20 9 = address @ concat (inbound s')
    | _ \<Rightarrow> False"
  using read_request_any_fragmentation [of "demo_stream [replicate 20 7, replicate 20 9] (\<lambda>_. None)"]
  by (auto simp: demo_stream_def readable_def ADDRESS_LEN_def split: prod.splits outcome.splits)

text \<open>What the browser makes of a response, whole or cut short.\<close>

lemma get_chunk_whole:
  assumes "concat ds = found_bytes data" and "sendable data"
  shows "get_chunk_response ds = Ok (Some data)"
proof -
  let ?len = "word_of_nat (length data) :: u32"
  have len: "length data < 2 ^ 32" using assms(2) by (simp add: sendable_def)
  note u32 = sendable_u32 [OF len]
  obtain q1 ds1 where r1: "exact_read 1 [] ds = Ok ([STATUS_OK], q1, ds1)"
      "q1 @ concat ds1 = to_be 4 ?len @ data"
    using exact_read_enough [of 1 "[]" ds] assms(1) by (auto simp: found_bytes_def)
  obtain q2 ds2 where r2: "exact_read 4 q1 ds1 = Ok (to_be 4 ?len, q2, ds2)" "q2 @ concat ds2 = data"
    using exact_read_enough [of 4 q1 ds1] r1(2) by auto
  obtain q3 ds3 where r3: "exact_read (length data) q2 ds2 = Ok (data, q3, ds3)"
    using exact_read_enough [of "length data" q2 ds2] r2(2) by auto
  have "from_be (to_be 4 ?len) = ?len"
    by (simp add: from_be_to_be)
  then show ?thesis
    using r1(1) r2(1) r3 u32 assms(2)
    by (simp add: get_chunk_response_def Let_def STATUS_OK_def STATUS_NOT_FOUND_def STATUS_REFUSED_def
        linorder_not_less [symmetric])
qed

lemma get_chunk_cut:
  assumes "found_bytes data = concat ds @ rest" and "rest \<noteq> []" and "sendable data"
  shows "\<exists>n m. get_chunk_response ds = Err (StreamEnded n m)"
proof -
  let ?len = "word_of_nat (length data) :: u32"
  have len: "length data < 2 ^ 32" using assms(3) by (simp add: sendable_def)
  note u32 = sendable_u32 [OF len]
  have total: "length (concat ds) < 5 + length data"
    using arg_cong [OF assms(1), of length] assms(2) by (simp add: found_bytes_def)
  show ?thesis
  proof (cases "concat ds = []")
    case True
    then have "exact_read 1 [] ds = Err (StreamEnded 0 1)"
      using exact_read_short [of "[]" ds 1] by simp
    then show ?thesis by (simp add: get_chunk_response_def)
  next
    case False
    with assms(1) obtain tl1 where tl1: "concat ds = STATUS_OK # tl1" "to_be 4 ?len @ data = tl1 @ rest"
      by (cases "concat ds") (auto simp: found_bytes_def)
    obtain q1 ds1 where r1: "exact_read 1 [] ds = Ok ([STATUS_OK], q1, ds1)" "q1 @ concat ds1 = tl1"
      using exact_read_enough [of 1 "[]" ds] tl1(1) by auto
    show ?thesis
    proof (cases "4 \<le> length tl1")
      case False
      then have "\<exists>n m. exact_read 4 q1 ds1 = Err (StreamEnded n m)"
        using exact_read_short [of q1 ds1 4] r1(2) by auto
      with r1(1) show ?thesis
        by (auto simp: get_chunk_response_def STATUS_OK_def STATUS_NOT_FOUND_def STATUS_REFUSED_def)
    next
      case True
      then have hd4: "take 4 tl1 = to_be 4 ?len"
        using arg_cong [OF tl1(2), of "take 4"] by simp
      obtain q2 ds2 where r2: "exact_read 4 q1 ds1 = Ok (to_be 4 ?len, q2, ds2)"
          "q2 @ concat ds2 = drop 4 tl1"
        using exact_read_enough [of 4 q1 ds1] r1(2) True hd4 by auto
      have "length (q2 @ concat ds2) < length data"
        unfolding r2(2) using total tl1(1) True by simp
      then have "\<exists>n m. exact_read (length data) q2 ds2 = Err (StreamEnded n m)"
        using exact_read_short by blast
      moreover have "from_be (to_be 4 ?len) = ?len"
        by (simp add: from_be_to_be)
      ultimately show ?thesis
        using r1(1) r2(1) u32 assms(3)
        by (auto simp: get_chunk_response_def Let_def STATUS_OK_def STATUS_NOT_FOUND_def
            STATUS_REFUSED_def linorder_not_less [symmetric])
    qed
  qed
qed

text \<open>
  C11. Whatever the transport does to the proxy's writes and however the network cuts what was written
  into deliveries, the browser obtains the chunk or learns that the stream ended early: a failure
  never shows it other bytes and never looks like an absent chunk. When every write succeeds it
  obtains the chunk. A chunk above the limit is refused before anything is sent.
\<close>

theorem response_delivered:
  "case write_found data s of
      (Ok _, s') \<Rightarrow> sendable data \<and> outbound s' = outbound s @ found_events data
        \<and> (\<forall>ds. concat ds = sent_bytes (found_events data) \<longrightarrow> get_chunk_response ds = Ok (Some data))
    | (Err e, s') \<Rightarrow>
        if sendable data
        then (\<exists>evs k. outbound s' = outbound s @ evs \<and> fault s k \<noteq> None
          \<and> (\<forall>ds. concat ds = sent_bytes evs \<longrightarrow>
               get_chunk_response ds = Ok (Some data) \<or> (\<exists>n m. get_chunk_response ds = Err (StreamEnded n m))))
        else (\<exists>msg. e = InvalidData msg) \<and> s' = s
    | (Panic, s') \<Rightarrow> False"
proof (cases "sendable data")
  case True
  obtain r s' where w: "write_found data s = (r, s')" by fastforce
  note e = emitsD [OF write_found_sendable [OF True] w]
  show ?thesis
  proof (cases r)
    case (Ok u)
    with e(1) have "outbound s' = outbound s @ found_events data" by simp
    then show ?thesis
      using w True Ok get_chunk_whole [OF _ True] by (simp add: sent_found)
  next
    case (Err x)
    with e(1) obtain evs rest where evs: "outbound s' = outbound s @ evs"
        "found_bytes data = sent_bytes evs @ rest"
      by (auto simp: sent_found)
    from e(6) Err obtain k where k: "fault s k \<noteq> None" by blast
    have resp: "get_chunk_response ds = Ok (Some data)
        \<or> (\<exists>n m. get_chunk_response ds = Err (StreamEnded n m))" if "concat ds = sent_bytes evs" for ds
      using get_chunk_whole [OF _ True, of ds] get_chunk_cut [of data ds rest, OF _ _ True] evs(2) that
      by (cases "rest = []") auto
    have "\<exists>evs k. outbound s' = outbound s @ evs \<and> fault s k \<noteq> None
          \<and> (\<forall>ds. concat ds = sent_bytes evs \<longrightarrow>
               get_chunk_response ds = Ok (Some data) \<or> (\<exists>n m. get_chunk_response ds = Err (StreamEnded n m)))"
      using resp evs(1) k by blast
    with w True Err show ?thesis by simp
  next
    case Panic
    with e(5) show ?thesis by simp
  qed
next
  case False
  then obtain msg where "write_found data s = (Err (InvalidData msg), s)"
    using write_found_oversized by blast
  with False show ?thesis by simp
qed

lemma demo_response:
  "found_events [65, 66, 67] = [Write [0], Write [0, 0, 0, 3], Write [65, 66, 67], Flush, Close]"
  by (simp add: found_events_def STATUS_OK_def chunks_short MAX_MESSAGE_PAYLOAD_def to_be_eval)

lemma demo_sent:
  "\<exists>s'. write_found [65, 66, 67] (demo_stream [] (\<lambda>_. None)) = (Ok (), s')
     \<and> outbound s' = outbound (demo_stream [] (\<lambda>_. None)) @ found_events [65, 66, 67]"
  by (rule write_found_ok) (simp_all add: sendable_def demo_stream_def)

theorem response_delivered_witness:
  "get_chunk_response [[0, 0, 0], [0, 3], [65, 66], [67]] = Ok (Some [65, 66, 67])"
  using response_delivered [of "[65, 66, 67]" "demo_stream [] (\<lambda>_. None)"] demo_sent
  by (auto simp: demo_response)

text \<open>
  Bytes handed to the transport since its last flush. \<^verbatim>\<open>libp2p-webrtc\<close> caps a message at 16 KiB,
  framing included, and a second unflushed message stalls.
\<close>

fun unflushed :: "nat \<Rightarrow> out_event list \<Rightarrow> nat" where
  "unflushed n [] = n"
| "unflushed n (Write bs # evs) = unflushed (n + length bs) evs"
| "unflushed n (Flush # evs) = unflushed 0 evs"
| "unflushed n (Close # evs) = unflushed 0 evs"

lemma unflushed_pieces:
  assumes "list_all (\<lambda>p. length p \<le> MAX_MESSAGE_PAYLOAD) ps" and "n \<le> 5"
    and "concat (map (\<lambda>p. [Write p, Flush]) ps) @ [Close] = xs @ ys"
  shows "unflushed n xs \<le> 16 * 1024 - 59"
  using assms
proof (induction ps arbitrary: n xs)
  case Nil
  then show ?case by (cases xs) auto
next
  case (Cons p ps)
  consider "xs = []" | "xs = [Write p]" | xs' where "xs = Write p # Flush # xs'"
    using Cons.prems(3) by (auto simp: Cons_eq_append_conv)
  then show ?case
  proof cases
    case 3
    with Cons show ?thesis by simp
  qed (use Cons.prems in \<open>auto simp: MAX_MESSAGE_PAYLOAD_def\<close>)
qed

text \<open>
  C14. Pacing: at no moment of a response are more than 16 KiB (less 59 bytes of framing) handed to the
  transport without a flush, so every message fits and none is left behind an undriven write.
\<close>

theorem response_paced:
  assumes "write_found data s = (Ok u, s')" and "outbound s' = outbound s @ xs @ ys"
  shows "unflushed 0 xs \<le> 16 * 1024 - 59"
proof -
  have "sendable data"
    using assms(1) write_found_oversized [of data s] by (cases "sendable data") auto
  from emitsD(1) [OF write_found_sendable [OF this] assms(1)] assms(2)
  have ev: "found_events data = xs @ ys" by simp
  have bound: "list_all (\<lambda>p. length p \<le> MAX_MESSAGE_PAYLOAD) (chunks MAX_MESSAGE_PAYLOAD data)"
    by (auto simp: list_all_iff dest: chunks_length)
  consider "length xs \<le> 2" | a b xs' where "xs = a # b # xs'"
    by (metis One_nat_def Suc_1 Suc_le_mono le0 length_Cons list.size(3) neq_Nil_conv)
  then show ?thesis
  proof cases
    case 1
    moreover from this have "xs = take (length xs) (take 2 (found_events data))"
      using ev by simp
    moreover from 1 have "length xs = 0 \<or> length xs = 1 \<or> length xs = 2"
      by linarith
    ultimately show ?thesis by (elim disjE) (auto simp: found_events_def)
  next
    case 2
    with ev have ab: "a = Write [STATUS_OK]" "b = Write (to_be 4 (word_of_nat (length data) :: u32))"
      and rest: "concat (map (\<lambda>p. [Write p, Flush]) (chunks MAX_MESSAGE_PAYLOAD data)) @ [Close] = xs' @ ys"
      by (simp_all add: found_events_def)
    with 2 unflushed_pieces [OF bound _ rest, of 5] show ?thesis by simp
  qed
qed

theorem response_paced_witness:
  "unflushed 0 [Write [0], Write [0, 0, 0, 3], Write [65, 66, 67]] \<le> 16 * 1024 - 59"
proof -
  let ?s = "demo_stream [] (\<lambda>_. None)"
  obtain s' where "write_found [65, 66, 67] ?s = (Ok (), s')"
    "outbound s' = outbound ?s @ [Write [0], Write [0, 0, 0, 3], Write [65, 66, 67]] @ [Flush, Close]"
    using demo_sent by (auto simp: demo_response)
  then show ?thesis by (rule response_paced)
qed

lemma drain_to_eof_inbound: "readable s \<Longrightarrow> drain_to_eof s = s\<lparr>inbound := []\<rparr>"
proof (induction s rule: drain_to_eof.induct)
  case (1 s)
  show ?case
  proof (cases "inbound s = []")
    case True
    then have "s\<lparr>inbound := []\<rparr> = s" by simp
    with True show ?thesis
      by (subst drain_to_eof.simps) (auto split: option.splits)
  next
    case False
    then obtain bs s' where rd: "stream_read 64 s = (Ok bs, s')"
      by (cases "inbound s") auto
    note ok = stream_read_Ok [OF rd 1(2)]
    have bs: "bs \<noteq> []"
      using ok(4) False readable_concat_Nil [OF 1(2)] by auto
    with 1(1) [OF rd [symmetric] refl bs] ok(2) have "drain_to_eof s' = s'\<lparr>inbound := []\<rparr>"
      by simp
    moreover have "s'\<lparr>inbound := []\<rparr> = s\<lparr>inbound := []\<rparr>"
      using rd by (auto split: list.splits option.splits)
    ultimately show ?thesis
      using rd bs by (subst drain_to_eof.simps) simp
  qed
qed

lemma write_status_emits: "emits (write_status b) [Write [b], Close]"
proof -
  have "emits (write_status b) ([Write [b]] @ [Close])"
    unfolding write_status_def by blast
  then show ?thesis by simp
qed

end
