(* ===== verification/Proxy_Source.thy ===== *)
theory Proxy_Source
  imports Proxy_Protocol "HOL-Library.AList"
begin

text \<open>
  Where the proxy gets chunk bytes from (\<^verbatim>\<open>crates/proxy/src/source.rs\<close>) and how one request is
  answered (\<^verbatim>\<open>handle_request\<close> and \<^verbatim>\<open>serve\<close> in \<^verbatim>\<open>crates/proxy/src/main.rs\<close>). The contract of a
  source, that bytes served under an address hash to it, is a locale; the in-memory source implements
  it. BLAKE3, \<^verbatim>\<open>self_encryption\<close>, \<^verbatim>\<open>rmp_serde\<close> and the network client are parameters.
\<close>

section \<open>Sources\<close>

record ('map, 'info, 'chunk, 'se, 'rmp) source_libs =
  blake3_hash :: "byte list \<Rightarrow> xorname"
  encrypt :: "byte list \<Rightarrow> ('map \<times> 'chunk list, 'se) outcome"
  chunk_content :: "'chunk \<Rightarrow> byte list"
  to_vec :: "'map \<Rightarrow> (byte list, 'rmp) outcome"
  map_infos :: "'map \<Rightarrow> 'info list"

datatype ('se, 'rmp) fixture_error = SelfEncryptionFailed 'se | SerializeFailed 'rmp

datatype 'ne network_error = ConnectFailed 'ne | LookupFailed xorname 'ne

text \<open>
  A \<^verbatim>\<open>HashMap\<close> is an association list with distinct keys; the order in which the real map yields
  its keys is unspecified, and nothing below depends on it.
\<close>

record fixture_source =
  source_chunks :: "(xorname \<times> byte list) list"
  data_map_address :: xorname
  plaintext_len :: nat
  fixture_chunk_count :: nat

definition address_of :: "('map, 'info, 'chunk, 'se, 'rmp) source_libs \<Rightarrow> byte list \<Rightarrow> xorname" where
  "address_of P bytes = blake3_hash P bytes"

fun index_chunks ::
  "('map, 'info, 'chunk, 'se, 'rmp) source_libs \<Rightarrow> 'chunk list \<Rightarrow> (xorname \<times> byte list) list
     \<Rightarrow> (xorname \<times> byte list) list" where
  "index_chunks P [] m = m"
| "index_chunks P (chunk # encrypted) m =
     index_chunks P encrypted
       (AList.update (address_of P (chunk_content P chunk)) (chunk_content P chunk) m)"

definition fixture_new ::
  "('map, 'info, 'chunk, 'se, 'rmp) source_libs \<Rightarrow> byte list
     \<Rightarrow> (fixture_source, ('se, 'rmp) fixture_error) outcome" where
  "fixture_new P bytes =
     obind (map_err SelfEncryptionFailed (encrypt P bytes)) (\<lambda>(data_map, encrypted).
       let chunks = index_chunks P encrypted [] in
       obind (map_err SerializeFailed (to_vec P data_map)) (\<lambda>serialized.
         Ok \<lparr>source_chunks = AList.update (address_of P serialized) serialized chunks,
             data_map_address = address_of P serialized,
             plaintext_len = length bytes,
             fixture_chunk_count = length (map_infos P data_map)\<rparr>))"

definition fixture_addresses :: "fixture_source \<Rightarrow> xorname list" where
  "fixture_addresses f = map fst (source_chunks f)"

definition fixture_get ::
  "fixture_source \<Rightarrow> xorname \<Rightarrow> (byte list option, 'ne network_error) outcome" where
  "fixture_get f address = Ok (map_of (source_chunks f) address)"

text \<open>
  The network client: \<open>client_connect\<close> is \<^verbatim>\<open>ant_core::data::Client::connect\<close>, \<open>chunk_get\<close> its lookup.
\<close>

record ('addr, 'client, 'ne) network_libs =
  client_connect :: "'addr list \<Rightarrow> ('client, 'ne) outcome"
  chunk_get :: "'client \<Rightarrow> xorname \<Rightarrow> (byte list option, 'ne) outcome"

definition network_connect ::
  "('addr, 'client, 'ne) network_libs \<Rightarrow> 'addr list
     \<Rightarrow> ('client, 'ne network_error) outcome" where
  "network_connect N bootstrap = map_err ConnectFailed (client_connect N bootstrap)"

definition network_get ::
  "('addr, 'client, 'ne) network_libs \<Rightarrow> 'client \<Rightarrow> xorname
     \<Rightarrow> (byte list option, 'ne network_error) outcome" where
  "network_get N client address = map_err (LookupFailed address) (chunk_get N client address)"

datatype 'client source = Fixture fixture_source | Network 'client

fun source_get ::
  "('addr, 'client, 'ne) network_libs \<Rightarrow> 'client source \<Rightarrow> xorname
     \<Rightarrow> (byte list option, 'ne network_error) outcome" where
  "source_get N (Fixture f) address = fixture_get f address"
| "source_get N (Network client) address = network_get N client address"

section \<open>One request\<close>

datatype 'e request_error = RequestIo io_error | SourceError 'e

definition handle_request ::
  "(xorname \<Rightarrow> (byte list option, 'e) outcome) \<Rightarrow> stream
     \<Rightarrow> (unit, 'e request_error) outcome \<times> stream" where
  "handle_request get s =
     (case read_request s of
        (Err e, s) \<Rightarrow> (Err (RequestIo e), s)
      | (Panic, s) \<Rightarrow> (Panic, s)
      | (Ok address, s) \<Rightarrow>
          (case get address of
             Err e \<Rightarrow> (Err (SourceError e), s)
           | Panic \<Rightarrow> (Panic, s)
           | Ok answer \<Rightarrow>
               (case (case answer of
                        Some bytes \<Rightarrow> write_found bytes s
                      | None \<Rightarrow> write_status STATUS_NOT_FOUND s) of
                  (Err e, s) \<Rightarrow> (Err (RequestIo e), s)
                | (Panic, s) \<Rightarrow> (Panic, s)
                | (Ok _, s) \<Rightarrow> (Ok (), drain_to_eof s))))"

text \<open>\<^verbatim>\<open>serve\<close> runs one task per inbound stream; a task's error is logged and dropped.\<close>

definition serve ::
  "(xorname \<Rightarrow> (byte list option, 'e) outcome) \<Rightarrow> stream list
     \<Rightarrow> ((unit, 'e request_error) outcome \<times> stream) list" where
  "serve get incoming = map (handle_request get) incoming"

section \<open>The contract of a source\<close>

text \<open>What the browser decodes from a request handled without an error is what the source returned.\<close>

lemma handled_returns:
  assumes "readable s" and "handle_request get s = (Ok u, s')"
    and "outbound s' = outbound s @ evs" and "concat ds = sent_bytes evs"
    and "get_chunk_response ds = Ok (Some bytes)"
  shows "get (take ADDRESS_LEN (concat (inbound s))) = Ok (Some bytes)"
proof -
  let ?a = "take ADDRESS_LEN (concat (inbound s))"
  have enough: "ADDRESS_LEN \<le> length (concat (inbound s))"
    using assms(1,2) stream_read_exact_short [OF assms(1), of ADDRESS_LEN]
    by (cases "ADDRESS_LEN \<le> length (concat (inbound s))")
      (auto simp: handle_request_def read_request_def)
  obtain rest where rd: "stream_read_exact ADDRESS_LEN s = (Ok ?a, s\<lparr>inbound := rest\<rparr>)"
    "[] \<notin> set rest"
    using stream_read_exact_enough [OF assms(1) enough] by blast
  let ?s = "s\<lparr>inbound := rest\<rparr>"
  obtain answer where answer: "get ?a = Ok answer"
    using assms(2) rd by (auto simp: handle_request_def read_request_def split: outcome.splits)
  show ?thesis
  proof (cases answer)
    case None
    then obtain r s1 where w: "write_status STATUS_NOT_FOUND ?s = (r, s1)" by fastforce
    note e = emitsD [OF write_status_emits w]
    have r: "r = Ok ()" "s' = drain_to_eof s1"
      using assms(2) rd answer None w
      by (auto simp: handle_request_def read_request_def split: outcome.splits)
    from e(2) rd(2) have "readable s1" by (simp add: readable_def)
    with r e(1) assms(3) have "evs = [Write [STATUS_NOT_FOUND], Close]"
      by (simp add: drain_to_eof_inbound)
    with assms(4) have "concat ds = [STATUS_NOT_FOUND]" by simp
    then have "get_chunk_response ds = Ok None"
      using exact_read_enough [of 1 "[]" ds] by (auto simp: get_chunk_response_def)
    with assms(5) show ?thesis by simp
  next
    case (Some data)
    then obtain r s1 where w: "write_found data ?s = (r, s1)" by fastforce
    have r: "r = Ok ()" "s' = drain_to_eof s1"
      using assms(2) rd answer Some w
      by (auto simp: handle_request_def read_request_def split: outcome.splits)
    have sendable: "sendable data"
      using w r(1) write_found_oversized [of data ?s] by (cases "sendable data") auto
    note e = emitsD [OF write_found_sendable [OF sendable] w]
    from e(2) rd(2) have "readable s1" by (simp add: readable_def)
    with r e(1) assms(3) have "evs = found_events data"
      by (simp add: drain_to_eof_inbound)
    with assms(4,5) get_chunk_whole [OF _ sendable, of ds] have "bytes = data"
      by (simp add: sent_found)
    with answer Some show ?thesis by simp
  qed
qed

text \<open>
  A content-addressed source: in a good state, what it returns hashes to the address asked for. Its
  client is the request handler: a browser that checks the hash accepts what arrives.
\<close>

locale content_addressed =
  fixes h :: "byte list \<Rightarrow> xorname"
    and get :: "'src \<Rightarrow> xorname \<Rightarrow> (byte list option, 'e) outcome"
    and good :: "'src \<Rightarrow> bool"
  assumes addressed: "good src \<Longrightarrow> get src a = Ok (Some bs) \<Longrightarrow> h bs = a"
begin

lemma found_hashes:
  assumes "good src" and "readable s" and "handle_request (get src) s = (Ok u, s')"
    and "outbound s' = outbound s @ evs" and "concat ds = sent_bytes evs"
    and "get_chunk_response ds = Ok (Some bytes)"
  shows "h bytes = take ADDRESS_LEN (concat (inbound s))"
  using addressed [OF assms(1) handled_returns [OF assms(2-6)]] .

end

section \<open>The in-memory source keeps the contract\<close>

definition fixture_ok :: "(byte list \<Rightarrow> xorname) \<Rightarrow> fixture_source \<Rightarrow> bool" where
  "fixture_ok h f \<longleftrightarrow> distinct (fixture_addresses f)
     \<and> (\<forall>a bs. map_of (source_chunks f) a = Some bs \<longrightarrow> h bs = a)"

interpretation fx: content_addressed h fixture_get "fixture_ok h" for h
  by unfold_locales (auto simp: fixture_get_def fixture_ok_def)

lemma map_of_index_chunks:
  "map_of (index_chunks P cs m) =
     map_of m ++ map_of (rev (map (\<lambda>c. (address_of P (chunk_content P c), chunk_content P c)) cs))"
  by (induction cs arbitrary: m) (auto simp: update_conv' map_add_assoc [symmetric])

lemma distinct_index_chunks:
  "distinct (map fst m) \<Longrightarrow> distinct (map fst (index_chunks P cs m))"
  by (induction cs arbitrary: m) (auto simp: distinct_update)

lemma fixture_new_Ok:
  assumes "fixture_new P bytes = Ok f"
  obtains m cs ser where "encrypt P bytes = Ok (m, cs)" "to_vec P m = Ok ser"
    "map_of (source_chunks f) =
       (map_of (rev (map (\<lambda>c. (blake3_hash P (chunk_content P c), chunk_content P c)) cs)))
         (blake3_hash P ser \<mapsto> ser)"
    "distinct (fixture_addresses f)" "data_map_address f = blake3_hash P ser"
    "plaintext_len f = length bytes" "fixture_chunk_count f = length (map_infos P m)"
  using assms
  by (auto simp: fixture_new_def obind_eq_Ok Let_def fixture_addresses_def update_conv'
      map_of_index_chunks address_of_def distinct_update distinct_index_chunks)

text \<open>Whatever the encryption returns, the source is indexed by the hashes of what it holds.\<close>

lemma fixture_new_indexed:
  assumes "fixture_new P bytes = Ok f"
  shows "fixture_ok (blake3_hash P) f"
    and "map_of (source_chunks f) a = Some bs \<Longrightarrow>
      \<exists>m cs ser. encrypt P bytes = Ok (m, cs) \<and> to_vec P m = Ok ser
        \<and> bs \<in> set (ser # map (chunk_content P) cs)"
proof -
  let ?h = "blake3_hash P" and ?kv = "\<lambda>c. (blake3_hash P (chunk_content P c), chunk_content P c)"
  obtain m cs ser where new: "encrypt P bytes = Ok (m, cs)" "to_vec P m = Ok ser"
      "map_of (source_chunks f) = (map_of (rev (map ?kv cs)))(?h ser \<mapsto> ser)"
      "distinct (fixture_addresses f)"
    by (rule fixture_new_Ok [OF assms])
  have held: "?h bs = a \<and> bs \<in> set (ser # map (chunk_content P) cs)"
    if "map_of (source_chunks f) a = Some bs" for a bs
    using that by (auto simp: new(3) dest!: map_of_SomeD split: if_splits)
  then show "fixture_ok ?h f"
    using new(4) unfolding fixture_ok_def by blast
  show "\<exists>m cs ser. encrypt P bytes = Ok (m, cs) \<and> to_vec P m = Ok ser
        \<and> bs \<in> set (ser # map (chunk_content P) cs)" if "map_of (source_chunks f) a = Some bs"
    using new(1,2) held [OF that] by blast
qed

lemma fixture_new_facts:
  assumes "fixture_new P bytes = Ok f" and "encrypt P bytes = Ok (m, cs)" and "to_vec P m = Ok ser"
    and "inj_on (blake3_hash P) (set (ser # map (chunk_content P) cs))"
  shows "fixture_ok (blake3_hash P) f"
    and "map_of (source_chunks f) (blake3_hash P ser) = Some ser"
    and "\<forall>c \<in> set cs. map_of (source_chunks f) (blake3_hash P (chunk_content P c)) = Some (chunk_content P c)"
    and "set (fixture_addresses f) = blake3_hash P ` set (ser # map (chunk_content P) cs)"
    and "data_map_address f = blake3_hash P ser"
proof -
  let ?h = "blake3_hash P" and ?kv = "\<lambda>c. (blake3_hash P (chunk_content P c), chunk_content P c)"
  obtain m' cs' ser' where new: "encrypt P bytes = Ok (m', cs')" "to_vec P m' = Ok ser'"
      "map_of (source_chunks f) = (map_of (rev (map ?kv cs')))(?h ser' \<mapsto> ser')"
      "distinct (fixture_addresses f)" "data_map_address f = ?h ser'"
    by (rule fixture_new_Ok [OF assms(1)])
  then have same: "m' = m" "cs' = cs" using assms(2) by simp_all
  with new(2) assms(3) have "ser' = ser" by simp
  note mo = new(3) [unfolded same this] and a = new(5) [unfolded this]
  have stored: "map_of (source_chunks f) (?h (chunk_content P c)) = Some (chunk_content P c)"
    if "c \<in> set cs" for c
  proof -
    have "?h (chunk_content P c) \<in> dom (map_of (rev (map ?kv cs)))"
      using that by (auto simp: dom_map_of_conv_image_fst image_image)
    then obtain bs where "map_of (rev (map ?kv cs)) (?h (chunk_content P c)) = Some bs"
      by blast
    moreover from this obtain c' where "c' \<in> set cs" "bs = chunk_content P c'"
      "?h bs = ?h (chunk_content P c)"
      by (auto dest!: map_of_SomeD)
    ultimately show ?thesis
      using assms(4) that by (auto simp: mo inj_on_def)
  qed
  have "set (fixture_addresses f) = dom (map_of (source_chunks f))"
    by (simp add: fixture_addresses_def dom_map_of_conv_image_fst)
  also have "\<dots> = ?h ` set (ser # map (chunk_content P) cs)"
    by (auto simp: mo dom_map_of_conv_image_fst image_image)
  finally show "set (fixture_addresses f) = ?h ` set (ser # map (chunk_content P) cs)" .
  show "fixture_ok ?h f"
    by (rule fixture_new_indexed(1) [OF assms(1)])
  show "map_of (source_chunks f) (?h ser) = Some ser"
    by (simp add: mo)
  show "\<forall>c \<in> set cs. map_of (source_chunks f) (?h (chunk_content P c)) = Some (chunk_content P c)"
    using stored by blast
  show "data_map_address f = ?h ser"
    by (rule a)
qed

text \<open>
  Building the in-memory source establishes the content-addressing contract and stores everything
  under it: the serialized data map is found at the published address, every chunk the encryption
  produced is found at its own address (as long as no two of them collide), and nothing else is
  stored.
\<close>

theorem fixture_new_correct:
  assumes "fixture_new P bytes = Ok f" and "encrypt P bytes = Ok (m, cs)" and "to_vec P m = Ok ser"
    and "inj_on (blake3_hash P) (set (ser # map (chunk_content P) cs))"
  shows "fixture_ok (blake3_hash P) f
    \<and> (fixture_get f (data_map_address f) :: (_, 'ne network_error) outcome) = Ok (Some ser)
    \<and> (\<forall>c \<in> set cs. (fixture_get f (blake3_hash P (chunk_content P c))
         :: (_, 'ne network_error) outcome) = Ok (Some (chunk_content P c)))
    \<and> set (fixture_addresses f) = blake3_hash P ` set (ser # map (chunk_content P) cs)"
  using fixture_new_facts [OF assms] by (simp add: fixture_get_def)

section \<open>Requests are answered\<close>

lemma handle_request_answers:
  assumes "readable s" and "ADDRESS_LEN \<le> length (concat (inbound s))" and "\<forall>k. fault s k = None"
    and "get (take ADDRESS_LEN (concat (inbound s))) = Ok answer"
    and "\<forall>data. answer = Some data \<longrightarrow> sendable data"
  shows "\<exists>s' evs. handle_request get s = (Ok (), s') \<and> inbound s' = []
    \<and> outbound s' = outbound s @ evs
    \<and> (\<forall>ds. concat ds = sent_bytes evs \<longrightarrow> get_chunk_response ds = Ok answer)"
proof -
  let ?a = "take ADDRESS_LEN (concat (inbound s))"
  obtain rest where rd: "stream_read_exact ADDRESS_LEN s = (Ok ?a, s\<lparr>inbound := rest\<rparr>)"
    "[] \<notin> set rest"
    using stream_read_exact_enough [OF assms(1,2)] by blast
  let ?s = "s\<lparr>inbound := rest\<rparr>"
  show ?thesis
  proof (cases answer)
    case None
    obtain r s1 where w: "write_status STATUS_NOT_FOUND ?s = (r, s1)" by fastforce
    note e = emitsD [OF write_status_emits w]
    from e(6) assms(3) have r: "r = Ok ()" by simp
    from e(2) rd(2) have "readable s1" by (simp add: readable_def)
    moreover have "get_chunk_response ds = Ok None" if "concat ds = [STATUS_NOT_FOUND]" for ds
      using exact_read_enough [of 1 "[]" ds] that by (auto simp: get_chunk_response_def)
    ultimately show ?thesis
      using rd assms(4) None w r e(1)
      by (intro exI [of _ "drain_to_eof s1"] exI [of _ "[Write [STATUS_NOT_FOUND], Close]"])
        (simp add: handle_request_def read_request_def drain_to_eof_inbound)
  next
    case (Some data)
    with assms(5) have sendable: "sendable data" by simp
    obtain r s1 where w: "write_found data ?s = (r, s1)" by fastforce
    note e = emitsD [OF write_found_sendable [OF sendable] w]
    from e(6) assms(3) have r: "r = Ok ()" by simp
    from e(2) rd(2) have "readable s1" by (simp add: readable_def)
    then show ?thesis
      using rd assms(4) Some w r e(1) get_chunk_whole [OF _ sendable]
      by (intro exI [of _ "drain_to_eof s1"] exI [of _ "found_events data"])
        (simp add: handle_request_def read_request_def drain_to_eof_inbound sent_found)
  qed
qed

text \<open>
  C12. One request, end to end over a working transport: the handler succeeds, consumes the request
  stream to its end, and the browser decodes exactly the answer of the source, found or absent,
  under any fragmentation in either direction.
\<close>

theorem request_answered:
  assumes "readable s" and "concat (inbound s) = address @ extra" and "length address = ADDRESS_LEN"
    and "\<forall>k. fault s k = None" and "source_get N src address = Ok answer"
    and "\<forall>data. answer = Some data \<longrightarrow> sendable data"
  shows "\<exists>s' evs. handle_request (source_get N src) s = (Ok (), s') \<and> inbound s' = []
    \<and> outbound s' = outbound s @ evs
    \<and> (\<forall>ds. concat ds = sent_bytes evs \<longrightarrow> get_chunk_response ds = Ok answer)"
  using assms by (intro handle_request_answers) auto

text \<open>
  C13. What the in-memory source serves passes the browser's check. For every file the proxy builds its
  source from, whatever the encryption returns: any chunk the browser decodes from a handled request
  hashes to the 32 bytes the request asked for, whatever else the request stream held and however the
  response was cut, and it is the serialized data map or one of the encrypted chunks of that file.
\<close>

theorem served_chunk_verifies:
  assumes "fixture_new P plaintext = Ok f"
    and "readable s" and "handle_request (fixture_get f) s = (Ok u, s')"
    and "outbound s' = outbound s @ evs" and "concat ds = sent_bytes evs"
    and "get_chunk_response ds = Ok (Some bytes)"
  shows "blake3_hash P bytes = take ADDRESS_LEN (concat (inbound s))
    \<and> (\<exists>m cs ser. encrypt P plaintext = Ok (m, cs) \<and> to_vec P m = Ok ser
        \<and> bytes \<in> set (ser # map (chunk_content P) cs))"
  using fx.found_hashes [OF fixture_new_indexed(1) [OF assms(1)] assms(2-6)]
    fixture_new_indexed(2) [OF assms(1)] handled_returns [OF assms(2-6)]
  by (simp add: fixture_get_def)

section \<open>Witnesses\<close>

definition demo_source_libs :: "(xorname list, xorname, byte list, nat, nat) source_libs" where
  "demo_source_libs = \<lparr>
     blake3_hash = (\<lambda>bs. take 32 (bs @ replicate 32 0)),
     encrypt = (\<lambda>bs. Ok (map (\<lambda>b. take 32 ([b] @ replicate 32 0)) bs, map (\<lambda>b. [b]) bs)),
     chunk_content = (\<lambda>c. c), to_vec = (\<lambda>m. Ok (7 # concat m)), map_infos = (\<lambda>m. m)\<rparr>"

definition demo_fixture :: fixture_source where
  "demo_fixture = (case fixture_new demo_source_libs [1, 2] of
     Ok f \<Rightarrow> f)"

definition demo_network_libs :: "(nat, nat, nat) network_libs" where
  "demo_network_libs = \<lparr>client_connect = (\<lambda>_. Ok 0), chunk_get = (\<lambda>_ _. Ok None)\<rparr>"

abbreviation demo_address :: xorname where
  "demo_address \<equiv> 2 # replicate 31 0"

theorem fixture_new_correct_witness:
  "fixture_ok (blake3_hash demo_source_libs) demo_fixture
   \<and> (fixture_get demo_fixture demo_address :: (_, nat network_error) outcome) = Ok (Some [2])"
proof -
  let ?ser = "7 # concat (map (\<lambda>b. take 32 ([b] @ replicate 32 0)) [1, 2 :: byte])"
  have new: "(fixture_new demo_source_libs [1, 2])
      = Ok demo_fixture"
    by code_simp
  have enc: "encrypt demo_source_libs [1, 2]
      = Ok (map (\<lambda>b. take 32 ([b] @ replicate 32 0)) [1, 2], [[1], [2]])"
    by (simp add: demo_source_libs_def)
  have ser: "to_vec demo_source_libs (map (\<lambda>b. take 32 ([b] @ replicate 32 0)) [1, 2]) = Ok ?ser"
    by (simp add: demo_source_libs_def)
  have "distinct (map (blake3_hash demo_source_libs) (?ser # map (chunk_content demo_source_libs) [[1], [2]]))"
    by code_simp
  then have inj: "inj_on (blake3_hash demo_source_libs)
      (set (?ser # map (chunk_content demo_source_libs) [[1], [2]]))"
    by (rule conjunct2 [OF distinct_map [THEN iffD1]])
  have addr: "blake3_hash demo_source_libs (chunk_content demo_source_libs [2]) = demo_address"
    "chunk_content demo_source_libs [2] = [2]"
    by code_simp+
  from fixture_new_correct [OF new enc ser inj, where ?'ne = nat] addr show ?thesis
    by simp
qed

lemma demo_get: "(source_get demo_network_libs (Fixture demo_fixture) demo_address) = Ok (Some [2])"
  by code_simp

abbreviation demo_request :: stream where
  "demo_request \<equiv> demo_stream [take 10 demo_address, drop 10 demo_address, [9]] (\<lambda>_. None)"

lemma demo_request_facts:
  "readable demo_request" "concat (inbound demo_request) = demo_address @ [9]"
  "length demo_address = ADDRESS_LEN" "\<forall>k. fault demo_request k = None"
  by (simp_all add: demo_stream_def readable_def ADDRESS_LEN_def numeral_eq_Suc)

theorem request_answered_witness:
  "\<exists>s' evs. handle_request (source_get demo_network_libs (Fixture demo_fixture)) demo_request = (Ok (), s')
    \<and> inbound s' = [] \<and> outbound s' = outbound demo_request @ evs
    \<and> (\<forall>ds. concat ds = sent_bytes evs \<longrightarrow> get_chunk_response ds = Ok (Some [2]))"
  by (rule request_answered [OF demo_request_facts demo_get]) (simp add: sendable_def)

lemma demo_fixture_new: "fixture_new demo_source_libs [1, 2] = Ok demo_fixture"
  by code_simp

lemma demo_handled:
  "\<exists>s' evs. handle_request (fixture_get demo_fixture) demo_request = (Ok (), s') \<and> inbound s' = []
    \<and> outbound s' = outbound demo_request @ evs
    \<and> (\<forall>ds. concat ds = sent_bytes evs \<longrightarrow> get_chunk_response ds = Ok (Some [2]))"
proof (rule handle_request_answers [OF demo_request_facts(1) _ demo_request_facts(4)])
  have a: "take ADDRESS_LEN (concat (inbound demo_request)) = demo_address"
    unfolding demo_request_facts(2) using demo_request_facts(3) by (metis append_eq_conv_conj)
  show "fixture_get demo_fixture (take ADDRESS_LEN (concat (inbound demo_request))) = Ok (Some [2])"
    using demo_get unfolding a by (simp add: fixture_get_def)
  show "ADDRESS_LEN \<le> length (concat (inbound demo_request))"
    unfolding demo_request_facts(2) by (simp add: ADDRESS_LEN_def)
qed (simp add: sendable_def)

theorem served_chunk_verifies_witness:
  "blake3_hash demo_source_libs [2] = take ADDRESS_LEN (demo_address @ [9])
   \<and> (\<exists>m cs ser. encrypt demo_source_libs [1, 2] = Ok (m, cs) \<and> to_vec demo_source_libs m = Ok ser
        \<and> [2] \<in> set (ser # map (chunk_content demo_source_libs) cs))"
proof -
  obtain s' evs where s': "handle_request (fixture_get demo_fixture) demo_request = (Ok (), s')"
    "outbound s' = outbound demo_request @ evs"
    "\<forall>ds. concat ds = sent_bytes evs \<longrightarrow> get_chunk_response ds = Ok (Some [2])"
    using demo_handled by blast
  show ?thesis
    using served_chunk_verifies [OF demo_fixture_new demo_request_facts(1) s'(1,2), of "[sent_bytes evs]" "[2]"]
      s'(3) unfolding demo_request_facts(2) by simp
qed

end
