(* ===== verification/Proxy_Main.thy ===== *)
theory Proxy_Main
  imports Proxy_Source
begin

text \<open>
  The proxy process (\<^verbatim>\<open>crates/proxy/src/main.rs\<close>): the persistent identity (key pair and DTLS
  certificate in the state directory), the choice of the source, the dump of a fixture, and the
  multiaddr it advertises. The filesystem is an explicit map from paths to contents with the paths
  the process may not read or write; key, certificate and hex libraries are parameters. The theory
  shows that the identity survives restarts, when it does not, that a dump is complete, and what
  advertising changes in a multiaddr.
\<close>

section \<open>The filesystem\<close>

type_synonym path = "byte list list"

datatype fs_error = NotFound | AccessDenied | NotUtf8

record fs =
  files :: "path \<rightharpoonup> byte list"
  dirs :: "path set"
  unreadable :: "path \<Rightarrow> bool"
  unwritable :: "path \<Rightarrow> bool"

definition fs_read :: "path \<Rightarrow> fs \<Rightarrow> (byte list, fs_error) outcome" where
  "fs_read p f = (case files f p of
       None \<Rightarrow> Err NotFound
     | Some bs \<Rightarrow> if unreadable f p then Err AccessDenied else Ok bs)"

definition fs_read_to_string :: "path \<Rightarrow> fs \<Rightarrow> (byte list, fs_error) outcome" where
  "fs_read_to_string p f =
     obind (fs_read p f) (\<lambda>bs. if utf8_valid bs then Ok bs else Err NotUtf8)"

definition fs_write :: "path \<Rightarrow> byte list \<Rightarrow> fs \<Rightarrow> (unit, fs_error) outcome \<times> fs" where
  "fs_write p bs f =
     (if unwritable f p then (Err AccessDenied, f) else (Ok (), f\<lparr>files := (files f)(p \<mapsto> bs)\<rparr>))"

definition fs_create_dir_all :: "path \<Rightarrow> fs \<Rightarrow> (unit, fs_error) outcome \<times> fs" where
  "fs_create_dir_all d f =
     (if unwritable f d then (Err AccessDenied, f) else (Ok (), f\<lparr>dirs := insert d (dirs f)\<rparr>))"

section \<open>The identity\<close>

text \<open>
  \<open>from_protobuf\<close>/\<open>to_protobuf\<close> are \<^verbatim>\<open>Keypair::from_protobuf_encoding\<close>/\<^verbatim>\<open>to_protobuf_encoding\<close>,
  \<open>from_pem\<close>/\<open>serialize_pem\<close> those of the certificate. A freshly generated key pair or certificate is
  an argument of the operations, because every run draws another one.
\<close>

record ('key, 'cert, 'ke) identity_libs =
  from_protobuf :: "byte list \<Rightarrow> ('key, 'ke) outcome"
  to_protobuf :: "'key \<Rightarrow> (byte list, 'ke) outcome"
  from_pem :: "byte list \<Rightarrow> ('cert, 'ke) outcome"
  serialize_pem :: "'cert \<Rightarrow> byte list"

datatype 'ke identity_error =
    DecodeIdentity 'ke
  | EncodeIdentity 'ke
  | PersistIdentity fs_error
  | ParseCertificate 'ke
  | GenerateCertificate 'ke
  | PersistCertificate fs_error

datatype dump_error = DumpFailed fs_error | DumpGet "unit network_error"

datatype ('ke, 'fe, 'ne) proxy_error =
    StateDir fs_error
  | Identity "'ke identity_error"
  | ReadFixture fs_error
  | BuildFixture 'fe
  | NetworkConnect "'ne network_error"
  | Dump dump_error

definition load_or_create_keypair ::
  "('key, 'cert, 'ke) identity_libs \<Rightarrow> 'key \<Rightarrow> path \<Rightarrow> fs
     \<Rightarrow> ('key, 'ke identity_error) outcome \<times> fs" where
  "load_or_create_keypair I fresh p f =
     (case fs_read p f of
        Ok encoded \<Rightarrow> (map_err DecodeIdentity (from_protobuf I encoded), f)
      | _ \<Rightarrow>
        (case to_protobuf I fresh of
           Err e \<Rightarrow> (Err (EncodeIdentity e), f)
         | Panic \<Rightarrow> (Panic, f)
         | Ok encoded \<Rightarrow>
             (case fs_write p encoded f of
                (Ok _, f') \<Rightarrow> (Ok fresh, f')
              | (Err e, f') \<Rightarrow> (Err (PersistIdentity e), f')
              | (Panic, f') \<Rightarrow> (Panic, f'))))"

definition load_or_create_certificate ::
  "('key, 'cert, 'ke) identity_libs \<Rightarrow> ('cert, 'ke) outcome \<Rightarrow> path \<Rightarrow> fs
     \<Rightarrow> ('cert, 'ke identity_error) outcome \<times> fs" where
  "load_or_create_certificate I fresh p f =
     (case fs_read_to_string p f of
        Ok pem \<Rightarrow> (map_err ParseCertificate (from_pem I pem), f)
      | _ \<Rightarrow>
        (case fresh of
           Err e \<Rightarrow> (Err (GenerateCertificate e), f)
         | Panic \<Rightarrow> (Panic, f)
         | Ok certificate \<Rightarrow>
             (case fs_write p (serialize_pem I certificate) f of
                (Ok _, f') \<Rightarrow> (Ok certificate, f')
              | (Err e, f') \<Rightarrow> (Err (PersistCertificate e), f')
              | (Panic, f') \<Rightarrow> (Panic, f'))))"

section \<open>Dumping a fixture\<close>

text \<open>\<open>hex_encode\<close> is \<^verbatim>\<open>hex::encode\<close>; \<open>join\<close> appends a path segment.\<close>

definition join :: "path \<Rightarrow> byte list \<Rightarrow> path" where
  "join dir name = dir @ [name]"

fun dump_chunks ::
  "(byte list \<Rightarrow> byte list) \<Rightarrow> fixture_source \<Rightarrow> path \<Rightarrow> xorname list \<Rightarrow> fs
     \<Rightarrow> (unit, dump_error) outcome \<times> fs" where
  "dump_chunks hex_encode fixture dir [] f = (Ok (), f)"
| "dump_chunks hex_encode fixture dir (address # addresses) f =
     (case fixture_get fixture address :: (byte list option, unit network_error) outcome of
        Ok (Some bytes) \<Rightarrow>
          (case fs_write (join dir (hex_encode address)) bytes f of
             (Ok _, f') \<Rightarrow> dump_chunks hex_encode fixture dir addresses f'
           | (Err e, f') \<Rightarrow> (Err (DumpFailed e), f')
           | (Panic, f') \<Rightarrow> (Panic, f'))
      | Ok None \<Rightarrow> (Panic, f)
      | Err e \<Rightarrow> (Err (DumpGet e), f)
      | Panic \<Rightarrow> (Panic, f))"

definition data_map_address_name :: "byte list" where
  "data_map_address_name = map of_char ''data-map-address''"

definition dump ::
  "(byte list \<Rightarrow> byte list) \<Rightarrow> fixture_source \<Rightarrow> path \<Rightarrow> fs
     \<Rightarrow> (byte list, dump_error) outcome \<times> fs" where
  "dump hex_encode fixture dir f =
     (case fs_create_dir_all dir f of
        (Err e, f) \<Rightarrow> (Err (DumpFailed e), f)
      | (Panic, f) \<Rightarrow> (Panic, f)
      | (Ok _, f) \<Rightarrow>
          (case dump_chunks hex_encode fixture dir (fixture_addresses fixture) f of
             (Err e, f) \<Rightarrow> (Err e, f)
           | (Panic, f) \<Rightarrow> (Panic, f)
           | (Ok _, f) \<Rightarrow>
               (case fs_write (join dir data_map_address_name) (hex_encode (data_map_address fixture)) f of
                  (Err e, f) \<Rightarrow> (Err (DumpFailed e), f)
                | (Panic, f) \<Rightarrow> (Panic, f)
                | (Ok _, f) \<Rightarrow> (Ok (hex_encode (data_map_address fixture)), f))))"

section \<open>Starting up\<close>

datatype ip_addr = V4 "32 word" | V6 "128 word"

text \<open>The parsed arguments; \<^verbatim>\<open>clap\<close> refuses a fixture with peers and a dump without a fixture.\<close>

record ('addr) args =
  port :: u16
  bind_ip :: ip_addr
  advertise_ip :: "ip_addr option"
  state_dir :: path
  fixture :: "path option"
  bootstrap :: "'addr list"
  dump_to :: "path option"

text \<open>The two ways \<^verbatim>\<open>main\<close> goes on: a dump that ends the process, or a source to serve from.\<close>

datatype ('key, 'cert, 'client) started =
    Dumped "byte list"
  | Serving 'key 'cert "'client source" "xorname option"

definition identity_key_name :: "byte list" where
  "identity_key_name = map of_char ''identity.key''"

definition cert_pem_name :: "byte list" where
  "cert_pem_name = map of_char ''cert.pem''"

definition DEFAULT_BOOTSTRAP :: "string list" where
  "DEFAULT_BOOTSTRAP =
     [''207.148.94.42:10000'', ''45.77.50.10:10000'', ''66.135.23.83:10000'', ''149.248.9.2:10000'',
      ''49.12.119.240:10000'', ''5.161.25.133:10000'', ''18.228.202.183:10000'']"

text \<open>\<open>parse_addr\<close> is \<^verbatim>\<open>SocketAddr::from_str\<close>; a built-in peer it rejects makes \<^verbatim>\<open>expect\<close> panic.\<close>

fun parse_peers :: "(string \<Rightarrow> 'addr option) \<Rightarrow> string list \<Rightarrow> ('addr list, 'e) outcome" where
  "parse_peers parse_addr [] = Ok []"
| "parse_peers parse_addr (peer # peers) =
     (case parse_addr peer of
        None \<Rightarrow> Panic
      | Some addr \<Rightarrow> omap ((#) addr) (parse_peers parse_addr peers))"

definition choose_bootstrap :: "(string \<Rightarrow> 'addr option) \<Rightarrow> 'addr list \<Rightarrow> ('addr list, 'e) outcome" where
  "choose_bootstrap parse_addr given =
     (if given = [] then parse_peers parse_addr DEFAULT_BOOTSTRAP else Ok given)"

definition open_source ::
  "('map, 'info, 'chunk, 'se, 'rmp) source_libs \<Rightarrow> ('addr, 'client, 'ne) network_libs
     \<Rightarrow> (byte list \<Rightarrow> byte list) \<Rightarrow> (string \<Rightarrow> 'addr option) \<Rightarrow> 'addr args \<Rightarrow> 'key \<Rightarrow> 'cert \<Rightarrow> fs
     \<Rightarrow> (('key, 'cert, 'client) started, ('ke, ('se, 'rmp) fixture_error, 'ne) proxy_error) outcome \<times> fs" where
  "open_source P N hex_encode parse_addr a keypair certificate f =
     (case fixture a of
        Some path \<Rightarrow>
          (case fs_read path f of
             Err e \<Rightarrow> (Err (ReadFixture e), f)
           | Panic \<Rightarrow> (Panic, f)
           | Ok bytes \<Rightarrow>
               (case fixture_new P bytes of
                  Err e \<Rightarrow> (Err (BuildFixture e), f)
                | Panic \<Rightarrow> (Panic, f)
                | Ok fx \<Rightarrow>
                    (case dump_to a of
                       Some dir \<Rightarrow>
                         (case dump hex_encode fx dir f of (r, f') \<Rightarrow> (omap Dumped (map_err Dump r), f'))
                     | None \<Rightarrow> (Ok (Serving keypair certificate (Fixture fx) (Some (data_map_address fx))), f))))
      | None \<Rightarrow>
          (case obind (choose_bootstrap parse_addr (bootstrap a)) (network_connect N) of
             Err e \<Rightarrow> (Err (NetworkConnect e), f)
           | Panic \<Rightarrow> (Panic, f)
           | Ok client \<Rightarrow> (Ok (Serving keypair certificate (Network client) None), f)))"

definition proxy_start ::
  "('key, 'cert, 'ke) identity_libs \<Rightarrow> ('map, 'info, 'chunk, 'se, 'rmp) source_libs
     \<Rightarrow> ('addr, 'client, 'ne) network_libs \<Rightarrow> (byte list \<Rightarrow> byte list) \<Rightarrow> (string \<Rightarrow> 'addr option)
     \<Rightarrow> 'key \<Rightarrow> ('cert, 'ke) outcome \<Rightarrow> 'addr args \<Rightarrow> fs
     \<Rightarrow> (('key, 'cert, 'client) started, ('ke, ('se, 'rmp) fixture_error, 'ne) proxy_error) outcome \<times> fs" where
  "proxy_start I P N hex_encode parse_addr fresh_key fresh_cert a f =
     (case fs_create_dir_all (state_dir a) f of
        (Err e, f) \<Rightarrow> (Err (StateDir e), f)
      | (Panic, f) \<Rightarrow> (Panic, f)
      | (Ok _, f) \<Rightarrow>
          (case load_or_create_keypair I fresh_key (join (state_dir a) identity_key_name) f of
             (Err e, f) \<Rightarrow> (Err (Identity e), f)
           | (Panic, f) \<Rightarrow> (Panic, f)
           | (Ok keypair, f) \<Rightarrow>
               (case load_or_create_certificate I fresh_cert (join (state_dir a) cert_pem_name) f of
                  (Err e, f) \<Rightarrow> (Err (Identity e), f)
                | (Panic, f) \<Rightarrow> (Panic, f)
                | (Ok certificate, f) \<Rightarrow>
                    open_source P N hex_encode parse_addr a keypair certificate f)))"

section \<open>The advertised address\<close>

text \<open>The segments of a multiaddr the function looks at; every other kind of segment is opaque.\<close>

datatype 'seg segment = Ip4 "32 word" | Ip6 "128 word" | OtherSegment 'seg

fun advertise_segment :: "ip_addr \<Rightarrow> 'seg segment \<Rightarrow> 'seg segment" where
  "advertise_segment (V4 ip) (Ip4 _) = Ip4 ip"
| "advertise_segment (V6 ip) (Ip6 _) = Ip6 ip"
| "advertise_segment _ other = other"

definition advertised :: "'seg segment list \<Rightarrow> ip_addr option \<Rightarrow> 'seg segment list" where
  "advertised address advertise =
     (case advertise of None \<Rightarrow> address | Some public \<Rightarrow> map (advertise_segment public) address)"

text \<open>\<^verbatim>\<open>run\<close>: one report per new listen address, until the interrupt.\<close>

datatype 'seg swarm_event = NewListenAddr "'seg segment list" | Interrupt | OtherEvent

fun run ::
  "('seg segment list \<Rightarrow> 'dial option) \<Rightarrow> ip_addr option \<Rightarrow> xorname option \<Rightarrow> 'seg swarm_event list
     \<Rightarrow> ('dial \<times> xorname option) list \<Rightarrow> (('dial \<times> xorname option) list, unit) outcome" where
  "run with_p2p advertise dma [] printed = Ok printed"
| "run with_p2p advertise dma (Interrupt # evs) printed = Ok printed"
| "run with_p2p advertise dma (OtherEvent # evs) printed = run with_p2p advertise dma evs printed"
| "run with_p2p advertise dma (NewListenAddr address # evs) printed =
     (case with_p2p (advertised address advertise) of
        None \<Rightarrow> Panic
      | Some dial \<Rightarrow> run with_p2p advertise dma evs (printed @ [(dial, dma)]))"

section \<open>The identity survives restarts\<close>

definition identity_roundtrip :: "('key, 'cert, 'ke) identity_libs \<Rightarrow> bool" where
  "identity_roundtrip I \<longleftrightarrow>
     (\<forall>k e. to_protobuf I k = Ok e \<longrightarrow> from_protobuf I e = Ok k)
     \<and> (\<forall>c. utf8_valid (serialize_pem I c) \<and> from_pem I (serialize_pem I c) = Ok c)"

lemma load_keypair_Ok:
  assumes "load_or_create_keypair I fresh p f = (Ok k, f')" and "identity_roundtrip I"
    and "\<not> unreadable f p"
  shows "\<exists>e. files f' p = Some e \<and> from_protobuf I e = Ok k"
    and "dirs f' = dirs f" and "unreadable f' = unreadable f" and "unwritable f' = unwritable f"
    and "\<And>q. q \<noteq> p \<Longrightarrow> files f' q = files f q"
  using assms
  by (auto simp: load_or_create_keypair_def fs_read_def fs_write_def identity_roundtrip_def
      split: outcome.splits option.splits if_splits)

lemma load_certificate_Ok:
  assumes "load_or_create_certificate I fresh p f = (Ok c, f')" and "identity_roundtrip I"
    and "\<not> unreadable f p"
  shows "\<exists>e. files f' p = Some e \<and> utf8_valid e \<and> from_pem I e = Ok c"
    and "dirs f' = dirs f" and "unreadable f' = unreadable f" and "unwritable f' = unwritable f"
    and "\<And>q. q \<noteq> p \<Longrightarrow> files f' q = files f q"
  using assms
  by (auto simp: load_or_create_certificate_def fs_read_to_string_def fs_read_def fs_write_def
      identity_roundtrip_def split: outcome.splits option.splits if_splits)

lemma load_keypair_present:
  assumes "files f p = Some e" and "from_protobuf I e = Ok k" and "\<not> unreadable f p"
  shows "load_or_create_keypair I fresh p f = (Ok k, f)"
  using assms by (simp add: load_or_create_keypair_def fs_read_def)

lemma load_certificate_present:
  assumes "files f p = Some e" and "utf8_valid e" and "from_pem I e = Ok c" and "\<not> unreadable f p"
  shows "load_or_create_certificate I fresh p f = (Ok c, f)"
  using assms by (simp add: load_or_create_certificate_def fs_read_to_string_def fs_read_def)

lemma open_source_serving:
  assumes "open_source P N hx D a k c f = (Ok (Serving k' c' src dma), f')"
  shows "k' = k \<and> c' = c \<and> f' = f"
  using assms
  by (auto simp: open_source_def omap_eq_Ok split: option.splits outcome.splits prod.splits)

lemma proxy_start_Ok:
  assumes "proxy_start I P N hx D fk fc a f = (Ok (Serving k c src dma), f')"
  obtains f1 f2 where "fs_create_dir_all (state_dir a) f = (Ok (), f1)"
    "load_or_create_keypair I fk (join (state_dir a) identity_key_name) f1 = (Ok k, f2)"
    "load_or_create_certificate I fc (join (state_dir a) cert_pem_name) f2 = (Ok c, f')"
  using assms
  by (auto simp: proxy_start_def split: prod.splits outcome.splits dest!: open_source_serving)

lemma identity_paths: "join d identity_key_name \<noteq> join d cert_pem_name"
  by (simp add: join_def identity_key_name_def cert_pem_name_def)

text \<open>
  C16. The identity clients hard-code survives restarts: when a run served with a key pair and a
  certificate, every later run on the files it left, whatever other source it serves and whatever
  fresh key and certificate it could generate, serves with the same two (provided their encodings
  round-trip and the two files are readable).
\<close>

theorem identity_survives_restart:
  assumes "identity_roundtrip I"
    and "\<not> unreadable f (join (state_dir a) identity_key_name)"
    and "\<not> unreadable f (join (state_dir a) cert_pem_name)"
    and "proxy_start I P N hx D fk fc a f = (Ok (Serving k c src dma), f')"
    and "proxy_start I P' N' hx' D' fk' fc' a' f' = (Ok (Serving k' c' src' dma'), f'')"
    and "state_dir a' = state_dir a"
  shows "k' = k \<and> c' = c"
proof -
  let ?kp = "join (state_dir a) identity_key_name" and ?cp = "join (state_dir a) cert_pem_name"
  obtain f1 f2 where s1: "fs_create_dir_all (state_dir a) f = (Ok (), f1)"
    "load_or_create_keypair I fk ?kp f1 = (Ok k, f2)" "load_or_create_certificate I fc ?cp f2 = (Ok c, f')"
    by (rule proxy_start_Ok [OF assms(4)])
  obtain g1 g2 where s2: "fs_create_dir_all (state_dir a) f' = (Ok (), g1)"
    "load_or_create_keypair I fk' ?kp g1 = (Ok k', g2)" "load_or_create_certificate I fc' ?cp g2 = (Ok c', f'')"
    by (rule proxy_start_Ok [OF assms(5), unfolded assms(6)])
  have f1: "unreadable f1 = unreadable f" using s1(1) by (auto simp: fs_create_dir_all_def split: if_splits)
  have g1: "files g1 = files f'" "unreadable g1 = unreadable f'"
    using s2(1) by (auto simp: fs_create_dir_all_def split: if_splits)
  note key = load_keypair_Ok [OF s1(2) assms(1)]
  note cert = load_certificate_Ok [OF s1(3) assms(1)]
  obtain e where e: "files f2 ?kp = Some e" "from_protobuf I e = Ok k"
    using key(1) assms(2) f1 by auto
  then have "files g1 ?kp = Some e"
    using cert(5) identity_paths key(3) assms(2,3) f1 g1 by simp
  moreover have unr: "unreadable g1 = unreadable f"
    using key(3) cert(3) assms(2,3) f1 g1(2) by simp
  ultimately have "load_or_create_keypair I fk' ?kp g1 = (Ok k, g1)"
    using e(2) assms(2) by (intro load_keypair_present) simp_all
  with s2(2) have k: "k' = k" "g2 = g1" by simp_all
  obtain e' where "files f' ?cp = Some e'" "utf8_valid e'" "from_pem I e' = Ok c"
    using cert(1) key(3) assms(2,3) f1 by auto
  then have "load_or_create_certificate I fc' ?cp g2 = (Ok c, g2)"
    using k(2) g1(1) unr assms(3) by (intro load_certificate_present) simp_all
  with s2(3) k(1) show ?thesis by simp
qed

text \<open>
  The identity is replaced, not only created on the first run: when the key file exists but cannot
  be read, or the certificate file is not UTF-8, the proxy overwrites it with a fresh one and carries
  on, and the previous identity is gone.
\<close>

theorem identity_replaced_when_unreadable:
  assumes "files f kp = Some old_key" and "unreadable f kp" and "\<not> unwritable f kp"
    and "to_protobuf I fresh_key = Ok encoded"
    and "files f cp = Some old_cert" and "\<not> utf8_valid old_cert" and "\<not> unwritable f cp"
  shows "load_or_create_keypair I fresh_key kp f = (Ok fresh_key, f\<lparr>files := (files f)(kp \<mapsto> encoded)\<rparr>)
    \<and> load_or_create_certificate I (Ok fresh_cert) cp f
        = (Ok fresh_cert, f\<lparr>files := (files f)(cp \<mapsto> serialize_pem I fresh_cert)\<rparr>)"
  using assms
  by (simp add: load_or_create_keypair_def load_or_create_certificate_def fs_read_to_string_def
      fs_read_def fs_write_def)

section \<open>A dump is complete\<close>

lemma dump_chunks_files:
  assumes "dump_chunks hx fx dir as f = (Ok u, f')" and "inj_on hx (set as)"
  shows "\<forall>a \<in> set as. files f' (join dir (hx a)) = map_of (source_chunks fx) a"
    and "\<forall>p. p \<notin> (\<lambda>a. join dir (hx a)) ` set as \<longrightarrow> files f' p = files f p"
  using assms
proof (induction as arbitrary: f)
  case Nil
  { case 1 then show ?case by simp }
  { case 2 then show ?case by simp }
next
  case (Cons a as)
  { case 1
    then obtain bs f1 where step: "map_of (source_chunks fx) a = Some bs"
      "f1 = f\<lparr>files := (files f)(join dir (hx a) \<mapsto> bs)\<rparr>" "dump_chunks hx fx dir as f1 = (Ok u, f')"
      by (auto simp: fixture_get_def fs_write_def split: option.splits if_splits)
    from 1(2) have inj: "inj_on hx (set as)" by simp
    note IH = Cons.IH [OF step(3) inj]
    show ?case
    proof
      fix b assume b: "b \<in> set (a # as)"
      show "files f' (join dir (hx b)) = map_of (source_chunks fx) b"
      proof (cases "b \<in> set as")
        case True
        with IH(1) show ?thesis by blast
      next
        case False
        with b 1(2) have "b = a" "join dir (hx b) \<notin> (\<lambda>a. join dir (hx a)) ` set as"
          by (auto simp: join_def inj_on_def)
        with IH(2) step(1,2) show ?thesis by simp
      qed
    qed }
  { case 2
    then obtain bs f1 where step: "f1 = f\<lparr>files := (files f)(join dir (hx a) \<mapsto> bs)\<rparr>"
      "dump_chunks hx fx dir as f1 = (Ok u, f')"
      by (auto simp: fixture_get_def fs_write_def split: option.splits if_splits)
    from 2(2) have inj: "inj_on hx (set as)" by simp
    from Cons.IH(2) [OF step(2) inj] step(1) show ?case by auto }
qed

text \<open>Whatever the result, a dump touches only the files named after the addresses.\<close>

lemma dump_chunks_frame:
  assumes "dump_chunks hx fx dir as f = (r, f')"
  shows "(p \<notin> (\<lambda>a. join dir (hx a)) ` set as \<longrightarrow> files f' p = files f p)
    \<and> dirs f' = dirs f \<and> unreadable f' = unreadable f \<and> unwritable f' = unwritable f"
  using assms
proof (induction as arbitrary: f)
  case (Cons a as)
  show ?case
  proof (cases "dump_chunks hx fx dir (a # as) f = (r, f)")
    case True
    with Cons.prems show ?thesis by simp
  next
    case False
    with Cons.prems obtain bs where
      "dump_chunks hx fx dir as (f\<lparr>files := (files f)(join dir (hx a) \<mapsto> bs)\<rparr>) = (r, f')"
      by (auto simp: fixture_get_def fs_write_def split: option.splits if_splits)
    from Cons.IH [OF this] show ?thesis by auto
  qed
qed simp

lemma dump_frame:
  assumes "dump hx fx dir f = (r, f')"
    and "p \<notin> insert (join dir data_map_address_name) ((\<lambda>a. join dir (hx a)) ` set (fixture_addresses fx))"
  shows "files f' p = files f p"
    and "dirs f' \<subseteq> insert dir (dirs f) \<and> unreadable f' = unreadable f \<and> unwritable f' = unwritable f"
proof -
  let ?f1 = "f\<lparr>dirs := insert dir (dirs f)\<rparr>"
  obtain rc f2 where dc: "dump_chunks hx fx dir (fixture_addresses fx) ?f1 = (rc, f2)"
    by fastforce
  note frame = dump_chunks_frame [OF dc, of p]
  have f': "f' = f \<or> f' = f2 \<or> f' = f2\<lparr>files := (files f2)(join dir data_map_address_name \<mapsto> hx (data_map_address fx))\<rparr>"
    using assms(1) dc
    by (auto simp: dump_def fs_create_dir_all_def fs_write_def split: if_splits outcome.splits)
  then show "files f' p = files f p"
    using frame assms(2) by (elim disjE) simp_all
  show "dirs f' \<subseteq> insert dir (dirs f) \<and> unreadable f' = unreadable f \<and> unwritable f' = unwritable f"
    using f' frame by (elim disjE) (simp_all add: subset_insertI)
qed

lemma dump_chunks_no_panic:
  "set as \<subseteq> set (fixture_addresses fx) \<Longrightarrow> fst (dump_chunks hx fx dir as f) \<noteq> Panic"
proof (induction as arbitrary: f)
  case (Cons a as)
  then have "map_of (source_chunks fx) a \<noteq> None"
    by (auto simp: fixture_addresses_def map_of_eq_None_iff)
  with Cons show ?case
    by (auto simp: fixture_get_def fs_write_def split: option.splits)
qed simp


section \<open>Advertising\<close>

fun other_segments :: "'seg segment list \<Rightarrow> 'seg list" where
  "other_segments [] = []"
| "other_segments (OtherSegment x # ss) = x # other_segments ss"
| "other_segments (_ # ss) = other_segments ss"

lemma advertise_segment_idem: "advertise_segment ip (advertise_segment ip s) = advertise_segment ip s"
  by (cases ip; cases s) auto

lemma other_segments_advertised: "other_segments (map (advertise_segment ip) a) = other_segments a"
  by (induction a rule: other_segments.induct; cases ip) auto

text \<open>
  Advertising a public address changes only the address: port, certificate hash and every other
  segment stay in place, IPv4 segments become the public IPv4 address and IPv6 segments stay when the
  public address is IPv4 (and conversely), and advertising twice is advertising once.
\<close>

theorem advertised_changes_only_ip:
  "length (advertised a p) = length a \<and> other_segments (advertised a p) = other_segments a
   \<and> advertised (advertised a p) p = advertised a p
   \<and> {v. Ip4 v \<in> set (advertised a (Some (V4 ip)))} \<subseteq> {ip}
   \<and> {v. Ip6 v \<in> set (advertised a (Some (V4 ip)))} = {v. Ip6 v \<in> set a}
   \<and> {v. Ip6 v \<in> set (advertised a (Some (V6 ip'))) } \<subseteq> {ip'}
   \<and> {v. Ip4 v \<in> set (advertised a (Some (V6 ip')))} = {v. Ip4 v \<in> set a}
   \<and> advertised a None = a"
proof -
  have seg: "Ip4 v = advertise_segment (V4 ip) s \<Longrightarrow> v = ip" "Ip6 v' = advertise_segment (V4 ip) s \<longleftrightarrow> s = Ip6 v'"
    "Ip6 v' = advertise_segment (V6 ip') s \<Longrightarrow> v' = ip'" "Ip4 v = advertise_segment (V6 ip') s \<longleftrightarrow> s = Ip4 v"
    for v v' and s :: "'a segment"
    by (cases s; auto)+
  have "advertised (advertised a p) p = advertised a p"
    by (simp add: advertised_def advertise_segment_idem split: option.splits)
  moreover have "other_segments (advertised a p) = other_segments a"
    by (simp add: advertised_def other_segments_advertised split: option.splits)
  ultimately show ?thesis
    by (auto simp: advertised_def seg image_iff split: option.splits)
qed

section \<open>Witnesses\<close>

definition demo_identity :: "(byte, bool, nat) identity_libs" where
  "demo_identity = \<lparr>from_protobuf = (\<lambda>bs. case bs of [b] \<Rightarrow> Ok b | _ \<Rightarrow> Err 1), to_protobuf = (\<lambda>b. Ok [b]),
     from_pem = (\<lambda>bs. case bs of [b] \<Rightarrow> Ok (b = 1) | _ \<Rightarrow> Err 2),
     serialize_pem = (\<lambda>c. if c then [1] else [0])\<rparr>"

definition demo_fs :: fs where
  "demo_fs = \<lparr>files = Map.empty, dirs = {}, unreadable = (\<lambda>_. False), unwritable = (\<lambda>_. False)\<rparr>"

definition demo_args :: "nat args" where
  "demo_args = \<lparr>port = 4001, bind_ip = V4 0, advertise_ip = None, state_dir = [[115]], fixture = None, bootstrap = [], dump_to = None\<rparr>"

definition demo_start :: "byte \<Rightarrow> bool \<Rightarrow> fs \<Rightarrow>
    ((byte, bool, nat) started, (nat, (nat, nat) fixture_error, nat) proxy_error) outcome \<times> fs" where
  "demo_start k c f = proxy_start demo_identity demo_source_libs demo_network_libs hex (\<lambda>_. Some 1) k (Ok c) demo_args f"

lemma demo_roundtrip: "identity_roundtrip demo_identity"
  by (auto simp: identity_roundtrip_def demo_identity_def)

lemma demo_starts:
  "fst (demo_start 5 True demo_fs) = Ok (Serving 5 True (Network 0) None)"
  "is_ok (fst (demo_start 9 False (snd (demo_start 5 True demo_fs))))"
  by code_simp+

theorem identity_survives_restart_witness:
  "\<exists>src dma. fst (demo_start 9 False (snd (demo_start 5 True demo_fs))) = Ok (Serving 5 True src dma)"
proof -
  have s1: "demo_start 5 True demo_fs = (Ok (Serving 5 True (Network 0) None), snd (demo_start 5 True demo_fs))"
    using demo_starts(1) by (metis prod.collapse)
  have "\<not> (\<exists>t. fst (demo_start 9 False (snd (demo_start 5 True demo_fs))) = Ok (Dumped t))"
    by (auto simp: demo_start_def proxy_start_def open_source_def demo_args_def
        split: prod.splits outcome.splits)
  then obtain k c src dma where s2: "demo_start 9 False (snd (demo_start 5 True demo_fs))
      = (Ok (Serving k c src dma), snd (demo_start 9 False (snd (demo_start 5 True demo_fs))))"
    using demo_starts(2) by (metis is_ok_iff prod.collapse started.exhaust)
  have "k = 5 \<and> c = True"
    by (rule identity_survives_restart [OF demo_roundtrip _ _ s1 [unfolded demo_start_def] s2 [unfolded demo_start_def]])
      (simp_all add: demo_fs_def)
  with s2 show ?thesis by (metis fst_conv)
qed

definition demo_fs_bad :: fs where
  "demo_fs_bad = demo_fs\<lparr>files := [[[1]] \<mapsto> [5], [[2]] \<mapsto> [0xFF]], unreadable := (\<lambda>p. p = [[1]])\<rparr>"

theorem identity_replaced_when_unreadable_witness:
  "fst (load_or_create_keypair demo_identity 9 [[1]] demo_fs_bad) = Ok 9
   \<and> fst (load_or_create_certificate demo_identity (Ok True) [[2]] demo_fs_bad) = Ok True"
proof -
  have "files demo_fs_bad [[1]] = Some [5]" "unreadable demo_fs_bad [[1]]" "\<not> unwritable demo_fs_bad [[1]]"
    "to_protobuf demo_identity 9 = Ok [9]" "files demo_fs_bad [[2]] = Some [0xFF]"
    "\<not> utf8_valid [0xFF]" "\<not> unwritable demo_fs_bad [[2]]"
    by (simp_all add: demo_fs_bad_def demo_fs_def demo_identity_def)
  from identity_replaced_when_unreadable [OF this, of True] show ?thesis by simp
qed

lemma demo_dump_names:
  "inj_on hex (set (fixture_addresses demo_fixture))"
  "data_map_address_name \<notin> hex ` set (fixture_addresses demo_fixture)"
proof -
  have "distinct (map hex (fixture_addresses demo_fixture))"
    by code_simp
  then show "inj_on hex (set (fixture_addresses demo_fixture))"
    by (rule conjunct2 [OF distinct_map [THEN iffD1]])
  have "data_map_address_name \<notin> set (map hex (fixture_addresses demo_fixture))"
    by code_simp
  then show "data_map_address_name \<notin> hex ` set (fixture_addresses demo_fixture)"
    by simp
qed


end
