(* ===== verification/Proxy_Process.thy ===== *)
theory Proxy_Process
  imports Proxy_Main
begin

text \<open>
  The proxy process as a whole (the rest of \<^verbatim>\<open>main\<close> in \<^verbatim>\<open>crates/proxy/src/main.rs\<close>): once the identity
  and the source are there, it registers the fetch protocol, builds the listen multiaddr from the
  arguments as text, listens on it, serves the inbound streams and reports the addresses to dial. The
  theory shows on which address a process that serves listens, and that it cannot serve on an IPv6
  address.
\<close>

section \<open>Printing addresses\<close>

text \<open>\<^verbatim>\<open>Display\<close> of integers and IP addresses, as in the standard library.\<close>

definition digit_char :: "nat \<Rightarrow> char" where
  "digit_char d = char_of (if d < 10 then 48 + d else 87 + d)"

fun show_base :: "nat \<Rightarrow> nat \<Rightarrow> string" where
  "show_base b n = (if n < b \<or> b < 2 then [digit_char n] else show_base b (n div b) @ [digit_char (n mod b)])"

declare show_base.simps [simp del]

fun join_with :: "string \<Rightarrow> string list \<Rightarrow> string" where
  "join_with sep [] = []"
| "join_with sep [s] = s"
| "join_with sep (s # ss) = s @ sep @ join_with sep ss"

definition show_ipv4 :: "32 word \<Rightarrow> string" where
  "show_ipv4 ip = join_with ''.'' (map (\<lambda>i. show_base 10 (unat ip div 2 ^ i mod 256)) [24, 16, 8, 0])"

definition ipv6_segments :: "128 word \<Rightarrow> nat list" where
  "ipv6_segments ip = map (\<lambda>i. unat ip div 2 ^ i mod 65536) [112, 96, 80, 64, 48, 32, 16, 0]"

text \<open>
  The longest run of zero segments, the first of several: the loop carries the index, the current run
  and the longest one, a run being its start and its length.
\<close>

fun longest_zeroes :: "nat list \<Rightarrow> nat \<Rightarrow> nat \<times> nat \<Rightarrow> nat \<times> nat \<Rightarrow> nat \<times> nat" where
  "longest_zeroes [] i current longest = longest"
| "longest_zeroes (s # ss) i current longest =
     (if s = 0
      then let current = (if snd current = 0 then i else fst current, snd current + 1)
           in longest_zeroes ss (i + 1) current (if snd current > snd longest then current else longest)
      else longest_zeroes ss (i + 1) (0, 0) longest)"

definition show_segments :: "nat list \<Rightarrow> string" where
  "show_segments ss = join_with '':'' (map (show_base 16) ss)"

definition show_ipv6 :: "128 word \<Rightarrow> string" where
  "show_ipv6 ip =
     (let ss = ipv6_segments ip in
      if take 6 ss = [0, 0, 0, 0, 0, 65535] then ''::ffff:'' @ show_ipv4 (of_nat (unat ip mod 2 ^ 32))
      else let (start, len) = longest_zeroes ss 0 (0, 0) (0, 0) in
        if len > 1 then show_segments (take start ss) @ ''::'' @ show_segments (drop (start + len) ss)
        else show_segments ss)"

fun show_ip :: "ip_addr \<Rightarrow> string" where
  "show_ip (V4 ip) = show_ipv4 ip"
| "show_ip (V6 ip) = show_ipv6 ip"

section \<open>The process\<close>

definition PROTOCOL :: string where
  "PROTOCOL = ''/autonomi-fetch/0.1.0''"

definition listen_text :: "ip_addr \<Rightarrow> u16 \<Rightarrow> string" where
  "listen_text ip p = ''/ip4/'' @ show_ip ip @ ''/udp/'' @ show_base 10 (unat p) @ ''/webrtc-direct''"

text \<open>
  What \<^verbatim>\<open>main\<close> calls of libp2p: registering a stream protocol, parsing a multiaddr, listening, and
  completing an address with the peer id of a key pair. Building the transport and the behaviour
  from their constructors cannot fail.
\<close>

record ('key, 'seg, 'dial, 'le) swarm_libs =
  accept_protocol :: "string \<Rightarrow> (unit, 'le) outcome"
  parse_multiaddr :: "string \<Rightarrow> ('seg segment list, 'le) outcome"
  listen_on :: "'seg segment list \<Rightarrow> (unit, 'le) outcome"
  with_p2p :: "'key \<Rightarrow> 'seg segment list \<Rightarrow> 'dial option"

datatype ('pe, 'le) main_error =
    Startup 'pe
  | RegisterProtocol 'le
  | ListenMultiaddr 'le
  | ListenFailed 'le

text \<open>
  What a run leaves: the address of a dump, or for a process that served the source, the address it
  listens on, what it printed and what became of the streams.
\<close>

datatype ('client, 'seg, 'dial, 'e) main_result =
    DumpPrinted "byte list"
  | Served "'client source" "'seg segment list" "('dial \<times> xorname option) list"
      "((unit, 'e request_error) outcome \<times> stream) list"

definition listen_and_run ::
  "('addr, 'client, 'ne) network_libs \<Rightarrow> ('key, 'seg, 'dial, 'le) swarm_libs \<Rightarrow> 'addr args \<Rightarrow> 'key
     \<Rightarrow> 'client source \<Rightarrow> xorname option \<Rightarrow> stream list \<Rightarrow> 'seg swarm_event list
     \<Rightarrow> (('client, 'seg, 'dial, 'ne network_error) main_result, ('pe, 'le) main_error) outcome" where
  "listen_and_run N S a keypair src dma incoming events =
     obind (map_err RegisterProtocol (accept_protocol S PROTOCOL)) (\<lambda>_.
     obind (map_err ListenMultiaddr (parse_multiaddr S (listen_text (bind_ip a) (port a)))) (\<lambda>listen_addr.
     obind (map_err ListenFailed (listen_on S listen_addr)) (\<lambda>_.
     case run (with_p2p S keypair) (advertise_ip a) dma events [] of
       Ok printed \<Rightarrow> Ok (Served src listen_addr printed (serve (source_get N src) incoming))
     | _ \<Rightarrow> Panic)))"

definition proxy_main ::
  "('key, 'cert, 'ke) identity_libs \<Rightarrow> ('map, 'info, 'chunk, 'se, 'rmp) source_libs
     \<Rightarrow> ('addr, 'client, 'ne) network_libs \<Rightarrow> ('key, 'seg, 'dial, 'le) swarm_libs
     \<Rightarrow> (byte list \<Rightarrow> byte list) \<Rightarrow> (string \<Rightarrow> 'addr option) \<Rightarrow> 'key \<Rightarrow> ('cert, 'ke) outcome
     \<Rightarrow> 'addr args \<Rightarrow> stream list \<Rightarrow> 'seg swarm_event list \<Rightarrow> fs
     \<Rightarrow> (('client, 'seg, 'dial, 'ne network_error) main_result,
         (('ke, ('se, 'rmp) fixture_error, 'ne) proxy_error, 'le) main_error) outcome \<times> fs" where
  "proxy_main I P N S hex_encode parse_addr fresh_key fresh_cert a incoming events f =
     (case proxy_start I P N hex_encode parse_addr fresh_key fresh_cert a f of
        (Err e, f) \<Rightarrow> (Err (Startup e), f)
      | (Panic, f) \<Rightarrow> (Panic, f)
      | (Ok (Dumped t), f) \<Rightarrow> (Ok (DumpPrinted t), f)
      | (Ok (Serving keypair certificate src dma), f) \<Rightarrow>
          (listen_and_run N S a keypair src dma incoming events, f))"

section \<open>The text of an address\<close>

lemma char_codes:
  "of_char (CHR ''/'') = (47 :: nat)" "of_char (CHR '':'') = (58 :: nat)" "of_char (CHR ''.'') = (46 :: nat)"
  by simp_all

lemma char_of_digit: "d < 16 \<Longrightarrow> digit_char d \<notin> {CHR ''/'', CHR '':'', CHR ''.''}"
proof -
  assume "d < 16"
  then have "of_char (digit_char d) = (if d < 10 then 48 + d else 87 + d)"
    by (simp add: digit_char_def)
  moreover from \<open>d < 16\<close> have "(if d < 10 then 48 + d else 87 + d) \<notin> {47, 58, 46}" by simp
  ultimately show ?thesis by (metis (no_types) char_codes insertE insertCI singletonD)
qed

lemma show_base_chars:
  "2 \<le> b \<Longrightarrow> b \<le> 16 \<Longrightarrow> set (show_base b n) \<inter> {CHR ''/'', CHR '':'', CHR ''.''} = {}"
proof (induction b n rule: show_base.induct)
  case (1 b n)
  show ?case
  proof (cases "n < b")
    case True
    with 1(3) char_of_digit [of n] show ?thesis by (subst show_base.simps) auto
  next
    case False
    have "n mod b < b" using 1(2) by simp
    with 1(3) have "digit_char (n mod b) \<notin> {CHR ''/'', CHR '':'', CHR ''.''}"
      by (intro char_of_digit) simp
    with False 1 show ?thesis by (subst show_base.simps) auto
  qed
qed

lemma set_join_with: "set (join_with sep ss) \<subseteq> set sep \<union> \<Union> (set ` set ss)"
  by (induction sep ss rule: join_with.induct) auto

lemma join_with_sep: "2 \<le> length ss \<Longrightarrow> set sep \<subseteq> set (join_with sep ss)"
  by (induction sep ss rule: join_with.induct) auto

lemma show_ipv4_chars: "CHR ''/'' \<notin> set (show_ipv4 ip)" "CHR '':'' \<notin> set (show_ipv4 ip)"
proof -
  have "set (show_ipv4 ip) \<subseteq> {CHR ''.''} \<union> (\<Union>n. set (show_base 10 n))"
    unfolding show_ipv4_def by (rule order_trans [OF set_join_with]) auto
  moreover have "set (show_base 10 n) \<inter> {CHR ''/'', CHR '':'', CHR ''.''} = {}" for n
    by (rule show_base_chars) simp_all
  ultimately show "CHR ''/'' \<notin> set (show_ipv4 ip)" "CHR '':'' \<notin> set (show_ipv4 ip)"
    by (blast, blast)
qed

lemma show_segments_slash: "CHR ''/'' \<notin> set (show_segments ss)"
proof -
  have "set (show_segments ss) \<subseteq> {CHR '':''} \<union> (\<Union>n. set (show_base 16 n))"
    unfolding show_segments_def by (rule order_trans [OF set_join_with]) auto
  moreover have "set (show_base 16 n) \<inter> {CHR ''/'', CHR '':'', CHR ''.''} = {}" for n
    by (rule show_base_chars) simp_all
  ultimately show ?thesis by blast
qed

lemma show_ipv6_chars: "CHR '':'' \<in> set (show_ipv6 ip)" "CHR ''/'' \<notin> set (show_ipv6 ip)"
proof -
  have "2 \<le> length (map (show_base 16) (ipv6_segments ip))" by (simp add: ipv6_segments_def)
  from join_with_sep [OF this, of "'':''"] have "CHR '':'' \<in> set (show_segments (ipv6_segments ip))"
    by (simp add: show_segments_def)
  then show "CHR '':'' \<in> set (show_ipv6 ip)"
    by (simp add: show_ipv6_def Let_def case_prod_beta)
  show "CHR ''/'' \<notin> set (show_ipv6 ip)"
    using show_segments_slash show_ipv4_chars by (simp add: show_ipv6_def Let_def case_prod_beta)
qed

lemma show_ipv6_not_ipv4: "show_ipv6 ip \<noteq> show_ipv4 ip'"
  using show_ipv6_chars(1) show_ipv4_chars(2) by metis

section \<open>Where the process listens\<close>

text \<open>
  The text format of multiaddrs, as its specification has it: an address that starts with \<open>/ip4/\<close>
  holds an IPv4 address up to the next slash and starts with it, any other text there is an error; and
  a UDP port and the transport are written after it.
\<close>

definition multiaddr_format :: "('key, 'seg, 'dial, 'le) swarm_libs \<Rightarrow> (u16 \<Rightarrow> 'seg) \<Rightarrow> 'seg \<Rightarrow> bool" where
  "multiaddr_format S udp webrtc_direct \<longleftrightarrow>
     (\<forall>v rest. CHR ''/'' \<notin> set v \<longrightarrow> v \<notin> range show_ipv4 \<longrightarrow>
        (\<exists>e. parse_multiaddr S (''/ip4/'' @ v @ ''/'' @ rest) = Err e))
     \<and> (\<forall>ip p. parse_multiaddr S (''/ip4/'' @ show_ipv4 ip @ ''/udp/'' @ show_base 10 (unat p) @ ''/webrtc-direct'')
          = Ok [Ip4 ip, OtherSegment (udp p), OtherSegment webrtc_direct])"

lemma parse_listen_text:
  assumes "multiaddr_format S udp wd"
  shows "parse_multiaddr S (listen_text (V4 ip) p) = Ok [Ip4 ip, OtherSegment (udp p), OtherSegment wd]"
    and "\<exists>e. parse_multiaddr S (listen_text (V6 ip') p) = Err e"
proof -
  show "parse_multiaddr S (listen_text (V4 ip) p) = Ok [Ip4 ip, OtherSegment (udp p), OtherSegment wd]"
    using assms by (simp add: multiaddr_format_def listen_text_def)
  have "show_ipv6 ip' \<notin> range show_ipv4" using show_ipv6_not_ipv4 by blast
  with assms show_ipv6_chars(2)
  have "\<exists>e. parse_multiaddr S (''/ip4/'' @ show_ipv6 ip' @ ''/'' @ rest) = Err e" for rest
    unfolding multiaddr_format_def by blast
  from this [of "''udp/'' @ show_base 10 (unat p) @ ''/webrtc-direct''"]
  show "\<exists>e. parse_multiaddr S (listen_text (V6 ip') p) = Err e" by (simp add: listen_text_def)
qed

lemma run_reports:
  "run wp adv dma evs acc = Ok printed \<Longrightarrow>
     \<exists>new. printed = acc @ new \<and>
       (\<forall>(dial, published) \<in> set new. published = dma \<and> (\<exists>address. NewListenAddr address \<in> set evs
          \<and> wp (advertised address adv) = Some dial))"
proof (induction wp adv dma evs acc rule: run.induct)
  case (4 wp adv dma address evs acc)
  then obtain dial where d: "wp (advertised address adv) = Some dial"
    "run wp adv dma evs (acc @ [(dial, dma)]) = Ok printed"
    by (auto split: option.splits)
  from "4.IH" [OF d] obtain new where "printed = acc @ (dial, dma) # new"
    "\<forall>(dial, published) \<in> set new. published = dma \<and> (\<exists>address. NewListenAddr address \<in> set evs
       \<and> wp (advertised address adv) = Some dial)" by auto
  with d(1) show ?case by (intro exI [of _ "(dial, dma) # new"]) auto
qed auto

lemma listen_and_run_Ok:
  assumes "listen_and_run N S a k src dma incoming events = Ok res"
  obtains la printed where "parse_multiaddr S (listen_text (bind_ip a) (port a)) = Ok la"
    "run (with_p2p S k) (advertise_ip a) dma events [] = Ok printed"
    "res = Served src la printed (serve (source_get N src) incoming)"
  using assms
  by (cases "run (with_p2p S k) (advertise_ip a) dma events []") (auto simp: listen_and_run_def obind_eq_Ok)

lemma proxy_main_Served:
  assumes "proxy_main I P N S hx pa fk fc a incoming events f = (Ok (Served src la printed served), f')"
  obtains k c dma where "proxy_start I P N hx pa fk fc a f = (Ok (Serving k c src dma), f')"
    "run (with_p2p S k) (advertise_ip a) dma events [] = Ok printed"
    "served = serve (source_get N src) incoming"
proof -
  obtain r f1 where start: "proxy_start I P N hx pa fk fc a f = (r, f1)" by fastforce
  with assms obtain st where r: "r = Ok st" by (cases r) (simp_all add: proxy_main_def)
  with assms start obtain k c src' dma where st: "st = Serving k c src' dma"
    by (cases st) (simp_all add: proxy_main_def)
  note main = assms [unfolded proxy_main_def start r st, simplified]
  show ?thesis
    by (rule listen_and_run_Ok [OF conjunct1 [OF main]]) (use that start r st main in auto)
qed

lemma open_source_fixture:
  assumes "open_source P N hx pa a k c f = (Ok (Serving k' c' src dma), f')" and "fixture a = Some path"
  shows "\<exists>bytes fx. fs_read path f' = Ok bytes \<and> fixture_new P bytes = Ok fx
    \<and> src = Fixture fx \<and> dma = Some (data_map_address fx)"
  using assms by (auto simp: open_source_def omap_eq_Ok split: option.splits outcome.splits prod.splits)

lemma proxy_start_fixture:
  assumes "proxy_start I P N hx pa fk fc a f = (Ok (Serving k c src dma), f')" and "fixture a = Some path"
  shows "\<exists>bytes fx. fs_read path f' = Ok bytes \<and> fixture_new P bytes = Ok fx
    \<and> src = Fixture fx \<and> dma = Some (data_map_address fx)"
proof -
  obtain r1 f1 where 1: "fs_create_dir_all (state_dir a) f = (r1, f1)" by fastforce
  obtain r2 f2 where 2: "load_or_create_keypair I fk (join (state_dir a) identity_key_name) f1 = (r2, f2)" by fastforce
  obtain r3 f3 where 3: "load_or_create_certificate I fc (join (state_dir a) cert_pem_name) f2 = (r3, f3)" by fastforce
  from assms(1) 1 2 3 obtain k' c' where r: "r1 = Ok ()" "r2 = Ok k'" "r3 = Ok c'"
    by (cases r1; cases r2; cases r3) (auto simp: proxy_start_def)
  from assms(1) [unfolded proxy_start_def 1 r, simplified, unfolded 2 r, simplified, unfolded 3 r, simplified] assms(2)
  show ?thesis by (rule open_source_fixture)
qed

text \<open>
  C17. Where the process listens: with libp2p reading multiaddrs as specified, a process that gets as far
  as listening does so on exactly the address and port of its arguments when the address is IPv4; with
  an IPv6 address, which \<^verbatim>\<open>--bind\<close> accepts, it always ends with an error, after it has created its
  identity.
\<close>

theorem listens_on_bind:
  assumes "multiaddr_format S udp wd"
    and "proxy_start I P N hx pa fk fc a f = (Ok (Serving k c src dma), f')"
    and "accept_protocol S PROTOCOL = Ok ()"
  shows "case bind_ip a of
      V4 ip \<Rightarrow> proxy_main I P N S hx pa fk fc a incoming events f
        = (obind (map_err ListenFailed (listen_on S [Ip4 ip, OtherSegment (udp (port a)), OtherSegment wd])) (\<lambda>_.
            case run (with_p2p S k) (advertise_ip a) dma events [] of
              Ok printed \<Rightarrow> Ok (Served src [Ip4 ip, OtherSegment (udp (port a)), OtherSegment wd] printed
                (serve (source_get N src) incoming))
            | _ \<Rightarrow> Panic), f')
    | V6 ip \<Rightarrow> \<exists>e. proxy_main I P N S hx pa fk fc a incoming events f = (Err (ListenMultiaddr e), f')"
proof (cases "bind_ip a")
  case (V4 ip)
  then show ?thesis
    using assms(2,3) parse_listen_text(1) [OF assms(1)]
    by (simp add: proxy_main_def listen_and_run_def)
next
  case (V6 ip)
  obtain e where "parse_multiaddr S (listen_text (V6 ip) (port a)) = Err e"
    using parse_listen_text(2) [OF assms(1)] by blast
  with V6 show ?thesis
    using assms(2,3) by (simp add: proxy_main_def listen_and_run_def)
qed

section \<open>Witnesses\<close>

text \<open>A small reader of listen addresses, the inverse of the printing above.\<close>

fun split_on :: "char \<Rightarrow> string \<Rightarrow> string list" where
  "split_on c [] = [[]]"
| "split_on c (x # xs) =
     (if x = c then [] # split_on c xs
      else case split_on c xs of [] \<Rightarrow> [[x]] | y # ys \<Rightarrow> (x # y) # ys)"

definition read_dec :: "string \<Rightarrow> nat" where
  "read_dec = foldl (\<lambda>a c. a * 10 + (of_char c - 48)) 0"

definition read_ipv4 :: "string \<Rightarrow> 32 word" where
  "read_ipv4 v = of_nat (foldl (\<lambda>a s. a * 256 + read_dec s) 0 (split_on (CHR ''.'') v))"

definition demo_parse :: "string \<Rightarrow> ((u16 + unit) segment list, nat) outcome" where
  "demo_parse t = (case split_on (CHR ''/'') t of
       [e, ip4, v, udp, p, w] \<Rightarrow>
         if [e, ip4, udp, w] = [[], ''ip4'', ''udp'', ''webrtc-direct''] \<and> show_ipv4 (read_ipv4 v) = v
         then Ok [Ip4 (read_ipv4 v), OtherSegment (Inl (of_nat (read_dec p))), OtherSegment (Inr ())]
         else Err 1
     | _ \<Rightarrow> Err 2)"

lemma split_on_sep: "c \<notin> set s \<Longrightarrow> split_on c (s @ c # t) = s # split_on c t"
  by (induction s) auto

lemma split_on_last: "c \<notin> set s \<Longrightarrow> split_on c s = [s]"
  by (induction s) auto

lemma read_dec_show: "read_dec (show_base 10 n) = n"
proof (induction n rule: less_induct)
  case (less n)
  show ?case
  proof (cases "n < 10")
    case True
    then show ?thesis by (subst show_base.simps) (simp add: read_dec_def digit_char_def)
  next
    case False
    then have "read_dec (show_base 10 (n div 10)) = n div 10" by (intro less) simp
    with False show ?thesis by (subst show_base.simps) (simp add: read_dec_def digit_char_def)
  qed
qed

lemma show_dec_chars: "CHR ''.'' \<notin> set (show_base 10 n)" "CHR ''/'' \<notin> set (show_base 10 n)"
  using show_base_chars [of 10 n] by auto

lemma join_octets:
  assumes "(n :: nat) < 2 ^ 32"
  shows "((n div 2 ^ 24 mod 256 * 256 + n div 2 ^ 16 mod 256) * 256 + n div 2 ^ 8 mod 256) * 256 + n mod 256 = n"
proof -
  have "n div 2 ^ 24 mod 256 = n div 2 ^ 24" using assms by simp
  moreover have "n div 2 ^ 24 = n div 2 ^ 16 div 256" "n div 2 ^ 16 = n div 2 ^ 8 div 256"
    "n div 2 ^ 8 = n div 256" by (simp_all add: div_mult2_eq [symmetric])
  ultimately show ?thesis by (simp only: div_mult_mod_eq)
qed

lemma read_ipv4_show: "read_ipv4 (show_ipv4 ip) = ip"
proof -
  have "unat ip < 2 ^ 32" using unsigned_less [of ip] by simp
  note j = join_octets [OF this]
  have "split_on (CHR ''.'') (show_ipv4 ip)
      = map (\<lambda>i. show_base 10 (unat ip div 2 ^ i mod 256)) [24, 16, 8, 0]"
    by (simp add: show_ipv4_def split_on_sep split_on_last show_dec_chars)
  then have "read_ipv4 (show_ipv4 ip) = of_nat (((unat ip div 2 ^ 24 mod 256 * 256 + unat ip div 2 ^ 16 mod 256) * 256
      + unat ip div 2 ^ 8 mod 256) * 256 + unat ip mod 256)"
    unfolding read_ipv4_def by (simp only: list.map foldl.simps read_dec_show power_0 div_by_1 mult_0 add_0)
  then show ?thesis unfolding j by simp
qed

definition demo_swarm :: "(byte, u16 + unit, (u16 + unit) segment list, nat) swarm_libs" where
  "demo_swarm = \<lparr>accept_protocol = (\<lambda>_. Ok ()), parse_multiaddr = demo_parse, listen_on = (\<lambda>_. Ok ()),
     with_p2p = (\<lambda>_. Some)\<rparr>"

lemma demo_format: "multiaddr_format demo_swarm Inl (Inr ())"
proof -
  have "\<exists>e. demo_parse (''/ip4/'' @ v @ ''/'' @ rest) = Err e"
    if "CHR ''/'' \<notin> set v" "v \<notin> range show_ipv4" for v rest
  proof -
    have "split_on (CHR ''/'') (''/ip4/'' @ v @ ''/'' @ rest) = [] # ''ip4'' # v # split_on (CHR ''/'') rest"
      using split_on_sep [OF that(1)] by simp
    moreover from that(2) have "show_ipv4 (read_ipv4 v) \<noteq> v" by (metis rangeI)
    ultimately show ?thesis by (auto simp: demo_parse_def split: list.splits)
  qed
  moreover have "demo_parse (''/ip4/'' @ show_ipv4 ip @ ''/udp/'' @ show_base 10 (unat p) @ ''/webrtc-direct'')
      = Ok [Ip4 ip, OtherSegment (Inl p), OtherSegment (Inr ())]" for ip p
  proof -
    have "split_on (CHR ''/'') (''/ip4/'' @ show_ipv4 ip @ ''/udp/'' @ show_base 10 (unat p) @ ''/webrtc-direct'')
        = [[], ''ip4'', show_ipv4 ip, ''udp'', show_base 10 (unat p), ''webrtc-direct'']"
      by (simp add: split_on_sep show_ipv4_chars show_dec_chars)
    then show ?thesis by (simp add: demo_parse_def read_ipv4_show read_dec_show)
  qed
  ultimately show ?thesis by (simp add: multiaddr_format_def demo_swarm_def)
qed

definition demo_args_bound :: "ip_addr \<Rightarrow> nat args" where
  "demo_args_bound ip = demo_args\<lparr>bind_ip := ip\<rparr>"

definition demo_main where
  "demo_main ip = proxy_main demo_identity demo_source_libs demo_network_libs demo_swarm hex (\<lambda>_. Some 1)
     5 (Ok True) (demo_args_bound ip) [] [] demo_fs"

lemma demo_bound_fields:
  "state_dir (demo_args_bound ip) = state_dir demo_args" "fixture (demo_args_bound ip) = fixture demo_args"
  "bootstrap (demo_args_bound ip) = bootstrap demo_args" "dump_to (demo_args_bound ip) = dump_to demo_args"
  by (simp_all add: demo_args_bound_def)

lemma demo_bound_starts:
  "proxy_start demo_identity demo_source_libs demo_network_libs hex (\<lambda>_. Some 1) 5 (Ok True) (demo_args_bound ip) demo_fs
     = (Ok (Serving 5 True (Network 0) None), snd (demo_start 5 True demo_fs))"
proof -
  have "proxy_start demo_identity demo_source_libs demo_network_libs hex (\<lambda>_. Some 1) 5 (Ok True) (demo_args_bound ip) demo_fs
      = demo_start 5 True demo_fs"
    unfolding demo_start_def proxy_start_def open_source_def demo_bound_fields ..
  then show ?thesis using demo_starts(1) by (metis prod.collapse)
qed

theorem listens_on_bind_witness:
  "(\<exists>e. fst (demo_main (V6 1)) = Err (ListenMultiaddr e))
   \<and> fst (demo_main (V4 0x7F000001))
       = Ok (Served (Network 0) [Ip4 0x7F000001, OtherSegment (Inl 4001), OtherSegment (Inr ())] [] [])"
proof -
  have acc: "accept_protocol demo_swarm PROTOCOL = Ok ()" by (simp add: demo_swarm_def)
  note main = listens_on_bind [OF demo_format demo_bound_starts acc, of _ "[]" "[]", folded demo_main_def]
  have "\<exists>e. demo_main (V6 1) = (Err (ListenMultiaddr e), snd (demo_start 5 True demo_fs))"
    using main [of "V6 1"] by (simp add: demo_args_bound_def)
  moreover have "fst (demo_main (V4 0x7F000001))
       = Ok (Served (Network 0) [Ip4 0x7F000001, OtherSegment (Inl 4001), OtherSegment (Inr ())] [] [])"
    using main [of "V4 0x7F000001"] by (simp add: demo_args_bound_def demo_swarm_def demo_args_def serve_def)
  ultimately show ?thesis by (metis fst_conv)
qed

end
