(* ===== verification/End_To_End.thy ===== *)
theory End_To_End
  imports Client_Retrieval Proxy_Process
begin

text \<open>
  The two halves of the system together: the browser client retrieving over the wire protocol from the
  proxy that serves a fixture. A fetch opens a stream, sends the 32 bytes of the address, lets the
  proxy's handler run on it and decodes what the handler sent; \<open>up\<close> and \<open>down\<close> are the ways the
  network cuts the two directions into deliveries.
\<close>

definition open_stream :: "byte list list \<Rightarrow> stream" where
  "open_stream ds = \<lparr>inbound = ds, inbound_end = None, outbound = [], outbound_ops = 0, fault = (\<lambda>_. None)\<rparr>"

definition get_chunk ::
  "(xorname \<Rightarrow> (byte list option, 'e) outcome) \<Rightarrow> (byte list \<Rightarrow> byte list list)
     \<Rightarrow> (byte list \<Rightarrow> byte list list) \<Rightarrow> xorname \<Rightarrow> (byte list option, fetch_error) outcome" where
  "get_chunk src up down addr =
     (if length addr \<noteq> ADDRESS_LEN then Err (BadRequest (length addr))
      else get_chunk_response (down (sent_bytes (outbound (snd (handle_request src (open_stream (up addr))))))))"

definition cuts :: "(byte list \<Rightarrow> byte list list) \<Rightarrow> bool" where
  "cuts frag \<longleftrightarrow> (\<forall>bs. concat (frag bs) = bs \<and> [] \<notin> set (frag bs))"

lemma get_chunk_answers:
  assumes "cuts up" and "cuts down" and "length a = ADDRESS_LEN" and "src a = Ok answer"
    and "\<forall>data. answer = Some data \<longrightarrow> sendable data"
  shows "get_chunk src up down a = Ok answer"
proof -
  let ?s = "open_stream (up a)"
  have "readable ?s" "concat (inbound ?s) = a" "\<forall>k. fault ?s k = None" "outbound ?s = []"
    using assms(1) by (simp_all add: open_stream_def readable_def cuts_def)
  with handle_request_answers [of ?s src answer] assms(3-5)
  obtain s' evs where "handle_request src ?s = (Ok (), s')" "outbound s' = evs"
    "\<forall>ds. concat ds = sent_bytes evs \<longrightarrow> get_chunk_response ds = Ok answer"
    by auto
  with assms(2,3) show ?thesis
    by (simp add: get_chunk_def cuts_def)
qed

text \<open>
  What is relied on of \<^verbatim>\<open>self_encryption\<close> and \<^verbatim>\<open>rmp_serde\<close>: the maps name only chunks the encryption
  produced, a serialized map reads back, a wrapping map resolves, and the chunks of the root map decrypt
  to what was encrypted.
\<close>

definition encryption_contract ::
  "('map, 'info, 'chunk, 'se, 'rmp) source_libs \<Rightarrow> ('map, 'info, 'chunk, 'se, 'rmp) client_libs
     \<Rightarrow> (xorname \<rightharpoonup> byte list) \<Rightarrow> byte list \<Rightarrow> 'map \<Rightarrow> 'chunk list \<Rightarrow> byte list \<Rightarrow> bool" where
  "encryption_contract P L S plaintext m cs ser \<longleftrightarrow>
     encrypt P plaintext = Ok (m, cs) \<and> to_vec P m = Ok ser \<and> from_slice L ser = Ok m
     \<and> (\<exists>root. resolves_to S L m root \<and> decrypts_to S L root plaintext
          \<and> dst_hash L ` (set (infos L m) \<union> set (infos L root))
              \<subseteq> blake3_hash P ` set (map (chunk_content P) cs))"

lemma fixture_retrieved:
  assumes "fixture_new P plaintext = Ok f"
    and "encryption_contract P L (map_of (source_chunks f)) plaintext m cs ser"
    and "inj_on (blake3_hash P) (set (ser # map (chunk_content P) cs))"
    and "\<forall>bs \<in> set (ser # map (chunk_content P) cs). sendable bs"
    and "\<forall>bs. length (blake3_hash P bs) = ADDRESS_LEN"
    and "verify_sound (blake3_hash P) L" and "verify_total (blake3_hash P) L" and "xorname_width L"
    and "cuts up" and "cuts down"
  shows "retrieve L (\<lambda>_. get_chunk
      (source_get N (Fixture f) :: xorname \<Rightarrow> (byte list option, 'ne network_error) outcome) up down)
    (data_map_address f) = Ok plaintext"
proof -
  let ?h = "blake3_hash P" and ?S = "map_of (source_chunks f)" and ?bss = "ser # map (chunk_content P) cs"
  from assms(2) obtain root where c: "encrypt P plaintext = Ok (m, cs)" "to_vec P m = Ok ser"
    "from_slice L ser = Ok m" "resolves_to ?S L m root" "decrypts_to ?S L root plaintext"
    "dst_hash L ` (set (infos L m) \<union> set (infos L root)) \<subseteq> ?h ` set (map (chunk_content P) cs)"
    unfolding encryption_contract_def by blast
  note new = fixture_new_facts [OF assms(1) c(1,2) assms(3)]
  have S: "?S (?h bs) = Some bs" if "bs \<in> set ?bss" for bs
    using that new(2,3) by auto
  have dom: "bs \<in> set ?bss" if "?S a = Some bs" for a bs
  proof -
    from that have "a \<in> set (fixture_addresses f)"
      by (force simp: fixture_addresses_def dest: map_of_SomeD)
    with new(4) obtain bs' where "bs' \<in> set ?bss" "a = ?h bs'" by auto
    with S [of bs'] that show ?thesis by simp
  qed
  have st: "stores ?h ?S (map (dst_hash L) is)"
    if "dst_hash L ` set is \<subseteq> ?h ` set (map (chunk_content P) cs)" for "is"
    unfolding stores_def
  proof
    fix a assume "a \<in> set (map (dst_hash L) is)"
    then obtain i where "a = dst_hash L i" "dst_hash L i \<in> dst_hash L ` set is" by auto
    with subsetD [OF that] obtain bs where "bs \<in> set (map (chunk_content P) cs)" "a = ?h bs"
      by (blast elim: imageE)
    with S [of bs] show "\<exists>bs. ?S a = Some bs \<and> ?h bs = a" by simp
  qed
  have stored: "stores ?h ?S (map (dst_hash L) (infos L m))" "stores ?h ?S (map (dst_hash L) (infos L root))"
    using st [of "infos L m"] st [of "infos L root"] c(6) unfolding image_Un by blast+
  let ?get = "source_get N (Fixture f) :: xorname \<Rightarrow> (byte list option, 'ne network_error) outcome"
  have "get_chunk ?get up down a = Ok (?S a)" if "length a = ADDRESS_LEN" for a
  proof (rule get_chunk_answers [OF assms(9,10) that])
    show "?get a = Ok (?S a)" by (simp add: fixture_get_def)
    show "\<forall>data. ?S a = Some data \<longrightarrow> sendable data" using dom assms(4) by blast
  qed
  then have "answers_from ?S (\<lambda>_ :: nat. get_chunk ?get up down)"
    unfolding answers_from_def by blast
  from retrieve_served [OF assms(6-8) _ _ c(3,4) stored c(5) this] S [of ser] assms(5)
  show ?thesis unfolding new(5) by simp
qed

text \<open>
  C1. End to end, from a file on the proxy's disk to the browser: when a proxy process was started on a
  fixture file and serves, every address it prints is one from which the browser, retrieving over the
  process's source with the two directions of each stream cut into deliveries in any way, obtains
  exactly the contents of the file (when its chunks fit a response and do not collide).
\<close>

theorem file_served_end_to_end:
  assumes "proxy_main I P N S hx pa fk fc a incoming events f = (Ok (Served src la printed served), f')"
    and "fixture a = Some path" and "fs_read path f' = Ok plaintext" and "fixture_new P plaintext = Ok fx"
    and "encryption_contract P L (map_of (source_chunks fx)) plaintext m cs ser"
    and "inj_on (blake3_hash P) (set (ser # map (chunk_content P) cs))"
    and "\<forall>bs \<in> set (ser # map (chunk_content P) cs). sendable bs"
    and "\<forall>bs. length (blake3_hash P bs) = ADDRESS_LEN"
    and "verify_sound (blake3_hash P) L" and "verify_total (blake3_hash P) L" and "xorname_width L"
    and "cuts up" and "cuts down" and "(dial, published) \<in> set printed"
  shows "\<exists>address. published = Some address
    \<and> retrieve L (\<lambda>_. get_chunk (source_get N src) up down) address = Ok plaintext"
proof -
  from proxy_main_Served [OF assms(1)] obtain k c dma where
    start: "proxy_start I P N hx pa fk fc a f = (Ok (Serving k c src dma), f')"
    and run: "run (with_p2p S k) (advertise_ip a) dma events [] = Ok printed" by metis
  from proxy_start_fixture [OF start assms(2)] assms(3,4)
  have src: "src = Fixture fx" "dma = Some (data_map_address fx)" by auto
  from run_reports [OF run] assms(14) src(2) have "published = Some (data_map_address fx)" by auto
  with fixture_retrieved [OF assms(4-13), of N] src(1) show ?thesis by simp
qed

definition demo_publisher :: "(bool \<times> xorname list, xorname, byte list, nat, nat) source_libs" where
  "demo_publisher = \<lparr>
     blake3_hash = demo_hash,
     encrypt = (\<lambda>bs. Ok ((False, map (\<lambda>b. demo_hash [b]) bs), map (\<lambda>b. [b]) bs)),
     chunk_content = (\<lambda>c. c),
     to_vec = (\<lambda>m. Ok ((if fst m then 1 else 0) # concat (snd m))), map_infos = snd\<rparr>"

definition demo_published :: fixture_source where
  "demo_published = (case fixture_new demo_publisher [8, 9] of Ok f \<Rightarrow> f)"

abbreviation demo_map :: "bool \<times> xorname list" where
  "demo_map \<equiv> (False, [demo_hash [8], demo_hash [9]])"

lemma demo_publish: "fixture_new demo_publisher [8, 9] = Ok demo_published"
  by code_simp

lemma demo_contract:
  "encryption_contract demo_publisher demo_libs (map_of (source_chunks demo_published)) [8, 9]
     demo_map [[8], [9]] (0 # demo_hash [8] @ demo_hash [9])"
proof -
  have 1: "from_slice demo_libs (0 # demo_hash [8] @ demo_hash [9]) = Ok demo_map"
    by code_simp
  have 2: "map (\<lambda>i. the (map_of (source_chunks demo_published) (dst_hash demo_libs i))) (snd demo_map)
      = [[8], [9]]"
    by code_simp
  have 3: "content demo_libs = (\<lambda>c. c)" "infos demo_libs = snd"
      "decrypt demo_libs = (\<lambda>_ cs. Ok (concat cs))" "is_child demo_libs = fst"
    by (simp_all add: demo_libs_def)
  have 4: "dst_hash demo_libs (demo_hash [8]) = demo_hash [8]"
      "dst_hash demo_libs (demo_hash [9]) = demo_hash [9]"
    by code_simp+
  show ?thesis
    unfolding encryption_contract_def resolves_to_def decrypts_to_def 3
    using 1 2 4 by (simp add: demo_publisher_def)
qed

definition demo_file_args :: "nat args" where
  "demo_file_args = demo_args\<lparr>fixture := Some [[102]]\<rparr>"

definition demo_file_fs :: fs where
  "demo_file_fs = demo_fs\<lparr>files := [[[102]] \<mapsto> [8, 9]]\<rparr>"

definition demo_file_start where
  "demo_file_start = proxy_start demo_identity demo_publisher demo_network_libs hex (\<lambda>_. Some 1)
     5 (Ok True) demo_file_args demo_file_fs"

lemma demo_file_starts:
  "fst demo_file_start = Ok (Serving 5 True (Fixture demo_published) (Some (data_map_address demo_published)))"
  "fs_read [[102]] (snd demo_file_start) = Ok [8, 9]"
  by code_simp+

lemma demo_process_serves:
  "proxy_main demo_identity demo_publisher demo_network_libs demo_swarm hex (\<lambda>_. Some 1)
     5 (Ok True) demo_file_args [] [NewListenAddr [Ip4 1], Interrupt] demo_file_fs
   = (Ok (Served (Fixture demo_published) [Ip4 0, OtherSegment (Inl 4001), OtherSegment (Inr ())]
     [([Ip4 1], Some (data_map_address demo_published))] []), snd demo_file_start)"
proof -
  obtain f1 where f1: "demo_file_start = (Ok (Serving 5 True (Fixture demo_published)
      (Some (data_map_address demo_published))), f1)"
    using demo_file_starts(1) by (metis prod.collapse)
  note start = f1 [unfolded demo_file_start_def]
  have fields: "port demo_file_args = 4001" "bind_ip demo_file_args = V4 0" "advertise_ip demo_file_args = None"
    by (simp_all add: demo_file_args_def demo_args_def)
  have swarm: "accept_protocol demo_swarm = (\<lambda>_. Ok ())" "listen_on demo_swarm = (\<lambda>_. Ok ())"
    "with_p2p demo_swarm = (\<lambda>_. Some)" by (simp_all add: demo_swarm_def)
  show ?thesis
    unfolding proxy_main_def start f1
    by (simp add: listen_and_run_def fields swarm parse_listen_text(1) [OF demo_format] advertised_def serve_def)
qed

theorem file_served_end_to_end_witness:
  "\<exists>address. Some (data_map_address demo_published) = Some address
   \<and> retrieve demo_libs (\<lambda>_. get_chunk (source_get demo_network_libs (Fixture demo_published)) (chunks 5) (chunks 3))
       address = Ok [8, 9]"
proof (rule file_served_end_to_end [OF demo_process_serves _ demo_file_starts(2) demo_publish demo_contract])
  show "fixture demo_file_args = Some [[102]]" by (simp add: demo_file_args_def)
  have h: "blake3_hash demo_publisher = demo_hash" "chunk_content demo_publisher = (\<lambda>c. c)"
    by (simp_all add: demo_publisher_def)
  let ?bss = "(0 # demo_hash [8] @ demo_hash [9]) # map (chunk_content demo_publisher) [[8], [9]]"
  have "distinct (map (blake3_hash demo_publisher) ?bss)"
    by code_simp
  then show "inj_on (blake3_hash demo_publisher) (set ?bss)"
    by (rule conjunct2 [OF distinct_map [THEN iffD1]])
  show "\<forall>bs \<in> set ?bss. sendable bs"
    by (simp add: h sendable_def demo_hash_def)
  show "\<forall>bs. length (blake3_hash demo_publisher bs) = ADDRESS_LEN"
    by (auto simp: h demo_hash_def ADDRESS_LEN_def)
  show "verify_sound (blake3_hash demo_publisher) demo_libs" "verify_total (blake3_hash demo_publisher) demo_libs"
    unfolding h by (rule demo_sound, rule demo_total)
  show "cuts (chunks 5)" "cuts (chunks 3)"
    by (auto simp: cuts_def concat_chunks dest: chunks_length)
qed (simp_all add: demo_width)

end
