(* ===== verification/Client_Progress.thy ===== *)
theory Client_Progress
  imports Client_Retrieval
begin

text \<open>
  More about the browser's retrieval (\<^verbatim>\<open>Retrieval\<close> in \<^verbatim>\<open>crates/wasm-client/src/lib.rs\<close>, its driver
  \<^verbatim>\<open>retrieve\<close> and the worker pool \<^verbatim>\<open>forEachConcurrently\<close> in \<^verbatim>\<open>web/src/retrieve.js\<close>): the form of what
  crosses the boundary to JavaScript, the refinement of an ideal content-addressed store, the number
  of rounds the driver needs, and the equivalence of concurrent and sequential downloads.
\<close>

section \<open>What crosses the boundary\<close>

lemma held_and_missing: "chunks_held L r + length (missing L r) = chunk_count L r"
proof -
  have "length (filter (\<lambda>i. cache r (dst_hash L i) \<noteq> None) is)
      + length (filter (\<lambda>a. cache r a = None) (map (dst_hash L) is)) = length is" for "is"
    by (induction "is") auto
  then show ?thesis by (simp add: chunks_held_def chunk_count_def missing_def)
qed

lemma length_required:
  assumes "xorname_width L"
  shows "length (required_addresses L r) = ADDRESS_LEN * length (missing L r)"
proof -
  have "length (concat as) = ADDRESS_LEN * length as" if "\<forall>a \<in> set as. length a = ADDRESS_LEN" for as :: "xorname list"
    using that by (induction as) auto
  then show ?thesis
    using missing_width [OF assms] by (simp add: required_addresses_concat)
qed

text \<open>
  C9. The flat vector the client hands to JavaScript is well formed in every state: it is a sequence of
  whole 32-byte records, as many as there are chunks referenced and not held; JavaScript's splitting
  recovers exactly the missing addresses, in the order of the map; and completion is the same as a
  resolved root with every chunk held.
\<close>

theorem required_addresses_records:
  assumes "xorname_width L"
  shows "length (required_addresses L r) = ADDRESS_LEN * (chunk_count L r - chunks_held L r)
    \<and> chunks_held L r \<le> chunk_count L r
    \<and> split_addresses (required_addresses L r)
      = filter (\<lambda>a. cache r a = None) (map (dst_hash L) (infos L (rmap r)))
    \<and> (is_complete L r \<longleftrightarrow> root_resolved r \<and> chunks_held L r = chunk_count L r)"
  unfolding missing_def [symmetric]
  using held_and_missing [of L r] length_required [OF assms, of r] split_required [OF assms, of r]
    required_Nil [OF assms, of r]
  by (auto simp: is_complete_def)

theorem required_addresses_records_witness:
  "length (required_addresses demo_libs demo_state)
     = ADDRESS_LEN * (chunk_count demo_libs demo_state - chunks_held demo_libs demo_state)
   \<and> (is_complete demo_libs demo_state
        \<longleftrightarrow> root_resolved demo_state \<and> chunks_held demo_libs demo_state = chunk_count demo_libs demo_state)"
  using required_addresses_records [OF demo_width, of demo_state] by blast

section \<open>Which bytes an address accepts\<close>

text \<open>
  \<^verbatim>\<open>content_address\<close>: the address of a blob is the BLAKE3 hash \<open>h\<close> of its bytes (a parameter).
\<close>

definition content_address :: "(byte list \<Rightarrow> xorname) \<Rightarrow> byte list \<Rightarrow> byte list" where
  "content_address h bytes = h bytes"

text \<open>
  The client accepts bytes under an address exactly when the address is the content address of the
  bytes; then they are held under it and nothing else of the state changes, otherwise the state is
  untouched and the call reports whether the address or the bytes were at fault. Supplying a needed
  chunk leaves strictly fewer to fetch.
\<close>

theorem supply_exact:
  assumes "verify_sound h L" and "verify_total h L" and "\<forall>bs. length (h bs) = ADDRESS_LEN"
    and "\<forall>a bs. verify_chunk L a bs \<noteq> Panic"
  shows "(if address = content_address h bytes
     then \<exists>c. content L c = bytes
        \<and> retrieval_supply L address bytes r = Ok (r\<lparr>cache := (cache r)(address \<mapsto> c)\<rparr>)
        \<and> missing L (r\<lparr>cache := (cache r)(address \<mapsto> c)\<rparr>) = filter (\<lambda>a. a \<noteq> address) (missing L r)
     else if length address = ADDRESS_LEN
     then \<exists>e. retrieval_supply L address bytes r = Err (ChunkVerification address e)
     else retrieval_supply L address bytes r = Err (BadAddress AddressLength))"
proof (cases "address = content_address h bytes")
  case True
  with assms(2) obtain c where c: "verify_chunk L address bytes = Ok c"
    unfolding verify_total_def content_address_def by blast
  moreover from this assms(1) have "content L c = bytes" by (auto simp: verify_sound_def)
  moreover from c True assms(3) have
    s: "retrieval_supply L address bytes r = Ok (r\<lparr>cache := (cache r)(address \<mapsto> c)\<rparr>)"
    by (auto simp: supply_Ok_iff content_address_def)
  ultimately show ?thesis using True missing_supply [OF s] by auto
next
  case False
  have "\<exists>e. verify_chunk L address bytes = Err e"
    using False assms(1,4) by (cases "verify_chunk L address bytes") (auto simp: verify_sound_def content_address_def)
  with False show ?thesis
    by (auto simp: retrieval_supply_def parse_address_def)
qed

theorem supply_exact_witness:
  "\<exists>c. content demo_libs c = demo_chunk1
     \<and> retrieval_supply demo_libs (content_address demo_hash demo_chunk1) demo_chunk1 demo_state
       = Ok (demo_state\<lparr>cache := (cache demo_state)(content_address demo_hash demo_chunk1 \<mapsto> c)\<rparr>)"
proof -
  have "\<forall>bs. length (demo_hash bs) = ADDRESS_LEN"
    by (auto simp: demo_hash_def ADDRESS_LEN_def)
  moreover have "\<forall>a bs. verify_chunk demo_libs a bs \<noteq> Panic"
    by (simp add: demo_libs_def)
  ultimately show ?thesis
    using supply_exact [OF demo_sound demo_total, of "content_address demo_hash demo_chunk1" demo_chunk1 demo_state]
    by auto
qed

section \<open>Refinement of an ideal store\<close>

text \<open>
  The abstract machine: a goal (a data map), whether it is flat, and a partial store in which nothing
  is held but bytes under their own hash. It learns bytes, and it resolves its goal once everything
  the goal names is in the store.
\<close>

record 'map ideal =
  goal :: 'map
  flat :: bool
  store :: "xorname \<rightharpoonup> byte list"

definition ideal_init ::
  "(byte list \<Rightarrow> xorname) \<Rightarrow> ('map, 'info, 'chunk, 'se, 'rmp) client_libs \<Rightarrow> xorname \<Rightarrow> 'map ideal \<Rightarrow> bool" where
  "ideal_init h L address s \<longleftrightarrow>
     (\<exists>bs. h bs = address \<and> from_slice L bs = Ok (goal s))
     \<and> flat s = (\<not> is_child L (goal s)) \<and> store s = Map.empty"

definition goal_met :: "('map, 'info, 'chunk, 'se, 'rmp) client_libs \<Rightarrow> 'map ideal \<Rightarrow> bool" where
  "goal_met L s \<longleftrightarrow> (\<forall>i \<in> set (infos L (goal s)). store s (dst_hash L i) \<noteq> None)"

definition store_fetch ::
  "('map, 'info, 'chunk, 'se, 'rmp) client_libs \<Rightarrow> (xorname \<rightharpoonup> byte list) \<Rightarrow> xorname
     \<Rightarrow> (byte list, 'se) outcome" where
  "store_fetch L st a = (case st a of
       Some bs \<Rightarrow> Ok bs
     | None \<Rightarrow> Err (generic_error L (missing_wrapper_text @ hex a)))"

inductive ideal_step ::
  "(byte list \<Rightarrow> xorname) \<Rightarrow> ('map, 'info, 'chunk, 'se, 'rmp) client_libs \<Rightarrow> 'map ideal \<Rightarrow> 'map ideal \<Rightarrow> bool"
  for h L where
  learn: "ideal_step h L s (s\<lparr>store := (store s)(h bs \<mapsto> bs)\<rparr>)"
| resolve: "\<not> flat s \<Longrightarrow> goal_met L s \<Longrightarrow> get_root_data_map L (goal s) (store_fetch L (store s)) = Ok root
     \<Longrightarrow> ideal_step h L s (s\<lparr>goal := root, flat := True\<rparr>)"

text \<open>The detailed machine as a transition system, and its abstraction.\<close>

definition retrieval_started ::
  "(byte list \<Rightarrow> xorname) \<Rightarrow> ('map, 'info, 'chunk, 'se, 'rmp) client_libs \<Rightarrow> xorname
     \<Rightarrow> ('map, 'chunk) retrieval \<Rightarrow> bool" where
  "retrieval_started h L address r \<longleftrightarrow>
     verify_sound h L \<and> (\<exists>bytes. retrieval_begin L address bytes = Ok r)"

inductive retrieval_step ::
  "(byte list \<Rightarrow> xorname) \<Rightarrow> ('map, 'info, 'chunk, 'se, 'rmp) client_libs
     \<Rightarrow> ('map, 'chunk) retrieval \<Rightarrow> ('map, 'chunk) retrieval \<Rightarrow> bool"
  for h L where
  step_supply: "verify_sound h L \<Longrightarrow> retrieval_supply L address bytes r = Ok r' \<Longrightarrow> retrieval_step h L r r'"
| step_advance: "xorname_width L \<Longrightarrow> retrieval_advance L r = Ok r' \<Longrightarrow> retrieval_step h L r r'"

definition ideal_of ::
  "('map, 'info, 'chunk, 'se, 'rmp) client_libs \<Rightarrow> ('map, 'chunk) retrieval \<Rightarrow> 'map ideal" where
  "ideal_of L r = \<lparr>goal = rmap r, flat = root_resolved r, store = (\<lambda>a. map_option (content L) (cache r a))\<rparr>"

lemma store_fetch_ideal_of: "store_fetch L (store (ideal_of L r)) = cache_fetch L (cache r)"
  by (auto simp: fun_eq_iff store_fetch_def cache_fetch_def ideal_of_def split: option.splits)

lemma goal_met_ideal_of: "xorname_width L \<Longrightarrow> goal_met L (ideal_of L r) \<longleftrightarrow> required_addresses L r = []"
  by (simp add: goal_met_def ideal_of_def required_Nil missing_Nil_iff)

lemma ideal_of_supply:
  assumes "verify_sound h L" and "retrieval_supply L address bytes r = Ok r'"
  shows "ideal_of L r' = (ideal_of L r)\<lparr>store := (store (ideal_of L r))(h bytes \<mapsto> bytes)\<rparr>"
  using assms by (auto simp: supply_Ok_iff verify_sound_def ideal_of_def fun_eq_iff)

lemma ideal_of_advance:
  assumes "xorname_width L" and "retrieval_advance L r = Ok r'"
  shows "r' = r \<or> ideal_step h L (ideal_of L r) (ideal_of L r')"
proof (cases "root_resolved r \<or> required_addresses L r \<noteq> []")
  case True
  with assms(2) show ?thesis by (auto simp: retrieval_advance_def)
next
  case False
  with assms obtain root where root: "r' = r\<lparr>rmap := root, root_resolved := True\<rparr>"
      "get_root_data_map L (goal (ideal_of L r)) (store_fetch L (store (ideal_of L r))) = Ok root"
    by (auto simp: retrieval_advance_def obind_eq_Ok store_fetch_ideal_of) (simp add: ideal_of_def)
  have "ideal_of L r' = (ideal_of L r)\<lparr>goal := root, flat := True\<rparr>"
    by (simp add: root(1) ideal_of_def)
  with False assms(1) root(2) show ?thesis
    using ideal_step.resolve [of "ideal_of L r" L root h]
    by (simp add: goal_met_ideal_of) (simp add: ideal_of_def)
qed

interpretation retrieval_ideal: simulation "retrieval_started h L address" "retrieval_step h L"
    "ideal_init h L address" "ideal_step h L" "ideal_of L" for h L address
proof unfold_locales
  fix r
  assume "retrieval_started h L address r"
  then obtain bytes where r: "verify_sound h L" "retrieval_begin L address bytes = Ok r"
    by (auto simp: retrieval_started_def)
  with begin_Ok [OF r(2)] show "ideal_init h L address (ideal_of L r)"
    by (auto simp: ideal_init_def ideal_of_def verify_sound_def)
next
  fix r r'
  assume "retrieval_step h L r r'"
  then show "ideal_of L r' = ideal_of L r \<or> ideal_step h L (ideal_of L r) (ideal_of L r')"
  proof cases
    case (step_supply address bytes)
    then show ?thesis by (simp add: ideal_of_supply ideal_step.learn)
  next
    case step_advance
    then show ?thesis using ideal_of_advance by blast
  qed
qed

text \<open>
  C6. The retrieval refines an ideal content-addressed store: whatever is supplied, in whatever order,
  the state corresponds to one the ideal machine reaches from the same address, so every held byte
  string is the preimage of its address; completion is the ideal machine's (a flat goal that is met);
  and a successful finish decrypts exactly the ideal store's bytes for the goal, in its order.
\<close>

theorem retrieval_refines_ideal:
  assumes "verify_sound h L" and "xorname_width L"
    and "retrieval_begin L address bytes = Ok r0" and "(retrieval_step h L)\<^sup>*\<^sup>* r0 r"
  shows "(\<exists>s. ideal_init h L address s \<and> (ideal_step h L)\<^sup>*\<^sup>* s (ideal_of L r))
    \<and> (\<forall>a bs. store (ideal_of L r) a = Some bs \<longrightarrow> h bs = a)
    \<and> (is_complete L r \<longleftrightarrow> flat (ideal_of L r) \<and> goal_met L (ideal_of L r))
    \<and> (\<forall>plaintext. retrieval_finish L r = Ok plaintext \<longrightarrow>
        (\<exists>chunks. decrypt L (goal (ideal_of L r)) chunks = Ok plaintext
           \<and> map (\<lambda>c. Some (content L c)) chunks
             = map (\<lambda>i. store (ideal_of L r) (dst_hash L i)) (infos L (goal (ideal_of L r)))))"
proof -
  have start: "retrieval_started h L address r0"
    using assms(1,3) by (auto simp: retrieval_started_def)
  have "\<forall>a bs. store (ideal_of L r) a = Some bs \<longrightarrow> h bs = a"
    by (rule retrieval_ideal.transfer [OF start assms(4)])
      (auto simp: ideal_init_def elim!: ideal_step.cases split: if_splits)
  moreover have "is_complete L r \<longleftrightarrow> flat (ideal_of L r) \<and> goal_met L (ideal_of L r)"
    by (simp add: is_complete_def goal_met_ideal_of [OF assms(2)]) (simp add: ideal_of_def)
  moreover have "\<exists>chunks. decrypt L (goal (ideal_of L r)) chunks = Ok plaintext
       \<and> map (\<lambda>c. Some (content L c)) chunks
         = map (\<lambda>i. store (ideal_of L r) (dst_hash L i)) (infos L (goal (ideal_of L r)))"
    if "retrieval_finish L r = Ok plaintext" for plaintext
  proof -
    let ?chunks = "map (\<lambda>i. the (cache r (dst_hash L i))) (infos L (rmap r))"
    from that have complete: "is_complete L r" by (auto simp: retrieval_finish_def split: if_splits)
    then have "decrypt L (rmap r) ?chunks = Ok plaintext"
      using that finish_complete [OF assms(2)] by simp
    moreover have "cache r (dst_hash L i) \<noteq> None" if "i \<in> set (infos L (rmap r))" for i
      using complete that assms(2) by (simp add: is_complete_def required_Nil missing_Nil_iff)
    then have "map (\<lambda>c. Some (content L c)) ?chunks
        = map (\<lambda>i. store (ideal_of L r) (dst_hash L i)) (infos L (rmap r))"
      by (fastforce simp: ideal_of_def)
    ultimately show ?thesis by (auto simp: ideal_of_def)
  qed
  ultimately show ?thesis
    using retrieval_ideal.sim_reachable [OF start assms(4)] by blast
qed

theorem retrieval_refines_ideal_witness:
  "\<exists>s. ideal_init demo_hash demo_libs (demo_hash demo_flat_map) s
     \<and> (ideal_step demo_hash demo_libs)\<^sup>*\<^sup>* s (ideal_of demo_libs demo_state)"
proof -
  have "(retrieval_step demo_hash demo_libs)\<^sup>*\<^sup>* demo_begun demo_state"
    by (rule r_into_rtranclp) (rule step_supply [OF demo_sound demo_steps(2)])
  from retrieval_refines_ideal [OF demo_sound demo_width demo_steps(1) this] show ?thesis by blast
qed

section \<open>The driver needs two phases\<close>

lemma fetch_all_supplied:
  assumes "fetch_all L get addrs n r = Ok (n', r')"
  shows "rmap r' = rmap r \<and> root_resolved r' = root_resolved r
    \<and> missing L r' = filter (\<lambda>a. a \<notin> set addrs) (missing L r)"
  using assms
proof (induction addrs arbitrary: n r)
  case (Cons a addrs)
  then obtain bs r1 where r1: "retrieval_supply L a bs r = Ok r1" "fetch_all L get addrs (Suc n) r1 = Ok (n', r')"
    by (auto simp: obind_eq_Ok split: option.splits)
  from Cons.IH [OF r1(2)] supply_frame [OF r1(1)] missing_supply [OF r1(1)] show ?case
    by (auto simp: conj_commute intro!: filter_cong)
qed simp

lemma fetch_all_missing:
  "fetch_all L get (missing L r) n r = Ok (n', r') \<Longrightarrow>
     rmap r' = rmap r \<and> root_resolved r' = root_resolved r \<and> missing L r' = []"
  using fetch_all_supplied [of L get "missing L r" n r n' r'] by simp

text \<open>The straight-line reference: fetch what the map names, resolve it once, fetch, decrypt.\<close>

definition fetch_and_finish ::
  "('map, 'info, 'chunk, 'se, 'rmp) client_libs \<Rightarrow> 'te network \<Rightarrow> nat \<Rightarrow> ('map, 'chunk) retrieval
     \<Rightarrow> (byte list, ('se, 'rmp, 'te) retrieve_error) outcome" where
  "fetch_and_finish L get n r = obind (fetch_all L get (missing L r) n r) (\<lambda>(n', r').
     map_err ClientError (retrieval_finish L r'))"

definition resolve_and_finish ::
  "('map, 'info, 'chunk, 'se, 'rmp) client_libs \<Rightarrow> 'te network \<Rightarrow> nat \<Rightarrow> ('map, 'chunk) retrieval
     \<Rightarrow> (byte list, ('se, 'rmp, 'te) retrieve_error) outcome" where
  "resolve_and_finish L get n r =
     (if root_resolved r then fetch_and_finish L get n r
      else obind (fetch_all L get (missing L r) n r) (\<lambda>(n', r').
           obind (map_err ClientError (retrieval_advance L r')) (\<lambda>r''. fetch_and_finish L get n' r'')))"

lemma fetch_and_finish_complete:
  "xorname_width L \<Longrightarrow> is_complete L r \<Longrightarrow> fetch_and_finish L get n r = map_err ClientError (retrieval_finish L r)"
  by (simp add: fetch_and_finish_def is_complete_def required_Nil)

lemma rounds_when_resolved:
  assumes "xorname_width L" and "root_resolved r"
  shows "retrieve_rounds L get (Suc k) n r = fetch_and_finish L get n r"
proof (cases "is_complete L r")
  case True
  with assms(1) show ?thesis by (simp add: fetch_and_finish_complete)
next
  case False
  have "is_complete L r' \<and> retrieval_advance L r' = Ok r'"
    if "fetch_all L get (missing L r) n r = Ok (n', r')" for n' r'
    using fetch_all_missing [OF that] assms
    by (simp add: is_complete_def required_Nil retrieval_advance_def)
  moreover have "is_complete L r' \<Longrightarrow> retrieve_rounds L get k n' r' = map_err ClientError (retrieval_finish L r')"
    for n' r' by (cases k) simp_all
  ultimately show ?thesis
    using False assms(1) by (auto simp: split_required fetch_and_finish_def intro!: obind_cong)
qed

lemma advance_resolves:
  assumes "xorname_width L" and "missing L r = []" and "retrieval_advance L r = Ok r'"
  shows "root_resolved r'"
  using assms by (auto simp: retrieval_advance_def required_Nil obind_eq_Ok split: if_splits)

lemma rounds_two_phases:
  assumes "xorname_width L"
  shows "retrieve_rounds L get (Suc (Suc k)) n r = resolve_and_finish L get n r"
proof (cases "root_resolved r")
  case True
  with assms show ?thesis by (simp only: rounds_when_resolved resolve_and_finish_def if_True)
next
  case False
  have "root_resolved r''"
    if "fetch_all L get (missing L r) n r = Ok (n', r')" "retrieval_advance L r' = Ok r''" for n' r' r''
    using advance_resolves [OF assms _ that(2)] fetch_all_missing [OF that(1)] by simp
  then have "(if \<not> is_complete L r'' \<and> required_addresses L r'' = [] then Err Stalled
        else retrieve_rounds L get (Suc k) n' r'') = fetch_and_finish L get n' r''"
    if "fetch_all L get (missing L r) n r = Ok (n', r')" "retrieval_advance L r' = Ok r''" for n' r' r''
    using that assms by (auto simp only: rounds_when_resolved is_complete_def simp_thms if_True if_False)
  moreover have "\<not> is_complete L r"
    using False by (simp add: is_complete_def)
  ultimately show ?thesis
    using False assms
    by (auto simp: split_required resolve_and_finish_def simp del: retrieve_rounds.simps
        simp add: retrieve_rounds.simps(2) [of L get "Suc k"] intro!: obind_cong)
qed

definition benign :: "(byte list, ('se, 'rmp, 'te) retrieve_error) outcome \<Rightarrow> bool" where
  "benign out \<longleftrightarrow> out \<noteq> Err Stalled \<and> (\<forall>k. out \<noteq> Err (Unresolved k))"

lemma fetch_all_errors: "fetch_all L get addrs n r = Err e \<Longrightarrow> e \<noteq> Stalled \<and> (\<forall>k. e \<noteq> Unresolved k)"
proof (induction addrs arbitrary: n r)
  case (Cons a addrs)
  show ?case
  proof (cases "get n a")
    case (Ok answer)
    then show ?thesis
      using Cons by (cases answer; cases "retrieval_supply L a (the answer) r") auto
  qed (use Cons in auto)
qed simp

lemma map_err_benign: "benign (map_err ClientError m)" "benign (map_err Transport m)"
  by (cases m; simp add: benign_def)+

lemma map_err_errors:
  "map_err ClientError m = Err e \<Longrightarrow> e \<noteq> Stalled \<and> (\<forall>k. e \<noteq> Unresolved k)"
  by (cases m) auto

lemma obind_benign:
  assumes "\<And>e. m = Err e \<Longrightarrow> e \<noteq> Stalled \<and> (\<forall>k. e \<noteq> Unresolved k)" and "\<And>a. benign (f a)"
  shows "benign (obind m f)"
  using assms by (cases m) (auto simp: benign_def)

lemma fetch_and_finish_benign: "benign (fetch_and_finish L get n r)"
  unfolding fetch_and_finish_def
  by (rule obind_benign) (auto simp: map_err_benign dest: fetch_all_errors)

lemma resolve_and_finish_benign: "benign (resolve_and_finish L get n r)"
  unfolding resolve_and_finish_def
  by (auto simp: fetch_and_finish_benign intro!: obind_benign dest: fetch_all_errors map_err_errors)

text \<open>
  C8. The driver's loop ends for every network and every data map without using up its 16 rounds: it
  computes the straight-line reference (fetch the missing chunks, resolve the map once if it wraps
  another, fetch, decrypt), so neither the "stalled" error nor the "did not resolve" error can occur.
\<close>

theorem retrieve_two_phases:
  assumes "xorname_width L"
  shows "retrieve L get address =
      obind (map_err Transport (get 0 address)) (\<lambda>answer. case answer of
          None \<Rightarrow> Err NoDataStored
        | Some bytes \<Rightarrow> obind (map_err ClientError (retrieval_begin L address bytes)) (\<lambda>r.
            resolve_and_finish L get 1 r))
    \<and> retrieve L get address \<noteq> Err Stalled \<and> (\<forall>k. retrieve L get address \<noteq> Err (Unresolved k))"
proof -
  have "retrieve_rounds L get MAX_ROUNDS 1 = resolve_and_finish L get 1"
    using rounds_two_phases [OF assms, of get 14] by (simp add: fun_eq_iff MAX_ROUNDS_def numeral_eq_Suc del: retrieve_rounds.simps)
  then have eq: "retrieve L get address =
      obind (map_err Transport (get 0 address)) (\<lambda>answer. case answer of
          None \<Rightarrow> Err NoDataStored
        | Some bytes \<Rightarrow> obind (map_err ClientError (retrieval_begin L address bytes)) (\<lambda>r.
            resolve_and_finish L get 1 r))"
    unfolding retrieve_def by (simp only:)
  have "benign (obind (map_err ClientError (retrieval_begin L address bytes)) (resolve_and_finish L get 1))" for bytes
    by (rule obind_benign) (auto simp: resolve_and_finish_benign dest: map_err_errors)
  then have "benign (retrieve L get address)"
    unfolding eq by (intro obind_benign) (cases "get 0 address"; auto simp: benign_def split: option.splits)+
  with eq show ?thesis by (simp add: benign_def)
qed

theorem retrieve_two_phases_witness:
  "retrieve demo_libs demo_withholding [1] \<noteq> Err Stalled
   \<and> retrieve demo_libs demo_network (demo_hash demo_wrapper) \<noteq> Err (Unresolved 16)"
  using retrieve_two_phases [OF demo_width] by blast

section \<open>Concurrent downloads\<close>

text \<open>
  \<^verbatim>\<open>forEachConcurrently\<close>: \<^verbatim>\<open>limit\<close> workers share the index of the next address; each takes one, awaits
  the network and supplies the answer. The awaited addresses complete in any order. A worker whose
  request fails, whose chunk is missing or whose bytes do not verify rejects and takes no further
  address; the first rejection rejects the download (\<^verbatim>\<open>Promise.all\<close>), while the other workers go on.
  The driver then frees the retrieval, so from the first rejection on a supply of good bytes may throw
  too. \<^verbatim>\<open>pool_failed\<close> counts the workers that rejected.
\<close>

record ('map, 'chunk) pool =
  next_index :: nat
  in_flight :: "nat set"
  pool_failed :: nat
  pool_retrieval :: "('map, 'chunk) retrieval"

inductive pool_step ::
  "('map, 'info, 'chunk, 'se, 'rmp) client_libs \<Rightarrow> (xorname \<Rightarrow> (byte list option, 'te) outcome) \<Rightarrow> nat
     \<Rightarrow> xorname list \<Rightarrow> ('map, 'chunk) pool \<Rightarrow> ('map, 'chunk) pool \<Rightarrow> bool"
  for L serve limit items where
  take_next: "next_index p < length items \<Longrightarrow> card (in_flight p) + pool_failed p < min limit (length items) \<Longrightarrow>
     pool_step L serve limit items p
       (p\<lparr>next_index := Suc (next_index p), in_flight := insert (next_index p) (in_flight p)\<rparr>)"
| arrived: "i \<in> in_flight p \<Longrightarrow> serve (items ! i) = Ok (Some bytes) \<Longrightarrow>
     retrieval_supply L (items ! i) bytes (pool_retrieval p) = Ok r' \<Longrightarrow>
     pool_step L serve limit items p (p\<lparr>in_flight := in_flight p - {i}, pool_retrieval := r'\<rparr>)"
| rejected: "i \<in> in_flight p \<Longrightarrow>
     0 < pool_failed p \<or> \<not> (\<exists>bytes r'. serve (items ! i) = Ok (Some bytes)
       \<and> retrieval_supply L (items ! i) bytes (pool_retrieval p) = Ok r') \<Longrightarrow>
     pool_step L serve limit items p (p\<lparr>in_flight := in_flight p - {i}, pool_failed := Suc (pool_failed p)\<rparr>)"

inductive_cases pool_stepE: "pool_step L serve limit items p p'"

definition pool_start :: "('map, 'chunk) retrieval \<Rightarrow> ('map, 'chunk) pool" where
  "pool_start r = \<lparr>next_index = 0, in_flight = {}, pool_failed = 0, pool_retrieval = r\<rparr>"

definition pool_done :: "xorname list \<Rightarrow> ('map, 'chunk) pool \<Rightarrow> bool" where
  "pool_done items p \<longleftrightarrow> length items \<le> next_index p \<and> in_flight p = {} \<and> pool_failed p = 0"

text \<open>The chunk an address yields, when the answers do not depend on the moment of the request.\<close>

definition yields ::
  "('map, 'info, 'chunk, 'se, 'rmp) client_libs \<Rightarrow> (xorname \<Rightarrow> (byte list option, 'te) outcome) \<Rightarrow> xorname \<rightharpoonup> 'chunk" where
  "yields L serve a = (case serve a of
       Ok (Some bytes) \<Rightarrow> (case verify_chunk L a bytes of
           Ok c \<Rightarrow> if length a = ADDRESS_LEN then Some c else None | _ \<Rightarrow> None)
     | _ \<Rightarrow> None)"

definition absorbed ::
  "('map, 'info, 'chunk, 'se, 'rmp) client_libs \<Rightarrow> (xorname \<Rightarrow> (byte list option, 'te) outcome)
     \<Rightarrow> xorname set \<Rightarrow> ('map, 'chunk) retrieval \<Rightarrow> ('map, 'chunk) retrieval" where
  "absorbed L serve A r = r\<lparr>cache := (\<lambda>a. if a \<in> A then yields L serve a else cache r a)\<rparr>"

lemma supply_yields:
  "serve a = Ok (Some bytes) \<Longrightarrow> retrieval_supply L a bytes r = Ok r' \<longleftrightarrow>
     (\<exists>c. yields L serve a = Some c \<and> r' = r\<lparr>cache := (cache r)(a \<mapsto> c)\<rparr>)"
  by (auto simp: supply_Ok_iff yields_def split: outcome.splits if_splits)

lemma yields_supply:
  "yields L serve a \<noteq> None \<longleftrightarrow> (\<exists>bytes r'. serve a = Ok (Some bytes) \<and> retrieval_supply L a bytes r = Ok r')"
  by (auto simp: supply_Ok_iff yields_def split: outcome.splits option.splits if_splits)

lemma yields_served: "yields L serve a = Some c \<Longrightarrow> \<exists>bytes. serve a = Ok (Some bytes)"
  by (auto simp: yields_def split: outcome.splits option.splits)

lemma absorbed_insert:
  "yields L serve a = Some c \<Longrightarrow>
     (absorbed L serve A r)\<lparr>cache := (cache (absorbed L serve A r))(a \<mapsto> c)\<rparr> = absorbed L serve (insert a A) r"
  by (auto simp: absorbed_def fun_eq_iff)

lemma absorbed_absorbed:
  "absorbed L serve A (absorbed L serve B r) = absorbed L serve (A \<union> B) r"
  by (auto simp: absorbed_def fun_eq_iff)

lemma fetch_all_absorbed:
  assumes "\<And>n a. get n a = serve a"
    and "\<forall>a \<in> set addrs. yields L serve a \<noteq> None"
  shows "fetch_all L get addrs n r = Ok (n + length addrs, absorbed L serve (set addrs) r)"
  using assms(2)
proof (induction addrs arbitrary: n r)
  case Nil
  then show ?case by (simp add: absorbed_def)
next
  case (Cons a addrs)
  then obtain bytes c where b: "serve a = Ok (Some bytes)" "yields L serve a = Some c"
    by (auto simp: yields_def split: outcome.splits option.splits)
  let ?r = "r\<lparr>cache := (cache r)(a \<mapsto> c)\<rparr>"
  have "retrieval_supply L a bytes r = Ok ?r"
    using b by (simp add: supply_yields [of serve, OF b(1)])
  moreover have "?r = absorbed L serve {a} r"
    using b(2) by (auto simp: absorbed_def fun_eq_iff)
  ultimately show ?case
    using Cons b(1) by (simp add: assms(1) absorbed_absorbed Un_commute insert_is_Un [symmetric])
qed

text \<open>
  What every state of the pool satisfies: while no worker has rejected, the completed addresses, and
  only they, are absorbed; and a worker rejects only when some address cannot be served.
\<close>

definition pool_inv where
  "pool_inv L serve items r p \<longleftrightarrow> next_index p \<le> length items \<and> in_flight p \<subseteq> {..<next_index p}
     \<and> (0 < pool_failed p \<longrightarrow> (\<exists>a \<in> set items. yields L serve a = None))
     \<and> (pool_failed p = 0 \<longrightarrow> (\<forall>i < next_index p. i \<notin> in_flight p \<longrightarrow> yields L serve (items ! i) \<noteq> None)
          \<and> pool_retrieval p = absorbed L serve ((!) items ` ({..<next_index p} - in_flight p)) r)"

lemma pool_inv_step:
  assumes "pool_inv L serve items r p" and "pool_step L serve limit items p p'"
  shows "pool_inv L serve items r p'"
  using assms(2)
proof cases
  case take_next
  then have "{..<next_index p'} - in_flight p' = {..<next_index p} - in_flight p"
    using assms(1) by (auto simp: pool_inv_def less_Suc_eq)
  with take_next assms(1) show ?thesis
    by (auto simp: pool_inv_def less_Suc_eq)
next
  case (arrived i bytes r')
  then obtain c where c: "yields L serve (items ! i) = Some c"
      "r' = (pool_retrieval p)\<lparr>cache := (cache (pool_retrieval p))(items ! i \<mapsto> c)\<rparr>"
    using supply_yields [of serve "items ! i" bytes L "pool_retrieval p" r'] by auto
  let ?A = "(!) items ` ({..<next_index p} - in_flight p)"
  have "(!) items ` ({..<next_index p'} - in_flight p') = insert (items ! i) ?A"
    using arrived assms(1) by (auto simp: pool_inv_def)
  moreover have "pool_failed p = 0 \<Longrightarrow> r' = absorbed L serve (insert (items ! i) ?A) r"
    using c assms(1) absorbed_insert [OF c(1), of ?A r] by (simp add: pool_inv_def)
  ultimately show ?thesis
    using arrived c(1) assms(1) by (auto simp: pool_inv_def)
next
  case (rejected i)
  then have "items ! i \<in> set items" using assms(1) by (auto simp: pool_inv_def)
  with rejected assms(1) have "\<exists>a \<in> set items. yields L serve a = None"
    using yields_supply [of L serve "items ! i" "pool_retrieval p"] by (auto simp: pool_inv_def)
  with rejected assms(1) show ?thesis by (auto simp: pool_inv_def)
qed

lemma pool_inv_run:
  "(pool_step L serve limit items)\<^sup>*\<^sup>* (pool_start r) p \<Longrightarrow> pool_inv L serve items r p"
proof (induction rule: rtranclp_induct)
  case base
  then show ?case by (simp add: pool_inv_def pool_start_def absorbed_def)
next
  case (step p p')
  then show ?case using pool_inv_step by blast
qed

text \<open>
  C7. Downloading concurrently gives what downloading one by one gives: whatever the number of workers
  and in whatever order the answers arrive, a download that completes leaves exactly the state the
  sequential loop reaches, and the sequential loop succeeds.
\<close>

theorem concurrent_equals_sequential:
  assumes "\<forall>n a. get n a = serve a"
    and "(pool_step L serve limit items)\<^sup>*\<^sup>* (pool_start r) p" and "pool_done items p"
  shows "fetch_all L get items n r = Ok (n + length items, pool_retrieval p)"
proof -
  have inv: "pool_inv L serve items r p"
    by (rule pool_inv_run [OF assms(2)])
  with assms(3) have "next_index p = length items" "in_flight p = {}" "pool_failed p = 0"
    by (simp_all add: pool_inv_def pool_done_def)
  moreover have "(!) items ` {..<length items} = set items"
    by (metis atLeast_upt set_map map_nth)
  ultimately have "pool_retrieval p = absorbed L serve (set items) r"
    and "\<forall>a \<in> set items. yields L serve a \<noteq> None"
    using inv by (auto simp: pool_inv_def in_set_conv_nth)
  with fetch_all_absorbed [of get serve items L n r] assms(1) show ?thesis by simp
qed

lemma pool_inv_finite: "pool_inv L serve items r p \<Longrightarrow> finite (in_flight p)"
  by (auto simp: pool_inv_def intro: finite_subset)

definition pool_measure :: "xorname list \<Rightarrow> ('map, 'chunk) pool \<Rightarrow> nat" where
  "pool_measure items p = 2 * (length items - next_index p) + card (in_flight p)"

lemma pool_step_decreases:
  assumes "pool_inv L serve items r p" and "pool_step L serve limit items p p'"
  shows "pool_measure items p' < pool_measure items p"
  using assms(2)
proof cases
  case take_next
  moreover have "next_index p \<notin> in_flight p" using assms(1) by (auto simp: pool_inv_def)
  ultimately show ?thesis using pool_inv_finite [OF assms(1)] by (simp add: pool_measure_def)
next
  case (arrived i bytes r')
  then have "0 < card (in_flight p)" using pool_inv_finite [OF assms(1)] by (auto simp: card_gt_0_iff)
  with arrived show ?thesis by (simp add: card_Diff_singleton pool_measure_def)
next
  case (rejected i)
  then have "0 < card (in_flight p)" using pool_inv_finite [OF assms(1)] by (auto simp: card_gt_0_iff)
  with rejected show ?thesis by (simp add: card_Diff_singleton pool_measure_def)
qed

lemma pool_run_bound:
  assumes "((pool_step L serve limit items) ^^ k) (pool_start r) p"
  shows "pool_inv L serve items r p \<and> k + pool_measure items p \<le> 2 * length items"
  using assms
proof (induction k arbitrary: p)
  case 0
  then show ?case by (auto simp: pool_start_def pool_inv_def absorbed_def pool_measure_def)
next
  case (Suc k)
  then obtain q where q: "((pool_step L serve limit items) ^^ k) (pool_start r) q"
      "pool_step L serve limit items q p" by auto
  with Suc.IH [OF q(1)] pool_step_decreases [OF _ q(2)] pool_inv_step [OF _ q(2)] show ?case by fastforce
qed

lemma pool_run_workers:
  assumes "((pool_step L serve limit items) ^^ k) (pool_start r) p"
  shows "card (in_flight p) + pool_failed p \<le> min limit (length items)"
  using assms
proof (induction k arbitrary: p)
  case 0
  then show ?case by (auto simp: pool_start_def)
next
  case (Suc k)
  then obtain q where q: "((pool_step L serve limit items) ^^ k) (pool_start r) q"
      "pool_step L serve limit items q p" by auto
  have fin: "finite (in_flight q)" using pool_run_bound [OF q(1)] pool_inv_finite by blast
  then have "i \<in> in_flight q \<Longrightarrow> Suc (card (in_flight q - {i})) = card (in_flight q)" for i
    by (rule card_Suc_Diff1)
  with q(2) Suc.IH [OF q(1)] show ?case
    by (cases rule: pool_step.cases) (fastforce simp: card_insert_if fin)+
qed

text \<open>A pool with an address in flight, or with none and no rejection before its end, has a step.\<close>

lemma pool_stuck:
  assumes "0 < limit" and "\<nexists>p'. pool_step L serve limit items p p'"
  shows "in_flight p = {} \<and> (pool_failed p = 0 \<longrightarrow> length items \<le> next_index p)"
proof -
  have idle: "in_flight p = {}"
  proof (rule ccontr)
    assume "in_flight p \<noteq> {}"
    then obtain i where "i \<in> in_flight p" by blast
    with assms(2) show False by (blast intro: pool_step.intros)
  qed
  moreover have "\<not> next_index p < length items" if "pool_failed p = 0"
  proof
    assume n: "next_index p < length items"
    with idle that assms(1) have "card (in_flight p) + pool_failed p < min limit (length items)" by auto
    with n assms(2) show False by (blast intro: pool_step.take_next)
  qed
  ultimately show ?thesis by (simp add: not_less)
qed

text \<open>
  C10. Every download of a round settles, one way or the other. With at least one worker, and every
  request to the network being answered or failing: there are never more requests in flight than
  workers, no run of the pool is longer than two steps per address, and a worker rejects only if some
  address is not served with bytes that verify. A run that can go no further has no request
  outstanding; it has downloaded every address and no worker rejected when every address is served
  with bytes that verify, and otherwise some worker rejected, which rejects the download.
\<close>

theorem concurrent_completes:
  assumes "0 < limit" and "((pool_step L serve limit items) ^^ k) (pool_start r) p"
  shows "k \<le> 2 * length items \<and> card (in_flight p) \<le> limit
    \<and> (0 < pool_failed p \<longrightarrow> (\<exists>a \<in> set items. yields L serve a = None))
    \<and> ((\<nexists>p'. pool_step L serve limit items p p') \<longrightarrow>
        in_flight p = {}
        \<and> (if \<forall>a \<in> set items. yields L serve a \<noteq> None then pool_done items p else 0 < pool_failed p))"
proof -
  have inv: "pool_inv L serve items r p" "k \<le> 2 * length items"
    using pool_run_bound [OF assms(2)] by auto
  have stuck: "in_flight p = {} \<and> (pool_failed p = 0 \<longrightarrow> pool_done items p)"
    if "\<nexists>p'. pool_step L serve limit items p p'"
    using pool_stuck [OF assms(1) that] by (simp add: pool_done_def)
  have "\<forall>a \<in> set items. yields L serve a \<noteq> None" if "pool_done items p"
    using that inv(1) by (auto simp: pool_inv_def pool_done_def in_set_conv_nth)
  moreover have "0 < pool_failed p \<longrightarrow> (\<exists>a \<in> set items. yields L serve a = None)"
    using inv(1) by (simp add: pool_inv_def)
  moreover have "card (in_flight p) \<le> limit"
    using pool_run_workers [OF assms(2)] by simp
  ultimately show ?thesis
    using inv(2) stuck by (metis gr0I)
qed

section \<open>Two workers, answers in reverse order\<close>

definition demo_items :: "xorname list" where
  "demo_items = [demo_hash demo_chunk1, demo_hash demo_chunk2]"

definition demo_serve :: "xorname \<Rightarrow> (byte list option, nat) outcome" where
  "demo_serve a = Ok (demo_store a)"

definition demo_pool :: "nat \<Rightarrow> nat set \<Rightarrow> (xorname \<rightharpoonup> byte list)
    \<Rightarrow> (bool \<times> xorname list, byte list) pool" where
  "demo_pool n fl ca = \<lparr>next_index = n, in_flight = fl, pool_failed = 0,
     pool_retrieval = \<lparr>rmap = (False, demo_items), root_resolved = True, cache = ca\<rparr>\<rparr>"

abbreviation "demo_pool_end \<equiv>
  demo_pool 2 {} (Map.empty(demo_hash demo_chunk2 \<mapsto> demo_chunk2, demo_hash demo_chunk1 \<mapsto> demo_chunk1))"

lemma demo_pool_facts:
  "demo_serve (demo_items ! 0) = Ok (Some demo_chunk1)" "demo_serve (demo_items ! 1) = Ok (Some demo_chunk2)"
  "verify_chunk demo_libs (demo_items ! 0) demo_chunk1 = Ok demo_chunk1"
  "verify_chunk demo_libs (demo_items ! 1) demo_chunk2 = Ok demo_chunk2"
  "length (demo_items ! 0) = ADDRESS_LEN" "length (demo_items ! 1) = ADDRESS_LEN"
  "length demo_items = 2"
  by code_simp+

lemma demo_in_flight: "{0, Suc 0} - {Suc 0} = {0}"
  by auto

lemma demo_pool_run:
  "((pool_step demo_libs demo_serve 2 demo_items) ^^ 4) (demo_pool 0 {} Map.empty) demo_pool_end"
proof -
  let ?step = "pool_step demo_libs demo_serve 2 demo_items"
  have 1: "?step (demo_pool 0 {} Map.empty) (demo_pool 1 {0} Map.empty)"
    using take_next [of "demo_pool 0 {} Map.empty" demo_items 2 demo_libs demo_serve]
    by (simp add: demo_pool_def demo_pool_facts)
  have 2: "?step (demo_pool 1 {0} Map.empty) (demo_pool 2 {0, 1} Map.empty)"
    using take_next [of "demo_pool 1 {0} Map.empty" demo_items 2 demo_libs demo_serve]
    by (simp add: demo_pool_def demo_pool_facts insert_commute numeral_2_eq_2)
  have 3: "?step (demo_pool 2 {0, 1} Map.empty) (demo_pool 2 {0} (Map.empty(demo_items ! 1 \<mapsto> demo_chunk2)))"
    using arrived [of 1 "demo_pool 2 {0, 1} Map.empty" demo_serve demo_items demo_chunk2 demo_libs]
    by (simp add: demo_pool_def demo_pool_facts [unfolded One_nat_def] supply_Ok_iff demo_in_flight)
  have 4: "?step (demo_pool 2 {0} (Map.empty(demo_items ! 1 \<mapsto> demo_chunk2)))
      (demo_pool 2 {} (Map.empty(demo_items ! 1 \<mapsto> demo_chunk2, demo_items ! 0 \<mapsto> demo_chunk1)))"
    using arrived [of 0 "demo_pool 2 {0} (Map.empty(demo_items ! 1 \<mapsto> demo_chunk2))" demo_serve demo_items demo_chunk1 demo_libs]
    by (simp add: demo_pool_def demo_pool_facts supply_Ok_iff)
  from 1 2 3 4 show ?thesis
    by (auto simp: eval_nat_numeral demo_items_def relcompp_apply)
qed

theorem concurrent_equals_sequential_witness:
  "fetch_all demo_libs (\<lambda>n. demo_serve) demo_items 1 (pool_retrieval (demo_pool 0 {} Map.empty))
   = Ok (3, pool_retrieval demo_pool_end)"
proof -
  have "(pool_step demo_libs demo_serve 2 demo_items)\<^sup>*\<^sup>*
      (pool_start (pool_retrieval (demo_pool 0 {} Map.empty))) demo_pool_end"
    using relpowp_imp_rtranclp [OF demo_pool_run] by (simp add: pool_start_def demo_pool_def)
  from concurrent_equals_sequential [OF _ this, of "\<lambda>n. demo_serve" 1] show ?thesis
    by (simp add: pool_done_def demo_pool_def demo_pool_facts)
qed

text \<open>The network withholds the second chunk: the worker that asked for it rejects.\<close>

definition demo_serve_first :: "xorname \<Rightarrow> (byte list option, nat) outcome" where
  "demo_serve_first a = Ok (if a = demo_hash demo_chunk1 then Some demo_chunk1 else None)"

lemma demo_serve_first_facts:
  "demo_serve_first (demo_items ! 1) = Ok None" "length demo_items = 2"
  by code_simp+

lemma demo_pool_rejected:
  "((pool_step demo_libs demo_serve_first 2 demo_items) ^^ 3) (demo_pool 0 {} Map.empty)
     ((demo_pool 2 {0} Map.empty)\<lparr>pool_failed := 1\<rparr>)"
proof -
  let ?step = "pool_step demo_libs demo_serve_first 2 demo_items"
  have 1: "?step (demo_pool 0 {} Map.empty) (demo_pool 1 {0} Map.empty)"
    using take_next [of "demo_pool 0 {} Map.empty" demo_items 2 demo_libs demo_serve_first]
    by (simp add: demo_pool_def demo_pool_facts)
  have 2: "?step (demo_pool 1 {0} Map.empty) (demo_pool 2 {0, 1} Map.empty)"
    using take_next [of "demo_pool 1 {0} Map.empty" demo_items 2 demo_libs demo_serve_first]
    by (simp add: demo_pool_def demo_pool_facts insert_commute numeral_2_eq_2)
  have 3: "?step (demo_pool 2 {0, 1} Map.empty) ((demo_pool 2 {0} Map.empty)\<lparr>pool_failed := 1\<rparr>)"
    using rejected [of 1 "demo_pool 2 {0, 1} Map.empty" demo_serve_first demo_items demo_libs]
    by (simp add: demo_pool_def demo_serve_first_facts [unfolded One_nat_def] demo_in_flight)
  from 1 2 3 show ?thesis
    by (auto simp: eval_nat_numeral relcompp_apply)
qed

theorem concurrent_completes_witness:
  "(3 :: nat) \<le> 2 * length demo_items
   \<and> (\<exists>a \<in> set demo_items. yields demo_libs demo_serve_first a = None)
   \<and> pool_done demo_items demo_pool_end"
proof -
  have "\<forall>a \<in> set demo_items. yields demo_libs demo_serve a \<noteq> None"
    using demo_pool_facts by (auto simp: yields_def demo_items_def)
  moreover have "\<nexists>p'. pool_step demo_libs demo_serve 2 demo_items demo_pool_end p'"
    by (auto simp: demo_pool_def demo_pool_facts elim: pool_stepE)
  moreover have "((pool_step demo_libs demo_serve 2 demo_items) ^^ 4)
      (pool_start (pool_retrieval (demo_pool 0 {} Map.empty))) demo_pool_end"
    using demo_pool_run by (simp add: pool_start_def demo_pool_def)
  moreover have "((pool_step demo_libs demo_serve_first 2 demo_items) ^^ 3)
      (pool_start (pool_retrieval (demo_pool 0 {} Map.empty))) ((demo_pool 2 {0} Map.empty)\<lparr>pool_failed := 1\<rparr>)"
    using demo_pool_rejected by (simp add: pool_start_def demo_pool_def)
  ultimately show ?thesis
    using concurrent_completes [of 2 4 demo_libs demo_serve demo_items]
      concurrent_completes [of 2 3 demo_libs demo_serve_first demo_items]
    by fastforce
qed

end
