(* ===== verification/Dtls_Types.thy ===== *)
theory Dtls_Types
  imports Prelude
begin

text \<open>
  The data types of the DTLS stack (\<^verbatim>\<open>vendor/webrtc-dtls/src\<close>): its error enumeration, and the
  enumerations of the wire format with their two conversions, \<^verbatim>\<open>From<u8>\<close>/\<^verbatim>\<open>From<u16>\<close> (\<open>..._from\<close>) and
  the \<^verbatim>\<open>as\<close> cast (\<open>..._as\<close>). A variant without an explicit discriminant has the previous one plus
  one. The readers of the wire format report a short input as the I/O error \<^verbatim>\<open>UnexpectedEof\<close>.
\<close>

section \<open>Errors\<close>

datatype (plugins only: size) dtls_error =
    ErrConnClosed | ErrDeadlineExceeded
  | ErrBufferTooSmall | ErrContextUnsupported
  | ErrDtlspacketInvalidLength | ErrHandshakeInProgress
  | ErrInvalidContentType | ErrInvalidMac
  | ErrInvalidPacketLength | ErrReservedExportKeyingMaterial
  | ErrCertificateVerifyNoCertificate | ErrCipherSuiteNoIntersection
  | ErrCipherSuiteUnset | ErrClientCertificateNotVerified
  | ErrClientCertificateRequired | ErrClientNoMatchingSrtpProfile
  | ErrClientRequiredButNoServerEms | ErrCompressionMethodUnset
  | ErrCookieMismatch | ErrCookieTooLong
  | ErrIdentityNoPsk | ErrInvalidCertificate
  | ErrInvalidCipherSpec | ErrInvalidCipherSuite
  | ErrInvalidClientKeyExchange | ErrInvalidCompressionMethod
  | ErrInvalidEcdsasignature | ErrInvalidEllipticCurveType
  | ErrInvalidExtensionType | ErrInvalidHashAlgorithm
  | ErrInvalidNamedCurve | ErrInvalidPrivateKey
  | ErrNamedCurveAndPrivateKeyMismatch | ErrInvalidSniFormat
  | ErrInvalidSignatureAlgorithm | ErrKeySignatureMismatch
  | ErrNilNextConn | ErrNoAvailableCipherSuites
  | ErrNoAvailableSignatureSchemes | ErrNoCertificates
  | ErrNoConfigProvided | ErrNoSupportedEllipticCurves
  | ErrUnsupportedProtocolVersion | ErrPskAndCertificate
  | ErrPskAndIdentityMustBeSetForClient | ErrRequestedButNoSrtpExtension
  | ErrServerMustHaveCertificate | ErrServerNoMatchingSrtpProfile
  | ErrServerRequiredButNoClientEms | ErrVerifyDataMismatch
  | ErrHandshakeMessageUnset | ErrInvalidFlight
  | ErrKeySignatureGenerateUnimplemented | ErrKeySignatureVerifyUnimplemented
  | ErrLengthMismatch | ErrNotEnoughRoomForNonce
  | ErrNotImplemented | ErrSequenceNumberOverflow
  | ErrUnableToMarshalFragmented | ErrInvalidFsmTransition
  | ErrApplicationDataEpochZero | ErrUnhandledContextType
  | ErrContextCanceled | ErrEmptyFragment
  | ErrAlertFatalOrClose
  | ErrFragmentBufferOverflow nat nat
  | Io string | Util string | Utf8 | Sec1 | Aes | P256Error | RcGen | MpscSend string
  | KeyingMaterial | InvalidPEM string | Other string

abbreviation io_eof :: dtls_error where
  "io_eof \<equiv> Io ''UnexpectedEof''"

section \<open>Readers and writers of the wire format\<close>

type_synonym 'a dtls_reader = "('a, dtls_error) reader"

definition read_u8 :: "byte dtls_reader" where
  "read_u8 = read_uint io_eof 1"

definition read_u16 :: "u16 dtls_reader" where
  "read_u16 = read_uint io_eof 2"

definition read_u24 :: "u32 dtls_reader" where
  "read_u24 = read_uint io_eof 3"

definition read_u32 :: "u32 dtls_reader" where
  "read_u32 = read_uint io_eof 4"

abbreviation read_bytes :: "nat \<Rightarrow> byte list dtls_reader" where
  "read_bytes \<equiv> read_exact io_eof"

text \<open>\<^verbatim>\<open>write_u24\<close> panics on a value that does not fit three bytes.\<close>

definition write_u24 :: "u32 \<Rightarrow> (byte list, dtls_error) outcome" where
  "write_u24 w = (if w < 0x1000000 then Ok (to_be 3 w) else Panic)"

text \<open>The casts \<^verbatim>\<open>len as u8\<close>, \<^verbatim>\<open>len as u16\<close>, \<^verbatim>\<open>len as u32\<close> keep the low bits.\<close>

abbreviation len_u8 :: "'a list \<Rightarrow> byte" where "len_u8 xs \<equiv> word_of_nat (length xs)"
abbreviation len_u16 :: "'a list \<Rightarrow> u16" where "len_u16 xs \<equiv> word_of_nat (length xs)"

lemma read_u8_Cons [simp, wire_simps]: "read_u8 (b # rest) = Ok (b, rest)"
proof -
  have "(from_be [b] :: byte) = b"
    by (simp add: from_be_def)
  then show ?thesis
    by (simp add: read_u8_def read_uint_def rbind_def read_exact_def)
qed

lemma read_u16_to_be [simp, wire_simps]: "read_u16 (to_be 2 w @ rest) = Ok (w, rest)"
  by (simp add: read_u16_def)

lemma read_u24_to_be [simp, wire_simps]: "w < 0x1000000 \<Longrightarrow> read_u24 (to_be 3 w @ rest) = Ok (w, rest)"
proof -
  assume "w < 0x1000000"
  then have "unat (take_bit 24 w) = unat w"
    by (simp add: unsigned_take_bit_eq take_bit_nat_eq_self_iff word_less_nat_alt)
  then have "take_bit 24 w = w"
    by (rule word_unat_eq_iff [THEN iffD2])
  then show ?thesis by (simp add: read_u24_def)
qed

lemma read_u32_to_be [simp, wire_simps]: "read_u32 (to_be 4 w @ rest) = Ok (w, rest)"
  by (simp add: read_u32_def)

lemma read_fixed_Nil [simp]:
  "read_u8 [] = Err io_eof" "read_u16 [] = Err io_eof"
  by (simp_all add: read_u8_def read_u16_def read_uint_def rbind_def read_exact_def)

lemma read_fixed_no_panic [simp]:
  "read_u8 bs \<noteq> Panic" "read_u16 bs \<noteq> Panic" "read_u24 bs \<noteq> Panic" "read_u32 bs \<noteq> Panic"
  by (simp_all add: read_u8_def read_u16_def read_u24_def read_u32_def)

lemma unat_small [simp]:
  "n < 65536 \<Longrightarrow> unat (word_of_nat n :: u16) = n" "k < 256 \<Longrightarrow> unat (word_of_nat k :: byte) = k"
  by (simp_all add: unat_of_nat)

lemma double_len_u16 [simp]:
  "length xs < 32768 \<Longrightarrow> unat (2 * len_u16 xs) div 2 = length xs"
proof -
  assume "length xs < 32768"
  then have "unat (2 * len_u16 xs) = 2 * length xs"
    by (simp add: unat_word_ariths unat_of_nat)
  then show ?thesis by simp
qed

lemmas read_step = rbind_Ok rbind_Err

section \<open>Enumerations of the wire format\<close>

datatype content_type =
    CT_ChangeCipherSpec | CT_Alert | CT_Handshake
  | CT_ApplicationData | CT_Invalid

definition content_type_from :: "byte \<Rightarrow> content_type" where
  "content_type_from v =
     (if v = 20 then CT_ChangeCipherSpec
      else if v = 21 then CT_Alert
      else if v = 22 then CT_Handshake
      else if v = 23 then CT_ApplicationData
      else CT_Invalid)"

fun content_type_as :: "content_type \<Rightarrow> byte" where
  "content_type_as CT_ChangeCipherSpec = 20"
| "content_type_as CT_Alert = 21"
| "content_type_as CT_Handshake = 22"
| "content_type_as CT_ApplicationData = 23"
| "content_type_as CT_Invalid = 24"

lemma content_type_roundtrip [simp, roundtrip]: "content_type_from (content_type_as x) = x"
  by (cases x) (simp_all add: content_type_from_def)

datatype alert_level =
    AL_Warning | AL_Fatal | AL_Invalid

definition alert_level_from :: "byte \<Rightarrow> alert_level" where
  "alert_level_from v =
     (if v = 1 then AL_Warning
      else if v = 2 then AL_Fatal
      else AL_Invalid)"

fun alert_level_as :: "alert_level \<Rightarrow> byte" where
  "alert_level_as AL_Warning = 1"
| "alert_level_as AL_Fatal = 2"
| "alert_level_as AL_Invalid = 3"

lemma alert_level_roundtrip [simp, roundtrip]: "alert_level_from (alert_level_as x) = x"
  by (cases x) (simp_all add: alert_level_from_def)

datatype alert_description =
    AD_CloseNotify | AD_UnexpectedMessage | AD_BadRecordMac
  | AD_DecryptionFailed | AD_RecordOverflow | AD_DecompressionFailure
  | AD_HandshakeFailure | AD_NoCertificate | AD_BadCertificate
  | AD_UnsupportedCertificate | AD_CertificateRevoked | AD_CertificateExpired
  | AD_CertificateUnknown | AD_IllegalParameter | AD_UnknownCa
  | AD_AccessDenied | AD_DecodeError | AD_DecryptError
  | AD_ExportRestriction | AD_ProtocolVersion | AD_InsufficientSecurity
  | AD_InternalError | AD_UserCanceled | AD_NoRenegotiation
  | AD_UnsupportedExtension | AD_UnknownPskIdentity | AD_Invalid

definition alert_description_from :: "byte \<Rightarrow> alert_description" where
  "alert_description_from v =
     (if v = 0 then AD_CloseNotify
      else if v = 10 then AD_UnexpectedMessage
      else if v = 20 then AD_BadRecordMac
      else if v = 21 then AD_DecryptionFailed
      else if v = 22 then AD_RecordOverflow
      else if v = 30 then AD_DecompressionFailure
      else if v = 40 then AD_HandshakeFailure
      else if v = 41 then AD_NoCertificate
      else if v = 42 then AD_BadCertificate
      else if v = 43 then AD_UnsupportedCertificate
      else if v = 44 then AD_CertificateRevoked
      else if v = 45 then AD_CertificateExpired
      else if v = 46 then AD_CertificateUnknown
      else if v = 47 then AD_IllegalParameter
      else if v = 48 then AD_UnknownCa
      else if v = 49 then AD_AccessDenied
      else if v = 50 then AD_DecodeError
      else if v = 51 then AD_DecryptError
      else if v = 60 then AD_ExportRestriction
      else if v = 70 then AD_ProtocolVersion
      else if v = 71 then AD_InsufficientSecurity
      else if v = 80 then AD_InternalError
      else if v = 90 then AD_UserCanceled
      else if v = 100 then AD_NoRenegotiation
      else if v = 110 then AD_UnsupportedExtension
      else if v = 115 then AD_UnknownPskIdentity
      else AD_Invalid)"

fun alert_description_as :: "alert_description \<Rightarrow> byte" where
  "alert_description_as AD_CloseNotify = 0"
| "alert_description_as AD_UnexpectedMessage = 10"
| "alert_description_as AD_BadRecordMac = 20"
| "alert_description_as AD_DecryptionFailed = 21"
| "alert_description_as AD_RecordOverflow = 22"
| "alert_description_as AD_DecompressionFailure = 30"
| "alert_description_as AD_HandshakeFailure = 40"
| "alert_description_as AD_NoCertificate = 41"
| "alert_description_as AD_BadCertificate = 42"
| "alert_description_as AD_UnsupportedCertificate = 43"
| "alert_description_as AD_CertificateRevoked = 44"
| "alert_description_as AD_CertificateExpired = 45"
| "alert_description_as AD_CertificateUnknown = 46"
| "alert_description_as AD_IllegalParameter = 47"
| "alert_description_as AD_UnknownCa = 48"
| "alert_description_as AD_AccessDenied = 49"
| "alert_description_as AD_DecodeError = 50"
| "alert_description_as AD_DecryptError = 51"
| "alert_description_as AD_ExportRestriction = 60"
| "alert_description_as AD_ProtocolVersion = 70"
| "alert_description_as AD_InsufficientSecurity = 71"
| "alert_description_as AD_InternalError = 80"
| "alert_description_as AD_UserCanceled = 90"
| "alert_description_as AD_NoRenegotiation = 100"
| "alert_description_as AD_UnsupportedExtension = 110"
| "alert_description_as AD_UnknownPskIdentity = 115"
| "alert_description_as AD_Invalid = 116"

lemma alert_description_roundtrip [simp, roundtrip]: "alert_description_from (alert_description_as x) = x"
  by (cases x) (simp_all add: alert_description_from_def)

datatype handshake_type =
    HT_HelloRequest | HT_ClientHello | HT_ServerHello
  | HT_HelloVerifyRequest | HT_Certificate | HT_ServerKeyExchange
  | HT_CertificateRequest | HT_ServerHelloDone | HT_CertificateVerify
  | HT_ClientKeyExchange | HT_Finished | HT_Invalid

definition handshake_type_from :: "byte \<Rightarrow> handshake_type" where
  "handshake_type_from v =
     (if v = 0 then HT_HelloRequest
      else if v = 1 then HT_ClientHello
      else if v = 2 then HT_ServerHello
      else if v = 3 then HT_HelloVerifyRequest
      else if v = 11 then HT_Certificate
      else if v = 12 then HT_ServerKeyExchange
      else if v = 13 then HT_CertificateRequest
      else if v = 14 then HT_ServerHelloDone
      else if v = 15 then HT_CertificateVerify
      else if v = 16 then HT_ClientKeyExchange
      else if v = 20 then HT_Finished
      else HT_Invalid)"

fun handshake_type_as :: "handshake_type \<Rightarrow> byte" where
  "handshake_type_as HT_HelloRequest = 0"
| "handshake_type_as HT_ClientHello = 1"
| "handshake_type_as HT_ServerHello = 2"
| "handshake_type_as HT_HelloVerifyRequest = 3"
| "handshake_type_as HT_Certificate = 11"
| "handshake_type_as HT_ServerKeyExchange = 12"
| "handshake_type_as HT_CertificateRequest = 13"
| "handshake_type_as HT_ServerHelloDone = 14"
| "handshake_type_as HT_CertificateVerify = 15"
| "handshake_type_as HT_ClientKeyExchange = 16"
| "handshake_type_as HT_Finished = 20"
| "handshake_type_as HT_Invalid = 21"

lemma handshake_type_roundtrip [simp, roundtrip]: "handshake_type_from (handshake_type_as x) = x"
  by (cases x) (simp_all add: handshake_type_from_def)

datatype compression_method_id =
    CM_Null | CM_Unsupported

definition compression_method_id_from :: "byte \<Rightarrow> compression_method_id" where
  "compression_method_id_from v =
     (if v = 0 then CM_Null
      else CM_Unsupported)"

fun compression_method_id_as :: "compression_method_id \<Rightarrow> byte" where
  "compression_method_id_as CM_Null = 0"
| "compression_method_id_as CM_Unsupported = 1"

lemma compression_method_id_roundtrip [simp, roundtrip]: "compression_method_id_from (compression_method_id_as x) = x"
  by (cases x) (simp_all add: compression_method_id_from_def)

datatype client_certificate_type =
    CCT_RsaSign | CCT_EcdsaSign | CCT_Unsupported

definition client_certificate_type_from :: "byte \<Rightarrow> client_certificate_type" where
  "client_certificate_type_from v =
     (if v = 1 then CCT_RsaSign
      else if v = 64 then CCT_EcdsaSign
      else CCT_Unsupported)"

fun client_certificate_type_as :: "client_certificate_type \<Rightarrow> byte" where
  "client_certificate_type_as CCT_RsaSign = 1"
| "client_certificate_type_as CCT_EcdsaSign = 64"
| "client_certificate_type_as CCT_Unsupported = 65"

lemma client_certificate_type_roundtrip [simp, roundtrip]: "client_certificate_type_from (client_certificate_type_as x) = x"
  by (cases x) (simp_all add: client_certificate_type_from_def)

datatype elliptic_curve_type =
    ECT_NamedCurve | ECT_Unsupported

definition elliptic_curve_type_from :: "byte \<Rightarrow> elliptic_curve_type" where
  "elliptic_curve_type_from v =
     (if v = 3 then ECT_NamedCurve
      else ECT_Unsupported)"

fun elliptic_curve_type_as :: "elliptic_curve_type \<Rightarrow> byte" where
  "elliptic_curve_type_as ECT_NamedCurve = 3"
| "elliptic_curve_type_as ECT_Unsupported = 4"

lemma elliptic_curve_type_roundtrip [simp, roundtrip]: "elliptic_curve_type_from (elliptic_curve_type_as x) = x"
  by (cases x) (simp_all add: elliptic_curve_type_from_def)

datatype named_curve =
    NC_Unsupported | NC_P256 | NC_P384
  | NC_X25519

definition named_curve_from :: "u16 \<Rightarrow> named_curve" where
  "named_curve_from v =
     (if v = 23 then NC_P256
      else if v = 24 then NC_P384
      else if v = 29 then NC_X25519
      else NC_Unsupported)"

fun named_curve_as :: "named_curve \<Rightarrow> u16" where
  "named_curve_as NC_Unsupported = 0"
| "named_curve_as NC_P256 = 23"
| "named_curve_as NC_P384 = 24"
| "named_curve_as NC_X25519 = 29"

lemma named_curve_roundtrip [simp, roundtrip]: "named_curve_from (named_curve_as x) = x"
  by (cases x) (simp_all add: named_curve_from_def)

datatype hash_algorithm =
    HA_Md2 | HA_Md5 | HA_Sha1
  | HA_Sha224 | HA_Sha256 | HA_Sha384
  | HA_Sha512 | HA_Ed25519 | HA_Unsupported

definition hash_algorithm_from :: "byte \<Rightarrow> hash_algorithm" where
  "hash_algorithm_from v =
     (if v = 0 then HA_Md2
      else if v = 1 then HA_Md5
      else if v = 2 then HA_Sha1
      else if v = 3 then HA_Sha224
      else if v = 4 then HA_Sha256
      else if v = 5 then HA_Sha384
      else if v = 6 then HA_Sha512
      else if v = 8 then HA_Ed25519
      else HA_Unsupported)"

fun hash_algorithm_as :: "hash_algorithm \<Rightarrow> byte" where
  "hash_algorithm_as HA_Md2 = 0"
| "hash_algorithm_as HA_Md5 = 1"
| "hash_algorithm_as HA_Sha1 = 2"
| "hash_algorithm_as HA_Sha224 = 3"
| "hash_algorithm_as HA_Sha256 = 4"
| "hash_algorithm_as HA_Sha384 = 5"
| "hash_algorithm_as HA_Sha512 = 6"
| "hash_algorithm_as HA_Ed25519 = 8"
| "hash_algorithm_as HA_Unsupported = 9"

lemma hash_algorithm_roundtrip [simp, roundtrip]: "hash_algorithm_from (hash_algorithm_as x) = x"
  by (cases x) (simp_all add: hash_algorithm_from_def)

datatype signature_algorithm =
    SA_Rsa | SA_Ecdsa | SA_Ed25519
  | SA_Unsupported

definition signature_algorithm_from :: "byte \<Rightarrow> signature_algorithm" where
  "signature_algorithm_from v =
     (if v = 1 then SA_Rsa
      else if v = 3 then SA_Ecdsa
      else if v = 7 then SA_Ed25519
      else SA_Unsupported)"

fun signature_algorithm_as :: "signature_algorithm \<Rightarrow> byte" where
  "signature_algorithm_as SA_Rsa = 1"
| "signature_algorithm_as SA_Ecdsa = 3"
| "signature_algorithm_as SA_Ed25519 = 7"
| "signature_algorithm_as SA_Unsupported = 8"

lemma signature_algorithm_roundtrip [simp, roundtrip]: "signature_algorithm_from (signature_algorithm_as x) = x"
  by (cases x) (simp_all add: signature_algorithm_from_def)

datatype cipher_suite_id =
    Tls_Ecdhe_Ecdsa_With_Aes_128_Ccm | Tls_Ecdhe_Ecdsa_With_Aes_128_Ccm_8 | Tls_Ecdhe_Ecdsa_With_Aes_128_Gcm_Sha256
  | Tls_Ecdhe_Rsa_With_Aes_128_Gcm_Sha256 | Tls_Ecdhe_Ecdsa_With_Aes_256_Cbc_Sha | Tls_Ecdhe_Rsa_With_Aes_256_Cbc_Sha
  | Tls_Psk_With_Aes_128_Ccm | Tls_Psk_With_Aes_128_Ccm_8 | Tls_Psk_With_Aes_128_Gcm_Sha256
  | CS_Unsupported

definition cipher_suite_id_from :: "u16 \<Rightarrow> cipher_suite_id" where
  "cipher_suite_id_from v =
     (if v = 0xc0ac then Tls_Ecdhe_Ecdsa_With_Aes_128_Ccm
      else if v = 0xc0ae then Tls_Ecdhe_Ecdsa_With_Aes_128_Ccm_8
      else if v = 0xc02b then Tls_Ecdhe_Ecdsa_With_Aes_128_Gcm_Sha256
      else if v = 0xc02f then Tls_Ecdhe_Rsa_With_Aes_128_Gcm_Sha256
      else if v = 0xc00a then Tls_Ecdhe_Ecdsa_With_Aes_256_Cbc_Sha
      else if v = 0xc014 then Tls_Ecdhe_Rsa_With_Aes_256_Cbc_Sha
      else if v = 0xc0a4 then Tls_Psk_With_Aes_128_Ccm
      else if v = 0xc0a8 then Tls_Psk_With_Aes_128_Ccm_8
      else if v = 0x00a8 then Tls_Psk_With_Aes_128_Gcm_Sha256
      else CS_Unsupported)"

fun cipher_suite_id_as :: "cipher_suite_id \<Rightarrow> u16" where
  "cipher_suite_id_as Tls_Ecdhe_Ecdsa_With_Aes_128_Ccm = 0xc0ac"
| "cipher_suite_id_as Tls_Ecdhe_Ecdsa_With_Aes_128_Ccm_8 = 0xc0ae"
| "cipher_suite_id_as Tls_Ecdhe_Ecdsa_With_Aes_128_Gcm_Sha256 = 0xc02b"
| "cipher_suite_id_as Tls_Ecdhe_Rsa_With_Aes_128_Gcm_Sha256 = 0xc02f"
| "cipher_suite_id_as Tls_Ecdhe_Ecdsa_With_Aes_256_Cbc_Sha = 0xc00a"
| "cipher_suite_id_as Tls_Ecdhe_Rsa_With_Aes_256_Cbc_Sha = 0xc014"
| "cipher_suite_id_as Tls_Psk_With_Aes_128_Ccm = 0xc0a4"
| "cipher_suite_id_as Tls_Psk_With_Aes_128_Ccm_8 = 0xc0a8"
| "cipher_suite_id_as Tls_Psk_With_Aes_128_Gcm_Sha256 = 0x00a8"
| "cipher_suite_id_as CS_Unsupported = 0x00a9"

lemma cipher_suite_id_roundtrip [simp, roundtrip]: "cipher_suite_id_from (cipher_suite_id_as x) = x"
  by (cases x) (simp_all add: cipher_suite_id_from_def)

datatype srtp_protection_profile =
    Srtp_Aes128_Cm_Hmac_Sha1_80 | Srtp_Aes128_Cm_Hmac_Sha1_32 | Srtp_Aead_Aes_128_Gcm
  | Srtp_Aead_Aes_256_Gcm | Srtp_Unsupported

definition srtp_protection_profile_from :: "u16 \<Rightarrow> srtp_protection_profile" where
  "srtp_protection_profile_from v =
     (if v = 1 then Srtp_Aes128_Cm_Hmac_Sha1_80
      else if v = 2 then Srtp_Aes128_Cm_Hmac_Sha1_32
      else if v = 7 then Srtp_Aead_Aes_128_Gcm
      else if v = 8 then Srtp_Aead_Aes_256_Gcm
      else Srtp_Unsupported)"

fun srtp_protection_profile_as :: "srtp_protection_profile \<Rightarrow> u16" where
  "srtp_protection_profile_as Srtp_Aes128_Cm_Hmac_Sha1_80 = 1"
| "srtp_protection_profile_as Srtp_Aes128_Cm_Hmac_Sha1_32 = 2"
| "srtp_protection_profile_as Srtp_Aead_Aes_128_Gcm = 7"
| "srtp_protection_profile_as Srtp_Aead_Aes_256_Gcm = 8"
| "srtp_protection_profile_as Srtp_Unsupported = 9"

lemma srtp_protection_profile_roundtrip [simp, roundtrip]: "srtp_protection_profile_from (srtp_protection_profile_as x) = x"
  by (cases x) (simp_all add: srtp_protection_profile_from_def)

datatype extension_value =
    EV_ServerName | EV_SupportedEllipticCurves | EV_SupportedPointFormats
  | EV_SupportedSignatureAlgorithms | EV_UseSrtp | EV_UseExtendedMasterSecret
  | EV_RenegotiationInfo | EV_Unsupported

definition extension_value_from :: "u16 \<Rightarrow> extension_value" where
  "extension_value_from v =
     (if v = 0 then EV_ServerName
      else if v = 10 then EV_SupportedEllipticCurves
      else if v = 11 then EV_SupportedPointFormats
      else if v = 13 then EV_SupportedSignatureAlgorithms
      else if v = 14 then EV_UseSrtp
      else if v = 23 then EV_UseExtendedMasterSecret
      else if v = 65281 then EV_RenegotiationInfo
      else EV_Unsupported)"

fun extension_value_as :: "extension_value \<Rightarrow> u16" where
  "extension_value_as EV_ServerName = 0"
| "extension_value_as EV_SupportedEllipticCurves = 10"
| "extension_value_as EV_SupportedPointFormats = 11"
| "extension_value_as EV_SupportedSignatureAlgorithms = 13"
| "extension_value_as EV_UseSrtp = 14"
| "extension_value_as EV_UseExtendedMasterSecret = 23"
| "extension_value_as EV_RenegotiationInfo = 65281"
| "extension_value_as EV_Unsupported = 65282"

lemma extension_value_roundtrip [simp, roundtrip]: "extension_value_from (extension_value_as x) = x"
  by (cases x) (simp_all add: extension_value_from_def)

record protocol_version =
  major :: byte
  minor :: byte

definition PROTOCOL_VERSION1_0 :: protocol_version where
  "PROTOCOL_VERSION1_0 = \<lparr>major = 0xfe, minor = 0xff\<rparr>"

definition PROTOCOL_VERSION1_2 :: protocol_version where
  "PROTOCOL_VERSION1_2 = \<lparr>major = 0xfe, minor = 0xfd\<rparr>"

record signature_hash_algorithm =
  sha_hash :: hash_algorithm
  sha_signature :: signature_algorithm

text \<open>A signature scheme on the wire is its hash byte and its signature byte.\<close>

definition put_sha :: "signature_hash_algorithm \<Rightarrow> byte list" where
  "put_sha v = [hash_algorithm_as (sha_hash v), signature_algorithm_as (sha_signature v)]"

definition get_sha :: "signature_hash_algorithm dtls_reader" where
  "get_sha = rbind read_u8 (\<lambda>h. rbind read_u8 (\<lambda>s.
     rret \<lparr>sha_hash = hash_algorithm_from h, sha_signature = signature_algorithm_from s\<rparr>))"

text \<open>The vectors of 16-bit enumerations (curves, SRTP profiles, cipher suites).\<close>

definition get_u16_as :: "(u16 \<Rightarrow> 'a) \<Rightarrow> 'a dtls_reader" where
  "get_u16_as from = rbind read_u16 (\<lambda>v. rret (from v))"

definition get_u8_as :: "(byte \<Rightarrow> 'a) \<Rightarrow> 'a dtls_reader" where
  "get_u8_as from = rbind read_u8 (\<lambda>v. rret (from v))"

interpretation sha: fixed_codec put_sha get_sha "\<lambda>_. True" 2
  by unfold_locales (simp_all add: put_sha_def get_sha_def read_step)

interpretation curve: fixed_codec "\<lambda>c. to_be 2 (named_curve_as c)" "get_u16_as named_curve_from" "\<lambda>_. True" 2
  by unfold_locales (simp_all add: get_u16_as_def read_step)

interpretation profile: fixed_codec "\<lambda>c. to_be 2 (srtp_protection_profile_as c)"
    "get_u16_as srtp_protection_profile_from" "\<lambda>_. True" 2
  by unfold_locales (simp_all add: get_u16_as_def read_step)

interpretation suite: fixed_codec "\<lambda>c. to_be 2 (cipher_suite_id_as c)"
    "get_u16_as cipher_suite_id_from" "\<lambda>_. True" 2
  by unfold_locales (simp_all add: get_u16_as_def read_step)

interpretation octet: fixed_codec "\<lambda>b. [b]" read_u8 "\<lambda>_. True" 1
  by unfold_locales simp_all

interpretation cert_type: fixed_codec "\<lambda>c. [client_certificate_type_as c]"
    "get_u8_as client_certificate_type_from" "\<lambda>_. True" 1
  by unfold_locales (simp_all add: get_u8_as_def read_step)

end
