(* ===== verification/Dtls_Extensions.thy ===== *)
theory Dtls_Extensions
  imports Dtls_Types
begin

text \<open>
  The hello extensions (\<^verbatim>\<open>vendor/webrtc-dtls/src/extension\<close>): one pair of \<^verbatim>\<open>marshal\<close> and
  \<^verbatim>\<open>unmarshal\<close> per extension and the tagged union over them. Lengths written to the wire are 16-bit
  casts. The theory shows that well-formed extensions round-trip, that \<^verbatim>\<open>size\<close> is the length of the
  encoding, and that the length field is the length of the body, which the hello parsers skip by.
\<close>

section \<open>The extensions\<close>

datatype extension =
    ServerName "byte list"
  | SupportedEllipticCurves "named_curve list"
  | SupportedPointFormats "byte list"
  | SupportedSignatureAlgorithms "signature_hash_algorithm list"
  | UseSrtp "srtp_protection_profile list"
  | UseExtendedMasterSecret bool
  | RenegotiationInfo byte

fun ext_value :: "extension \<Rightarrow> extension_value" where
  "ext_value (ServerName _) = EV_ServerName"
| "ext_value (SupportedEllipticCurves _) = EV_SupportedEllipticCurves"
| "ext_value (SupportedPointFormats _) = EV_SupportedPointFormats"
| "ext_value (SupportedSignatureAlgorithms _) = EV_SupportedSignatureAlgorithms"
| "ext_value (UseSrtp _) = EV_UseSrtp"
| "ext_value (UseExtendedMasterSecret _) = EV_UseExtendedMasterSecret"
| "ext_value (RenegotiationInfo _) = EV_RenegotiationInfo"

section \<open>Server name\<close>

definition EXTENSION_SERVER_NAME_TYPE_DNSHOST_NAME :: byte where
  "EXTENSION_SERVER_NAME_TYPE_DNSHOST_NAME = 0"

definition server_name_marshal :: "byte list \<Rightarrow> byte list" where
  "server_name_marshal name =
     to_be 2 (2 + 1 + 2 + len_u16 name) @ to_be 2 (1 + 2 + len_u16 name)
     @ [EXTENSION_SERVER_NAME_TYPE_DNSHOST_NAME] @ to_be 2 (len_u16 name) @ name"

definition server_name_unmarshal :: "byte list dtls_reader" where
  "server_name_unmarshal =
     rbind read_u16 (\<lambda>_. rbind read_u16 (\<lambda>_. rbind read_u8 (\<lambda>name_type.
       if name_type \<noteq> EXTENSION_SERVER_NAME_TYPE_DNSHOST_NAME then rfail ErrInvalidSniFormat
       else rbind read_u16 (\<lambda>buf_len. rbind (read_bytes (unat buf_len)) (\<lambda>buf.
         if utf8_valid buf then rret buf else rfail Utf8)))))"

section \<open>Supported elliptic curves\<close>

definition curves_marshal :: "named_curve list \<Rightarrow> byte list" where
  "curves_marshal cs =
     to_be 2 (2 + 2 * len_u16 cs) @ to_be 2 (2 * len_u16 cs)
     @ concat (map (\<lambda>c. to_be 2 (named_curve_as c)) cs)"

definition curves_unmarshal :: "named_curve list dtls_reader" where
  "curves_unmarshal =
     rbind read_u16 (\<lambda>_. rbind read_u16 (\<lambda>n.
       read_many (unat n div 2) (get_u16_as named_curve_from)))"

section \<open>Supported point formats\<close>

definition point_formats_marshal :: "byte list \<Rightarrow> byte list" where
  "point_formats_marshal fs =
     to_be 2 (1 + len_u16 fs) @ [len_u8 fs] @ concat (map (\<lambda>b. [b]) fs)"

definition point_formats_unmarshal :: "byte list dtls_reader" where
  "point_formats_unmarshal =
     rbind read_u16 (\<lambda>_. rbind read_u8 (\<lambda>n. read_many (unat n) read_u8))"

section \<open>Supported signature algorithms\<close>

definition signature_algorithms_marshal :: "signature_hash_algorithm list \<Rightarrow> byte list" where
  "signature_algorithms_marshal vs =
     to_be 2 (2 + 2 * len_u16 vs) @ to_be 2 (2 * len_u16 vs) @ concat (map put_sha vs)"

definition signature_algorithms_unmarshal :: "signature_hash_algorithm list dtls_reader" where
  "signature_algorithms_unmarshal =
     rbind read_u16 (\<lambda>_. rbind read_u16 (\<lambda>n. read_many (unat n div 2) get_sha))"

section \<open>Use SRTP\<close>

definition use_srtp_marshal :: "srtp_protection_profile list \<Rightarrow> byte list" where
  "use_srtp_marshal ps =
     to_be 2 (2 + 1 + 2 * len_u16 ps) @ to_be 2 (2 * len_u16 ps)
     @ concat (map (\<lambda>p. to_be 2 (srtp_protection_profile_as p)) ps) @ [0]"

definition use_srtp_unmarshal :: "srtp_protection_profile list dtls_reader" where
  "use_srtp_unmarshal =
     rbind read_u16 (\<lambda>_. rbind read_u16 (\<lambda>n.
       rbind (read_many (unat n div 2) (get_u16_as srtp_protection_profile_from)) (\<lambda>ps.
         rbind read_u8 (\<lambda>_. rret ps))))"

section \<open>Extended master secret and renegotiation info\<close>

definition use_ems_marshal :: "bool \<Rightarrow> byte list" where
  "use_ems_marshal supported = to_be 2 (0 :: u16)"

definition use_ems_unmarshal :: "bool dtls_reader" where
  "use_ems_unmarshal = rbind read_u16 (\<lambda>_. rret True)"

definition renegotiation_info_marshal :: "byte \<Rightarrow> byte list" where
  "renegotiation_info_marshal b = to_be 2 (1 :: u16) @ [b]"

definition renegotiation_info_unmarshal :: "byte dtls_reader" where
  "renegotiation_info_unmarshal =
     rbind read_u16 (\<lambda>l. if l \<noteq> 1 then rfail ErrInvalidPacketLength else read_u8)"

section \<open>The union\<close>

fun extension_body_size :: "extension \<Rightarrow> nat" where
  "extension_body_size (ServerName name) = 2 + 2 + 1 + 2 + length name"
| "extension_body_size (SupportedEllipticCurves cs) = 2 + 2 + length cs * 2"
| "extension_body_size (SupportedPointFormats fs) = 2 + 1 + length fs"
| "extension_body_size (SupportedSignatureAlgorithms vs) = 2 + 2 + length vs * 2"
| "extension_body_size (UseSrtp ps) = 2 + 2 + length ps * 2 + 1"
| "extension_body_size (UseExtendedMasterSecret _) = 2"
| "extension_body_size (RenegotiationInfo _) = 3"

definition extension_size :: "extension \<Rightarrow> nat" where
  "extension_size e = 2 + extension_body_size e"

fun extension_body_marshal :: "extension \<Rightarrow> byte list" where
  "extension_body_marshal (ServerName name) = server_name_marshal name"
| "extension_body_marshal (SupportedEllipticCurves cs) = curves_marshal cs"
| "extension_body_marshal (SupportedPointFormats fs) = point_formats_marshal fs"
| "extension_body_marshal (SupportedSignatureAlgorithms vs) = signature_algorithms_marshal vs"
| "extension_body_marshal (UseSrtp ps) = use_srtp_marshal ps"
| "extension_body_marshal (UseExtendedMasterSecret s) = use_ems_marshal s"
| "extension_body_marshal (RenegotiationInfo b) = renegotiation_info_marshal b"

definition extension_marshal :: "extension \<Rightarrow> byte list" where
  "extension_marshal e = to_be 2 (extension_value_as (ext_value e)) @ extension_body_marshal e"

definition rmap_reader :: "('a \<Rightarrow> 'b) \<Rightarrow> 'a dtls_reader \<Rightarrow> 'b dtls_reader" where
  "rmap_reader f r = rbind r (\<lambda>x. rret (f x))"

definition extension_unmarshal :: "extension dtls_reader" where
  "extension_unmarshal = rbind read_u16 (\<lambda>v. case extension_value_from v of
       EV_ServerName \<Rightarrow> rmap_reader ServerName server_name_unmarshal
     | EV_SupportedEllipticCurves \<Rightarrow> rmap_reader SupportedEllipticCurves curves_unmarshal
     | EV_SupportedPointFormats \<Rightarrow> rmap_reader SupportedPointFormats point_formats_unmarshal
     | EV_SupportedSignatureAlgorithms \<Rightarrow>
         rmap_reader SupportedSignatureAlgorithms signature_algorithms_unmarshal
     | EV_UseSrtp \<Rightarrow> rmap_reader UseSrtp use_srtp_unmarshal
     | EV_UseExtendedMasterSecret \<Rightarrow> rmap_reader UseExtendedMasterSecret use_ems_unmarshal
     | EV_RenegotiationInfo \<Rightarrow> rmap_reader RenegotiationInfo renegotiation_info_unmarshal
     | EV_Unsupported \<Rightarrow> rfail ErrInvalidExtensionType)"

section \<open>Well-formed extensions\<close>

fun extension_ok :: "extension \<Rightarrow> bool" where
  "extension_ok (ServerName name) \<longleftrightarrow> utf8_valid name \<and> length name + 5 < 65536"
| "extension_ok (SupportedEllipticCurves cs) \<longleftrightarrow> 2 + 2 * length cs < 65536"
| "extension_ok (SupportedPointFormats fs) \<longleftrightarrow> length fs < 256"
| "extension_ok (SupportedSignatureAlgorithms vs) \<longleftrightarrow> 2 + 2 * length vs < 65536"
| "extension_ok (UseSrtp ps) \<longleftrightarrow> 3 + 2 * length ps < 65536"
| "extension_ok (UseExtendedMasterSecret s) \<longleftrightarrow> s"
| "extension_ok (RenegotiationInfo _) \<longleftrightarrow> True"

lemma server_name_roundtrip [roundtrip]:
  "utf8_valid name \<Longrightarrow> length name < 65536 \<Longrightarrow>
     server_name_unmarshal (server_name_marshal name @ rest) = Ok (name, rest)"
  by (simp add: server_name_unmarshal_def server_name_marshal_def read_step
      EXTENSION_SERVER_NAME_TYPE_DNSHOST_NAME_def)

lemma curves_roundtrip [roundtrip]:
  "length cs < 32768 \<Longrightarrow> curves_unmarshal (curves_marshal cs @ rest) = Ok (cs, rest)"
  by (simp add: curves_unmarshal_def curves_marshal_def read_step curve.many list_all_iff)

lemma point_formats_roundtrip [roundtrip]:
  "length fs < 256 \<Longrightarrow> point_formats_unmarshal (point_formats_marshal fs @ rest) = Ok (fs, rest)"
  using octet.many [of fs rest]
  by (simp add: point_formats_unmarshal_def point_formats_marshal_def read_step list_all_iff)

lemma signature_algorithms_roundtrip [roundtrip]:
  "length vs < 32768 \<Longrightarrow>
     signature_algorithms_unmarshal (signature_algorithms_marshal vs @ rest) = Ok (vs, rest)"
  by (simp add: signature_algorithms_unmarshal_def signature_algorithms_marshal_def read_step
      sha.many list_all_iff)

lemma use_srtp_roundtrip [roundtrip]:
  "length ps < 32768 \<Longrightarrow> use_srtp_unmarshal (use_srtp_marshal ps @ rest) = Ok (ps, rest)"
  by (simp add: use_srtp_unmarshal_def use_srtp_marshal_def read_step profile.many list_all_iff)

lemma extension_dec_enc:
  assumes "extension_ok e"
  shows "extension_unmarshal (extension_marshal e @ rest) = Ok (e, rest)"
  using assms
  by (cases e) (simp_all add: extension_unmarshal_def extension_marshal_def read_step rmap_reader_def
      server_name_roundtrip curves_roundtrip point_formats_roundtrip signature_algorithms_roundtrip
      use_srtp_roundtrip use_ems_marshal_def use_ems_unmarshal_def renegotiation_info_marshal_def
      renegotiation_info_unmarshal_def extension_value_from_def)

interpretation ext: wire_codec extension_marshal extension_unmarshal extension_ok
  by unfold_locales (rule extension_dec_enc)

lemma extension_size_marshal [sizes]: "length (extension_marshal e) = extension_size e"
  by (cases e) (simp_all add: extension_marshal_def extension_size_def server_name_marshal_def
      curves_marshal_def point_formats_marshal_def signature_algorithms_marshal_def use_srtp_marshal_def
      use_ems_marshal_def renegotiation_info_marshal_def curve.many_length profile.many_length
      sha.many_length)

text \<open>The two bytes after the tag are the length of what follows them.\<close>

lemma extension_framed:
  assumes "extension_ok e"
  shows "\<exists>body. extension_marshal e
      = to_be 2 (extension_value_as (ext_value e)) @ to_be 2 (len_u16 body) @ body
    \<and> length body < 65536"
proof (cases e)
  case (ServerName name)
  let ?body = "to_be 2 (1 + 2 + len_u16 name) @ [EXTENSION_SERVER_NAME_TYPE_DNSHOST_NAME]
    @ to_be 2 (len_u16 name) @ name"
  show ?thesis
    using assms ServerName
    by (intro exI [of _ ?body]) (simp add: extension_marshal_def server_name_marshal_def add.commute)
next
  case (SupportedEllipticCurves cs)
  let ?body = "to_be 2 (2 * len_u16 cs) @ concat (map (\<lambda>c. to_be 2 (named_curve_as c)) cs)"
  show ?thesis
    using assms SupportedEllipticCurves
    by (intro exI [of _ ?body]) (simp add: extension_marshal_def curves_marshal_def curve.many_length)
next
  case (SupportedPointFormats fs)
  show ?thesis
    using assms SupportedPointFormats
    by (intro exI [of _ "len_u8 fs # fs"]) (simp add: extension_marshal_def point_formats_marshal_def)
next
  case (SupportedSignatureAlgorithms vs)
  let ?body = "to_be 2 (2 * len_u16 vs) @ concat (map put_sha vs)"
  show ?thesis
    using assms SupportedSignatureAlgorithms
    by (intro exI [of _ ?body])
      (simp add: extension_marshal_def signature_algorithms_marshal_def sha.many_length)
next
  case (UseSrtp ps)
  let ?body = "to_be 2 (2 * len_u16 ps) @ concat (map (\<lambda>p. to_be 2 (srtp_protection_profile_as p)) ps) @ [0]"
  show ?thesis
    using assms UseSrtp
    by (intro exI [of _ ?body]) (simp add: extension_marshal_def use_srtp_marshal_def profile.many_length)
next
  case (UseExtendedMasterSecret s)
  show ?thesis
    using UseExtendedMasterSecret
    by (intro exI [of _ "[]"]) (simp add: extension_marshal_def use_ems_marshal_def)
next
  case (RenegotiationInfo b)
  show ?thesis
    using RenegotiationInfo
    by (intro exI [of _ "[b]"]) (simp add: extension_marshal_def renegotiation_info_marshal_def)
qed

text \<open>Reading an extension never panics, on any input.\<close>

lemma extension_unmarshal_no_panic: "extension_unmarshal bs \<noteq> Panic"
proof -
  have many: "read_many n r xs \<noteq> Panic" if "\<And>ys. r ys \<noteq> Panic" for n xs and r :: "'a dtls_reader"
    using that by (rule read_many_no_panic)
  have sha: "get_sha xs \<noteq> Panic" "get_u16_as f ys \<noteq> Panic" for xs ys and f :: "u16 \<Rightarrow> 'b"
    by (auto simp: get_sha_def get_u16_as_def rbind_eq_Panic)
  show ?thesis
    by (auto simp: extension_unmarshal_def rbind_eq_Panic rmap_reader_def server_name_unmarshal_def
        curves_unmarshal_def point_formats_unmarshal_def signature_algorithms_unmarshal_def
        use_srtp_unmarshal_def use_ems_unmarshal_def renegotiation_info_unmarshal_def many sha
        read_many_no_panic get_sha_def get_u16_as_def
        split: extension_value.splits if_splits)
qed

end
