(* ===== verification/Dtls_Messages.thy ===== *)
theory Dtls_Messages
  imports Dtls_Extensions
begin

text \<open>
  The bodies of the handshake messages (\<^verbatim>\<open>handshake_message_*.rs\<close>, \<^verbatim>\<open>handshake_random.rs\<close> and
  \<^verbatim>\<open>compression_methods.rs\<close>): for each the structure, \<^verbatim>\<open>size\<close>, \<^verbatim>\<open>marshal\<close> and
  \<^verbatim>\<open>unmarshal\<close>, with the panics the source has on short inputs. The theory shows that well-formed
  messages round-trip and that \<^verbatim>\<open>size\<close> is the length of the encoding, and delimits the inputs on which
  parsing panics or reads another message than was written.
\<close>

section \<open>Random\<close>

text \<open>\<open>gmt_unix_time\<close> is a \<^verbatim>\<open>SystemTime\<close>: nanoseconds since the epoch, possibly before it.\<close>

definition RANDOM_BYTES_LENGTH :: nat where "RANDOM_BYTES_LENGTH = 28"

record handshake_random =
  gmt_unix_time :: int
  random_bytes :: "byte list"

definition random_marshal :: "handshake_random \<Rightarrow> byte list" where
  "random_marshal r =
     to_be 4 (if gmt_unix_time r < 0 then 0 else word_of_int (gmt_unix_time r div 10 ^ 9) :: u32)
     @ random_bytes r"

definition random_unmarshal :: "handshake_random dtls_reader" where
  "random_unmarshal = rbind read_u32 (\<lambda>secs. rbind (read_bytes RANDOM_BYTES_LENGTH) (\<lambda>bs.
     rret \<lparr>gmt_unix_time = uint secs * 10 ^ 9, random_bytes = bs\<rparr>))"

section \<open>Compression methods\<close>

definition compression_methods_marshal :: "compression_method_id list \<Rightarrow> byte list" where
  "compression_methods_marshal ids =
     [len_u8 ids] @ concat (map (\<lambda>i. [compression_method_id_as i]) ids)"

definition compression_methods_unmarshal :: "compression_method_id list dtls_reader" where
  "compression_methods_unmarshal = rbind read_u8 (\<lambda>n.
     rbind (read_many (unat n) (get_u8_as compression_method_id_from)) (\<lambda>ids.
       rret (filter (\<lambda>i. i \<noteq> CM_Unsupported) ids)))"

definition default_compression_methods :: "compression_method_id list" where
  "default_compression_methods = [CM_Null]"

section \<open>Certificate\<close>

definition certificate_size :: "byte list list \<Rightarrow> nat" where
  "certificate_size cs = 3 + sum_list (map (\<lambda>r. 3 + length r) cs)"

fun certificates_marshal :: "byte list list \<Rightarrow> (byte list, dtls_error) outcome" where
  "certificates_marshal [] = Ok []"
| "certificates_marshal (r # rs) =
     obind (write_u24 (word_of_nat (length r))) (\<lambda>l.
     obind (certificates_marshal rs) (\<lambda>bs. Ok (l @ r @ bs)))"

definition certificate_marshal :: "byte list list \<Rightarrow> (byte list, dtls_error) outcome" where
  "certificate_marshal cs =
     obind (write_u24 (word_of_nat (sum_list (map (\<lambda>r. 3 + length r) cs)))) (\<lambda>total.
     obind (certificates_marshal cs) (\<lambda>bs. Ok (total @ bs)))"

function read_certificates :: "nat \<Rightarrow> nat \<Rightarrow> byte list \<Rightarrow> (byte list list \<times> byte list, dtls_error) outcome" where
  "read_certificates payload_size offset bs =
     (if payload_size \<le> offset then Ok ([], bs)
      else rbind read_u24 (\<lambda>l. rbind (read_bytes (unat l)) (\<lambda>buf bs'.
        obind (read_certificates payload_size (offset + 3 + unat l) bs') (\<lambda>(cs, rest).
          Ok (buf # cs, rest)))) bs)"
  by pat_completeness auto
termination
  by (relation "measure (\<lambda>(p, off, bs). p - off)") auto

declare read_certificates.simps [simp del]

definition certificate_unmarshal :: "byte list list dtls_reader" where
  "certificate_unmarshal = rbind read_u24 (\<lambda>n. read_certificates (unat n) 0)"

section \<open>Certificate request and certificate verify\<close>

record certificate_request =
  certificate_types :: "client_certificate_type list"
  cr_signature_hash_algorithms :: "signature_hash_algorithm list"

definition certificate_request_size :: "certificate_request \<Rightarrow> nat" where
  "certificate_request_size m =
     1 + length (certificate_types m) + 2 + length (cr_signature_hash_algorithms m) * 2 + 2"

definition certificate_request_marshal :: "certificate_request \<Rightarrow> byte list" where
  "certificate_request_marshal m =
     [len_u8 (certificate_types m)]
     @ concat (map (\<lambda>v. [client_certificate_type_as v]) (certificate_types m))
     @ to_be 2 (2 * len_u16 (cr_signature_hash_algorithms m))
     @ concat (map put_sha (cr_signature_hash_algorithms m)) @ [0, 0]"

text \<open>\<^verbatim>\<open>(0..n).step_by(2)\<close> takes \<open>(n + 1) div 2\<close> steps.\<close>

definition certificate_request_unmarshal :: "certificate_request dtls_reader" where
  "certificate_request_unmarshal = rbind read_u8 (\<lambda>n.
     rbind (read_many (unat n) (get_u8_as client_certificate_type_from)) (\<lambda>types.
     rbind read_u16 (\<lambda>m.
     rbind (read_many ((unat m + 1) div 2) get_sha) (\<lambda>algs.
       rret \<lparr>certificate_types = types, cr_signature_hash_algorithms = algs\<rparr>))))"

record certificate_verify =
  cv_algorithm :: signature_hash_algorithm
  cv_signature :: "byte list"

definition certificate_verify_size :: "certificate_verify \<Rightarrow> nat" where
  "certificate_verify_size m = 1 + 1 + 2 + length (cv_signature m)"

definition certificate_verify_marshal :: "certificate_verify \<Rightarrow> byte list" where
  "certificate_verify_marshal m =
     put_sha (cv_algorithm m) @ to_be 2 (len_u16 (cv_signature m)) @ cv_signature m"

definition certificate_verify_unmarshal :: "certificate_verify dtls_reader" where
  "certificate_verify_unmarshal = rbind get_sha (\<lambda>alg. rbind read_u16 (\<lambda>n.
     rbind (read_bytes (unat n)) (\<lambda>sig. rret \<lparr>cv_algorithm = alg, cv_signature = sig\<rparr>)))"

section \<open>The extensions of a hello\<close>

text \<open>
  The loop of both hello parsers over the extension block: an extension that does not parse is skipped,
  the next one starts at the declared length. The loop reads the two length bytes whatever is left.
\<close>

function extension_loop :: "byte list \<Rightarrow> nat \<Rightarrow> (extension list, dtls_error) outcome" where
  "extension_loop buf offset =
     (if length buf \<le> offset then Ok []
      else if length buf \<le> offset + 3 then Panic
      else obind (extension_loop buf
             (offset + 4 + unat (from_be [buf ! (offset + 2), buf ! (offset + 3)] :: u16))) (\<lambda>es.
        case extension_unmarshal (drop offset buf) of
          Ok (e, _) \<Rightarrow> Ok (e # es)
        | Err _ \<Rightarrow> Ok es
        | Panic \<Rightarrow> Panic))"
  by pat_completeness auto
termination
  by (relation "measure (\<lambda>(buf, off). length buf - off)") auto

declare extension_loop.simps [simp del]

definition extensions_unmarshal :: "extension list dtls_reader" where
  "extensions_unmarshal = rbind read_u16 (\<lambda>n. rbind (read_bytes (unat n)) (\<lambda>buf rest.
     obind (extension_loop buf 0) (\<lambda>es. Ok (es, rest))))"

definition extensions_marshal :: "extension list \<Rightarrow> byte list" where
  "extensions_marshal es =
     (let buf = concat (map extension_marshal es) in to_be 2 (len_u16 buf) @ buf)"

section \<open>Client hello\<close>

record client_hello =
  ch_version :: protocol_version
  ch_random :: handshake_random
  ch_cookie :: "byte list"
  ch_cipher_suites :: "cipher_suite_id list"
  ch_compression_methods :: "compression_method_id list"
  ch_extensions :: "extension list"

definition client_hello_size :: "client_hello \<Rightarrow> nat" where
  "client_hello_size m =
     2 + (4 + RANDOM_BYTES_LENGTH) + 1 + (1 + length (ch_cookie m))
     + (2 + 2 * length (ch_cipher_suites m)) + (1 + length (ch_compression_methods m))
     + 2 + sum_list (map extension_size (ch_extensions m))"

definition client_hello_marshal :: "client_hello \<Rightarrow> (byte list, dtls_error) outcome" where
  "client_hello_marshal m =
     (if 255 < length (ch_cookie m) then Err ErrCookieTooLong
      else Ok ([major (ch_version m), minor (ch_version m)] @ random_marshal (ch_random m)
        @ [0] @ [len_u8 (ch_cookie m)] @ ch_cookie m
        @ to_be 2 (2 * len_u16 (ch_cipher_suites m))
        @ concat (map (\<lambda>c. to_be 2 (cipher_suite_id_as c)) (ch_cipher_suites m))
        @ compression_methods_marshal (ch_compression_methods m)
        @ extensions_marshal (ch_extensions m)))"

definition client_hello_unmarshal :: "client_hello dtls_reader" where
  "client_hello_unmarshal =
     rbind read_u8 (\<lambda>ma. rbind read_u8 (\<lambda>mi. rbind random_unmarshal (\<lambda>random.
     rbind read_u8 (\<lambda>_. rbind read_u8 (\<lambda>cookie_len. rbind (read_bytes (unat cookie_len)) (\<lambda>cookie.
     rbind read_u16 (\<lambda>n. rbind (read_many (unat n div 2) (get_u16_as cipher_suite_id_from)) (\<lambda>suites.
     rbind compression_methods_unmarshal (\<lambda>compression. rbind extensions_unmarshal (\<lambda>extensions.
       rret \<lparr>ch_version = \<lparr>major = ma, minor = mi\<rparr>, ch_random = random, ch_cookie = cookie,
         ch_cipher_suites = suites, ch_compression_methods = compression,
         ch_extensions = extensions\<rparr>))))))))))"

section \<open>Server hello\<close>

record server_hello =
  sh_version :: protocol_version
  sh_random :: handshake_random
  sh_cipher_suite :: cipher_suite_id
  sh_compression_method :: compression_method_id
  sh_extensions :: "extension list"

definition server_hello_size :: "server_hello \<Rightarrow> nat" where
  "server_hello_size m =
     2 + (4 + RANDOM_BYTES_LENGTH) + 1 + 2 + 1 + 2 + sum_list (map extension_size (sh_extensions m))"

definition server_hello_marshal :: "server_hello \<Rightarrow> byte list" where
  "server_hello_marshal m =
     [major (sh_version m), minor (sh_version m)] @ random_marshal (sh_random m) @ [0]
     @ to_be 2 (cipher_suite_id_as (sh_cipher_suite m))
     @ [compression_method_id_as (sh_compression_method m)]
     @ extensions_marshal (sh_extensions m)"

definition server_hello_unmarshal :: "server_hello dtls_reader" where
  "server_hello_unmarshal =
     rbind read_u8 (\<lambda>ma. rbind read_u8 (\<lambda>mi. rbind random_unmarshal (\<lambda>random.
     rbind read_u8 (\<lambda>session_id_len. rbind (read_bytes (unat session_id_len)) (\<lambda>_.
     rbind read_u16 (\<lambda>suite. rbind read_u8 (\<lambda>compression. rbind extensions_unmarshal (\<lambda>extensions.
       rret \<lparr>sh_version = \<lparr>major = ma, minor = mi\<rparr>, sh_random = random,
         sh_cipher_suite = cipher_suite_id_from suite,
         sh_compression_method = compression_method_id_from compression,
         sh_extensions = extensions\<rparr>))))))))"

section \<open>Hello verify request, hello done, finished\<close>

record hello_verify_request =
  hvr_version :: protocol_version
  hvr_cookie :: "byte list"

definition hello_verify_request_size :: "hello_verify_request \<Rightarrow> nat" where
  "hello_verify_request_size m = 1 + 1 + 1 + length (hvr_cookie m)"

definition hello_verify_request_marshal :: "hello_verify_request \<Rightarrow> (byte list, dtls_error) outcome" where
  "hello_verify_request_marshal m =
     (if 255 < length (hvr_cookie m) then Err ErrCookieTooLong
      else Ok ([major (hvr_version m), minor (hvr_version m), len_u8 (hvr_cookie m)] @ hvr_cookie m))"

definition hello_verify_request_unmarshal :: "hello_verify_request dtls_reader" where
  "hello_verify_request_unmarshal =
     rbind read_u8 (\<lambda>ma. rbind read_u8 (\<lambda>mi. rbind read_u8 (\<lambda>cookie_length.
     rbind read_to_end (\<lambda>cookie.
       if length cookie < unat cookie_length then rfail ErrBufferTooSmall
       else rret \<lparr>hvr_version = \<lparr>major = ma, minor = mi\<rparr>, hvr_cookie = cookie\<rparr>))))"

definition finished_marshal :: "byte list \<Rightarrow> byte list" where
  "finished_marshal verify_data = verify_data"

definition finished_unmarshal :: "byte list dtls_reader" where
  "finished_unmarshal = read_to_end"

definition server_hello_done_marshal :: "byte list" where
  "server_hello_done_marshal = []"

definition server_hello_done_unmarshal :: "unit dtls_reader" where
  "server_hello_done_unmarshal = rret ()"

section \<open>Key exchanges\<close>

record client_key_exchange =
  cke_identity_hint :: "byte list"
  cke_public_key :: "byte list"

definition client_key_exchange_size :: "client_key_exchange \<Rightarrow> nat" where
  "client_key_exchange_size m =
     (if cke_public_key m \<noteq> [] then 1 + length (cke_public_key m) else 2 + length (cke_identity_hint m))"

definition client_key_exchange_marshal :: "client_key_exchange \<Rightarrow> (byte list, dtls_error) outcome" where
  "client_key_exchange_marshal m =
     (if (cke_identity_hint m \<noteq> [] \<and> cke_public_key m \<noteq> [])
       \<or> (cke_identity_hint m = [] \<and> cke_public_key m = [])
      then Err ErrInvalidClientKeyExchange
      else if cke_public_key m \<noteq> []
      then Ok ([len_u8 (cke_public_key m)] @ cke_public_key m)
      else Ok (to_be 2 (len_u16 (cke_identity_hint m)) @ cke_identity_hint m))"

definition client_key_exchange_unmarshal :: "client_key_exchange dtls_reader" where
  "client_key_exchange_unmarshal = rbind read_to_end (\<lambda>data rest.
     if length data < 2 then Panic
     else if length data = unat (from_be [data ! 0, data ! 1] :: u16) + 2
     then Ok (\<lparr>cke_identity_hint = drop 2 data, cke_public_key = []\<rparr>, rest)
     else if length data \<noteq> unat (data ! 0) + 1 then Err ErrBufferTooSmall
     else Ok (\<lparr>cke_identity_hint = [], cke_public_key = drop 1 data\<rparr>, rest))"

record server_key_exchange =
  ske_identity_hint :: "byte list"
  ske_elliptic_curve_type :: elliptic_curve_type
  ske_named_curve :: named_curve
  ske_public_key :: "byte list"
  ske_algorithm :: signature_hash_algorithm
  ske_signature :: "byte list"

definition server_key_exchange_size :: "server_key_exchange \<Rightarrow> nat" where
  "server_key_exchange_size m =
     (if ske_identity_hint m \<noteq> [] then 2 + length (ske_identity_hint m)
      else 1 + 2 + 1 + length (ske_public_key m) + 2 + 2 + length (ske_signature m))"

definition server_key_exchange_marshal :: "server_key_exchange \<Rightarrow> byte list" where
  "server_key_exchange_marshal m =
     (if ske_identity_hint m \<noteq> []
      then to_be 2 (len_u16 (ske_identity_hint m)) @ ske_identity_hint m
      else [elliptic_curve_type_as (ske_elliptic_curve_type m)]
        @ to_be 2 (named_curve_as (ske_named_curve m))
        @ [len_u8 (ske_public_key m)] @ ske_public_key m @ put_sha (ske_algorithm m)
        @ to_be 2 (len_u16 (ske_signature m)) @ ske_signature m)"

definition ske_psk :: "byte list \<Rightarrow> server_key_exchange" where
  "ske_psk hint = \<lparr>ske_identity_hint = hint, ske_elliptic_curve_type = ECT_Unsupported,
     ske_named_curve = NC_Unsupported, ske_public_key = [],
     ske_algorithm = \<lparr>sha_hash = HA_Unsupported, sha_signature = SA_Unsupported\<rparr>, ske_signature = []\<rparr>"

definition server_key_exchange_parse :: "byte list \<Rightarrow> (server_key_exchange, dtls_error) outcome" where
  "server_key_exchange_parse data =
     (if length data < 2 then Panic
      else if length data = unat (from_be [data ! 0, data ! 1] :: u16) + 2 then Ok (ske_psk (drop 2 data))
      else if length data - 1 < 2 then Err ErrBufferTooSmall
      else if length data < 4 then Err ErrBufferTooSmall
      else let offset = 4 + unat (data ! 3) in
        if length data < offset then Err ErrBufferTooSmall
        else if length data \<le> offset then Err ErrBufferTooSmall
        else if length data \<le> offset + 1 then Err ErrBufferTooSmall
        else if length data < offset + 2 + 2 then Err ErrBufferTooSmall
        else let signature_length = unat (from_be [data ! (offset + 2), data ! (offset + 3)] :: u16) in
          if length data < offset + 4 + signature_length then Err ErrBufferTooSmall
          else Ok \<lparr>ske_identity_hint = [],
            ske_elliptic_curve_type = elliptic_curve_type_from (data ! 0),
            ske_named_curve = named_curve_from (from_be [data ! 1, data ! 2]),
            ske_public_key = take (unat (data ! 3)) (drop 4 data),
            ske_algorithm = \<lparr>sha_hash = hash_algorithm_from (data ! offset),
              sha_signature = signature_algorithm_from (data ! (offset + 1))\<rparr>,
            ske_signature = take signature_length (drop (offset + 4) data)\<rparr>)"

definition server_key_exchange_unmarshal :: "server_key_exchange dtls_reader" where
  "server_key_exchange_unmarshal = rbind read_to_end (\<lambda>data rest.
     obind (server_key_exchange_parse data) (\<lambda>m. Ok (m, rest)))"

section \<open>The extension block round-trips\<close>

lemma pair_slice: "i + 1 < length xs \<Longrightarrow> [xs ! i, xs ! (i + 1)] = take 2 (drop i xs)"
proof -
  assume "i + 1 < length xs"
  then have "drop i xs = xs ! i # xs ! (i + 1) # drop (i + 2) xs"
    by (simp add: Cons_nth_drop_Suc)
  then show ?thesis by (simp add: numeral_2_eq_2)
qed

lemma from_be_pair: "from_be (to_be 2 (w :: u16)) = w"
  by (simp add: from_be_to_be)

lemma unat_drop_byte: "unat (drop_bit 8 (w :: u16)) = unat w div 256"
proof -
  have "take_bit 16 (unat w) = unat w"
    using unsigned_less [of w, where ?'a = nat] by (simp add: take_bit_nat_eq_self_iff)
  then show ?thesis
    by (simp add: unsigned_drop_bit_eq drop_bit_eq_div [of 8 "unat w"])
qed

lemma unat_from_be_pair: "unat (from_be [a, b] :: u16) = 256 * unat a + unat b"
proof -
  define w :: u16 where "w = word_of_nat (256 * unat a + unat b)"
  have ab: "unat a < 256" "unat b < 256"
    using unsigned_less [of a, where ?'a = nat] unsigned_less [of b, where ?'a = nat] by simp_all
  then have w: "unat w = 256 * unat a + unat b"
    unfolding w_def by (intro unat_small) simp
  have "unat (ucast (drop_bit 8 w) :: byte) = unat a" "unat (ucast w :: byte) = unat b"
    using ab by (simp_all add: unsigned_ucast_eq take_bit_eq_mod unat_drop_byte w)
  then have "to_be 2 w = [a, b]"
    by (simp add: to_be_eval word_unat_eq_iff)
  then have "from_be [a, b] = w"
    using from_be_pair [of w] by simp
  with w show ?thesis by simp
qed

lemma extension_loop_step:
  assumes "extension_ok e" and "buf = pre @ extension_marshal e @ post"
  shows "extension_loop buf (length pre) =
    obind (extension_loop buf (length pre + extension_size e)) (\<lambda>es. Ok (e # es))"
proof -
  obtain body where body: "extension_marshal e
      = to_be 2 (extension_value_as (ext_value e)) @ to_be 2 (len_u16 body) @ body" "length body < 65536"
    using extension_framed [OF assms(1)] by blast
  have size: "extension_size e = 4 + length body"
    using extension_size_marshal [of e] unfolding body(1) by simp
  have "[buf ! (length pre + 2), buf ! (length pre + 2 + 1)] = take 2 (drop (length pre + 2) buf)"
    by (rule pair_slice) (simp add: assms(2) body(1))
  also have "\<dots> = to_be 2 (len_u16 body)"
    unfolding assms(2) body(1) by simp
  finally have "[buf ! (length pre + 2), buf ! (length pre + 3)] = to_be 2 (len_u16 body)"
    by (simp add: eval_nat_numeral)
  then have len: "unat (from_be [buf ! (length pre + 2), buf ! (length pre + 3)] :: u16) = length body"
    using body(2) by (simp only: from_be_pair unat_small)
  have "length pre + 3 < length buf"
    unfolding assms(2) body(1) by simp
  moreover have "extension_unmarshal (drop (length pre) buf) = Ok (e, post)"
    unfolding assms(2) using extension_dec_enc [OF assms(1)] by simp
  ultimately show ?thesis
    using len by (subst extension_loop.simps) (simp add: size add.assoc)
qed

lemma extension_loop_append:
  assumes "list_all extension_ok es" and "buf = pre @ concat (map extension_marshal es) @ post"
  shows "extension_loop buf (length pre) =
    obind (extension_loop buf (length buf - length post)) (\<lambda>xs. Ok (es @ xs))"
  using assms
proof (induction es arbitrary: pre)
  case Nil
  then show ?case by (cases "extension_loop buf (length pre)") simp_all
next
  case (Cons e es)
  from Cons.prems have e: "extension_ok e" "list_all extension_ok es"
    "buf = pre @ extension_marshal e @ (concat (map extension_marshal es) @ post)"
    by simp_all
  from e(3) have "extension_loop buf (length (pre @ extension_marshal e))
      = obind (extension_loop buf (length buf - length post)) (\<lambda>xs. Ok (es @ xs))"
    by (intro Cons.IH [OF e(2)]) simp
  then show ?case
    using extension_loop_step [OF e(1,3)]
    by (cases "extension_loop buf (length buf - length post)") (simp_all add: extension_size_marshal)
qed

lemma extension_loop_roundtrip:
  assumes "list_all extension_ok es"
  shows "extension_loop (concat (map extension_marshal es)) 0 = Ok es"
  using extension_loop_append [OF assms, of "concat (map extension_marshal es)" "[]" "[]"]
  by (simp add: extension_loop.simps [of _ "length _"])

definition extensions_ok :: "extension list \<Rightarrow> bool" where
  "extensions_ok es \<longleftrightarrow> list_all extension_ok es \<and> sum_list (map extension_size es) < 65536"

lemma length_extensions: "length (concat (map extension_marshal es)) = sum_list (map extension_size es)"
  by (induction es) (simp_all add: extension_size_marshal)

lemma extensions_roundtrip [roundtrip]:
  "extensions_ok es \<Longrightarrow> extensions_unmarshal (extensions_marshal es @ rest) = Ok (es, rest)"
  using extension_loop_roundtrip [of es]
  by (simp add: extensions_unmarshal_def extensions_marshal_def Let_def extensions_ok_def read_step
      length_extensions)

section \<open>Well-formed messages round-trip\<close>

definition random_ok :: "handshake_random \<Rightarrow> bool" where
  "random_ok r \<longleftrightarrow> length (random_bytes r) = RANDOM_BYTES_LENGTH
     \<and> 0 \<le> gmt_unix_time r \<and> gmt_unix_time r mod 10 ^ 9 = 0 \<and> gmt_unix_time r div 10 ^ 9 < 2 ^ 32"

lemma random_roundtrip [roundtrip]:
  assumes "random_ok r"
  shows "random_unmarshal (random_marshal r @ rest) = Ok (r, rest)"
proof -
  let ?secs = "gmt_unix_time r div 10 ^ 9"
  from assms have "uint (word_of_int ?secs :: u32) = ?secs"
    by (simp add: random_ok_def uint_word_of_int_eq take_bit_int_eq_self_iff pos_imp_zdiv_nonneg_iff)
  moreover from assms have "?secs * 10 ^ 9 = gmt_unix_time r"
    by (simp add: random_ok_def div_mult_mod_eq dvd_div_mult_self mod_eq_0_iff_dvd)
  ultimately show ?thesis
    using assms by (simp add: random_unmarshal_def random_marshal_def read_step random_ok_def)
qed

lemma compression_roundtrip [roundtrip]:
  assumes "length ids < 256" and "CM_Unsupported \<notin> set ids"
  shows "compression_methods_unmarshal (compression_methods_marshal ids @ rest) = Ok (ids, rest)"
proof -
  have "read_many (length ids) (get_u8_as compression_method_id_from)
      (concat (map (\<lambda>i. [compression_method_id_as i]) ids) @ rest) = Ok (ids, rest)"
    by (induction ids) (simp_all add: get_u8_as_def read_step)
  moreover have "filter (\<lambda>i. i \<noteq> CM_Unsupported) ids = ids"
    using assms(2) by (auto simp: filter_id_conv)
  ultimately show ?thesis
    using assms(1) by (simp add: compression_methods_unmarshal_def compression_methods_marshal_def read_step)
qed

definition client_hello_ok :: "client_hello \<Rightarrow> bool" where
  "client_hello_ok m \<longleftrightarrow> random_ok (ch_random m) \<and> length (ch_cookie m) \<le> 255
     \<and> length (ch_cipher_suites m) < 32768 \<and> length (ch_compression_methods m) < 256
     \<and> CM_Unsupported \<notin> set (ch_compression_methods m) \<and> extensions_ok (ch_extensions m)"

lemma client_hello_dec_enc:
  assumes "client_hello_ok m" and "client_hello_marshal m = Ok bs"
  shows "client_hello_unmarshal (bs @ rest) = Ok (m, rest)"
  using assms
  by (auto simp: client_hello_unmarshal_def client_hello_marshal_def client_hello_ok_def read_step
      random_roundtrip compression_roundtrip extensions_roundtrip suite.many list_all_iff)

lemma client_hello_marshal_ok: "client_hello_ok m \<Longrightarrow> \<exists>bs. client_hello_marshal m = Ok bs"
  by (simp add: client_hello_ok_def client_hello_marshal_def)

lemma client_hello_size_marshal [sizes]:
  "client_hello_marshal m = Ok bs \<Longrightarrow> length (random_bytes (ch_random m)) = RANDOM_BYTES_LENGTH
     \<Longrightarrow> length bs = client_hello_size m"
  by (auto simp: client_hello_marshal_def client_hello_size_def random_marshal_def extensions_marshal_def
      compression_methods_marshal_def Let_def length_extensions suite.many_length split: if_splits)

definition server_hello_ok :: "server_hello \<Rightarrow> bool" where
  "server_hello_ok m \<longleftrightarrow> random_ok (sh_random m) \<and> extensions_ok (sh_extensions m)"

lemma server_hello_dec_enc:
  "server_hello_ok m \<Longrightarrow> server_hello_unmarshal (server_hello_marshal m @ rest) = Ok (m, rest)"
  by (simp add: server_hello_unmarshal_def server_hello_marshal_def server_hello_ok_def read_step
      random_roundtrip extensions_roundtrip read_exact_def)

lemma server_hello_size_marshal [sizes]:
  "length (random_bytes (sh_random m)) = RANDOM_BYTES_LENGTH
     \<Longrightarrow> length (server_hello_marshal m) = server_hello_size m"
  by (auto simp: server_hello_marshal_def server_hello_size_def random_marshal_def extensions_marshal_def
      Let_def length_extensions)

interpretation server_hello: wire_codec server_hello_marshal server_hello_unmarshal server_hello_ok
  by unfold_locales (rule server_hello_dec_enc)

interpretation random: wire_codec random_marshal random_unmarshal random_ok
  by unfold_locales (rule random_roundtrip)

section \<open>Certificates and their companions\<close>

definition certificate_ok :: "byte list list \<Rightarrow> bool" where
  "certificate_ok cs \<longleftrightarrow> sum_list (map (\<lambda>r. 3 + length r) cs) < 2 ^ 24"

lemma write_u24_small: "n < 2 ^ 24 \<Longrightarrow> write_u24 (word_of_nat n) = Ok (to_be 3 (word_of_nat n :: u32))"
  by (simp add: write_u24_def word_less_nat_alt unat_of_nat)

lemma read_u24_small:
  "n < 2 ^ 24 \<Longrightarrow> read_u24 (to_be 3 (word_of_nat n :: u32) @ rest) = Ok (word_of_nat n, rest)"
  by (simp add: word_less_nat_alt unat_of_nat)

lemma certificates_marshal_ok:
  assumes "list_all (\<lambda>r. length r < 2 ^ 24) cs"
  shows "certificates_marshal cs = Ok (concat (map (\<lambda>r. to_be 3 (word_of_nat (length r) :: u32) @ r) cs))"
  using assms by (induction cs) (simp_all add: write_u24_small)

lemma certificate_ok_each: "certificate_ok cs \<Longrightarrow> list_all (\<lambda>r. length r < 2 ^ 24) cs"
  unfolding certificate_ok_def by (induction cs) auto

lemma read_certificates_roundtrip:
  assumes "list_all (\<lambda>r. length r < 2 ^ 24) cs" and "payload = offset + sum_list (map (\<lambda>r. 3 + length r) cs)"
  shows "read_certificates payload offset
      (concat (map (\<lambda>r. to_be 3 (word_of_nat (length r) :: u32) @ r) cs) @ rest) = Ok (cs, rest)"
  using assms
proof (induction cs arbitrary: offset)
  case Nil
  then show ?case by (subst read_certificates.simps) simp
next
  case (Cons r cs)
  then have "unat (word_of_nat (length r) :: u32) = length r"
    by (simp add: unat_of_nat)
  moreover have "read_certificates payload (offset + 3 + length r)
      (concat (map (\<lambda>r. to_be 3 (word_of_nat (length r) :: u32) @ r) cs) @ rest) = Ok (cs, rest)"
    using Cons.prems by (intro Cons.IH) simp_all
  ultimately show ?case
    using Cons.prems read_u24_small [of "length r"]
    by (subst read_certificates.simps) (simp add: rbind_Ok read_exact_append)
qed

lemma certificate_dec_enc:
  assumes "certificate_ok cs" and "certificate_marshal cs = Ok bs"
  shows "certificate_unmarshal (bs @ rest) = Ok (cs, rest)"
proof -
  let ?n = "sum_list (map (\<lambda>r. 3 + length r) cs)"
  have n: "?n < 2 ^ 24" using assms(1) by (simp add: certificate_ok_def)
  then have "unat (word_of_nat ?n :: u32) = ?n"
    by (simp add: unat_of_nat)
  then show ?thesis
    using assms(2) read_u24_small [OF n] write_u24_small [OF n]
      certificates_marshal_ok [OF certificate_ok_each [OF assms(1)]]
      read_certificates_roundtrip [OF certificate_ok_each [OF assms(1)], of ?n 0]
    by (auto simp: certificate_marshal_def certificate_unmarshal_def rbind_Ok)
qed

lemma certificate_marshal_size [sizes]:
  assumes "certificate_ok cs"
  shows "\<exists>bs. certificate_marshal cs = Ok bs \<and> length bs = certificate_size cs"
proof -
  let ?n = "sum_list (map (\<lambda>r. 3 + length r) cs)"
  have n: "?n < 2 ^ 24" using assms by (simp add: certificate_ok_def)
  have "length (concat (map (\<lambda>r. to_be 3 (word_of_nat (length r) :: u32) @ r) cs)) = ?n"
    by (simp add: length_concat o_def)
  then show ?thesis
    using write_u24_small [OF n] certificates_marshal_ok [OF certificate_ok_each [OF assms]]
    by (simp add: certificate_marshal_def certificate_size_def)
qed

definition certificate_request_ok :: "certificate_request \<Rightarrow> bool" where
  "certificate_request_ok m \<longleftrightarrow>
     length (certificate_types m) < 256 \<and> length (cr_signature_hash_algorithms m) < 32768"

lemma certificate_request_dec_enc:
  assumes "certificate_request_ok m"
  shows "certificate_request_unmarshal (certificate_request_marshal m @ rest) = Ok (m, 0 # 0 # rest)"
proof -
  have "(unat (2 * len_u16 (cr_signature_hash_algorithms m)) + 1) div 2 = length (cr_signature_hash_algorithms m)"
    using assms by (simp add: certificate_request_ok_def unat_word_ariths unat_of_nat)
  then show ?thesis
    using assms cert_type.many [of "certificate_types m"] sha.many [of "cr_signature_hash_algorithms m"]
    by (simp add: certificate_request_unmarshal_def certificate_request_marshal_def
        certificate_request_ok_def rbind_Ok list_all_iff)
qed

lemma certificate_request_size_marshal [sizes]:
  "length (certificate_request_marshal m) = certificate_request_size m"
  by (simp add: certificate_request_marshal_def certificate_request_size_def sha.many_length)

lemma certificate_verify_dec_enc:
  assumes "length (cv_signature m) < 65536"
  shows "certificate_verify_unmarshal (certificate_verify_marshal m @ rest) = Ok (m, rest)"
  using assms sha.dec_enc
  by (simp add: certificate_verify_unmarshal_def certificate_verify_marshal_def rbind_Ok)

interpretation certificate_verify: wire_codec certificate_verify_marshal certificate_verify_unmarshal
    "\<lambda>m. length (cv_signature m) < 65536"
  by unfold_locales (rule certificate_verify_dec_enc)

lemma certificate_verify_size_marshal [sizes]:
  "length (certificate_verify_marshal m) = certificate_verify_size m"
  by (simp add: certificate_verify_marshal_def certificate_verify_size_def put_sha_def)

section \<open>Messages that extend to the end of the input\<close>

lemma hello_verify_request_dec_enc:
  assumes "hello_verify_request_marshal m = Ok bs"
  shows "hello_verify_request_unmarshal bs = Ok (m, [])"
  using assms
  by (auto simp: hello_verify_request_marshal_def hello_verify_request_unmarshal_def rbind_Ok
      split: if_splits)

lemma hello_verify_request_size_marshal [sizes]:
  "hello_verify_request_marshal m = Ok bs \<Longrightarrow> length bs = hello_verify_request_size m"
  by (auto simp: hello_verify_request_marshal_def hello_verify_request_size_def split: if_splits)

lemma client_key_exchange_dec_enc:
  assumes "client_key_exchange_marshal m = Ok bs"
    and "length (cke_public_key m) < 256" and "length (cke_identity_hint m) < 65536"
  shows "client_key_exchange_unmarshal bs = Ok (m, [])"
proof (cases "cke_public_key m")
  case Nil
  with assms(1) have "bs = to_be 2 (len_u16 (cke_identity_hint m)) @ cke_identity_hint m"
    by (auto simp: client_key_exchange_marshal_def split: if_splits)
  moreover have "[bs ! 0, bs ! 1] = to_be 2 (len_u16 (cke_identity_hint m))"
    unfolding calculation by (simp add: to_be_eval)
  ultimately show ?thesis
    using Nil assms(3) by (simp add: client_key_exchange_unmarshal_def rbind_Ok from_be_pair)
next
  case (Cons k ks)
  with assms(1) have bs: "bs = len_u8 (k # ks) # k # ks" and hint: "cke_identity_hint m = []"
    by (auto simp: client_key_exchange_marshal_def split: if_splits)
  have len: "unat (len_u8 (k # ks)) = length (k # ks)"
    using Cons assms(2) by (simp only: unat_small)
  have "unat (from_be [len_u8 (k # ks), k] :: u16) \<ge> 256 * length (k # ks)"
    using len unat_from_be_pair [of "len_u8 (k # ks)" k] by simp
  then show ?thesis
    using Cons hint len unfolding bs by (simp add: client_key_exchange_unmarshal_def rbind_Ok)
qed

lemma named_curve_bytes: "\<exists>lo. to_be 2 (named_curve_as c) = [0, lo]"
  by (cases c) (simp_all add: to_be_eval)

lemma server_key_exchange_parse_ecdhe:
  assumes "ske_identity_hint m = []" and "ske_elliptic_curve_type m = ECT_NamedCurve"
    and "length (ske_public_key m) < 256" and "length (ske_signature m) < 65536"
  shows "server_key_exchange_parse (server_key_exchange_marshal m) =
    (if server_key_exchange_size m = 770 then Ok (ske_psk (drop 2 (server_key_exchange_marshal m))) else Ok m)"
proof -
  let ?pk = "ske_public_key m" and ?sig = "ske_signature m"
  let ?h = "hash_algorithm_as (sha_hash (ske_algorithm m))"
    and ?s = "signature_algorithm_as (sha_signature (ske_algorithm m))"
  obtain lo where lo: "to_be 2 (named_curve_as (ske_named_curve m)) = [0, lo]"
    using named_curve_bytes by blast
  define pre where "pre = [3, 0, lo, len_u8 ?pk] @ ?pk"
  define data where "data = pre @ [?h, ?s] @ to_be 2 (len_u16 ?sig) @ ?sig"
  have marshal: "server_key_exchange_marshal m = data"
    by (simp add: server_key_exchange_marshal_def assms data_def pre_def lo put_sha_def)
  have curve: "named_curve_from (from_be [0, lo]) = ske_named_curve m"
    by (simp only: lo [symmetric] from_be_pair named_curve_roundtrip)
  have offset: "4 + unat (data ! 3) = length pre" "length pre = 4 + length ?pk"
    using assms(3) by (simp_all add: data_def pre_def)
  have front: "data ! 0 = 3" "data ! 1 = 0" "data ! 2 = lo" "take (unat (data ! 3)) (drop 4 data) = ?pk"
    using assms(3) by (simp_all add: data_def pre_def)
  have rear: "data ! length pre = ?h" "data ! (length pre + 1) = ?s"
    "[data ! (length pre + 2), data ! (length pre + 3)] = to_be 2 (len_u16 ?sig)"
    "drop (length pre + 4) data = ?sig"
    unfolding data_def by (simp_all add: nth_append to_be_eval)
  have len: "length data = server_key_exchange_size m"
    by (simp add: data_def pre_def server_key_exchange_size_def assms(1))
  have sig: "unat (from_be [data ! (length pre + 2), data ! (length pre + 3)] :: u16) = length ?sig"
    unfolding rear(3) using assms(4) by (simp add: from_be_pair)
  have psk: "unat (from_be [data ! 0, data ! 1] :: u16) + 2 = 770"
    unfolding front by (simp add: unat_from_be_pair)
  have alg: "\<lparr>sha_hash = hash_algorithm_from ?h, sha_signature = signature_algorithm_from ?s\<rparr> = ske_algorithm m"
    by simp
  have whole: "\<lparr>ske_identity_hint = [], ske_elliptic_curve_type = ECT_NamedCurve,
      ske_named_curve = ske_named_curve m, ske_public_key = ?pk, ske_algorithm = ske_algorithm m,
      ske_signature = ?sig\<rparr> = m"
    using assms(1,2) by (cases m) simp
  have total: "length data = length pre + 4 + length ?sig"
    by (simp add: data_def)
  show ?thesis
  proof (cases "server_key_exchange_size m = 770")
    case True
    then show ?thesis
      unfolding marshal server_key_exchange_parse_def psk len by simp
  next
    case False
    then show ?thesis
      unfolding marshal server_key_exchange_parse_def Let_def offset(1) psk sig
      unfolding front rear alg curve
      using total offset(2) len whole by (simp add: elliptic_curve_type_from_def)
  qed
qed

lemma server_key_exchange_parse_psk:
  assumes "length hint < 65536"
  shows "server_key_exchange_parse (to_be 2 (len_u16 hint) @ hint) = Ok (ske_psk hint)"
proof -
  let ?data = "to_be 2 (len_u16 hint) @ hint"
  have "[?data ! 0, ?data ! 1] = to_be 2 (len_u16 hint)"
    by (simp add: to_be_eval)
  then have "unat (from_be [?data ! 0, ?data ! 1] :: u16) = length hint"
    using assms by (simp only: from_be_pair unat_small)
  then show ?thesis
    by (simp add: server_key_exchange_parse_def)
qed

section \<open>Properties\<close>

text \<open>
  The client hello survives the wire: a well-formed hello (a whole-second time stamp, a cookie of at
  most 255 bytes, supported compression methods, well-formed extensions) is marshalled, into exactly
  \<^verbatim>\<open>size\<close> bytes, and parsing these bytes, whatever follows them, returns it, extensions
  included.
\<close>

theorem client_hello_roundtrip:
  assumes "client_hello_ok m"
  shows "\<exists>bs. client_hello_marshal m = Ok bs \<and> length bs = client_hello_size m
    \<and> client_hello_unmarshal (bs @ rest) = Ok (m, rest)"
  using client_hello_marshal_ok [OF assms] client_hello_dec_enc [OF assms]
    client_hello_size_marshal [of m] assms
  by (auto simp: client_hello_ok_def random_ok_def)

definition demo_random :: handshake_random where
  "demo_random = \<lparr>gmt_unix_time = 5 * 10 ^ 9, random_bytes = replicate 28 7\<rparr>"

definition demo_extensions :: "extension list" where
  "demo_extensions = [SupportedEllipticCurves [NC_P256, NC_X25519], UseExtendedMasterSecret True,
     ServerName [97, 46, 98], RenegotiationInfo 0]"

definition demo_client_hello :: client_hello where
  "demo_client_hello = \<lparr>ch_version = PROTOCOL_VERSION1_2, ch_random = demo_random, ch_cookie = [1, 2, 3],
     ch_cipher_suites = [Tls_Ecdhe_Ecdsa_With_Aes_128_Gcm_Sha256], ch_compression_methods = [CM_Null],
     ch_extensions = demo_extensions\<rparr>"

lemma demo_extensions_ok: "extensions_ok demo_extensions"
  by (simp add: extensions_ok_def demo_extensions_def extension_size_def)

lemma demo_random_ok: "random_ok demo_random"
  by (simp add: random_ok_def demo_random_def RANDOM_BYTES_LENGTH_def)

theorem client_hello_roundtrip_witness:
  "\<exists>bs. client_hello_marshal demo_client_hello = Ok bs
    \<and> length bs = client_hello_size demo_client_hello
    \<and> client_hello_unmarshal (bs @ [9]) = Ok (demo_client_hello, [9])"
  by (rule client_hello_roundtrip)
    (simp add: client_hello_ok_def demo_client_hello_def demo_extensions_ok demo_random_ok)

text \<open>
  Every other handshake message survives the wire as well: parsing what was marshalled gives the
  message again (server hello, certificate chain, certificate request and verify, hello verify request,
  client key exchange), under the bounds of its length fields.
\<close>

theorem message_bodies_roundtrip:
  "(server_hello_ok sh \<longrightarrow> server_hello_unmarshal (server_hello_marshal sh @ rest) = Ok (sh, rest))
   \<and> (certificate_ok cs \<longrightarrow> (\<exists>bs. certificate_marshal cs = Ok bs \<and> length bs = certificate_size cs
        \<and> certificate_unmarshal (bs @ rest) = Ok (cs, rest)))
   \<and> (certificate_request_ok cr \<longrightarrow>
        certificate_request_unmarshal (certificate_request_marshal cr @ rest) = Ok (cr, 0 # 0 # rest))
   \<and> (length (cv_signature cv) < 65536 \<longrightarrow>
        certificate_verify_unmarshal (certificate_verify_marshal cv @ rest) = Ok (cv, rest))
   \<and> (hello_verify_request_marshal hvr = Ok bs \<longrightarrow> hello_verify_request_unmarshal bs = Ok (hvr, []))
   \<and> (client_key_exchange_marshal cke = Ok bs' \<and> length (cke_public_key cke) < 256
        \<and> length (cke_identity_hint cke) < 65536
        \<longrightarrow> client_key_exchange_unmarshal bs' = Ok (cke, []))"
proof -
  have "\<exists>bs. certificate_marshal cs = Ok bs \<and> length bs = certificate_size cs
      \<and> certificate_unmarshal (bs @ rest) = Ok (cs, rest)" if "certificate_ok cs"
    using certificate_marshal_size [OF that] certificate_dec_enc [OF that] by blast
  then show ?thesis
    by (simp add: server_hello_dec_enc certificate_request_dec_enc certificate_verify_dec_enc
        hello_verify_request_dec_enc client_key_exchange_dec_enc)
qed

definition demo_server_hello :: server_hello where
  "demo_server_hello = \<lparr>sh_version = PROTOCOL_VERSION1_2, sh_random = demo_random,
     sh_cipher_suite = Tls_Ecdhe_Ecdsa_With_Aes_128_Gcm_Sha256, sh_compression_method = CM_Null,
     sh_extensions = demo_extensions\<rparr>"

definition demo_cke :: client_key_exchange where
  "demo_cke = \<lparr>cke_identity_hint = [], cke_public_key = [4, 5, 6]\<rparr>"

theorem message_bodies_roundtrip_witness:
  "server_hello_unmarshal (server_hello_marshal demo_server_hello @ [1]) = Ok (demo_server_hello, [1])
   \<and> (\<exists>bs. certificate_marshal [[1, 2], [3]] = Ok bs \<and> certificate_unmarshal (bs @ [1]) = Ok ([[1, 2], [3]], [1]))
   \<and> client_key_exchange_unmarshal [3, 4, 5, 6] = Ok (demo_cke, [])"
proof -
  have "server_hello_ok demo_server_hello" "certificate_ok [[1, 2], [3 :: byte]]"
    by (simp_all add: server_hello_ok_def demo_server_hello_def demo_extensions_ok demo_random_ok
        certificate_ok_def)
  moreover have "client_key_exchange_marshal demo_cke = Ok [3, 4, 5, 6]"
    by (simp add: client_key_exchange_marshal_def demo_cke_def)
  moreover have "length (cke_public_key demo_cke) < 256" "length (cke_identity_hint demo_cke) < 65536"
    by (simp_all add: demo_cke_def)
  ultimately show ?thesis
    using message_bodies_roundtrip [of demo_server_hello "[1]" "[[1, 2], [3]]" _ _ _ _ demo_cke "[3, 4, 5, 6]"]
    by blast
qed

text \<open>
  The server key exchange is ambiguous: an ECDHE message round-trips unless it is exactly 770
  bytes long; then its first bytes (curve type 3, high curve byte 0) read as the length of a PSK
  identity hint and the parser returns a PSK message. PSK messages round-trip.
\<close>

theorem server_key_exchange_ambiguity:
  "(length hint < 65536 \<longrightarrow>
      server_key_exchange_unmarshal (to_be 2 (len_u16 hint) @ hint) = Ok (ske_psk hint, []))
   \<and> (ske_identity_hint m = [] \<and> ske_elliptic_curve_type m = ECT_NamedCurve
        \<and> length (ske_public_key m) < 256 \<and> length (ske_signature m) < 65536 \<longrightarrow>
      server_key_exchange_unmarshal (server_key_exchange_marshal m) =
        (if server_key_exchange_size m = 770
         then Ok (ske_psk (drop 2 (server_key_exchange_marshal m)), []) else Ok (m, [])))"
  using server_key_exchange_parse_psk [of hint] server_key_exchange_parse_ecdhe [of m]
  by (simp add: server_key_exchange_unmarshal_def rbind_Ok)

definition demo_ske :: "byte list \<Rightarrow> server_key_exchange" where
  "demo_ske sig = \<lparr>ske_identity_hint = [], ske_elliptic_curve_type = ECT_NamedCurve,
     ske_named_curve = NC_P256, ske_public_key = [1, 2],
     ske_algorithm = \<lparr>sha_hash = HA_Sha256, sha_signature = SA_Ecdsa\<rparr>, ske_signature = sig\<rparr>"

theorem server_key_exchange_ambiguity_witness:
  "server_key_exchange_unmarshal (server_key_exchange_marshal (demo_ske [8, 9])) = Ok (demo_ske [8, 9], [])
   \<and> (\<exists>hint. server_key_exchange_unmarshal (server_key_exchange_marshal (demo_ske (replicate 760 0)))
        = Ok (ske_psk hint, []))"
  using server_key_exchange_ambiguity [of "[]" "demo_ske [8, 9]"]
    server_key_exchange_ambiguity [of "[]" "demo_ske (replicate 760 0)"]
  by (auto simp: demo_ske_def server_key_exchange_size_def)

end
