(* ===== verification/Dtls_Record.thy ===== *)
theory Dtls_Record
  imports Dtls_Messages
begin

text \<open>
  Handshake messages with their header (\<^verbatim>\<open>handshake/mod.rs\<close>, \<^verbatim>\<open>handshake_header.rs\<close>), alerts, change
  cipher spec and application data, and the record layer that carries them (\<^verbatim>\<open>content.rs\<close>,
  \<^verbatim>\<open>record_layer\<close>), down to the splitting of a datagram into records. The theory shows that records
  round-trip, that their sequence numbers are bounded, and that splitting is the inverse of
  concatenation and never reads outside the datagram.
\<close>

section \<open>Handshake messages\<close>

datatype handshake_message =
    MsgClientHello client_hello
  | MsgServerHello server_hello
  | MsgHelloVerifyRequest hello_verify_request
  | MsgCertificate "byte list list"
  | MsgServerKeyExchange server_key_exchange
  | MsgCertificateRequest certificate_request
  | MsgServerHelloDone
  | MsgCertificateVerify certificate_verify
  | MsgClientKeyExchange client_key_exchange
  | MsgFinished "byte list"

fun message_type :: "handshake_message \<Rightarrow> handshake_type" where
  "message_type (MsgClientHello _) = HT_ClientHello"
| "message_type (MsgServerHello _) = HT_ServerHello"
| "message_type (MsgHelloVerifyRequest _) = HT_HelloVerifyRequest"
| "message_type (MsgCertificate _) = HT_Certificate"
| "message_type (MsgServerKeyExchange _) = HT_ServerKeyExchange"
| "message_type (MsgCertificateRequest _) = HT_CertificateRequest"
| "message_type MsgServerHelloDone = HT_ServerHelloDone"
| "message_type (MsgCertificateVerify _) = HT_CertificateVerify"
| "message_type (MsgClientKeyExchange _) = HT_ClientKeyExchange"
| "message_type (MsgFinished _) = HT_Finished"

fun message_size :: "handshake_message \<Rightarrow> nat" where
  "message_size (MsgClientHello m) = client_hello_size m"
| "message_size (MsgServerHello m) = server_hello_size m"
| "message_size (MsgHelloVerifyRequest m) = hello_verify_request_size m"
| "message_size (MsgCertificate cs) = certificate_size cs"
| "message_size (MsgServerKeyExchange m) = server_key_exchange_size m"
| "message_size (MsgCertificateRequest m) = certificate_request_size m"
| "message_size MsgServerHelloDone = 0"
| "message_size (MsgCertificateVerify m) = certificate_verify_size m"
| "message_size (MsgClientKeyExchange m) = client_key_exchange_size m"
| "message_size (MsgFinished d) = length d"

fun message_marshal :: "handshake_message \<Rightarrow> (byte list, dtls_error) outcome" where
  "message_marshal (MsgClientHello m) = client_hello_marshal m"
| "message_marshal (MsgServerHello m) = Ok (server_hello_marshal m)"
| "message_marshal (MsgHelloVerifyRequest m) = hello_verify_request_marshal m"
| "message_marshal (MsgCertificate cs) = certificate_marshal cs"
| "message_marshal (MsgServerKeyExchange m) = Ok (server_key_exchange_marshal m)"
| "message_marshal (MsgCertificateRequest m) = Ok (certificate_request_marshal m)"
| "message_marshal MsgServerHelloDone = Ok server_hello_done_marshal"
| "message_marshal (MsgCertificateVerify m) = Ok (certificate_verify_marshal m)"
| "message_marshal (MsgClientKeyExchange m) = client_key_exchange_marshal m"
| "message_marshal (MsgFinished d) = Ok (finished_marshal d)"

section \<open>The handshake header\<close>

definition HANDSHAKE_HEADER_LENGTH :: nat where
  "HANDSHAKE_HEADER_LENGTH = 12"

record handshake_header =
  hh_type :: handshake_type
  hh_length :: u32
  hh_message_sequence :: u16
  hh_fragment_offset :: u32
  hh_fragment_length :: u32

definition handshake_header_size :: "handshake_header \<Rightarrow> nat" where
  "handshake_header_size h = 1 + 3 + 2 + 3 + 3"

definition handshake_header_marshal :: "handshake_header \<Rightarrow> (byte list, dtls_error) outcome" where
  "handshake_header_marshal h =
     obind (write_u24 (hh_length h)) (\<lambda>len.
     obind (write_u24 (hh_fragment_offset h)) (\<lambda>off.
     obind (write_u24 (hh_fragment_length h)) (\<lambda>fl.
       Ok ([handshake_type_as (hh_type h)] @ len @ to_be 2 (hh_message_sequence h) @ off @ fl))))"

definition handshake_header_unmarshal :: "handshake_header dtls_reader" where
  "handshake_header_unmarshal =
     rbind read_u8 (\<lambda>t. rbind read_u24 (\<lambda>len. rbind read_u16 (\<lambda>sq.
     rbind read_u24 (\<lambda>off. rbind read_u24 (\<lambda>fl.
       rret \<lparr>hh_type = handshake_type_from t, hh_length = len, hh_message_sequence = sq,
         hh_fragment_offset = off, hh_fragment_length = fl\<rparr>)))))"

record handshake =
  hs_header :: handshake_header
  hs_message :: handshake_message

definition handshake_new :: "handshake_message \<Rightarrow> handshake" where
  "handshake_new m = \<lparr>hs_header = \<lparr>hh_type = message_type m, hh_length = word_of_nat (message_size m),
     hh_message_sequence = 0, hh_fragment_offset = 0, hh_fragment_length = word_of_nat (message_size m)\<rparr>,
     hs_message = m\<rparr>"

definition handshake_size :: "handshake \<Rightarrow> nat" where
  "handshake_size h = handshake_header_size (hs_header h) + message_size (hs_message h)"

definition handshake_marshal :: "handshake \<Rightarrow> (byte list, dtls_error) outcome" where
  "handshake_marshal h =
     obind (handshake_header_marshal (hs_header h)) (\<lambda>hd.
     obind (message_marshal (hs_message h)) (\<lambda>body. Ok (hd @ body)))"

definition message_unmarshal :: "handshake_type \<Rightarrow> handshake_message dtls_reader" where
  "message_unmarshal t = (case t of
       HT_ClientHello \<Rightarrow> rmap_reader MsgClientHello client_hello_unmarshal
     | HT_ServerHello \<Rightarrow> rmap_reader MsgServerHello server_hello_unmarshal
     | HT_HelloVerifyRequest \<Rightarrow> rmap_reader MsgHelloVerifyRequest hello_verify_request_unmarshal
     | HT_Certificate \<Rightarrow> rmap_reader MsgCertificate certificate_unmarshal
     | HT_ServerKeyExchange \<Rightarrow> rmap_reader MsgServerKeyExchange server_key_exchange_unmarshal
     | HT_CertificateRequest \<Rightarrow> rmap_reader MsgCertificateRequest certificate_request_unmarshal
     | HT_ServerHelloDone \<Rightarrow> rmap_reader (\<lambda>_. MsgServerHelloDone) server_hello_done_unmarshal
     | HT_CertificateVerify \<Rightarrow> rmap_reader MsgCertificateVerify certificate_verify_unmarshal
     | HT_ClientKeyExchange \<Rightarrow> rmap_reader MsgClientKeyExchange client_key_exchange_unmarshal
     | HT_Finished \<Rightarrow> rmap_reader MsgFinished finished_unmarshal
     | HT_HelloRequest \<Rightarrow> rfail ErrNotImplemented
     | HT_Invalid \<Rightarrow> rfail ErrNotImplemented)"

definition handshake_unmarshal :: "handshake dtls_reader" where
  "handshake_unmarshal = rbind handshake_header_unmarshal (\<lambda>h.
     rbind (message_unmarshal (hh_type h)) (\<lambda>m. rret \<lparr>hs_header = h, hs_message = m\<rparr>))"

section \<open>Alerts, change cipher spec, application data\<close>

record alert =
  alert_level_field :: alert_level
  alert_description_field :: alert_description

definition alert_marshal :: "alert \<Rightarrow> byte list" where
  "alert_marshal a = [alert_level_as (alert_level_field a), alert_description_as (alert_description_field a)]"

definition alert_unmarshal :: "alert dtls_reader" where
  "alert_unmarshal = rbind read_u8 (\<lambda>l. rbind read_u8 (\<lambda>d.
     rret \<lparr>alert_level_field = alert_level_from l, alert_description_field = alert_description_from d\<rparr>))"

definition change_cipher_spec_marshal :: "byte list" where
  "change_cipher_spec_marshal = [1]"

definition change_cipher_spec_unmarshal :: "unit dtls_reader" where
  "change_cipher_spec_unmarshal = rbind read_u8 (\<lambda>b. if b \<noteq> 1 then rfail ErrInvalidCipherSpec else rret ())"

datatype dtls_content =
    ChangeCipherSpec
  | Alert alert
  | Handshake handshake
  | ApplicationData "byte list"

fun content_type_of :: "dtls_content \<Rightarrow> content_type" where
  "content_type_of ChangeCipherSpec = CT_ChangeCipherSpec"
| "content_type_of (Alert _) = CT_Alert"
| "content_type_of (Handshake _) = CT_Handshake"
| "content_type_of (ApplicationData _) = CT_ApplicationData"

fun content_size :: "dtls_content \<Rightarrow> nat" where
  "content_size ChangeCipherSpec = 1"
| "content_size (Alert _) = 2"
| "content_size (Handshake h) = handshake_size h"
| "content_size (ApplicationData d) = length d"

fun content_marshal :: "dtls_content \<Rightarrow> (byte list, dtls_error) outcome" where
  "content_marshal ChangeCipherSpec = Ok change_cipher_spec_marshal"
| "content_marshal (Alert a) = Ok (alert_marshal a)"
| "content_marshal (Handshake h) = handshake_marshal h"
| "content_marshal (ApplicationData d) = Ok d"

definition content_unmarshal_with :: "dtls_error \<Rightarrow> content_type \<Rightarrow> dtls_content dtls_reader" where
  "content_unmarshal_with bad t = (case t of
       CT_ChangeCipherSpec \<Rightarrow> rmap_reader (\<lambda>_. ChangeCipherSpec) change_cipher_spec_unmarshal
     | CT_Alert \<Rightarrow> rmap_reader Alert alert_unmarshal
     | CT_Handshake \<Rightarrow> rmap_reader Handshake handshake_unmarshal
     | CT_ApplicationData \<Rightarrow> rmap_reader ApplicationData read_to_end
     | CT_Invalid \<Rightarrow> rfail bad)"

definition content_unmarshal :: "content_type \<Rightarrow> dtls_content dtls_reader" where
  "content_unmarshal = content_unmarshal_with ErrInvalidContentType"

section \<open>The record layer\<close>

definition RECORD_LAYER_HEADER_SIZE :: nat where
  "RECORD_LAYER_HEADER_SIZE = 13"

definition MAX_SEQUENCE_NUMBER :: u64 where
  "MAX_SEQUENCE_NUMBER = 0x0000FFFFFFFFFFFF"

record record_layer_header =
  rl_content_type :: content_type
  rl_protocol_version :: protocol_version
  rl_epoch :: u16
  rl_sequence_number :: u64
  rl_content_len :: u16

definition record_layer_header_marshal :: "record_layer_header \<Rightarrow> (byte list, dtls_error) outcome" where
  "record_layer_header_marshal h =
     (if MAX_SEQUENCE_NUMBER < rl_sequence_number h then Err ErrSequenceNumberOverflow
      else Ok ([content_type_as (rl_content_type h), major (rl_protocol_version h),
          minor (rl_protocol_version h)] @ to_be 2 (rl_epoch h)
        @ drop 2 (to_be 8 (rl_sequence_number h)) @ to_be 2 (rl_content_len h)))"

definition record_layer_header_unmarshal :: "record_layer_header dtls_reader" where
  "record_layer_header_unmarshal =
     rbind read_u8 (\<lambda>t. rbind read_u8 (\<lambda>ma. rbind read_u8 (\<lambda>mi. rbind read_u16 (\<lambda>epoch.
     rbind (read_bytes 6) (\<lambda>sq.
       let version = \<lparr>major = ma, minor = mi\<rparr> in
       if version \<noteq> PROTOCOL_VERSION1_0 \<and> version \<noteq> PROTOCOL_VERSION1_2
       then rfail ErrUnsupportedProtocolVersion
       else rbind read_u16 (\<lambda>len.
         rret \<lparr>rl_content_type = content_type_from t, rl_protocol_version = version, rl_epoch = epoch,
           rl_sequence_number = from_be ([0, 0] @ sq), rl_content_len = len\<rparr>))))))"

record record_layer =
  record_layer_header :: record_layer_header
  rl_content :: dtls_content

definition record_layer_new :: "protocol_version \<Rightarrow> u16 \<Rightarrow> dtls_content \<Rightarrow> record_layer" where
  "record_layer_new version epoch c = \<lparr>record_layer_header = \<lparr>rl_content_type = content_type_of c,
     rl_protocol_version = version, rl_epoch = epoch, rl_sequence_number = 0,
     rl_content_len = word_of_nat (content_size c)\<rparr>, rl_content = c\<rparr>"

definition record_layer_marshal :: "record_layer \<Rightarrow> (byte list, dtls_error) outcome" where
  "record_layer_marshal r =
     obind (record_layer_header_marshal (record_layer_header r)) (\<lambda>hd.
     obind (content_marshal (rl_content r)) (\<lambda>body. Ok (hd @ body)))"

definition record_layer_unmarshal :: "record_layer dtls_reader" where
  "record_layer_unmarshal = rbind record_layer_header_unmarshal (\<lambda>h.
     rbind (content_unmarshal_with (Other ''Invalid Content Type'') (rl_content_type h)) (\<lambda>c.
       rret \<lparr>record_layer_header = h, rl_content = c\<rparr>))"

function unpack_loop :: "byte list \<Rightarrow> nat \<Rightarrow> byte list list \<Rightarrow> (byte list list, dtls_error) outcome" where
  "unpack_loop buf offset out =
     (if length buf \<le> offset then Ok out
      else if length buf - offset \<le> RECORD_LAYER_HEADER_SIZE then Err ErrInvalidPacketLength
      else let pkt_len = RECORD_LAYER_HEADER_SIZE
             + unat (from_be [buf ! (offset + RECORD_LAYER_HEADER_SIZE - 2),
                 buf ! (offset + RECORD_LAYER_HEADER_SIZE - 1)] :: u16) in
        if length buf < offset + pkt_len then Err ErrInvalidPacketLength
        else unpack_loop buf (offset + pkt_len) (out @ [take pkt_len (drop offset buf)]))"
  by pat_completeness auto
termination
  by (relation "measure (\<lambda>(buf, off, out). length buf - off)")
    (auto simp: RECORD_LAYER_HEADER_SIZE_def)

declare unpack_loop.simps [simp del]

definition unpack_datagram :: "byte list \<Rightarrow> (byte list list, dtls_error) outcome" where
  "unpack_datagram buf = unpack_loop buf 0 []"

section \<open>Splitting a datagram\<close>

text \<open>A record as the datagram declares it: a header and as many bytes as its length field says.\<close>

definition framed :: "byte list \<Rightarrow> bool" where
  "framed r \<longleftrightarrow> RECORD_LAYER_HEADER_SIZE \<le> length r
     \<and> length r = RECORD_LAYER_HEADER_SIZE + unat (from_be [r ! 11, r ! 12] :: u16)"

definition splits_into :: "byte list \<Rightarrow> byte list list \<Rightarrow> bool" where
  "splits_into buf rs \<longleftrightarrow> concat rs = buf \<and> list_all framed rs
     \<and> (rs \<noteq> [] \<longrightarrow> RECORD_LAYER_HEADER_SIZE < length (last rs))"

lemma splits_into_Nil: "splits_into buf [] \<longleftrightarrow> buf = []"
  by (auto simp: splits_into_def)

lemma framed_prefix:
  assumes "framed r" and "buf = r @ rest"
  shows "length r = RECORD_LAYER_HEADER_SIZE + unat (from_be [buf ! 11, buf ! 12] :: u16)"
proof -
  have "11 < length r" "12 < length r"
    using assms(1) by (simp_all add: framed_def RECORD_LAYER_HEADER_SIZE_def)
  then have "buf ! 11 = r ! 11" "buf ! 12 = r ! 12"
    by (simp_all add: assms(2) nth_append)
  with assms(1) show ?thesis by (simp add: framed_def)
qed

lemma splits_into_Cons:
  "splits_into buf (r # rs) \<longleftrightarrow>
     RECORD_LAYER_HEADER_SIZE < length buf
     \<and> (let n = RECORD_LAYER_HEADER_SIZE + unat (from_be [buf ! 11, buf ! 12] :: u16) in
        n \<le> length buf \<and> r = take n buf \<and> splits_into (drop n buf) rs)" (is "?L \<longleftrightarrow> ?R")
proof
  assume L: ?L
  then have buf: "buf = r @ concat rs" and r: "framed r" "list_all framed rs"
    by (simp_all add: splits_into_def)
  have n: "length r = RECORD_LAYER_HEADER_SIZE + unat (from_be [buf ! 11, buf ! 12] :: u16)"
    by (rule framed_prefix [OF r(1) buf])
  have "RECORD_LAYER_HEADER_SIZE < length buf"
  proof (cases rs)
    case Nil
    with L buf show ?thesis by (simp add: splits_into_def)
  next
    case (Cons r' rs')
    with r have "RECORD_LAYER_HEADER_SIZE \<le> length r" "0 < length r'"
      by (simp_all add: framed_def RECORD_LAYER_HEADER_SIZE_def)
    with buf Cons show ?thesis by (auto simp: neq_Nil_conv)
  qed
  moreover have "splits_into (concat rs) rs"
    using L by (auto simp: splits_into_def split: if_splits)
  ultimately show ?R
    unfolding Let_def n [symmetric] using buf by simp
next
  assume R: ?R
  define n where "n = RECORD_LAYER_HEADER_SIZE + unat (from_be [buf ! 11, buf ! 12] :: u16)"
  from R have n: "n \<le> length buf" "r = take n buf" "splits_into (drop n buf) rs"
    by (simp_all add: n_def Let_def)
  have "11 < n" "12 < n"
    by (simp_all add: n_def RECORD_LAYER_HEADER_SIZE_def)
  then have "r ! 11 = buf ! 11" "r ! 12 = buf ! 12"
    using n(2) by simp_all
  with n(1,2) have "framed r"
    by (simp add: framed_def n_def)
  moreover have "rs = [] \<Longrightarrow> r = buf"
    using n by (simp add: splits_into_Nil)
  ultimately show ?L
    using n R by (auto simp: splits_into_def)
qed

lemma splits_into_empty: "splits_into [] rs \<longleftrightarrow> rs = []"
  by (cases rs) (simp_all add: splits_into_Nil splits_into_Cons)

lemma unpack_loop_Ok:
  assumes "offset \<le> length buf"
  shows "unpack_loop buf offset out = Ok rs \<longleftrightarrow> (\<exists>rs'. rs = out @ rs' \<and> splits_into (drop offset buf) rs')"
  using assms
proof (induction buf offset out rule: unpack_loop.induct)
  case (1 buf offset out)
  show ?case
  proof (cases "offset = length buf")
    case True
    then show ?thesis
      by (subst unpack_loop.simps) (auto simp: splits_into_empty)
  next
    case False
    then have lt: "offset < length buf" using 1(2) by simp
    define n where "n = RECORD_LAYER_HEADER_SIZE
      + unat (from_be [drop offset buf ! 11, drop offset buf ! 12] :: u16)"
    have n: "RECORD_LAYER_HEADER_SIZE + unat (from_be [buf ! (offset + RECORD_LAYER_HEADER_SIZE - 2),
        buf ! (offset + RECORD_LAYER_HEADER_SIZE - 1)] :: u16) = n"
      if "RECORD_LAYER_HEADER_SIZE < length buf - offset"
      using that by (simp add: n_def RECORD_LAYER_HEADER_SIZE_def add.commute)
    have split: "(\<exists>rs'. rs = out @ rs' \<and> splits_into (drop offset buf) rs') \<longleftrightarrow>
      RECORD_LAYER_HEADER_SIZE < length buf - offset \<and> n \<le> length buf - offset
      \<and> (\<exists>rs'. rs = (out @ [take n (drop offset buf)]) @ rs' \<and> splits_into (drop (offset + n) buf) rs')"
      (is "?L \<longleftrightarrow> ?R")
    proof
      assume ?L
      then obtain rs' where rs': "rs = out @ rs'" "splits_into (drop offset buf) rs'" by blast
      with lt obtain r rs'' where "rs' = r # rs''"
        by (cases rs') (auto simp: splits_into_Nil)
      with rs' show ?R
        by (auto simp: splits_into_Cons Let_def n_def add.commute)
    next
      assume R: ?R
      then obtain rs' where rs': "rs = (out @ [take n (drop offset buf)]) @ rs'"
          "splits_into (drop (offset + n) buf) rs'" by blast
      with R have "splits_into (drop offset buf) (take n (drop offset buf) # rs')"
        by (simp add: splits_into_Cons Let_def n_def add.commute)
      with rs'(1) show ?L by auto
    qed
    note n' = n [unfolded One_nat_def]
    show ?thesis
    proof (cases "RECORD_LAYER_HEADER_SIZE < length buf - offset \<and> n \<le> length buf - offset")
      case True
      have "unpack_loop buf offset out = unpack_loop buf (offset + n) (out @ [take n (drop offset buf)])"
        using lt True by (subst unpack_loop.simps) (auto simp: n' Let_def)
      moreover have "unpack_loop buf (offset + n) (out @ [take n (drop offset buf)]) = Ok rs \<longleftrightarrow>
          (\<exists>rs'. rs = (out @ [take n (drop offset buf)]) @ rs' \<and> splits_into (drop (offset + n) buf) rs')"
        using lt True n by (intro 1(1)) auto
      ultimately show ?thesis unfolding split using True by simp
    next
      case F: False
      then have "\<not> is_ok (unpack_loop buf offset out)"
        using lt by (subst unpack_loop.simps) (auto simp: n' Let_def)
      with split F show ?thesis by (auto simp: is_ok_iff)
    qed
  qed
qed

lemma unpack_loop_error:
  "unpack_loop buf offset out \<noteq> Panic \<and> (unpack_loop buf offset out = Err e \<longrightarrow> e = ErrInvalidPacketLength)"
proof (induction buf offset out rule: unpack_loop.induct)
  case (1 buf offset out)
  show ?case
  proof (cases "length buf \<le> offset \<or> length buf - offset \<le> RECORD_LAYER_HEADER_SIZE")
    case True
    then show ?thesis by (subst (1 2) unpack_loop.simps) auto
  next
    case False
    with 1 show ?thesis by (subst (1 2) unpack_loop.simps) (simp add: Let_def)
  qed
qed

text \<open>
  C39. Splitting a datagram is exact: the records are obtained precisely when they are the datagram, cut
  where their length fields say, and the last of them is not empty. Everything else is an error, no
  input makes the splitting read outside the datagram, and what it accepts it accepts in one way.
\<close>

theorem unpack_datagram_exact:
  "(unpack_datagram buf = Ok rs \<longleftrightarrow> concat rs = buf \<and> list_all framed rs
      \<and> (rs \<noteq> [] \<longrightarrow> RECORD_LAYER_HEADER_SIZE < length (last rs)))
   \<and> (unpack_datagram buf = Err e \<longrightarrow> e = ErrInvalidPacketLength) \<and> unpack_datagram buf \<noteq> Panic"
  using unpack_loop_Ok [of 0 buf "[]" rs] unpack_loop_error [of buf 0 "[]" e]
  by (simp add: unpack_datagram_def splits_into_def)

definition demo_record :: "byte \<Rightarrow> byte list" where
  "demo_record b = [22, 0xfe, 0xfd, 0, 0, 0, 0, 0, 0, 0, 1, 0, 2, b, b]"

theorem unpack_datagram_exact_witness:
  "unpack_datagram (demo_record 7 @ demo_record 8) = Ok [demo_record 7, demo_record 8]"
proof -
  have "(from_be [0, 2] :: u16) = 2"
    by (simp add: from_be_def)
  then have "framed (demo_record b)" for b
    by (simp add: framed_def demo_record_def RECORD_LAYER_HEADER_SIZE_def)
  moreover have "RECORD_LAYER_HEADER_SIZE < length (demo_record 8)"
    by (simp add: RECORD_LAYER_HEADER_SIZE_def demo_record_def)
  ultimately show ?thesis
    using unpack_datagram_exact [of "demo_record 7 @ demo_record 8" "[demo_record 7, demo_record 8]" io_eof]
    by simp
qed

section \<open>Records round-trip\<close>

lemma from_be_zeros: "from_be ([0, 0] @ bs) = from_be bs"
  by (simp add: from_be_def)

lemma drop_to_be: "drop 2 (to_be 8 w) = to_be 6 w"
  by (simp add: numeral_eq_Suc)

lemma sequence_number_bytes:
  assumes "\<not> MAX_SEQUENCE_NUMBER < w"
  shows "from_be ([0, 0] @ to_be 6 w) = (w :: u64)"
proof -
  have "unat w < 2 ^ 48"
    using assms by (simp add: MAX_SEQUENCE_NUMBER_def word_less_nat_alt)
  then have "unat (take_bit 48 w) = unat w"
    by (simp add: unsigned_take_bit_eq take_bit_nat_eq_self_iff)
  then have "take_bit 48 w = w"
    by (rule word_unat_eq_iff [THEN iffD2])
  then show ?thesis
    by (simp only: from_be_zeros from_be_to_be) simp
qed

lemma record_header_dec_enc:
  assumes "record_layer_header_marshal h = Ok bs"
    and "rl_protocol_version h = PROTOCOL_VERSION1_0 \<or> rl_protocol_version h = PROTOCOL_VERSION1_2"
  shows "record_layer_header_unmarshal (bs @ rest) = Ok (h, rest)"
    and "length bs = RECORD_LAYER_HEADER_SIZE"
proof -
  have sq: "from_be (0 # 0 # to_be 6 (rl_sequence_number h)) = rl_sequence_number h"
    using assms(1) sequence_number_bytes [of "rl_sequence_number h"]
    by (auto simp: record_layer_header_marshal_def split: if_splits)
  have version: "\<lparr>major = major v, minor = minor v\<rparr> = v" for v :: protocol_version
    by simp
  show "record_layer_header_unmarshal (bs @ rest) = Ok (h, rest)"
    using assms sq
    by (auto simp: record_layer_header_marshal_def record_layer_header_unmarshal_def read_step Let_def
        drop_to_be split: if_splits)
  show "length bs = RECORD_LAYER_HEADER_SIZE"
    using assms(1)
    by (auto simp: record_layer_header_marshal_def RECORD_LAYER_HEADER_SIZE_def split: if_splits)
qed

definition header_ok :: "handshake_header \<Rightarrow> bool" where
  "header_ok h \<longleftrightarrow> hh_length h < 0x1000000 \<and> hh_fragment_offset h < 0x1000000
     \<and> hh_fragment_length h < 0x1000000"

lemma handshake_header_marshal_iff:
  "handshake_header_marshal h = (if header_ok h
     then Ok ([handshake_type_as (hh_type h)] @ to_be 3 (hh_length h) @ to_be 2 (hh_message_sequence h)
       @ to_be 3 (hh_fragment_offset h) @ to_be 3 (hh_fragment_length h))
     else Panic)"
  by (simp add: handshake_header_marshal_def write_u24_def header_ok_def)

lemma handshake_header_dec_enc:
  assumes "handshake_header_marshal h = Ok bs"
  shows "handshake_header_unmarshal (bs @ rest) = Ok (h, rest)" and "length bs = handshake_header_size h"
  using assms
  by (auto simp: handshake_header_marshal_iff handshake_header_unmarshal_def read_step header_ok_def
      handshake_header_size_def split: if_splits)

fun message_ok :: "handshake_message \<Rightarrow> bool" where
  "message_ok (MsgClientHello m) \<longleftrightarrow> client_hello_ok m"
| "message_ok (MsgServerHello m) \<longleftrightarrow> server_hello_ok m"
| "message_ok (MsgHelloVerifyRequest m) \<longleftrightarrow> length (hvr_cookie m) \<le> 255"
| "message_ok (MsgCertificate cs) \<longleftrightarrow> certificate_ok cs"
| "message_ok (MsgServerKeyExchange m) \<longleftrightarrow>
     (ske_identity_hint m \<noteq> [] \<and> length (ske_identity_hint m) < 65536 \<and> m = ske_psk (ske_identity_hint m))
     \<or> (ske_identity_hint m = [] \<and> ske_elliptic_curve_type m = ECT_NamedCurve
        \<and> length (ske_public_key m) < 256 \<and> length (ske_signature m) < 65536
        \<and> server_key_exchange_size m \<noteq> 770)"
| "message_ok (MsgCertificateRequest m) \<longleftrightarrow> certificate_request_ok m"
| "message_ok MsgServerHelloDone \<longleftrightarrow> True"
| "message_ok (MsgCertificateVerify m) \<longleftrightarrow> length (cv_signature m) < 65536"
| "message_ok (MsgClientKeyExchange m) \<longleftrightarrow>
     (cke_identity_hint m = []) \<noteq> (cke_public_key m = [])
     \<and> length (cke_public_key m) < 256 \<and> length (cke_identity_hint m) < 65536"
| "message_ok (MsgFinished _) \<longleftrightarrow> True"

lemma rmap_reader_Ok: "r bs = Ok (x, rest) \<Longrightarrow> rmap_reader f r bs = Ok (f x, rest)"
  by (simp add: rmap_reader_def rbind_Ok)

lemma server_key_exchange_dec_enc:
  assumes "message_ok (MsgServerKeyExchange m)"
  shows "server_key_exchange_unmarshal (server_key_exchange_marshal m) = Ok (m, [])"
proof (cases "ske_identity_hint m = []")
  case True
  with assms server_key_exchange_parse_ecdhe [of m] show ?thesis
    by (simp add: server_key_exchange_unmarshal_def rbind_Ok)
next
  case False
  with assms have "length (ske_identity_hint m) < 65536" "m = ske_psk (ske_identity_hint m)"
    by simp_all
  with False server_key_exchange_parse_psk [of "ske_identity_hint m"] show ?thesis
    by (simp add: server_key_exchange_unmarshal_def rbind_Ok server_key_exchange_marshal_def)
qed

lemma server_key_exchange_size_marshal [sizes]:
  "length (server_key_exchange_marshal m) = server_key_exchange_size m"
  by (simp add: server_key_exchange_marshal_def server_key_exchange_size_def put_sha_def)

lemma client_key_exchange_size_marshal [sizes]:
  "client_key_exchange_marshal m = Ok bs \<Longrightarrow> length bs = client_key_exchange_size m"
  by (auto simp: client_key_exchange_marshal_def client_key_exchange_size_def split: if_splits)

lemma message_dec_enc:
  assumes "message_ok m"
  shows "\<exists>bs rest. message_marshal m = Ok bs \<and> length bs = message_size m
    \<and> message_unmarshal (message_type m) bs = Ok (m, rest)"
proof (cases m)
  case (MsgClientHello x)
  with assms obtain bs where "client_hello_marshal x = Ok bs" "client_hello_ok x"
    using client_hello_marshal_ok by auto
  with MsgClientHello client_hello_dec_enc [of x bs "[]"] client_hello_size_marshal [of x bs] show ?thesis
    by (auto simp: message_unmarshal_def rmap_reader_Ok client_hello_ok_def random_ok_def)
next
  case (MsgServerHello x)
  with assms server_hello_dec_enc [of x "[]"] show ?thesis
    by (auto simp: message_unmarshal_def rmap_reader_Ok server_hello_size_marshal server_hello_ok_def
        random_ok_def)
next
  case (MsgHelloVerifyRequest x)
  with assms obtain bs where "hello_verify_request_marshal x = Ok bs"
    by (auto simp: hello_verify_request_marshal_def)
  with MsgHelloVerifyRequest hello_verify_request_dec_enc hello_verify_request_size_marshal show ?thesis
    by (auto simp: message_unmarshal_def rmap_reader_Ok)
next
  case (MsgCertificate cs)
  with assms certificate_marshal_size [of cs] obtain bs where
    "certificate_marshal cs = Ok bs" "length bs = certificate_size cs" by auto
  with MsgCertificate assms certificate_dec_enc [of cs bs "[]"] show ?thesis
    by (auto simp: message_unmarshal_def rmap_reader_Ok)
next
  case (MsgServerKeyExchange x)
  with assms show ?thesis
    by (auto simp: message_unmarshal_def rmap_reader_Ok server_key_exchange_dec_enc
        server_key_exchange_size_marshal)
next
  case (MsgCertificateRequest x)
  with assms certificate_request_dec_enc [of x "[]"] show ?thesis
    by (auto simp: message_unmarshal_def rmap_reader_Ok certificate_request_size_marshal)
next
  case (MsgCertificateVerify x)
  with assms certificate_verify_dec_enc [of x "[]"] show ?thesis
    by (auto simp: message_unmarshal_def rmap_reader_Ok certificate_verify_size_marshal)
next
  case (MsgClientKeyExchange x)
  with assms obtain bs where "client_key_exchange_marshal x = Ok bs"
    by (auto simp: client_key_exchange_marshal_def)
  with MsgClientKeyExchange assms client_key_exchange_dec_enc [of x bs] client_key_exchange_size_marshal
  show ?thesis
    by (auto simp: message_unmarshal_def rmap_reader_Ok)
qed (auto simp: message_unmarshal_def rmap_reader_def rbind_Ok server_hello_done_marshal_def
    server_hello_done_unmarshal_def finished_marshal_def finished_unmarshal_def)

definition handshake_ok :: "handshake \<Rightarrow> bool" where
  "handshake_ok h \<longleftrightarrow> header_ok (hs_header h) \<and> hh_type (hs_header h) = message_type (hs_message h)
     \<and> message_ok (hs_message h)"

lemma handshake_dec_enc:
  assumes "handshake_ok h"
  shows "\<exists>bs rest. handshake_marshal h = Ok bs \<and> length bs = handshake_size h
    \<and> handshake_unmarshal bs = Ok (h, rest)"
proof -
  from assms obtain hb where hb: "handshake_header_marshal (hs_header h) = Ok hb"
    by (simp add: handshake_ok_def handshake_header_marshal_iff)
  from assms message_dec_enc obtain bs rest where bs: "message_marshal (hs_message h) = Ok bs"
      "length bs = message_size (hs_message h)"
      "message_unmarshal (message_type (hs_message h)) bs = Ok (hs_message h, rest)"
    unfolding handshake_ok_def by blast
  from handshake_header_dec_enc [OF hb] bs assms show ?thesis
    by (intro exI [of _ "hb @ bs"] exI [of _ rest])
      (simp add: handshake_marshal_def hb handshake_unmarshal_def read_step handshake_size_def handshake_ok_def)
qed

fun content_ok :: "dtls_content \<Rightarrow> bool" where
  "content_ok (Handshake h) \<longleftrightarrow> handshake_ok h"
| "content_ok _ \<longleftrightarrow> True"

lemma content_dec_enc:
  assumes "content_ok c"
  shows "\<exists>bs rest. content_marshal c = Ok bs \<and> length bs = content_size c
    \<and> content_unmarshal_with e (content_type_of c) bs = Ok (c, rest)"
proof (cases c)
  case (Handshake h)
  with assms handshake_dec_enc [of h] show ?thesis
    by (auto simp: content_unmarshal_with_def rmap_reader_Ok)
qed (auto simp: content_unmarshal_with_def rmap_reader_def read_step change_cipher_spec_marshal_def
    change_cipher_spec_unmarshal_def alert_marshal_def alert_unmarshal_def)

definition record_ok :: "record_layer \<Rightarrow> bool" where
  "record_ok r \<longleftrightarrow> content_ok (rl_content r)
     \<and> rl_content_type (record_layer_header r) = content_type_of (rl_content r)
     \<and> rl_protocol_version (record_layer_header r) \<in> {PROTOCOL_VERSION1_0, PROTOCOL_VERSION1_2}"

lemma record_dec_enc:
  assumes "record_ok r" and "\<not> MAX_SEQUENCE_NUMBER < rl_sequence_number (record_layer_header r)"
  shows "\<exists>bs rest. record_layer_marshal r = Ok bs
    \<and> length bs = RECORD_LAYER_HEADER_SIZE + content_size (rl_content r)
    \<and> record_layer_unmarshal bs = Ok (r, rest)"
proof -
  from assms(2) obtain hb where hb: "record_layer_header_marshal (record_layer_header r) = Ok hb"
    by (simp add: record_layer_header_marshal_def)
  obtain bs rest where bs: "content_marshal (rl_content r) = Ok bs" "length bs = content_size (rl_content r)"
      "content_unmarshal_with (Other ''Invalid Content Type'') (content_type_of (rl_content r)) bs
        = Ok (rl_content r, rest)"
    using content_dec_enc assms(1) unfolding record_ok_def by blast
  from record_header_dec_enc [OF hb] bs assms(1) show ?thesis
    by (intro exI [of _ "hb @ bs"] exI [of _ rest])
      (simp add: record_layer_marshal_def hb record_layer_unmarshal_def read_step record_ok_def)
qed

text \<open>
  Records survive the wire, with everything in them: a record of a supported version whose content
  is well formed (any handshake message, alert, change cipher spec or application data) and whose
  type is that of its content is written in exactly the 13 bytes of its header and the size of its
  content, and reading the bytes gives it again; one whose sequence number needs more than 48 bits is
  refused instead of written with a number that has wrapped around.
\<close>

theorem record_roundtrip:
  assumes "record_ok r"
  shows "if MAX_SEQUENCE_NUMBER < rl_sequence_number (record_layer_header r)
    then record_layer_marshal r = Err ErrSequenceNumberOverflow
    else \<exists>bs rest. record_layer_marshal r = Ok bs
      \<and> length bs = RECORD_LAYER_HEADER_SIZE + content_size (rl_content r)
      \<and> record_layer_unmarshal bs = Ok (r, rest)"
  using record_dec_enc [OF assms]
  by (simp add: record_layer_marshal_def record_layer_header_marshal_def)

definition demo_hello_record :: record_layer where
  "demo_hello_record = record_layer_new PROTOCOL_VERSION1_2 0 (Handshake (handshake_new (MsgClientHello demo_client_hello)))"

lemma demo_hello_size: "message_size (MsgClientHello demo_client_hello) < 0x1000000"
  by (simp add: client_hello_size_def demo_client_hello_def demo_extensions_def extension_size_def RANDOM_BYTES_LENGTH_def)

theorem record_roundtrip_witness:
  "\<exists>bs rest. record_layer_marshal demo_hello_record = Ok bs
     \<and> length bs = RECORD_LAYER_HEADER_SIZE + content_size (rl_content demo_hello_record)
     \<and> record_layer_unmarshal bs = Ok (demo_hello_record, rest)"
proof -
  have "client_hello_ok demo_client_hello"
    by (simp add: client_hello_ok_def demo_client_hello_def demo_extensions_ok demo_random_ok)
  then have "record_ok demo_hello_record"
    using demo_hello_size
    by (simp add: record_ok_def demo_hello_record_def record_layer_new_def handshake_ok_def handshake_new_def
        header_ok_def word_less_nat_alt unat_of_nat)
  from record_roundtrip [OF this] show ?thesis
    by (simp add: demo_hello_record_def record_layer_new_def MAX_SEQUENCE_NUMBER_def)
qed

end
