(* ===== verification/Dtls_Fragment.thy ===== *)
theory Dtls_Fragment
  imports Dtls_Record "HOL-Library.AList"
begin

text \<open>
  Fragmentation of handshake messages (\<^verbatim>\<open>fragment_handshake\<close> and \<^verbatim>\<open>split_bytes\<close> in \<^verbatim>\<open>conn/mod.rs\<close>) and
  their reassembly (\<^verbatim>\<open>fragment_buffer/mod.rs\<close>). The theory shows that the recursion of the reassembly
  ends on every buffer that packets can build, that the buffer stays well formed and below its
  limit, and that fragments that arrive in any order and any number of times give the message again.
\<close>

section \<open>Fragmenting\<close>

function split_loop :: "byte list \<Rightarrow> nat \<Rightarrow> nat \<Rightarrow> byte list list" where
  "split_loop bytes split_len i =
     (if split_len = 0 \<or> length bytes \<le> i then []
      else take (min (i + split_len) (length bytes) - i) (drop i bytes) # split_loop bytes split_len (i + split_len))"
  by pat_completeness auto
termination
  by (relation "measure (\<lambda>(bytes, split_len, i). length bytes - i)") auto

declare split_loop.simps [simp del]

text \<open>\<^verbatim>\<open>step_by(0)\<close> panics.\<close>

definition split_bytes :: "byte list \<Rightarrow> nat \<Rightarrow> (byte list list, dtls_error) outcome" where
  "split_bytes bytes split_len = (if split_len = 0 then Panic else Ok (split_loop bytes split_len 0))"

fun fragment_loop :: "handshake_header \<Rightarrow> nat \<Rightarrow> byte list list \<Rightarrow> (byte list list, dtls_error) outcome" where
  "fragment_loop h offset [] = Ok []"
| "fragment_loop h offset (f # fs) =
     obind (handshake_header_marshal
       (h\<lparr>hh_fragment_offset := word_of_nat offset, hh_fragment_length := word_of_nat (length f)\<rparr>)) (\<lambda>hd.
     obind (fragment_loop h (offset + length f) fs) (\<lambda>rest. Ok ((hd @ f) # rest)))"

definition fragment_handshake :: "nat \<Rightarrow> handshake \<Rightarrow> (byte list list, dtls_error) outcome" where
  "fragment_handshake mtu h =
     obind (message_marshal (hs_message h)) (\<lambda>content.
     obind (split_bytes content mtu) (\<lambda>content_fragments.
       fragment_loop (hs_header h) 0 (if content_fragments = [] then [[]] else content_fragments)))"

section \<open>The fragment buffer\<close>

definition FRAGMENT_BUFFER_MAX_SIZE :: nat where
  "FRAGMENT_BUFFER_MAX_SIZE = 2000000"

record fragment =
  fr_record_layer_header :: record_layer_header
  fr_handshake_header :: handshake_header
  fr_data :: "byte list"

abbreviation fr_offset :: "fragment \<Rightarrow> u32" where
  "fr_offset f \<equiv> hh_fragment_offset (fr_handshake_header f)"

abbreviation fr_length :: "fragment \<Rightarrow> u32" where
  "fr_length f \<equiv> hh_fragment_length (fr_handshake_header f)"

text \<open>The hash map from message sequence numbers is an association list with distinct keys.\<close>

record fragment_buffer =
  fb_cache :: "(u16 \<times> fragment list) list"
  fb_current :: u16

definition fragment_buffer_new :: fragment_buffer where
  "fragment_buffer_new = \<lparr>fb_cache = [], fb_current = 0\<rparr>"

definition buffer_size :: "fragment_buffer \<Rightarrow> nat" where
  "buffer_size fb = sum_list (map (\<lambda>(k, frags). sum_list (map (\<lambda>f. length (fr_data f)) frags)) (fb_cache fb))"

definition store_fragment :: "u16 \<Rightarrow> fragment \<Rightarrow> fragment_buffer \<Rightarrow> fragment_buffer" where
  "store_fragment k f fb = fb\<lparr>fb_cache := AList.update k
     ((case map_of (fb_cache fb) k of None \<Rightarrow> [] | Some frags \<Rightarrow> frags) @ [f]) (fb_cache fb)\<rparr>"

text \<open>
  The loop over the handshake messages of one record. An error after the first message leaves what
  was stored before it in the buffer.
\<close>

function push_loop :: "record_layer_header \<Rightarrow> byte list \<Rightarrow> fragment_buffer
    \<Rightarrow> fragment_buffer \<times> (bool, dtls_error) outcome" where
  "push_loop rh buf fb =
     (if buf = [] then (fb, Ok True)
      else case handshake_header_unmarshal buf of
        Err e \<Rightarrow> (fb, Err e)
      | Panic \<Rightarrow> (fb, Panic)
      | Ok (h, _) \<Rightarrow>
          let n = min (HANDSHAKE_HEADER_LENGTH + unat (hh_length h)) (length buf);
              f = \<lparr>fr_record_layer_header = rh, fr_handshake_header = h,
                fr_data = drop HANDSHAKE_HEADER_LENGTH (take n buf)\<rparr>
          in push_loop rh (drop n buf) (store_fragment (hh_message_sequence h) f fb))"
  by pat_completeness auto
termination
  by (relation "measure (\<lambda>(rh, buf, fb). length buf)") (auto simp: HANDSHAKE_HEADER_LENGTH_def)

declare push_loop.simps [simp del]

definition buffer_push :: "byte list \<Rightarrow> fragment_buffer \<Rightarrow> fragment_buffer \<times> (bool, dtls_error) outcome" where
  "buffer_push buf fb =
     (if FRAGMENT_BUFFER_MAX_SIZE \<le> buffer_size fb + length buf
      then (fb, Err (ErrFragmentBufferOverflow (buffer_size fb + length buf) FRAGMENT_BUFFER_MAX_SIZE))
      else case record_layer_header_unmarshal buf of
        Err e \<Rightarrow> (fb, Err e)
      | Panic \<Rightarrow> (fb, Panic)
      | Ok (rh, _) \<Rightarrow>
          if rl_content_type rh \<noteq> CT_Handshake then (fb, Ok False)
          else push_loop rh (drop RECORD_LAYER_HEADER_SIZE buf) fb)"

text \<open>
  Collecting a message from its fragments: the result says whether it is complete and holds the
  bytes collected. \<open>None\<close> would be a recursion that does not end; the offsets are \<^verbatim>\<open>u32\<close>.
\<close>

partial_function (option) append_message ::
  "u32 \<Rightarrow> fragment list \<Rightarrow> byte list \<Rightarrow> (bool \<times> byte list) option" where
  "append_message target frags raw =
     (case find (\<lambda>f. fr_offset f = target) frags of
        None \<Rightarrow> Some (False, raw)
      | Some f \<Rightarrow>
          if fr_offset f + fr_length f \<noteq> hh_length (fr_handshake_header f) \<and> fr_length f \<noteq> 0
          then Option.bind (append_message (fr_offset f + fr_length f) frags raw) (\<lambda>(ok, raw').
            Some (if ok then (True, fr_data f @ raw') else (False, raw')))
          else Some (True, fr_data f @ raw))"

definition buffer_pop :: "fragment_buffer
    \<Rightarrow> (fragment_buffer \<times> (byte list \<times> u16, dtls_error) outcome) option" where
  "buffer_pop fb =
     (case map_of (fb_cache fb) (fb_current fb) of
        None \<Rightarrow> Some (fb, Err ErrEmptyFragment)
      | Some frags \<Rightarrow> Option.bind (append_message 0 frags []) (\<lambda>(ok, raw_message).
          Some (if \<not> ok then (fb, Err ErrEmptyFragment)
            else case frags of
              [] \<Rightarrow> (fb, Panic)
            | first # _ \<Rightarrow>
                let h = fr_handshake_header first
                in case handshake_header_marshal (h\<lparr>hh_fragment_offset := 0, hh_fragment_length := hh_length h\<rparr>) of
                     Err e \<Rightarrow> (fb, Err ErrEmptyFragment)
                   | Panic \<Rightarrow> (fb, Panic)
                   | Ok raw_header \<Rightarrow>
                       (\<lparr>fb_cache = AList.delete (fb_current fb) (fb_cache fb), fb_current = fb_current fb + 1\<rparr>,
                        Ok (raw_header @ raw_message, rl_epoch (fr_record_layer_header first))))))"

section \<open>Well-formed buffers\<close>

definition buffer_wf :: "fragment_buffer \<Rightarrow> bool" where
  "buffer_wf fb \<longleftrightarrow> distinct (map fst (fb_cache fb))
     \<and> (\<forall>(k, frags) \<in> set (fb_cache fb). frags \<noteq> [] \<and> list_all (\<lambda>f. header_ok (fr_handshake_header f)
          \<and> hh_message_sequence (fr_handshake_header f) = k) frags)"

lemma read_u24_bound: "read_u24 bs = Ok (w, rest) \<Longrightarrow> w < 0x1000000"
proof -
  assume "read_u24 bs = Ok (w, rest)"
  then obtain xs where xs: "length xs = 3" "w = from_be xs"
    by (auto simp: read_u24_def read_uint_eq_Ok)
  then have "w = from_be (to_be 3 (from_be xs :: u32))"
    using to_be_from_be [of xs, where 'a = 32] by simp
  also have "\<dots> = take_bit 24 (from_be xs)"
    by (simp add: from_be_to_be)
  finally have "unat w < 2 ^ 24"
    using take_bit_nat_less_exp [of 24 "unat (from_be xs :: u32)"] by (simp add: unsigned_take_bit_eq)
  then show ?thesis by (simp add: word_less_nat_alt)
qed

lemma handshake_header_unmarshal_ok:
  assumes "handshake_header_unmarshal bs = Ok (h, rest)"
  shows "header_ok h" and "HANDSHAKE_HEADER_LENGTH \<le> length bs"
proof -
  from assms obtain t r1 len r2 sq r3 off r4 fl where
    r: "read_u8 bs = Ok (t, r1)" "read_u24 r1 = Ok (len, r2)" "read_u16 r2 = Ok (sq, r3)"
      "read_u24 r3 = Ok (off, r4)" "read_u24 r4 = Ok (fl, rest)"
    and h: "h = \<lparr>hh_type = handshake_type_from t, hh_length = len, hh_message_sequence = sq,
         hh_fragment_offset = off, hh_fragment_length = fl\<rparr>"
    by (auto simp: handshake_header_unmarshal_def rbind_eq_Ok)
  show "header_ok h"
    using r(2,4,5) h by (auto simp: header_ok_def dest: read_u24_bound)
  show "HANDSHAKE_HEADER_LENGTH \<le> length bs"
    using r by (auto simp: read_u8_def read_u16_def read_u24_def read_uint_eq_Ok HANDSHAKE_HEADER_LENGTH_def)
qed

lemma wf_new: "buffer_wf fragment_buffer_new"
  by (simp add: buffer_wf_def fragment_buffer_new_def)

lemma wf_lookup:
  "buffer_wf fb \<Longrightarrow> map_of (fb_cache fb) k = Some frags \<Longrightarrow>
     frags \<noteq> [] \<and> list_all (\<lambda>f. header_ok (fr_handshake_header f)
       \<and> hh_message_sequence (fr_handshake_header f) = k) frags"
  by (auto simp: buffer_wf_def dest!: map_of_SomeD)

lemma update_memberD:
  assumes "(k', v') \<in> set (AList.update k v al)"
  shows "(k' = k \<and> v' = v) \<or> (k', v') \<in> set al"
  using assms by (induction al) (auto split: if_splits)

lemma wf_store:
  assumes "buffer_wf fb" and "header_ok (fr_handshake_header f)" and "hh_message_sequence (fr_handshake_header f) = k"
  shows "buffer_wf (store_fragment k f fb)"
proof -
  let ?old = "case map_of (fb_cache fb) k of None \<Rightarrow> [] | Some frags \<Rightarrow> frags"
  have old: "list_all (\<lambda>f. header_ok (fr_handshake_header f) \<and> hh_message_sequence (fr_handshake_header f) = k) ?old"
    using wf_lookup [OF assms(1)] by (auto split: option.splits)
  have "distinct (map fst (AList.update k (?old @ [f]) (fb_cache fb)))"
    using assms(1) by (simp add: buffer_wf_def distinct_update)
  then show ?thesis
    using old assms by (auto simp: buffer_wf_def store_fragment_def dest!: update_memberD)
qed

lemma wf_push_loop: "buffer_wf fb \<Longrightarrow> buffer_wf (fst (push_loop rh buf fb))"
proof (induction rh buf fb rule: push_loop.induct)
  case (1 rh buf fb)
  show ?case
  proof (cases "buf = []")
    case False
    show ?thesis
    proof (cases "handshake_header_unmarshal buf")
      case (Ok p)
      obtain h rest where p: "p = (h, rest)" by (cases p)
      with Ok have "header_ok h" using handshake_header_unmarshal_ok by blast
      with 1 False Ok p show ?thesis
        by (subst push_loop.simps) (simp add: Let_def wf_store)
    qed (use 1 False in \<open>simp_all add: push_loop.simps [of rh buf fb]\<close>)
  qed (use 1 in \<open>simp add: push_loop.simps\<close>)
qed

lemma wf_push: "buffer_wf fb \<Longrightarrow> buffer_wf (fst (buffer_push buf fb))"
  by (auto simp: buffer_push_def wf_push_loop split: outcome.splits)

lemma wf_pop:
  assumes "buffer_wf fb" and "buffer_pop fb = Some (fb', out)"
  shows "buffer_wf fb'"
proof -
  have "buffer_wf (\<lparr>fb_cache = AList.delete k (fb_cache fb), fb_current = n\<rparr>)" for k n
    using assms(1) by (auto simp: buffer_wf_def AList.delete_eq distinct_map_filter)
  with assms show ?thesis
    by (auto simp: buffer_pop_def Let_def bind_eq_Some_conv split: option.splits if_splits list.splits outcome.splits)
qed

section \<open>The recursion ends\<close>

lemma offset_plus_length:
  assumes "header_ok h"
  shows "unat (hh_fragment_offset h + hh_fragment_length h) = unat (hh_fragment_offset h) + unat (hh_fragment_length h)"
  using assms by (simp add: header_ok_def word_less_nat_alt unat_word_ariths)

lemma append_message_ends:
  assumes "list_all (\<lambda>f. header_ok (fr_handshake_header f)) frags"
  shows "\<exists>res. append_message target frags raw = Some res"
proof (induction "0x2000000 - unat target" arbitrary: target rule: less_induct)
  case less
  show ?case
  proof (cases "find (\<lambda>f. fr_offset f = target) frags")
    case None
    then show ?thesis by (subst append_message.simps) auto
  next
    case (Some f)
    then have f: "f \<in> set frags" "fr_offset f = target"
      by (auto simp: find_Some_iff)
    with assms have ok: "header_ok (fr_handshake_header f)"
      by (simp add: list_all_iff)
    have "\<exists>res. append_message (fr_offset f + fr_length f) frags raw = Some res" if "fr_length f \<noteq> 0"
    proof (rule less)
      have "unat (fr_offset f) < 0x1000000" "unat (fr_length f) < 0x1000000" "0 < unat (fr_length f)"
        using ok that by (auto simp: header_ok_def word_less_nat_alt unat_gt_0)
      with offset_plus_length [OF ok] f(2)
      show "0x2000000 - unat (fr_offset f + fr_length f) < 0x2000000 - unat target"
        by simp
    qed
    with Some show ?thesis
      by (subst append_message.simps) auto
  qed
qed

section \<open>Fragments that cover a message\<close>

text \<open>The fragments of a body \<open>fs\<close> from an offset on, as headers with their data.\<close>

fun ideal_fragments :: "handshake_header \<Rightarrow> nat \<Rightarrow> byte list list \<Rightarrow> (handshake_header \<times> byte list) list" where
  "ideal_fragments h offset [] = []"
| "ideal_fragments h offset (f # fs) =
     (h\<lparr>hh_fragment_offset := word_of_nat offset, hh_fragment_length := word_of_nat (length f)\<rparr>, f)
     # ideal_fragments h (offset + length f) fs"

definition fragment_bytes :: "handshake_header \<times> byte list \<Rightarrow> byte list" where
  "fragment_bytes p = (case handshake_header_marshal (fst p) of Ok hb \<Rightarrow> hb | _ \<Rightarrow> []) @ snd p"

lemma word_of_unat: "word_of_nat (unat w) = w"
  by simp

lemma unat_u32_small: "n < 0x1000000 \<Longrightarrow> unat (word_of_nat n :: u32) = n"
  by (simp add: unat_of_nat)

lemma ideal_fragments_facts:
  assumes "p \<in> set (ideal_fragments h offset fs)" and "hh_length h < 0x1000000"
    and "offset + length (concat fs) < 0x1000000"
  shows "header_ok (fst p)" and "hh_length (fst p) = hh_length h" and "hh_type (fst p) = hh_type h"
    and "hh_message_sequence (fst p) = hh_message_sequence h"
    and "offset \<le> unat (hh_fragment_offset (fst p))"
    and "length (snd p) \<le> length (concat fs)"
    and "h\<lparr>hh_fragment_offset := 0, hh_fragment_length := hh_length h\<rparr>
      = (fst p)\<lparr>hh_fragment_offset := 0, hh_fragment_length := hh_length h\<rparr>"
proof -
  have "header_ok (fst p) \<and> hh_length (fst p) = hh_length h \<and> hh_type (fst p) = hh_type h
    \<and> hh_message_sequence (fst p) = hh_message_sequence h
    \<and> offset \<le> unat (hh_fragment_offset (fst p)) \<and> length (snd p) \<le> length (concat fs)
    \<and> h\<lparr>hh_fragment_offset := 0, hh_fragment_length := hh_length h\<rparr>
      = (fst p)\<lparr>hh_fragment_offset := 0, hh_fragment_length := hh_length h\<rparr>"
    using assms(1,3)
  proof (induction fs arbitrary: offset)
    case (Cons f fs)
    then show ?case
    proof (cases "p \<in> set (ideal_fragments h (offset + length f) fs)")
      case True
      with Cons.IH [of "offset + length f"] Cons.prems(2) show ?thesis by auto
    next
      case False
      with Cons.prems assms(2) show ?thesis
        by (auto simp: header_ok_def unat_u32_small word_less_nat_alt)
    qed
  qed simp
  then show "header_ok (fst p)" "hh_length (fst p) = hh_length h" "hh_type (fst p) = hh_type h"
    "hh_message_sequence (fst p) = hh_message_sequence h" "offset \<le> unat (hh_fragment_offset (fst p))"
    "length (snd p) \<le> length (concat fs)"
    "h\<lparr>hh_fragment_offset := 0, hh_fragment_length := hh_length h\<rparr>
      = (fst p)\<lparr>hh_fragment_offset := 0, hh_fragment_length := hh_length h\<rparr>"
    by blast+
qed

lemma fragment_loop_ideal:
  assumes "hh_length h < 0x1000000" and "offset + length (concat fs) < 0x1000000"
  shows "fragment_loop h offset fs = Ok (map fragment_bytes (ideal_fragments h offset fs))"
  using assms(2)
proof (induction fs arbitrary: offset)
  case (Cons f fs)
  have "header_ok (h\<lparr>hh_fragment_offset := word_of_nat offset, hh_fragment_length := word_of_nat (length f)\<rparr>)"
    using assms(1) Cons.prems by (auto simp: header_ok_def unat_u32_small word_less_nat_alt)
  moreover have "fragment_loop h (offset + length f) fs
      = Ok (map fragment_bytes (ideal_fragments h (offset + length f) fs))"
    using Cons by (intro Cons.IH) simp
  ultimately show ?case
    by (simp add: handshake_header_marshal_iff fragment_bytes_def)
qed simp

text \<open>What reassembly needs of the fragments at hand: each offset the body passes is there.\<close>

fun covers :: "fragment list \<Rightarrow> nat \<Rightarrow> nat \<Rightarrow> byte list list \<Rightarrow> bool" where
  "covers frags whole offset [] \<longleftrightarrow> False"
| "covers frags whole offset (c # cs) \<longleftrightarrow>
     (\<exists>f \<in> set frags. unat (fr_offset f) = offset)
     \<and> (\<forall>f \<in> set frags. unat (fr_offset f) = offset \<longrightarrow> fr_data f = c \<and> unat (fr_length f) = length c
          \<and> unat (hh_length (fr_handshake_header f)) = whole)
     \<and> (if cs = [] then offset + length c = whole
        else c \<noteq> [] \<and> offset + length c \<noteq> whole \<and> covers frags whole (offset + length c) cs)"

lemma append_covers:
  assumes "list_all (\<lambda>f. header_ok (fr_handshake_header f)) frags" and "covers frags whole offset cs"
  shows "append_message (word_of_nat offset) frags raw = Some (True, concat cs @ raw)"
  using assms(2)
proof (induction cs arbitrary: offset)
  case (Cons c cs)
  then obtain g where g: "g \<in> set frags" "unat (fr_offset g) = offset"
    by (auto simp del: covers.simps(1))
  then have off: "fr_offset f = word_of_nat offset \<longleftrightarrow> unat (fr_offset f) = offset" for f
    using word_unat_eq_iff [of "fr_offset f" "fr_offset g"] by (metis word_of_unat)
  have "find (\<lambda>f. fr_offset f = word_of_nat offset) frags \<noteq> None"
    using g off by (auto simp: find_None_iff)
  then obtain f where f: "find (\<lambda>f. fr_offset f = word_of_nat offset) frags = Some f" by blast
  then have "f \<in> set frags" "fr_offset f = word_of_nat offset"
    by (auto simp: find_Some_iff)
  with off have mem: "f \<in> set frags" "unat (fr_offset f) = offset" by auto
  with Cons.prems have d: "fr_data f = c" "unat (fr_length f) = length c"
      "unat (hh_length (fr_handshake_header f)) = whole"
    by auto
  have ok: "header_ok (fr_handshake_header f)"
    using assms(1) mem(1) by (simp add: list_all_iff)
  have sum: "unat (fr_offset f + fr_length f) = offset + length c"
    using offset_plus_length [OF ok] mem(2) d(2) by simp
  then have next_offset: "fr_offset f + fr_length f = word_of_nat (offset + length c)"
    by (metis word_of_unat)
  have last: "fr_offset f + fr_length f = hh_length (fr_handshake_header f) \<longleftrightarrow> offset + length c = whole"
    using sum d(3) by (metis word_unat_eq_iff)
  have empty: "fr_length f = 0 \<longleftrightarrow> c = []"
    using d(2) by (metis length_0_conv unat_eq_zero)
  show ?case
  proof (cases "cs = []")
    case True
    with Cons.prems last f d(1) show ?thesis
      by (subst append_message.simps) auto
  next
    case False
    with Cons.prems have "append_message (word_of_nat (offset + length c)) frags raw = Some (True, concat cs @ raw)"
      "offset + length c \<noteq> whole" "c \<noteq> []"
      by (auto intro: Cons.IH simp del: of_nat_add)
    with f d(1) last empty show ?thesis
      by (subst append_message.simps) (simp add: next_offset del: of_nat_add)
  qed
qed simp

lemma ideal_covers:
  assumes "fs \<noteq> []" and "length fs = 1 \<or> [] \<notin> set fs"
    and "unat (hh_length h) = offset + length (concat fs)" and "hh_length h < 0x1000000"
    and "set (ideal_fragments h offset fs) \<subseteq> (\<lambda>f. (fr_handshake_header f, fr_data f)) ` set frags"
    and "\<And>f. f \<in> set frags \<Longrightarrow> offset \<le> unat (fr_offset f) \<Longrightarrow>
       (fr_handshake_header f, fr_data f) \<in> set (ideal_fragments h offset fs)"
  shows "covers frags (unat (hh_length h)) offset fs"
  using assms(1-3,5,6)
proof (induction fs arbitrary: offset)
  case (Cons c cs)
  have bound: "offset + length (concat (c # cs)) < 0x1000000"
    using Cons.prems(3) assms(4) by (simp add: word_less_nat_alt)
  have tail_off: "offset + length c \<le> unat (hh_fragment_offset (fst p))"
    if "p \<in> set (ideal_fragments h (offset + length c) cs)" for p
    using ideal_fragments_facts(5) [OF that assms(4)] bound by simp
  let ?head = "h\<lparr>hh_fragment_offset := word_of_nat offset, hh_fragment_length := word_of_nat (length c)\<rparr>"
  have head_off: "unat (hh_fragment_offset ?head) = offset" "unat (hh_fragment_length ?head) = length c"
    using bound by (simp_all add: unat_u32_small)
  have ex: "\<exists>f \<in> set frags. unat (fr_offset f) = offset"
    using Cons.prems(4) head_off(1) by fastforce
  have all: "fr_data f = c \<and> unat (fr_length f) = length c \<and> unat (hh_length (fr_handshake_header f)) = unat (hh_length h)"
    if f: "f \<in> set frags" "unat (fr_offset f) = offset" for f
  proof -
    have mem: "(fr_handshake_header f, fr_data f) \<in> set (ideal_fragments h offset (c # cs))"
      using f by (intro Cons.prems(5)) simp_all
    have "(fr_handshake_header f, fr_data f) \<notin> set (ideal_fragments h (offset + length c) cs)"
    proof
      assume in_tail: "(fr_handshake_header f, fr_data f) \<in> set (ideal_fragments h (offset + length c) cs)"
      then have "cs \<noteq> []" by auto
      with Cons.prems(2) have "c \<noteq> []" by auto
      with tail_off [OF in_tail] f(2) show False by simp
    qed
    with mem have "fr_handshake_header f = ?head" "fr_data f = c" by simp_all
    then show ?thesis using head_off by simp
  qed
  have "covers frags (unat (hh_length h)) (offset + length c) cs \<and> c \<noteq> [] \<and> offset + length c \<noteq> unat (hh_length h)"
    if "cs \<noteq> []"
  proof (intro conjI)
    show c: "c \<noteq> []" using Cons.prems(2) that by auto
    have "concat cs \<noteq> []" using Cons.prems(2) that by (cases cs) auto
    then show "offset + length c \<noteq> unat (hh_length h)" using Cons.prems(3) by auto
    show "covers frags (unat (hh_length h)) (offset + length c) cs"
    proof (rule Cons.IH)
      fix f assume f: "f \<in> set frags" "offset + length c \<le> unat (fr_offset f)"
      then have "(fr_handshake_header f, fr_data f) \<in> set (ideal_fragments h offset (c # cs))"
        by (intro Cons.prems(5)) simp_all
      moreover have "fr_handshake_header f \<noteq> ?head"
        using f(2) c head_off(1) by (metis add_le_same_cancel1 le_zero_eq length_0_conv)
      ultimately show "(fr_handshake_header f, fr_data f) \<in> set (ideal_fragments h (offset + length c) cs)"
        by simp
    qed (use that Cons.prems in auto)
  qed
  with ex all Cons.prems(3) show ?case by auto
qed simp

section \<open>The size of the buffer\<close>

abbreviation data_size :: "fragment list \<Rightarrow> nat" where
  "data_size frags \<equiv> sum_list (map (\<lambda>f. length (fr_data f)) frags)"

lemma size_update:
  assumes "distinct (map fst al)"
  shows "sum_list (map (\<lambda>(k, v). data_size v) (AList.update k ((case map_of al k of None \<Rightarrow> [] | Some v \<Rightarrow> v) @ [f]) al))
    = sum_list (map (\<lambda>(k, v). data_size v) al) + length (fr_data f)"
  using assms by (induction al) (auto split: option.splits)

lemma size_store:
  "buffer_wf fb \<Longrightarrow> buffer_size (store_fragment k f fb) = buffer_size fb + length (fr_data f)"
  by (simp add: buffer_size_def store_fragment_def buffer_wf_def size_update)

lemma size_push_loop:
  "buffer_wf fb \<Longrightarrow> buffer_size (fst (push_loop rh buf fb)) \<le> buffer_size fb + length buf"
proof (induction rh buf fb rule: push_loop.induct)
  case (1 rh buf fb)
  show ?case
  proof (cases "buf = []")
    case False
    show ?thesis
    proof (cases "handshake_header_unmarshal buf")
      case (Ok p)
      obtain h rest where p: "p = (h, rest)" by (cases p)
      define n where "n = min (HANDSHAKE_HEADER_LENGTH + unat (hh_length h)) (length buf)"
      define f where "f = \<lparr>fr_record_layer_header = rh, fr_handshake_header = h,
        fr_data = drop HANDSHAKE_HEADER_LENGTH (take n buf)\<rparr>"
      let ?fb = "store_fragment (hh_message_sequence h) f fb"
      have "header_ok h" using Ok p handshake_header_unmarshal_ok by blast
      then have wf: "buffer_wf ?fb" using 1(2) by (simp add: wf_store f_def)
      have "buffer_size (fst (push_loop rh (drop n buf) ?fb)) \<le> buffer_size ?fb + length (drop n buf)"
        using 1(1) [OF False Ok p [symmetric] n_def f_def wf] by simp
      moreover have "buffer_size ?fb \<le> buffer_size fb + n"
        using 1(2) by (simp add: size_store f_def)
      moreover have "fst (push_loop rh buf fb) = fst (push_loop rh (drop n buf) ?fb)"
        using False Ok p by (subst push_loop.simps) (simp add: Let_def n_def f_def)
      ultimately show ?thesis by (simp add: n_def)
    qed (use False in \<open>simp_all add: push_loop.simps [of rh buf fb]\<close>)
  qed (simp add: push_loop.simps)
qed

lemma size_push:
  assumes "buffer_wf fb" and "buffer_size fb < FRAGMENT_BUFFER_MAX_SIZE"
  shows "buffer_size (fst (buffer_push buf fb)) < FRAGMENT_BUFFER_MAX_SIZE"
proof -
  have "buffer_size (fst (push_loop rh (drop RECORD_LAYER_HEADER_SIZE buf) fb)) < FRAGMENT_BUFFER_MAX_SIZE"
    if "buffer_size fb + length buf < FRAGMENT_BUFFER_MAX_SIZE" for rh
    using size_push_loop [OF assms(1), of rh "drop RECORD_LAYER_HEADER_SIZE buf"] that by simp
  with assms(2) show ?thesis
    by (auto simp: buffer_push_def not_le split: outcome.splits)
qed

lemma size_delete: "sum_list (map (\<lambda>(k, v). data_size v) (AList.delete k al)) \<le> sum_list (map (\<lambda>(k, v). data_size v) al)"
  by (induction al) (auto simp: AList.delete_eq)

lemma size_pop: "buffer_pop fb = Some (fb', out) \<Longrightarrow> buffer_size fb' \<le> buffer_size fb"
  using size_delete [of "fb_current fb" "fb_cache fb"]
  by (auto simp: buffer_pop_def buffer_size_def Let_def bind_eq_Some_conv
      split: option.splits if_splits list.splits outcome.splits)

lemma pop_returns:
  assumes "buffer_wf fb"
  shows "\<exists>fb' out. buffer_pop fb = Some (fb', out) \<and> out \<noteq> Panic"
proof (cases "map_of (fb_cache fb) (fb_current fb)")
  case None
  then show ?thesis by (simp add: buffer_pop_def)
next
  case (Some frags)
  with wf_lookup [OF assms Some] obtain first rest where f: "frags = first # rest" "header_ok (fr_handshake_header first)"
    "list_all (\<lambda>f. header_ok (fr_handshake_header f)) frags"
    by (cases frags) (auto simp: list_all_iff)
  then obtain ok raw where "append_message 0 frags [] = Some (ok, raw)"
    using append_message_ends [of frags 0 "[]"] by auto
  moreover have "header_ok ((fr_handshake_header first)\<lparr>hh_fragment_offset := 0, hh_fragment_length := hh_length (fr_handshake_header first)\<rparr>)"
    using f(2) by (simp add: header_ok_def)
  ultimately show ?thesis
    using Some f(1) by (auto simp: buffer_pop_def Let_def handshake_header_marshal_iff)
qed

text \<open>The buffers that arbitrary packets and arbitrary attempts to collect lead to.\<close>

inductive buffer_reachable :: "fragment_buffer \<Rightarrow> bool" where
  fresh: "buffer_reachable fragment_buffer_new"
| pushed: "buffer_reachable fb \<Longrightarrow> buffer_reachable (fst (buffer_push buf fb))"
| popped: "buffer_reachable fb \<Longrightarrow> buffer_pop fb = Some (fb', out) \<Longrightarrow> buffer_reachable fb'"

lemma reachable_wf: "buffer_reachable fb \<Longrightarrow> buffer_wf fb \<and> buffer_size fb < FRAGMENT_BUFFER_MAX_SIZE"
proof (induction rule: buffer_reachable.induct)
  case fresh
  then show ?case by (simp add: wf_new) (simp add: buffer_size_def fragment_buffer_new_def FRAGMENT_BUFFER_MAX_SIZE_def)
next
  case (pushed fb buf)
  then show ?case by (simp add: wf_push size_push)
next
  case (popped fb fb' out)
  then show ?case using wf_pop size_pop le_less_trans by blast
qed

text \<open>
  Reassembly always ends: whatever packets a peer sends, collecting a message from the buffer
  returns (the recursion over the fragments is not infinite, its offsets do not wrap around) and does
  not panic, and the data held stay below the limit of 2,000,000 bytes.
\<close>

theorem reassembly_terminates:
  assumes "buffer_reachable fb"
  shows "(\<exists>fb' out. buffer_pop fb = Some (fb', out) \<and> out \<noteq> Panic)
    \<and> buffer_wf fb \<and> buffer_size fb < FRAGMENT_BUFFER_MAX_SIZE"
  using pop_returns reachable_wf [OF assms] by blast

section \<open>Pushing the fragments of a message\<close>

lemma split_loop_chunks: "0 < n \<Longrightarrow> i \<le> length bytes \<Longrightarrow> split_loop bytes n i = chunks n (drop i bytes)"
proof (induction bytes n i rule: split_loop.induct)
  case (1 bytes n i)
  show ?case
  proof (cases "i = length bytes")
    case True
    then show ?thesis by (subst split_loop.simps) simp
  next
    case False
    have "split_loop bytes n (i + n) = chunks n (drop (i + n) bytes)"
    proof (cases "i + n \<le> length bytes")
      case True
      with 1 False show ?thesis by simp
    next
      case False
      then show ?thesis by (subst split_loop.simps) simp
    qed
    moreover have "take (min (i + n) (length bytes) - i) (drop i bytes) = take n (drop i bytes)"
      by (cases "i + n \<le> length bytes") simp_all
    ultimately show ?thesis
      using False 1(2,3) by (subst split_loop.simps, subst chunks.simps) (simp add: add.commute)
  qed
qed

text \<open>A record that carries one fragment.\<close>

definition handshake_record :: "record_layer_header \<Rightarrow> byte list \<Rightarrow> byte list" where
  "handshake_record rh fragment = (case record_layer_header_marshal rh of Ok hb \<Rightarrow> hb | _ \<Rightarrow> []) @ fragment"

definition carries_handshake :: "record_layer_header \<Rightarrow> bool" where
  "carries_handshake rh \<longleftrightarrow> rl_content_type rh = CT_Handshake
     \<and> (rl_protocol_version rh = PROTOCOL_VERSION1_0 \<or> rl_protocol_version rh = PROTOCOL_VERSION1_2)
     \<and> \<not> MAX_SEQUENCE_NUMBER < rl_sequence_number rh"

lemma handshake_record_header:
  assumes "carries_handshake rh"
  shows "record_layer_header_unmarshal (handshake_record rh fragment) = Ok (rh, fragment)"
    and "drop RECORD_LAYER_HEADER_SIZE (handshake_record rh fragment) = fragment"
    and "length (handshake_record rh fragment) = RECORD_LAYER_HEADER_SIZE + length fragment"
proof -
  from assms obtain hb where hb: "record_layer_header_marshal rh = Ok hb"
    by (simp add: carries_handshake_def record_layer_header_marshal_def)
  with assms record_header_dec_enc [OF hb]
  show "record_layer_header_unmarshal (handshake_record rh fragment) = Ok (rh, fragment)"
    "drop RECORD_LAYER_HEADER_SIZE (handshake_record rh fragment) = fragment"
    "length (handshake_record rh fragment) = RECORD_LAYER_HEADER_SIZE + length fragment"
    by (auto simp: carries_handshake_def handshake_record_def)
qed

lemma length_fragment_bytes:
  "header_ok (fst p) \<Longrightarrow> length (fragment_bytes p) = HANDSHAKE_HEADER_LENGTH + length (snd p)"
  by (simp add: fragment_bytes_def handshake_header_marshal_iff HANDSHAKE_HEADER_LENGTH_def)

lemma push_loop_fragment:
  assumes "header_ok (fst p)" and "length (snd p) \<le> unat (hh_length (fst p))"
  shows "push_loop rh (fragment_bytes p) fb = (store_fragment (hh_message_sequence (fst p))
    \<lparr>fr_record_layer_header = rh, fr_handshake_header = fst p, fr_data = snd p\<rparr> fb, Ok True)"
proof -
  let ?buf = "fragment_bytes p"
  from assms(1) obtain hb where hb: "handshake_header_marshal (fst p) = Ok hb"
    by (simp add: handshake_header_marshal_iff)
  then have buf: "?buf = hb @ snd p" by (simp add: fragment_bytes_def)
  have hdr: "handshake_header_unmarshal ?buf = Ok (fst p, snd p)" "length hb = HANDSHAKE_HEADER_LENGTH"
    using handshake_header_dec_enc [OF hb]
    by (simp_all add: buf handshake_header_size_def HANDSHAKE_HEADER_LENGTH_def)
  have "min (HANDSHAKE_HEADER_LENGTH + unat (hh_length (fst p))) (length ?buf) = length ?buf"
    using assms(2) hdr(2) by (simp add: buf)
  moreover have "?buf \<noteq> []" using hdr(2) by (auto simp: buf HANDSHAKE_HEADER_LENGTH_def)
  moreover have "drop HANDSHAKE_HEADER_LENGTH ?buf = snd p" using hdr(2) by (simp add: buf)
  ultimately show ?thesis
    using hdr(1) by (subst push_loop.simps) (simp add: Let_def case_prod_beta push_loop.simps [of rh "[]"])
qed

lemma push_record:
  assumes "carries_handshake rh" and "header_ok (fst p)" and "length (snd p) \<le> unat (hh_length (fst p))"
    and "buffer_size fb + length (handshake_record rh (fragment_bytes p)) < FRAGMENT_BUFFER_MAX_SIZE"
  shows "buffer_push (handshake_record rh (fragment_bytes p)) fb
    = (store_fragment (hh_message_sequence (fst p))
        \<lparr>fr_record_layer_header = rh, fr_handshake_header = fst p, fr_data = snd p\<rparr> fb, Ok True)"
  using assms handshake_record_header [OF assms(1), of "fragment_bytes p"]
  by (simp add: buffer_push_def push_loop_fragment carries_handshake_def)

definition buffer_push_all :: "byte list list \<Rightarrow> fragment_buffer \<Rightarrow> fragment_buffer" where
  "buffer_push_all rs fb = foldl (\<lambda>fb r. fst (buffer_push r fb)) fb rs"

abbreviation stored :: "fragment_buffer \<Rightarrow> u16 \<Rightarrow> fragment list" where
  "stored fb k \<equiv> (case map_of (fb_cache fb) k of None \<Rightarrow> [] | Some frags \<Rightarrow> frags)"

lemma push_all_records:
  assumes "list_all (\<lambda>(rh, p). carries_handshake rh \<and> header_ok (fst p)
      \<and> length (snd p) \<le> unat (hh_length (fst p)) \<and> hh_message_sequence (fst p) = k) ps"
    and "buffer_wf fb"
    and "buffer_size fb + sum_list (map (\<lambda>(rh, p). length (handshake_record rh (fragment_bytes p))) ps)
      < FRAGMENT_BUFFER_MAX_SIZE"
  shows "let fb' = buffer_push_all (map (\<lambda>(rh, p). handshake_record rh (fragment_bytes p)) ps) fb
    in buffer_wf fb' \<and> fb_current fb' = fb_current fb
      \<and> stored fb' k = stored fb k @ map (\<lambda>(rh, p). \<lparr>fr_record_layer_header = rh,
          fr_handshake_header = fst p, fr_data = snd p\<rparr>) ps
      \<and> (ps \<noteq> [] \<longrightarrow> map_of (fb_cache fb') k \<noteq> None)"
  using assms
proof (induction ps arbitrary: fb)
  case Nil
  then show ?case by (simp add: buffer_push_all_def)
next
  case (Cons q ps)
  obtain rh p where q: "q = (rh, p)" by (cases q)
  let ?f = "\<lparr>fr_record_layer_header = rh, fr_handshake_header = fst p, fr_data = snd p\<rparr>"
  let ?fb = "store_fragment k ?f fb"
  from Cons.prems q have p: "carries_handshake rh" "header_ok (fst p)" "length (snd p) \<le> unat (hh_length (fst p))"
      "hh_message_sequence (fst p) = k" by simp_all
  have step: "fst (buffer_push (handshake_record rh (fragment_bytes p)) fb) = ?fb"
    using push_record [OF p(1-3), of fb] p(4) Cons.prems(3) q by simp
  have wf: "buffer_wf ?fb" using Cons.prems(2) p by (simp add: wf_store)
  have size: "buffer_size ?fb + sum_list (map (\<lambda>(rh, p). length (handshake_record rh (fragment_bytes p))) ps)
      < FRAGMENT_BUFFER_MAX_SIZE"
    using Cons.prems(2,3) q p handshake_record_header(3) [OF p(1), of "fragment_bytes p"]
    by (simp add: size_store length_fragment_bytes)
  have "stored ?fb k = stored fb k @ [?f]" "fb_current ?fb = fb_current fb" "map_of (fb_cache ?fb) k \<noteq> None"
    by (simp_all add: store_fragment_def update_conv')
  with Cons.IH [OF _ wf size] Cons.prems(1) q step show ?case
    by (auto simp: buffer_push_all_def Let_def)
qed

section \<open>Reassembly inverts fragmentation\<close>

lemma fragment_handshake_ideal:
  assumes "message_marshal (hs_message h) = Ok content" and "0 < mtu"
    and "hh_length (hs_header h) = word_of_nat (length content)" and "length content < 0x1000000"
  shows "\<exists>fs. fragment_handshake mtu h = Ok (map fragment_bytes (ideal_fragments (hs_header h) 0 fs))
    \<and> fs \<noteq> [] \<and> (length fs = 1 \<or> [] \<notin> set fs) \<and> concat fs = content \<and> (\<forall>f \<in> set fs. length f \<le> mtu)"
proof -
  let ?cs = "chunks mtu content"
  let ?fs = "if ?cs = [] then [[]] else ?cs"
  have cat: "concat ?fs = content"
    using concat_chunks [OF assms(2), of content] by (auto simp: split: if_splits)
  have "split_bytes content mtu = Ok ?cs"
    using assms(2) split_loop_chunks [of mtu 0 content] by (simp add: split_bytes_def)
  moreover have "fragment_loop (hs_header h) 0 ?fs = Ok (map fragment_bytes (ideal_fragments (hs_header h) 0 ?fs))"
    using assms(3,4) cat by (intro fragment_loop_ideal) (simp_all add: word_less_nat_alt unat_u32_small)
  ultimately have "fragment_handshake mtu h = Ok (map fragment_bytes (ideal_fragments (hs_header h) 0 ?fs))"
    using assms(1) by (simp add: fragment_handshake_def)
  moreover have "length ?fs = 1 \<or> [] \<notin> set ?fs"
    using chunks_length [of "[]" mtu content] by auto
  moreover have "\<forall>f \<in> set ?fs. length f \<le> mtu"
    using chunks_length [of _ mtu content] by auto
  ultimately show ?thesis
    using cat by (intro exI [of _ ?fs]) auto
qed

text \<open>
  What a receiver gets: records, each with one of the fragments, in any order and any number of times,
  at least once each.
\<close>

definition delivers :: "byte list list \<Rightarrow> (record_layer_header \<times> byte list) list \<Rightarrow> bool" where
  "delivers fragments arrived \<longleftrightarrow> set (map snd arrived) = set fragments
     \<and> list_all (\<lambda>(rh, _). carries_handshake rh) arrived"

lemma pop_covered:
  assumes "buffer_wf fb" and "map_of (fb_cache fb) (fb_current fb) = Some (first # frags)"
    and "covers (first # frags) (unat (hh_length (fr_handshake_header first))) 0 fs"
    and "handshake_header_marshal ((fr_handshake_header first)\<lparr>hh_fragment_offset := 0,
        hh_fragment_length := hh_length (fr_handshake_header first)\<rparr>) = Ok hb"
  shows "buffer_pop fb = Some (\<lparr>fb_cache = AList.delete (fb_current fb) (fb_cache fb), fb_current = fb_current fb + 1\<rparr>,
    Ok (hb @ concat fs, rl_epoch (fr_record_layer_header first)))"
proof -
  have "list_all (\<lambda>f. header_ok (fr_handshake_header f)) (first # frags)"
    using wf_lookup [OF assms(1,2)] by (auto simp: list_all_iff)
  from append_covers [OF this assms(3), of "[]"] have "append_message 0 (first # frags) [] = Some (True, concat fs)"
    by simp
  with assms(2,4) show ?thesis by (simp add: buffer_pop_def Let_def)
qed

lemma fragment_bytes_inj:
  assumes "header_ok (fst p)" and "header_ok (fst q)" and "fragment_bytes p = fragment_bytes q"
  shows "p = q"
proof -
  obtain hp hq where h: "handshake_header_marshal (fst p) = Ok hp" "handshake_header_marshal (fst q) = Ok hq"
    using assms(1,2) by (simp add: handshake_header_marshal_iff)
  with assms(3) handshake_header_dec_enc(1) [OF h(1), of "snd p"] handshake_header_dec_enc(1) [OF h(2), of "snd q"]
  have "(fst p, snd p) = (fst q, snd q)" by (simp add: fragment_bytes_def)
  then show ?thesis by (simp add: prod_eq_iff)
qed

lemma unmap_fragments:
  assumes "\<forall>a \<in> set arrived. snd a \<in> fragment_bytes ` set ps"
  shows "\<exists>qs. map (\<lambda>(rh, p). (rh, fragment_bytes p)) qs = arrived \<and> snd ` set qs \<subseteq> set ps"
  using assms
proof (induction arrived)
  case (Cons a as)
  then obtain p qs where "p \<in> set ps" "snd a = fragment_bytes p"
      "map (\<lambda>(rh, p). (rh, fragment_bytes p)) qs = as" "snd ` set qs \<subseteq> set ps"
    by auto
  then show ?case by (intro exI [of _ "(fst a, p) # qs"]) (auto simp: prod_eq_iff)
qed simp

lemma delivered_fragments:
  assumes "delivers (map fragment_bytes ps) arrived" and "\<And>p. p \<in> set ps \<Longrightarrow> header_ok (fst p)"
  shows "\<exists>qs. map (\<lambda>(rh, p). (rh, fragment_bytes p)) qs = arrived \<and> snd ` set qs = set ps
    \<and> (\<forall>q \<in> set qs. carries_handshake (fst q))"
proof -
  have snds: "snd ` set arrived = fragment_bytes ` set ps"
    using assms(1) by (simp add: delivers_def)
  then obtain qs where qs: "map (\<lambda>(rh, p). (rh, fragment_bytes p)) qs = arrived" "snd ` set qs \<subseteq> set ps"
    using unmap_fragments [of arrived ps] by auto
  have img: "fragment_bytes ` snd ` set qs = fragment_bytes ` set ps"
    using snds unfolding qs(1) [symmetric] by (simp add: case_prod_beta image_image)
  have "p \<in> snd ` set qs" if "p \<in> set ps" for p
  proof -
    from that img obtain q where q: "q \<in> snd ` set qs" "fragment_bytes p = fragment_bytes q" by blast
    with qs(2) have "header_ok (fst q)" using assms(2) by blast
    with q that show ?thesis using fragment_bytes_inj [of p q] assms(2) by auto
  qed
  moreover have "\<forall>q \<in> set qs. carries_handshake (fst q)"
    using assms(1) unfolding delivers_def qs(1) [symmetric] by (auto simp: list_all_iff)
  ultimately show ?thesis using qs by blast
qed

lemma pushed_fragments:
  assumes "\<forall>q \<in> set qs. carries_handshake (fst q) \<and> header_ok (fst (snd q))
      \<and> length (snd (snd q)) \<le> unat (hh_length (fst (snd q))) \<and> hh_message_sequence (fst (snd q)) = fb_current fb"
    and "qs \<noteq> []" and "buffer_wf fb" and "map_of (fb_cache fb) (fb_current fb) = None"
    and "buffer_size fb + sum_list (map (\<lambda>(rh, p). length (handshake_record rh (fragment_bytes p))) qs)
      < FRAGMENT_BUFFER_MAX_SIZE"
  defines "fb' \<equiv> buffer_push_all (map (\<lambda>(rh, p). handshake_record rh (fragment_bytes p)) qs) fb"
  shows "buffer_wf fb'" and "fb_current fb' = fb_current fb"
    and "map_of (fb_cache fb') (fb_current fb) = Some (map (\<lambda>(rh, p). \<lparr>fr_record_layer_header = rh,
        fr_handshake_header = fst p, fr_data = snd p\<rparr>) qs)"
proof -
  have "list_all (\<lambda>(rh, p). carries_handshake rh \<and> header_ok (fst p)
      \<and> length (snd p) \<le> unat (hh_length (fst p)) \<and> hh_message_sequence (fst p) = fb_current fb) qs"
    using assms(1) by (auto simp: list_all_iff)
  from push_all_records [OF this assms(3,5)] assms(2,4)
  show "buffer_wf fb'" "fb_current fb' = fb_current fb"
    "map_of (fb_cache fb') (fb_current fb) = Some (map (\<lambda>(rh, p). \<lparr>fr_record_layer_header = rh,
        fr_handshake_header = fst p, fr_data = snd p\<rparr>) qs)"
    by (auto simp: Let_def fb'_def split: option.splits)
qed

lemma pop_fragments:
  fixes qs :: "(record_layer_header \<times> handshake_header \<times> byte list) list"
  assumes "fs \<noteq> []" and "length fs = 1 \<or> [] \<notin> set fs" and "hh_length h < 0x1000000"
    and "unat (hh_length h) = length (concat fs)"
    and "snd ` set qs = set (ideal_fragments h 0 fs)" and "qs \<noteq> []" and "buffer_wf fb"
    and "map_of (fb_cache fb) (fb_current fb) = Some (map (\<lambda>(rh, p). \<lparr>fr_record_layer_header = rh,
        fr_handshake_header = fst p, fr_data = snd p\<rparr>) qs)"
    and "handshake_header_marshal (h\<lparr>hh_fragment_offset := 0, hh_fragment_length := hh_length h\<rparr>) = Ok hb"
  shows "buffer_pop fb = Some (\<lparr>fb_cache = AList.delete (fb_current fb) (fb_cache fb), fb_current = fb_current fb + 1\<rparr>,
    Ok (hb @ concat fs, rl_epoch (fst (hd qs))))"
proof -
  let ?ps = "ideal_fragments h 0 fs"
  let ?frag = "\<lambda>(rh, p). \<lparr>fr_record_layer_header = rh, fr_handshake_header = fst p, fr_data = snd p\<rparr>"
  have bound: "0 + length (concat fs) < 0x1000000"
    using assms(3,4) by (simp add: word_less_nat_alt)
  note facts = ideal_fragments_facts [OF _ assms(3) bound]
  have mem: "snd q \<in> set ?ps" if "q \<in> set qs" for q
    using that assms(5) by blast
  obtain rh p qs' where q: "qs = (rh, p) # qs'" using assms(6) by (cases qs) auto
  have first: "hh_length (fst p) = hh_length h" "h\<lparr>hh_fragment_offset := 0, hh_fragment_length := hh_length h\<rparr>
      = (fst p)\<lparr>hh_fragment_offset := 0, hh_fragment_length := hh_length h\<rparr>"
    using facts(2,7) [of p] mem [of "(rh, p)"] q by auto
  have "covers (map ?frag qs) (unat (hh_length h)) 0 fs"
  proof (rule ideal_covers [OF assms(1,2)])
    show "set ?ps \<subseteq> (\<lambda>f. (fr_handshake_header f, fr_data f)) ` set (map ?frag qs)"
      unfolding assms(5) [symmetric] by (force simp: case_prod_beta)
    show "(fr_handshake_header f, fr_data f) \<in> set ?ps" if "f \<in> set (map ?frag qs)" for f
      using that mem by (auto simp: case_prod_beta)
  qed (use assms(3,4) bound in simp_all)
  then show ?thesis
    using pop_covered [OF assms(7), of "?frag (rh, p)" "map ?frag qs'" fs hb] assms(8,9) q first by simp
qed

lemma reassembled:
  assumes "message_marshal (hs_message h) = Ok content"
    and "hh_length (hs_header h) = word_of_nat (length content)" and "length content < 0x1000000"
    and "fragment_handshake mtu h = Ok fragments"
    and "delivers fragments arrived"
    and "buffer_wf fb" and "fb_current fb = hh_message_sequence (hs_header h)"
    and "map_of (fb_cache fb) (fb_current fb) = None"
    and "buffer_size fb + sum_list (map (\<lambda>(rh, f). length (handshake_record rh f)) arrived)
      < FRAGMENT_BUFFER_MAX_SIZE"
  shows "\<exists>fb' hb. buffer_pop (buffer_push_all (map (\<lambda>(rh, f). handshake_record rh f) arrived) fb)
      = Some (fb', Ok (hb @ content, rl_epoch (fst (arrived ! 0))))
    \<and> handshake_header_marshal ((hs_header h)\<lparr>hh_fragment_offset := 0,
        hh_fragment_length := hh_length (hs_header h)\<rparr>) = Ok hb
    \<and> fb_current fb' = fb_current fb + 1 \<and> buffer_wf fb'"
proof -
  let ?h = "hs_header h" and ?k = "fb_current fb"
  have mtu: "0 < mtu"
    using assms(1,4) by (auto simp: fragment_handshake_def split_bytes_def split: if_splits)
  obtain fs where fs: "fragments = map fragment_bytes (ideal_fragments ?h 0 fs)" "fs \<noteq> []"
      "length fs = 1 \<or> [] \<notin> set fs" "concat fs = content"
    using fragment_handshake_ideal [OF assms(1) mtu assms(2,3)] assms(4) by auto
  let ?ps = "ideal_fragments ?h 0 fs"
  have len: "hh_length ?h < 0x1000000" "unat (hh_length ?h) = length content" "0 + length (concat fs) < 0x1000000"
    using assms(2,3) fs(4) by (simp_all add: word_less_nat_alt unat_u32_small)
  note facts = ideal_fragments_facts [OF _ len(1,3)]
  obtain qs where qs: "map (\<lambda>(rh, p). (rh, fragment_bytes p)) qs = arrived" "snd ` set qs = set ?ps"
      "\<forall>q \<in> set qs. carries_handshake (fst q)"
    using delivered_fragments [OF assms(5) [unfolded fs(1)]] facts(1) by blast
  have mem: "snd q \<in> set ?ps" if "q \<in> set qs" for q
    using that qs(2) by blast
  let ?frag = "\<lambda>(rh, p). \<lparr>fr_record_layer_header = rh, fr_handshake_header = fst p, fr_data = snd p\<rparr>"
  define fb1 where "fb1 = buffer_push_all (map (\<lambda>(rh, p). handshake_record rh (fragment_bytes p)) qs) fb"
  have records: "map (\<lambda>(rh, f). handshake_record rh f) arrived
      = map (\<lambda>(rh, p). handshake_record rh (fragment_bytes p)) qs"
    unfolding qs(1) [symmetric] by (simp add: case_prod_beta)
  have "\<forall>q \<in> set qs. carries_handshake (fst q) \<and> header_ok (fst (snd q))
      \<and> length (snd (snd q)) \<le> unat (hh_length (fst (snd q))) \<and> hh_message_sequence (fst (snd q)) = ?k"
    using qs(3) facts(1,2,4,6) [OF mem] len(2) fs(4) assms(7) by auto
  moreover have nonempty: "qs \<noteq> []" using qs(2) fs(2) by (cases fs) auto
  moreover have "buffer_size fb + sum_list (map (\<lambda>(rh, p). length (handshake_record rh (fragment_bytes p))) qs)
      < FRAGMENT_BUFFER_MAX_SIZE"
    using assms(9) unfolding qs(1) [symmetric] by (simp add: case_prod_unfold o_def)
  ultimately have pushed: "buffer_wf fb1" "fb_current fb1 = ?k" "map_of (fb_cache fb1) ?k = Some (map ?frag qs)"
    unfolding fb1_def using pushed_fragments [OF _ _ assms(6,8), of qs] by blast+
  obtain hb where hb: "handshake_header_marshal (?h\<lparr>hh_fragment_offset := 0, hh_fragment_length := hh_length ?h\<rparr>) = Ok hb"
    using len(1) by (simp add: handshake_header_marshal_iff header_ok_def)
  have "unat (hh_length ?h) = length (concat fs)" using len(2) fs(4) by simp
  from pop_fragments [OF fs(2,3) len(1) this qs(2) nonempty pushed(1) _ hb] pushed(2,3)
  have pop: "buffer_pop fb1 = Some (\<lparr>fb_cache = AList.delete ?k (fb_cache fb1), fb_current = ?k + 1\<rparr>,
      Ok (hb @ concat fs, rl_epoch (fst (hd qs))))" by simp
  moreover have "fst (arrived ! 0) = fst (hd qs)"
    unfolding qs(1) [symmetric] using nonempty by (simp add: hd_conv_nth [symmetric] hd_map case_prod_beta)
  ultimately show ?thesis
    using hb fs(4) wf_pop [OF pushed(1) pop] unfolding records fb1_def [symmetric] by auto
qed

text \<open>
  Fragmentation and reassembly are inverse: a handshake message cut into fragments for any MTU,
  whose fragments reach the other side in records of their own, in any order and with any
  repetitions, is collected as the whole message with its header, under the epoch of the record that
  came first, and the buffer moves on to the next message.
\<close>

theorem reassembly_inverts_fragmentation:
  assumes "message_marshal (hs_message h) = Ok content"
    and "hh_length (hs_header h) = word_of_nat (length content)" and "length content < 0x1000000"
    and "fragment_handshake mtu h = Ok fragments"
    and "delivers fragments arrived"
    and "buffer_wf fb" and "fb_current fb = hh_message_sequence (hs_header h)"
    and "map_of (fb_cache fb) (fb_current fb) = None"
    and "buffer_size fb + sum_list (map (\<lambda>(rh, f). length (handshake_record rh f)) arrived)
      < FRAGMENT_BUFFER_MAX_SIZE"
  shows "\<exists>fb' hb. buffer_pop (buffer_push_all (map (\<lambda>(rh, f). handshake_record rh f) arrived) fb)
      = Some (fb', Ok (hb @ content, rl_epoch (fst (arrived ! 0))))
    \<and> handshake_header_marshal ((hs_header h)\<lparr>hh_fragment_offset := 0,
        hh_fragment_length := hh_length (hs_header h)\<rparr>) = Ok hb
    \<and> fb_current fb' = fb_current fb + 1 \<and> buffer_wf fb'"
  using assms by (rule reassembled)

definition demo_finished :: handshake where
  "demo_finished = handshake_new (MsgFinished [1, 2, 3, 4, 5])"

definition demo_rh :: "u16 \<Rightarrow> record_layer_header" where
  "demo_rh e = \<lparr>rl_content_type = CT_Handshake, rl_protocol_version = PROTOCOL_VERSION1_2, rl_epoch = e,
     rl_sequence_number = 9, rl_content_len = 14\<rparr>"

definition demo_fragments :: "(handshake_header \<times> byte list) list" where
  "demo_fragments = ideal_fragments (hs_header demo_finished) 0 [[1, 2], [3, 4], [5]]"

text \<open>The last fragment first, then the first one twice, then the second.\<close>

definition demo_arrived :: "(record_layer_header \<times> byte list) list" where
  "demo_arrived = map (\<lambda>(e, i). (demo_rh e, fragment_bytes (demo_fragments ! i))) [(3, 2), (0, 0), (0, 0), (0, 1)]"

lemma demo_fragmented: "fragment_handshake 2 demo_finished = Ok (map fragment_bytes demo_fragments)"
proof -
  have "split_loop [1, 2, 3, 4, 5] 2 0 = [[1, 2], [3, 4], [5 :: byte]]"
    by (simp add: split_loop_chunks chunks.simps)
  moreover have "fragment_loop (hs_header demo_finished) 0 [[1, 2], [3, 4], [5]] = Ok (map fragment_bytes demo_fragments)"
    unfolding demo_fragments_def
    by (rule fragment_loop_ideal) (simp_all add: demo_finished_def handshake_new_def word_less_nat_alt)
  ultimately show ?thesis
    by (simp add: fragment_handshake_def split_bytes_def demo_finished_def handshake_new_def finished_marshal_def)
qed

lemma demo_carries: "carries_handshake (demo_rh e)"
  by (simp add: carries_handshake_def demo_rh_def MAX_SEQUENCE_NUMBER_def)

theorem reassembly_inverts_fragmentation_witness:
  "\<exists>fb' hb. buffer_pop (buffer_push_all (map (\<lambda>(rh, f). handshake_record rh f) demo_arrived) fragment_buffer_new)
     = Some (fb', Ok (hb @ [1, 2, 3, 4, 5], rl_epoch (fst (demo_arrived ! 0))))
   \<and> handshake_header_marshal ((hs_header demo_finished)\<lparr>hh_fragment_offset := 0,
        hh_fragment_length := hh_length (hs_header demo_finished)\<rparr>) = Ok hb
   \<and> fb_current fb' = fb_current fragment_buffer_new + 1 \<and> buffer_wf fb'"
proof (rule reassembly_inverts_fragmentation [OF _ _ _ demo_fragmented _ wf_new])
  have frags: "length demo_fragments = 3"
    by (simp add: demo_fragments_def)
  then have "set demo_fragments = {demo_fragments ! 0, demo_fragments ! 1, demo_fragments ! 2}"
    by (auto simp: set_conv_nth less_Suc_eq numeral_3_eq_3 numeral_2_eq_2)
  then show "delivers (map fragment_bytes demo_fragments) demo_arrived"
    by (auto simp: delivers_def demo_arrived_def demo_carries)
  have "length (snd p) \<le> 2 \<and> header_ok (fst p)" if "p \<in> set demo_fragments" for p
    using that by (auto simp: demo_fragments_def header_ok_def demo_finished_def handshake_new_def word_less_nat_alt)
  then have "length (fragment_bytes (demo_fragments ! i)) \<le> 14" if "i < 3" for i
    using that frags length_fragment_bytes [of "demo_fragments ! i"] nth_mem [of i demo_fragments]
    by (simp add: HANDSHAKE_HEADER_LENGTH_def)
  from this [of 0] this [of 1] this [of 2]
  show "buffer_size fragment_buffer_new + sum_list (map (\<lambda>(rh, f). length (handshake_record rh f)) demo_arrived)
      < FRAGMENT_BUFFER_MAX_SIZE"
    by (simp add: demo_arrived_def handshake_record_header(3) [OF demo_carries] buffer_size_def
        fragment_buffer_new_def RECORD_LAYER_HEADER_SIZE_def FRAGMENT_BUFFER_MAX_SIZE_def)
qed (simp_all add: demo_finished_def handshake_new_def finished_marshal_def fragment_buffer_new_def)

section \<open>What the limits do not bound\<close>

text \<open>A handshake header alone, without a body: 25 bytes with its record header.\<close>

definition empty_header :: handshake_header where
  "empty_header = \<lparr>hh_type = HT_ClientHello, hh_length = 0, hh_message_sequence = 7,
     hh_fragment_offset = 0, hh_fragment_length = 0\<rparr>"

definition header_only :: "byte list" where
  "header_only = handshake_record (demo_rh 0) (fragment_bytes (empty_header, []))"

definition flood :: "nat \<Rightarrow> fragment_buffer" where
  "flood n = ((\<lambda>fb. fst (buffer_push header_only fb)) ^^ n) fragment_buffer_new"

lemma header_only_length: "length header_only = 25"
  by (simp add: header_only_def handshake_record_header(3) [OF demo_carries] length_fragment_bytes
      header_ok_def empty_header_def RECORD_LAYER_HEADER_SIZE_def HANDSHAKE_HEADER_LENGTH_def)

theorem reassembly_terminates_witness:
  "buffer_reachable (fst (buffer_push header_only fragment_buffer_new))
   \<and> (\<exists>fb' out. buffer_pop (fst (buffer_push header_only fragment_buffer_new)) = Some (fb', out) \<and> out \<noteq> Panic)"
  using reassembly_terminates [OF pushed [OF fresh]] pushed [OF fresh] by blast

lemma flood_step:
  assumes "buffer_wf fb" and "buffer_size fb = 0"
  shows "buffer_wf (fst (buffer_push header_only fb))" and "buffer_size (fst (buffer_push header_only fb)) = 0"
    and "length (stored (fst (buffer_push header_only fb)) 7) = Suc (length (stored fb 7))"
proof -
  have push: "fst (buffer_push header_only fb) = store_fragment 7
      \<lparr>fr_record_layer_header = demo_rh 0, fr_handshake_header = empty_header, fr_data = []\<rparr> fb"
    using push_record [OF demo_carries, of "(empty_header, [])" fb 0] assms(2) header_only_length
    by (simp add: header_ok_def empty_header_def header_only_def FRAGMENT_BUFFER_MAX_SIZE_def)
  show "buffer_size (fst (buffer_push header_only fb)) = 0"
    unfolding push using assms by (simp add: size_store)
  show "buffer_wf (fst (buffer_push header_only fb))"
    using assms(1) by (rule wf_push)
  show "length (stored (fst (buffer_push header_only fb)) 7) = Suc (length (stored fb 7))"
    unfolding push by (simp add: store_fragment_def update_conv')
qed

text \<open>
  The limit of the buffer counts message bytes only: a peer that sends one 25-byte record (a handshake
  header without a body, for a message that is not next) again and again makes the buffer store one
  more fragment each time, for ever, while its size remains zero and no push is refused.
\<close>

theorem buffer_limit_ignores_headers:
  "buffer_reachable (flood n) \<and> buffer_size (flood n) = 0 \<and> length (stored (flood n) 7) = n
   \<and> length header_only = 25"
proof -
  have "buffer_wf (flood n) \<and> buffer_size (flood n) = 0 \<and> length (stored (flood n) 7) = n"
  proof (induction n)
    case 0
    then show ?case by (simp add: flood_def wf_new) (simp add: buffer_size_def fragment_buffer_new_def)
  next
    case (Suc n)
    then show ?case using flood_step [of "flood n"] by (simp add: flood_def)
  qed
  moreover have "buffer_reachable (flood n)"
    by (induction n) (auto simp: flood_def intro: buffer_reachable.intros)
  ultimately show ?thesis using header_only_length by blast
qed

end
