(* ===== verification/Dtls_Cache.thy ===== *)
theory Dtls_Cache
  imports Dtls_Record
begin

text \<open>
  The cache of handshake messages (\<^verbatim>\<open>handshake/handshake_cache.rs\<close>): every message sent and received
  is kept, the flights pull the ones they wait for, and the session hash is taken over a fixed
  selection. The theory shows that a retransmitted message never replaces the one that was seen
  first, which message a rule selects, and that a successful pull has no gap in its sequence numbers.
\<close>

section \<open>The cache and its operations\<close>

record cache_item =
  ci_typ :: handshake_type
  ci_is_client :: bool
  ci_epoch :: u16
  ci_message_sequence :: u16
  ci_data :: "byte list"

record pull_rule =
  pr_typ :: handshake_type
  pr_epoch :: u16
  pr_is_client :: bool
  pr_optional :: bool

type_synonym handshake_cache = "cache_item list"

definition cache_push :: "byte list \<Rightarrow> u16 \<Rightarrow> u16 \<Rightarrow> handshake_type \<Rightarrow> bool \<Rightarrow> handshake_cache
    \<Rightarrow> bool \<times> handshake_cache" where
  "cache_push data epoch message_sequence typ is_client cache =
     (if list_ex (\<lambda>i. ci_message_sequence i = message_sequence \<and> ci_is_client i = is_client) cache
      then (False, cache)
      else (True, cache @ [\<lparr>ci_typ = typ, ci_is_client = is_client, ci_epoch = epoch,
        ci_message_sequence = message_sequence, ci_data = data\<rparr>]))"

definition rule_matches :: "pull_rule \<Rightarrow> cache_item \<Rightarrow> bool" where
  "rule_matches r c \<longleftrightarrow> ci_typ c = pr_typ r \<and> ci_is_client c = pr_is_client r \<and> ci_epoch c = pr_epoch r"

fun select_item :: "pull_rule \<Rightarrow> cache_item option \<Rightarrow> handshake_cache \<Rightarrow> cache_item option" where
  "select_item r item [] = item"
| "select_item r item (c # cs) =
     (if rule_matches r c
      then (case item of
          None \<Rightarrow> select_item r (Some c) cs
        | Some x \<Rightarrow> if ci_message_sequence x < ci_message_sequence c then select_item r (Some c) cs
            else select_item r item cs)
      else select_item r item cs)"

definition cache_pull :: "pull_rule list \<Rightarrow> handshake_cache \<Rightarrow> cache_item list" where
  "cache_pull rules cache =
     concat (map (\<lambda>r. case select_item r None cache of None \<Rightarrow> [] | Some c \<Rightarrow> [c]) rules)"

text \<open>The two loops of \<^verbatim>\<open>full_pull_map\<close>: selecting the items, then parsing them in the rules' order.\<close>

fun select_all :: "handshake_cache \<Rightarrow> pull_rule list \<Rightarrow> (handshake_type \<rightharpoonup> cache_item)
    \<Rightarrow> (handshake_type \<rightharpoonup> cache_item, dtls_error) outcome" where
  "select_all cache [] ci = Ok ci"
| "select_all cache (r # rs) ci =
     (case select_item r None cache of
        None \<Rightarrow> if \<not> pr_optional r then Err (Other ''Missing mandatory message'') else select_all cache rs ci
      | Some c \<Rightarrow> select_all cache rs (ci(pr_typ r \<mapsto> c)))"

fun parse_all :: "(handshake_type \<rightharpoonup> cache_item) \<Rightarrow> pull_rule list \<Rightarrow> int \<Rightarrow> (handshake_type \<rightharpoonup> handshake_message)
    \<Rightarrow> (int \<times> (handshake_type \<rightharpoonup> handshake_message), dtls_error) outcome" where
  "parse_all ci [] sq out = Ok (sq, out)"
| "parse_all ci (r # rs) sq out =
     (case ci (pr_typ r) of
        None \<Rightarrow> parse_all ci rs sq out
      | Some i \<Rightarrow> obind (handshake_unmarshal (ci_data i)) (\<lambda>(raw_handshake, _).
          if (word_of_int sq :: u16) \<noteq> hh_message_sequence (hs_header raw_handshake)
          then Err (Other ''There is a gap. Some messages are not arrived.'')
          else parse_all ci rs (sq + 1) (out(pr_typ r \<mapsto> hs_message raw_handshake))))"

definition full_pull_map :: "handshake_cache \<Rightarrow> int \<Rightarrow> pull_rule list
    \<Rightarrow> (int \<times> (handshake_type \<rightharpoonup> handshake_message), dtls_error) outcome" where
  "full_pull_map cache start_seq rules =
     obind (select_all cache rules Map.empty) (\<lambda>ci. parse_all ci rules start_seq Map.empty)"

definition pull_and_merge :: "pull_rule list \<Rightarrow> handshake_cache \<Rightarrow> byte list" where
  "pull_and_merge rules cache = concat (map ci_data (cache_pull rules cache))"

definition session_hash_rules :: "u16 \<Rightarrow> pull_rule list" where
  "session_hash_rules epoch = map (\<lambda>(t, client). \<lparr>pr_typ = t, pr_epoch = epoch, pr_is_client = client, pr_optional = False\<rparr>)
     [(HT_ClientHello, True), (HT_ServerHello, False), (HT_Certificate, False), (HT_ServerKeyExchange, False),
      (HT_CertificateRequest, False), (HT_ServerHelloDone, False), (HT_Certificate, True), (HT_ClientKeyExchange, True)]"

text \<open>SHA-256 is a parameter.\<close>

definition session_hash :: "(byte list \<Rightarrow> byte list) \<Rightarrow> u16 \<Rightarrow> byte list \<Rightarrow> handshake_cache \<Rightarrow> byte list" where
  "session_hash sha256 epoch additional cache =
     sha256 (concat (map ci_data (cache_pull (session_hash_rules epoch) cache)) @ additional)"

section \<open>Retransmissions\<close>

abbreviation ci_key :: "cache_item \<Rightarrow> bool \<times> u16" where
  "ci_key c \<equiv> (ci_is_client c, ci_message_sequence c)"

definition cache_wf :: "handshake_cache \<Rightarrow> bool" where
  "cache_wf cache \<longleftrightarrow> distinct (map ci_key cache)"

lemma cache_push_wf: "cache_wf cache \<Longrightarrow> cache_wf (snd (cache_push d e sq t cl cache))"
  by (auto simp: cache_push_def cache_wf_def list_ex_iff)

lemma cache_push_seen:
  assumes "c \<in> set cache"
  shows "cache_push d e (ci_message_sequence c) t (ci_is_client c) cache = (False, cache)"
proof -
  have "list_ex (\<lambda>i. ci_message_sequence i = ci_message_sequence c \<and> ci_is_client i = ci_is_client c) cache"
    unfolding list_ex_iff using assms by blast
  then show ?thesis by (simp only: cache_push_def if_True)
qed

lemma cache_push_grows: "\<exists>new. snd (cache_push d e sq t cl cache) = cache @ new"
  by (simp add: cache_push_def)

text \<open>The caches that pushes in any order lead to.\<close>

inductive cache_reachable :: "handshake_cache \<Rightarrow> bool" where
  empty_cache: "cache_reachable []"
| pushed_cache: "cache_reachable cache \<Longrightarrow> cache_reachable (snd (cache_push d e sq t cl cache))"

lemma reachable_cache_wf: "cache_reachable cache \<Longrightarrow> cache_wf cache"
  by (induction rule: cache_reachable.induct) (auto simp: cache_push_wf, simp add: cache_wf_def)

section \<open>Which message a rule selects\<close>

lemma select_item_None: "select_item r item cache = None \<longleftrightarrow> item = None \<and> (\<forall>c \<in> set cache. \<not> rule_matches r c)"
  by (induction cache arbitrary: item) (auto split: option.splits)

lemma select_item_Some:
  assumes "select_item r item cache = Some c"
  shows "(item = Some c \<or> (c \<in> set cache \<and> rule_matches r c))
    \<and> (\<forall>x. item = Some x \<longrightarrow> ci_message_sequence x \<le> ci_message_sequence c)
    \<and> (\<forall>d \<in> set cache. rule_matches r d \<longrightarrow> ci_message_sequence d \<le> ci_message_sequence c)"
  using assms
proof (induction cache arbitrary: item)
  case Nil
  then show ?case by simp
next
  case (Cons d cs)
  then show ?case
    by (cases item) (auto split: if_splits dest!: Cons.IH)
qed

lemma select_item_unique:
  assumes "cache_wf cache" and "c \<in> set cache" and "rule_matches r c"
    and "\<And>d. d \<in> set cache \<Longrightarrow> rule_matches r d \<Longrightarrow> ci_message_sequence d \<le> ci_message_sequence c"
  shows "select_item r None cache = Some c"
proof -
  from assms(2,3) obtain x where x: "select_item r None cache = Some x"
    using select_item_None [of r None cache] by auto
  with select_item_Some [OF x] assms(2-4) have "x \<in> set cache" "rule_matches r x"
      "ci_message_sequence x = ci_message_sequence c"
    by (auto intro: antisym)
  with assms(1-3) have "x = c"
    by (auto simp: cache_wf_def rule_matches_def distinct_map inj_on_def)
  with x show ?thesis by simp
qed

text \<open>
  What the cache gives a flight: for every cache that pushes can build, a rule selects nothing exactly
  when no message of its type, sender and epoch is there, otherwise it selects the one such message
  with the highest sequence number; and pushing a message whose sender and sequence number were seen
  before changes nothing, so a retransmission can never replace what the handshake was based on.
\<close>

theorem cache_selects_latest:
  assumes "cache_reachable cache"
  shows "(select_item r None cache = None \<longleftrightarrow> (\<forall>c \<in> set cache. \<not> rule_matches r c))
    \<and> (select_item r None cache = Some c \<longleftrightarrow> c \<in> set cache \<and> rule_matches r c
        \<and> (\<forall>d \<in> set cache. rule_matches r d \<longrightarrow> ci_message_sequence d \<le> ci_message_sequence c))
    \<and> (c \<in> set cache \<longrightarrow> cache_push d e (ci_message_sequence c) t (ci_is_client c) cache = (False, cache))"
proof (intro conjI)
  show "select_item r None cache = None \<longleftrightarrow> (\<forall>c \<in> set cache. \<not> rule_matches r c)"
    by (simp add: select_item_None)
  show "select_item r None cache = Some c \<longleftrightarrow> c \<in> set cache \<and> rule_matches r c
      \<and> (\<forall>d \<in> set cache. rule_matches r d \<longrightarrow> ci_message_sequence d \<le> ci_message_sequence c)"
  proof
    assume "select_item r None cache = Some c"
    from select_item_Some [OF this] show "c \<in> set cache \<and> rule_matches r c
      \<and> (\<forall>d \<in> set cache. rule_matches r d \<longrightarrow> ci_message_sequence d \<le> ci_message_sequence c)"
      by simp
  next
    assume "c \<in> set cache \<and> rule_matches r c
      \<and> (\<forall>d \<in> set cache. rule_matches r d \<longrightarrow> ci_message_sequence d \<le> ci_message_sequence c)"
    then show "select_item r None cache = Some c"
      by (intro select_item_unique [OF reachable_cache_wf [OF assms]]) simp_all
  qed
  show "c \<in> set cache \<longrightarrow> cache_push d e (ci_message_sequence c) t (ci_is_client c) cache = (False, cache)"
    by (simp add: cache_push_seen)
qed

definition demo_rule :: pull_rule where
  "demo_rule = \<lparr>pr_typ = HT_ClientHello, pr_epoch = 0, pr_is_client = True, pr_optional = False\<rparr>"

definition demo_item :: "u16 \<Rightarrow> cache_item" where
  "demo_item n = \<lparr>ci_typ = HT_ClientHello, ci_is_client = True, ci_epoch = 0, ci_message_sequence = n, ci_data = [1]\<rparr>"

theorem cache_selects_latest_witness:
  "cache_reachable [demo_item 0, demo_item 1] \<and> select_item demo_rule None [demo_item 0, demo_item 1] = Some (demo_item 1)
   \<and> cache_push [9] 0 1 HT_ClientHello True [demo_item 0, demo_item 1] = (False, [demo_item 0, demo_item 1])"
proof -
  have "snd (cache_push [1] 0 1 HT_ClientHello True (snd (cache_push [1] 0 0 HT_ClientHello True [])))
      = [demo_item 0, demo_item 1]"
    by (simp add: cache_push_def demo_item_def)
  then have reach: "cache_reachable [demo_item 0, demo_item 1]"
    using pushed_cache [OF pushed_cache [OF empty_cache]] by metis
  have "rule_matches demo_rule (demo_item n)" for n
    by (simp add: rule_matches_def demo_rule_def demo_item_def)
  then show ?thesis
    using reach cache_selects_latest [OF reach, of demo_rule "demo_item 1" "[9]" 0 HT_ClientHello]
    by (simp add: demo_item_def)
qed

section \<open>Pulling without gaps\<close>

lemma select_all_Ok:
  assumes "select_all cache rules ci = Ok ci'" and "distinct (map pr_typ rules)" and "list_all (\<lambda>r. \<not> pr_optional r) rules"
  shows "(\<forall>r \<in> set rules. select_item r None cache = ci' (pr_typ r) \<and> ci' (pr_typ r) \<noteq> None)
    \<and> (\<forall>t. t \<notin> pr_typ ` set rules \<longrightarrow> ci' t = ci t)"
  using assms
proof (induction rules arbitrary: ci)
  case (Cons r rs)
  then obtain c where c: "select_item r None cache = Some c" "select_all cache rs (ci(pr_typ r \<mapsto> c)) = Ok ci'"
    by (auto split: option.splits if_splits)
  from Cons.IH [OF c(2)] Cons.prems(2,3) c(1) show ?case by auto
qed simp

lemma parse_all_Ok:
  assumes "parse_all ci rules sq out = Ok (sq', out')" and "distinct (map pr_typ rules)"
    and "\<forall>r \<in> set rules. ci (pr_typ r) \<noteq> None"
  shows "sq' = sq + int (length rules)
    \<and> (\<forall>i < length rules. \<exists>h rest. handshake_unmarshal (ci_data (the (ci (pr_typ (rules ! i))))) = Ok (h, rest)
        \<and> hh_message_sequence (hs_header h) = word_of_int (sq + int i) \<and> out' (pr_typ (rules ! i)) = Some (hs_message h))
    \<and> (\<forall>t. t \<notin> pr_typ ` set rules \<longrightarrow> out' t = out t)"
  using assms
proof (induction rules arbitrary: sq out)
  case (Cons r rs)
  then obtain c h rest where c: "ci (pr_typ r) = Some c" "handshake_unmarshal (ci_data c) = Ok (h, rest)"
      "word_of_int sq = hh_message_sequence (hs_header h)"
      "parse_all ci rs (sq + 1) (out(pr_typ r \<mapsto> hs_message h)) = Ok (sq', out')"
    by (auto simp: obind_eq_Ok split: option.splits if_splits)
  note IH = Cons.IH [OF c(4)]
  have r: "out' (pr_typ r) = Some (hs_message h)"
    using IH Cons.prems(2,3) by auto
  have rest: "\<exists>h rest. handshake_unmarshal (ci_data (the (ci (pr_typ ((r # rs) ! i))))) = Ok (h, rest)
      \<and> hh_message_sequence (hs_header h) = word_of_int (sq + int i) \<and> out' (pr_typ ((r # rs) ! i)) = Some (hs_message h)"
    if "i < length (r # rs)" for i
  proof (cases i)
    case 0
    with c r show ?thesis by simp
  next
    case (Suc j)
    with that IH Cons.prems(2,3) show ?thesis by (simp add: add.assoc)
  qed
  show ?case
    using IH Cons.prems(2,3) rest by auto
qed simp

text \<open>
  A flight only sees an unbroken sequence: when a pull of mandatory messages succeeds, every rule was
  answered by the selected message, the messages carry consecutive sequence numbers from the expected
  one on (as 16-bit numbers, so they may wrap around), and the next expected number is past them.
\<close>

theorem full_pull_consecutive:
  assumes "full_pull_map cache start_seq rules = Ok (sq, msgs)"
    and "distinct (map pr_typ rules)" and "list_all (\<lambda>r. \<not> pr_optional r) rules"
  shows "sq = start_seq + int (length rules)
    \<and> (\<forall>i < length rules. \<exists>c h rest. select_item (rules ! i) None cache = Some c
        \<and> handshake_unmarshal (ci_data c) = Ok (h, rest)
        \<and> hh_message_sequence (hs_header h) = word_of_int (start_seq + int i)
        \<and> msgs (pr_typ (rules ! i)) = Some (hs_message h))"
proof -
  from assms(1) obtain ci where ci: "select_all cache rules Map.empty = Ok ci"
      "parse_all ci rules start_seq Map.empty = Ok (sq, msgs)"
    by (auto simp: full_pull_map_def obind_eq_Ok)
  note sel = select_all_Ok [OF ci(1) assms(2,3)]
  note parsed = parse_all_Ok [OF ci(2) assms(2)]
  have "\<exists>c h rest. select_item (rules ! i) None cache = Some c
        \<and> handshake_unmarshal (ci_data c) = Ok (h, rest)
        \<and> hh_message_sequence (hs_header h) = word_of_int (start_seq + int i)
        \<and> msgs (pr_typ (rules ! i)) = Some (hs_message h)" if i: "i < length rules" for i
  proof -
    obtain c where c: "select_item (rules ! i) None cache = Some c" "ci (pr_typ (rules ! i)) = Some c"
      using sel nth_mem [OF i] by fastforce
    with parsed sel i show ?thesis by (auto dest: spec [of _ i])
  qed
  with parsed sel show ?thesis by blast
qed

text \<open>Two messages in order, and what a flight pulls from a cache that holds them.\<close>

definition demo_handshake :: "u16 \<Rightarrow> handshake_message \<Rightarrow> handshake" where
  "demo_handshake n m = \<lparr>hs_header = (hs_header (handshake_new m))\<lparr>hh_message_sequence := n\<rparr>, hs_message = m\<rparr>"

definition sent_item :: "u16 \<Rightarrow> handshake_message \<Rightarrow> cache_item" where
  "sent_item n m = \<lparr>ci_typ = message_type m, ci_is_client = True, ci_epoch = 0, ci_message_sequence = n,
     ci_data = (case handshake_marshal (demo_handshake n m) of Ok bs \<Rightarrow> bs)\<rparr>"

lemma sent_item_parses:
  assumes "message_ok m" and "message_size m < 0x1000000"
  shows "\<exists>rest. handshake_unmarshal (ci_data (sent_item n m)) = Ok (demo_handshake n m, rest)"
proof -
  have "handshake_ok (demo_handshake n m)"
    using assms by (simp add: handshake_ok_def demo_handshake_def handshake_new_def header_ok_def
        word_less_nat_alt unat_of_nat)
  with handshake_dec_enc obtain bs rest where
    "handshake_marshal (demo_handshake n m) = Ok bs" "handshake_unmarshal bs = Ok (demo_handshake n m, rest)"
    by blast
  then show ?thesis by (simp add: sent_item_def)
qed

definition demo_rules :: "pull_rule list" where
  "demo_rules = [demo_rule, demo_rule\<lparr>pr_typ := HT_Finished\<rparr>]"

definition demo_cache :: handshake_cache where
  "demo_cache = [sent_item 6 (MsgFinished [9]), sent_item 5 (MsgClientHello demo_client_hello)]"

theorem full_pull_consecutive_witness:
  "\<exists>sq msgs. full_pull_map demo_cache 5 demo_rules = Ok (sq, msgs) \<and> sq = 7
     \<and> msgs HT_Finished = Some (MsgFinished [9])"
proof -
  have "client_hello_ok demo_client_hello"
    by (simp add: client_hello_ok_def demo_client_hello_def demo_extensions_ok demo_random_ok)
  then obtain r1 r2 where
    p: "handshake_unmarshal (ci_data (sent_item 5 (MsgClientHello demo_client_hello)))
        = Ok (demo_handshake 5 (MsgClientHello demo_client_hello), r1)"
      "handshake_unmarshal (ci_data (sent_item 6 (MsgFinished [9]))) = Ok (demo_handshake 6 (MsgFinished [9]), r2)"
    using sent_item_parses [of "MsgClientHello demo_client_hello" 5] sent_item_parses [of "MsgFinished [9]" 6]
      demo_hello_size by auto
  have "rule_matches demo_rule (sent_item n m) \<longleftrightarrow> message_type m = HT_ClientHello"
    "rule_matches (demo_rule\<lparr>pr_typ := HT_Finished\<rparr>) (sent_item n m) \<longleftrightarrow> message_type m = HT_Finished" for n m
    by (simp_all add: rule_matches_def demo_rule_def sent_item_def)
  then obtain msgs where m: "full_pull_map demo_cache 5 demo_rules = Ok (7, msgs)"
    using p by (simp add: full_pull_map_def demo_cache_def demo_rules_def demo_handshake_def handshake_new_def
        demo_rule_def)
  have "distinct (map pr_typ demo_rules)" "list_all (\<lambda>r. \<not> pr_optional r) demo_rules"
    by (simp_all add: demo_rules_def demo_rule_def)
  from full_pull_consecutive [OF m this] show ?thesis
    using m p(2) by (auto simp: demo_rules_def demo_rule_def demo_cache_def rule_matches_def sent_item_def
        demo_handshake_def dest!: spec [of _ 1])
qed

end
