(* ===== verification/Dtls_Ciphers.thy ===== *)
theory Dtls_Ciphers
  imports Dtls_Record
begin

text \<open>
  The code of \<^verbatim>\<open>webrtc-dtls\<close> around the ciphers: padding (\<^verbatim>\<open>crypto/padding.rs\<close>), the pseudo-random
  function and the key derivation (\<^verbatim>\<open>prf/mod.rs\<close>), the protection of a record with AES-GCM, AES-CCM and
  AES-CBC (\<^verbatim>\<open>crypto/crypto_gcm.rs\<close>, \<^verbatim>\<open>crypto_ccm.rs\<close>, \<^verbatim>\<open>crypto_cbc.rs\<close>) and the cipher suites built from
  them (\<^verbatim>\<open>cipher_suite/\<close>). AES, HMAC and SHA-256 themselves are packages and arguments here. The lemmas
  are in \<open>Dtls_Crypto\<close>.
\<close>

section \<open>Padding\<close>

definition raw_pad :: "byte list \<Rightarrow> nat \<Rightarrow> (byte list, unit) outcome" where
  "raw_pad block pos =
     (if length block \<le> pos then Panic
      else let padding_length = length block - pos - 1 in
        if 255 < padding_length then Panic
        else Ok (take pos block @ replicate (length block - pos) (word_of_nat padding_length)))"

definition raw_unpad :: "byte list \<Rightarrow> (byte list, unit) outcome" where
  "raw_unpad data =
     (let padding_length = unat (if data = [] then 1 else last data) in
      if length data < padding_length + 1 then Err ()
      else let padding_begin = length data - padding_length - 1 in
        if \<exists>b \<in> set (take padding_length (drop padding_begin data)). unat b \<noteq> padding_length then Err ()
        else Ok (take padding_begin data))"

section \<open>Libraries\<close>

datatype aead_kind = Aes128Gcm | AesCcm | AesCcm8

text \<open>
  The hash and the two MACs; authenticated encryption with a key, a nonce and additional data; and CBC
  encryption of a message whose last block a padding function fills, which the code supplies.
\<close>

record crypto_libs =
  cl_sha256 :: "byte list \<Rightarrow> byte list"
  cl_hmac_sha256 :: "byte list \<Rightarrow> byte list \<Rightarrow> byte list"
  cl_hmac_sha1 :: "byte list \<Rightarrow> byte list \<Rightarrow> byte list"
  cl_encrypt_in_place :: "aead_kind \<Rightarrow> byte list \<Rightarrow> byte list \<Rightarrow> byte list \<Rightarrow> byte list \<Rightarrow> (byte list, string) outcome"
  cl_decrypt_in_place :: "aead_kind \<Rightarrow> byte list \<Rightarrow> byte list \<Rightarrow> byte list \<Rightarrow> byte list \<Rightarrow> (byte list, string) outcome"
  cl_encrypt_padded :: "(byte list \<Rightarrow> nat \<Rightarrow> (byte list, unit) outcome) \<Rightarrow> byte list \<Rightarrow> byte list \<Rightarrow> byte list \<Rightarrow> (byte list, unit) outcome"
  cl_decrypt_padded :: "(byte list \<Rightarrow> (byte list, unit) outcome) \<Rightarrow> byte list \<Rightarrow> byte list \<Rightarrow> byte list \<Rightarrow> (byte list, unit) outcome"

section \<open>The pseudo-random function\<close>

definition hash_size :: nat where "hash_size = 32"

fun p_hash_loop :: "crypto_libs \<Rightarrow> byte list \<Rightarrow> byte list \<Rightarrow> nat \<Rightarrow> byte list \<Rightarrow> byte list \<Rightarrow> byte list" where
  "p_hash_loop L secret seed 0 last_round out = out"
| "p_hash_loop L secret seed (Suc n) last_round out =
     (let last_round = cl_hmac_sha256 L secret last_round;
          with_secret = cl_hmac_sha256 L secret (last_round @ seed)
      in p_hash_loop L secret seed n last_round (out @ with_secret))"

definition prf_p_hash :: "crypto_libs \<Rightarrow> byte list \<Rightarrow> byte list \<Rightarrow> nat \<Rightarrow> (byte list, dtls_error) outcome" where
  "prf_p_hash L secret seed requested_length =
     (let iterations = (requested_length + hash_size - 1) div hash_size;
          out = p_hash_loop L secret seed iterations seed []
      in if requested_length \<le> length out then Ok (take requested_length out) else Panic)"

definition label_bytes :: "string \<Rightarrow> byte list" where
  "label_bytes = map of_char"

definition prf_extended_master_secret :: "crypto_libs \<Rightarrow> byte list \<Rightarrow> byte list \<Rightarrow> (byte list, dtls_error) outcome" where
  "prf_extended_master_secret L pre_master_secret hash_of_session =
     prf_p_hash L pre_master_secret (label_bytes ''extended master secret'' @ hash_of_session) 48"

definition prf_master_secret :: "crypto_libs \<Rightarrow> byte list \<Rightarrow> byte list \<Rightarrow> byte list \<Rightarrow> (byte list, dtls_error) outcome" where
  "prf_master_secret L pre_master_secret client_random server_random =
     prf_p_hash L pre_master_secret (label_bytes ''master secret'' @ client_random @ server_random) 48"

definition prf_psk_pre_master_secret :: "byte list \<Rightarrow> byte list" where
  "prf_psk_pre_master_secret psk =
     (let be = to_be 2 (word_of_nat (length psk) :: u16)
      in be @ replicate (length psk) 0 @ be @ psk)"

record encryption_keys =
  ek_master_secret :: "byte list"
  ek_client_mac_key :: "byte list"
  ek_server_mac_key :: "byte list"
  ek_client_write_key :: "byte list"
  ek_server_write_key :: "byte list"
  ek_client_write_iv :: "byte list"
  ek_server_write_iv :: "byte list"

text \<open>Cutting the next key off the material; a slice beyond its end panics.\<close>

definition next_key :: "nat \<Rightarrow> byte list \<Rightarrow> (byte list \<times> byte list, dtls_error) outcome" where
  "next_key n material = (if n \<le> length material then Ok (take n material, drop n material) else Panic)"

definition prf_encryption_keys :: "crypto_libs \<Rightarrow> byte list \<Rightarrow> byte list \<Rightarrow> byte list \<Rightarrow> nat \<Rightarrow> nat \<Rightarrow> nat
    \<Rightarrow> (encryption_keys, dtls_error) outcome" where
  "prf_encryption_keys L master_secret client_random server_random mac_len key_len iv_len =
     obind (prf_p_hash L master_secret (label_bytes ''key expansion'' @ server_random @ client_random)
         (2 * mac_len + 2 * key_len + 2 * iv_len)) (\<lambda>material.
     obind (next_key mac_len material) (\<lambda>(client_mac, material).
     obind (next_key mac_len material) (\<lambda>(server_mac, material).
     obind (next_key key_len material) (\<lambda>(client_key, material).
     obind (next_key key_len material) (\<lambda>(server_key, material).
     obind (next_key iv_len material) (\<lambda>(client_iv, material).
     obind (next_key iv_len material) (\<lambda>(server_iv, _).
       Ok \<lparr>ek_master_secret = master_secret, ek_client_mac_key = client_mac, ek_server_mac_key = server_mac,
         ek_client_write_key = client_key, ek_server_write_key = server_key,
         ek_client_write_iv = client_iv, ek_server_write_iv = server_iv\<rparr>)))))))"

definition prf_verify_data :: "crypto_libs \<Rightarrow> byte list \<Rightarrow> byte list \<Rightarrow> string \<Rightarrow> (byte list, dtls_error) outcome" where
  "prf_verify_data L master_secret handshake_bodies label =
     prf_p_hash L master_secret (label_bytes label @ cl_sha256 L handshake_bodies) 12"

definition prf_verify_data_client :: "crypto_libs \<Rightarrow> byte list \<Rightarrow> byte list \<Rightarrow> (byte list, dtls_error) outcome" where
  "prf_verify_data_client L master_secret handshake_bodies =
     prf_verify_data L master_secret handshake_bodies ''client finished''"

definition prf_verify_data_server :: "crypto_libs \<Rightarrow> byte list \<Rightarrow> byte list \<Rightarrow> (byte list, dtls_error) outcome" where
  "prf_verify_data_server L master_secret handshake_bodies =
     prf_verify_data L master_secret handshake_bodies ''server finished''"

definition prf_mac :: "crypto_libs \<Rightarrow> record_layer_header \<Rightarrow> byte list \<Rightarrow> byte list \<Rightarrow> byte list" where
  "prf_mac L h payload key = cl_hmac_sha1 L key
     (to_be 2 (rl_epoch h) @ drop 2 (to_be 8 (rl_sequence_number h))
      @ [content_type_as (rl_content_type h), major (rl_protocol_version h), minor (rl_protocol_version h)]
      @ to_be 2 (word_of_nat (length payload) :: u16) @ payload)"

section \<open>Protecting a record with authenticated encryption\<close>

definition generate_aead_additional_data :: "record_layer_header \<Rightarrow> u64 \<Rightarrow> byte list" where
  "generate_aead_additional_data h payload_len =
     to_be 2 (rl_epoch h) @ drop 2 (to_be 8 (rl_sequence_number h))
     @ [content_type_as (rl_content_type h), major (rl_protocol_version h), minor (rl_protocol_version h)]
     @ to_be 2 (ucast payload_len :: u16)"

text \<open>The length field of a record is set to the length of its protected body.\<close>

definition with_length :: "byte list \<Rightarrow> byte list \<Rightarrow> byte list" where
  "with_length header body =
     take (RECORD_LAYER_HEADER_SIZE - 2) header @ to_be 2 (word_of_nat (length body) :: u16) @ body"

text \<open>Encryption and decryption as \<^verbatim>\<open>CryptoGcm\<close> and \<^verbatim>\<open>CryptoCcm\<close> write them out, for any of the ciphers.\<close>

definition aead_encrypt :: "crypto_libs \<Rightarrow> aead_kind \<Rightarrow> byte list \<Rightarrow> byte list \<Rightarrow> (nat \<Rightarrow> byte list)
    \<Rightarrow> record_layer_header \<Rightarrow> byte list \<Rightarrow> (byte list, dtls_error) outcome" where
  "aead_encrypt L kind key write_iv rnd h raw =
     (if length raw < RECORD_LAYER_HEADER_SIZE \<or> length write_iv < 4 then Panic
      else let payload = drop RECORD_LAYER_HEADER_SIZE raw; explicit = rnd 8;
               additional_data = generate_aead_additional_data h (word_of_nat (length payload))
        in obind (map_err Other (cl_encrypt_in_place L kind key (take 4 write_iv @ explicit) additional_data payload))
             (\<lambda>buffer. Ok (with_length raw (explicit @ buffer))))"

definition aead_decrypt :: "crypto_libs \<Rightarrow> aead_kind \<Rightarrow> nat \<Rightarrow> byte list \<Rightarrow> byte list \<Rightarrow> byte list
    \<Rightarrow> (byte list, dtls_error) outcome" where
  "aead_decrypt L kind tag_length key write_iv r =
     obind (record_layer_header_unmarshal r) (\<lambda>(h, _).
       if rl_content_type h = CT_ChangeCipherSpec then Ok r
       else if length r \<le> RECORD_LAYER_HEADER_SIZE + 8 then Err ErrNotEnoughRoomForNonce
       else if length write_iv < 4 then Panic
       else let nonce = take 4 write_iv @ take 8 (drop RECORD_LAYER_HEADER_SIZE r);
                out = drop (RECORD_LAYER_HEADER_SIZE + 8) r;
                additional_data = generate_aead_additional_data h (word_of_nat (length out) - word_of_nat tag_length)
         in obind (map_err Other (cl_decrypt_in_place L kind key nonce additional_data out))
              (\<lambda>buffer. Ok (take RECORD_LAYER_HEADER_SIZE r @ buffer)))"

subsection \<open>AES-GCM\<close>

definition CRYPTO_GCM_TAG_LENGTH :: nat where "CRYPTO_GCM_TAG_LENGTH = 16"

record crypto_gcm =
  gcm_local_key :: "byte list"
  gcm_local_write_iv :: "byte list"
  gcm_remote_key :: "byte list"
  gcm_remote_write_iv :: "byte list"

text \<open>A key that is not of the length of an AES-128 key makes \<^verbatim>\<open>GenericArray::from_slice\<close> panic.\<close>

definition crypto_gcm_new :: "byte list \<Rightarrow> byte list \<Rightarrow> byte list \<Rightarrow> byte list \<Rightarrow> (crypto_gcm, dtls_error) outcome" where
  "crypto_gcm_new local_key local_write_iv remote_key remote_write_iv =
     (if length local_key \<noteq> 16 \<or> length remote_key \<noteq> 16 then Panic
      else Ok \<lparr>gcm_local_key = local_key, gcm_local_write_iv = local_write_iv, gcm_remote_key = remote_key,
        gcm_remote_write_iv = remote_write_iv\<rparr>)"

definition gcm_encrypt :: "crypto_libs \<Rightarrow> (nat \<Rightarrow> byte list) \<Rightarrow> crypto_gcm \<Rightarrow> record_layer_header \<Rightarrow> byte list
    \<Rightarrow> (byte list, dtls_error) outcome" where
  "gcm_encrypt L rnd c h raw = aead_encrypt L Aes128Gcm (gcm_local_key c) (gcm_local_write_iv c) rnd h raw"

definition gcm_decrypt :: "crypto_libs \<Rightarrow> crypto_gcm \<Rightarrow> byte list \<Rightarrow> (byte list, dtls_error) outcome" where
  "gcm_decrypt L c r = aead_decrypt L Aes128Gcm CRYPTO_GCM_TAG_LENGTH (gcm_remote_key c) (gcm_remote_write_iv c) r"

subsection \<open>AES-CCM\<close>

definition CRYPTO_CCM_8_TAG_LENGTH :: nat where "CRYPTO_CCM_8_TAG_LENGTH = 8"

definition CRYPTO_CCM_TAG_LENGTH :: nat where "CRYPTO_CCM_TAG_LENGTH = 16"

datatype crypto_ccm_tag_len = CryptoCcm8TagLength | CryptoCcmTagLength

record crypto_ccm =
  ccm_tag_len :: crypto_ccm_tag_len
  ccm_local_key :: "byte list"
  ccm_local_write_iv :: "byte list"
  ccm_remote_key :: "byte list"
  ccm_remote_write_iv :: "byte list"

definition crypto_ccm_new :: "crypto_ccm_tag_len \<Rightarrow> byte list \<Rightarrow> byte list \<Rightarrow> byte list \<Rightarrow> byte list
    \<Rightarrow> (crypto_ccm, dtls_error) outcome" where
  "crypto_ccm_new tag_len local_key local_write_iv remote_key remote_write_iv =
     (if length local_key \<noteq> 16 \<or> length remote_key \<noteq> 16 then Panic
      else Ok \<lparr>ccm_tag_len = tag_len, ccm_local_key = local_key, ccm_local_write_iv = local_write_iv,
        ccm_remote_key = remote_key, ccm_remote_write_iv = remote_write_iv\<rparr>)"

definition ccm_encrypt :: "crypto_libs \<Rightarrow> (nat \<Rightarrow> byte list) \<Rightarrow> crypto_ccm \<Rightarrow> record_layer_header \<Rightarrow> byte list
    \<Rightarrow> (byte list, dtls_error) outcome" where
  "ccm_encrypt L rnd c h raw = (case ccm_tag_len c of
     CryptoCcmTagLength \<Rightarrow> aead_encrypt L AesCcm (ccm_local_key c) (ccm_local_write_iv c) rnd h raw
   | CryptoCcm8TagLength \<Rightarrow> aead_encrypt L AesCcm8 (ccm_local_key c) (ccm_local_write_iv c) rnd h raw)"

definition ccm_decrypt :: "crypto_libs \<Rightarrow> crypto_ccm \<Rightarrow> byte list \<Rightarrow> (byte list, dtls_error) outcome" where
  "ccm_decrypt L c r = (case ccm_tag_len c of
     CryptoCcmTagLength \<Rightarrow> aead_decrypt L AesCcm CRYPTO_CCM_TAG_LENGTH (ccm_remote_key c) (ccm_remote_write_iv c) r
   | CryptoCcm8TagLength \<Rightarrow> aead_decrypt L AesCcm8 CRYPTO_CCM_8_TAG_LENGTH (ccm_remote_key c) (ccm_remote_write_iv c) r)"

section \<open>Protecting a record with AES-CBC\<close>

definition BLOCK_SIZE :: nat where "BLOCK_SIZE = 16"

definition MAC_SIZE :: nat where "MAC_SIZE = 20"

record crypto_cbc =
  cbc_local_key :: "byte list"
  cbc_remote_key :: "byte list"
  cbc_write_mac :: "byte list"
  cbc_read_mac :: "byte list"

definition crypto_cbc_new :: "byte list \<Rightarrow> byte list \<Rightarrow> byte list \<Rightarrow> byte list \<Rightarrow> (crypto_cbc, dtls_error) outcome" where
  "crypto_cbc_new local_key local_mac remote_key remote_mac = Ok \<lparr>cbc_local_key = local_key,
     cbc_remote_key = remote_key, cbc_write_mac = local_mac, cbc_read_mac = remote_mac\<rparr>"

definition cbc_encrypt :: "crypto_libs \<Rightarrow> (nat \<Rightarrow> byte list) \<Rightarrow> crypto_cbc \<Rightarrow> record_layer_header \<Rightarrow> byte list
    \<Rightarrow> (byte list, dtls_error) outcome" where
  "cbc_encrypt L rnd c h raw =
     (if length raw < RECORD_LAYER_HEADER_SIZE then Panic
      else let payload = drop RECORD_LAYER_HEADER_SIZE raw;
               payload = payload @ prf_mac L h payload (cbc_write_mac c); iv = rnd BLOCK_SIZE in
        if length (cbc_local_key c) \<noteq> 32 \<or> length iv \<noteq> BLOCK_SIZE then Err Aes
        else case cl_encrypt_padded L raw_pad (cbc_local_key c) iv payload of
          Ok encrypted \<Rightarrow> Ok (with_length raw (iv @ encrypted))
        | _ \<Rightarrow> Panic)"

definition cbc_decrypt :: "crypto_libs \<Rightarrow> crypto_cbc \<Rightarrow> byte list \<Rightarrow> (byte list, dtls_error) outcome" where
  "cbc_decrypt L c r =
     obind (record_layer_header_unmarshal r) (\<lambda>(h, _).
       if rl_content_type h = CT_ChangeCipherSpec then Ok r
       else let body = drop RECORD_LAYER_HEADER_SIZE r in
       if length body < BLOCK_SIZE then Panic
       else let iv = take BLOCK_SIZE body; body = drop BLOCK_SIZE body in
       if length (cbc_remote_key c) \<noteq> 32 then Err Aes
       else obind (map_err (\<lambda>_. ErrInvalidPacketLength) (cl_decrypt_padded L raw_unpad (cbc_remote_key c) iv body)) (\<lambda>decrypted.
         if length decrypted < MAC_SIZE then Panic
         else let recv_mac = drop (length decrypted - MAC_SIZE) decrypted;
                  decrypted = take (length decrypted - MAC_SIZE) decrypted in
         if recv_mac \<noteq> prf_mac L h decrypted (cbc_read_mac c) then Err ErrInvalidMac
         else Ok (take RECORD_LAYER_HEADER_SIZE r @ decrypted)))"

section \<open>Cipher suites\<close>

text \<open>The cipher of a suite, before and after its keys are known.\<close>

datatype suite_cipher =
    Gcm_Suite "crypto_gcm option"
  | Ccm_Suite crypto_ccm_tag_len "crypto_ccm option"
  | Cbc_Suite "crypto_cbc option"

fun suite_is_initialized :: "suite_cipher \<Rightarrow> bool" where
  "suite_is_initialized (Gcm_Suite c) = (c \<noteq> None)"
| "suite_is_initialized (Ccm_Suite _ c) = (c \<noteq> None)"
| "suite_is_initialized (Cbc_Suite c) = (c \<noteq> None)"

definition gcm_suite_init :: "crypto_libs \<Rightarrow> byte list \<Rightarrow> byte list \<Rightarrow> byte list \<Rightarrow> bool \<Rightarrow> (crypto_gcm, dtls_error) outcome" where
  "gcm_suite_init L master_secret client_random server_random is_client =
     obind (prf_encryption_keys L master_secret client_random server_random 0 16 4) (\<lambda>k.
       if is_client
       then crypto_gcm_new (ek_client_write_key k) (ek_client_write_iv k) (ek_server_write_key k) (ek_server_write_iv k)
       else crypto_gcm_new (ek_server_write_key k) (ek_server_write_iv k) (ek_client_write_key k) (ek_client_write_iv k))"

definition ccm_suite_init :: "crypto_libs \<Rightarrow> crypto_ccm_tag_len \<Rightarrow> byte list \<Rightarrow> byte list \<Rightarrow> byte list \<Rightarrow> bool
    \<Rightarrow> (crypto_ccm, dtls_error) outcome" where
  "ccm_suite_init L t master_secret client_random server_random is_client =
     obind (prf_encryption_keys L master_secret client_random server_random 0 16 4) (\<lambda>k.
       if is_client
       then crypto_ccm_new t (ek_client_write_key k) (ek_client_write_iv k) (ek_server_write_key k) (ek_server_write_iv k)
       else crypto_ccm_new t (ek_server_write_key k) (ek_server_write_iv k) (ek_client_write_key k) (ek_client_write_iv k))"

definition cbc_suite_init :: "crypto_libs \<Rightarrow> byte list \<Rightarrow> byte list \<Rightarrow> byte list \<Rightarrow> bool \<Rightarrow> (crypto_cbc, dtls_error) outcome" where
  "cbc_suite_init L master_secret client_random server_random is_client =
     obind (prf_encryption_keys L master_secret client_random server_random 20 32 16) (\<lambda>k.
       if is_client
       then crypto_cbc_new (ek_client_write_key k) (ek_client_mac_key k) (ek_server_write_key k) (ek_server_mac_key k)
       else crypto_cbc_new (ek_server_write_key k) (ek_server_mac_key k) (ek_client_write_key k) (ek_client_mac_key k))"

fun suite_init :: "crypto_libs \<Rightarrow> suite_cipher \<Rightarrow> byte list \<Rightarrow> byte list \<Rightarrow> byte list \<Rightarrow> bool
    \<Rightarrow> (suite_cipher, dtls_error) outcome" where
  "suite_init L (Gcm_Suite _) master_secret client_random server_random is_client =
     omap (\<lambda>c. Gcm_Suite (Some c)) (gcm_suite_init L master_secret client_random server_random is_client)"
| "suite_init L (Ccm_Suite t _) master_secret client_random server_random is_client =
     omap (\<lambda>c. Ccm_Suite t (Some c)) (ccm_suite_init L t master_secret client_random server_random is_client)"
| "suite_init L (Cbc_Suite _) master_secret client_random server_random is_client =
     omap (\<lambda>c. Cbc_Suite (Some c)) (cbc_suite_init L master_secret client_random server_random is_client)"

abbreviation not_initialized :: "string \<Rightarrow> dtls_error" where
  "not_initialized what \<equiv> Other (''CipherSuite has not been initialized, unable to '' @ what)"

fun suite_encrypt :: "crypto_libs \<Rightarrow> (nat \<Rightarrow> byte list) \<Rightarrow> suite_cipher \<Rightarrow> record_layer_header \<Rightarrow> byte list
    \<Rightarrow> (byte list, dtls_error) outcome" where
  "suite_encrypt L rnd (Gcm_Suite (Some c)) h raw = gcm_encrypt L rnd c h raw"
| "suite_encrypt L rnd (Ccm_Suite _ (Some c)) h raw = ccm_encrypt L rnd c h raw"
| "suite_encrypt L rnd (Cbc_Suite (Some c)) h raw = cbc_encrypt L rnd c h raw"
| "suite_encrypt L rnd _ h raw = Err (not_initialized ''encrypt'')"

fun suite_decrypt :: "crypto_libs \<Rightarrow> suite_cipher \<Rightarrow> byte list \<Rightarrow> (byte list, dtls_error) outcome" where
  "suite_decrypt L (Gcm_Suite (Some c)) r = gcm_decrypt L c r"
| "suite_decrypt L (Ccm_Suite _ (Some c)) r = ccm_decrypt L c r"
| "suite_decrypt L (Cbc_Suite (Some c)) r = cbc_decrypt L c r"
| "suite_decrypt L _ r = Err (not_initialized ''decrypt'')"

end
