(* ===== verification/Dtls_Negotiation.thy ===== *)
theory Dtls_Negotiation
  imports Dtls_Cache Dtls_Ciphers
begin

text \<open>
  What the server side of a DTLS handshake decides from a client's hello: cipher suites and signature
  schemes (\<^verbatim>\<open>cipher_suite/mod.rs\<close>, \<^verbatim>\<open>signature_hash_algorithm/mod.rs\<close>, \<^verbatim>\<open>lib.rs\<close>, \<^verbatim>\<open>config.rs\<close>), the curve
  and the SRTP profile (\<^verbatim>\<open>flight/flight0.rs\<close>, with the repository's patch of the curve choice, and the
  profiles \<^verbatim>\<open>setting_engine\<close> of \<^verbatim>\<open>libp2p-webrtc\<close> configures, the other patch), and the cookie exchange
  (\<^verbatim>\<open>flight/flight2.rs\<close>). Key generation and random bytes are parameters.
\<close>

section \<open>Cipher suites\<close>

record cipher_suite =
  cs_id :: cipher_suite_id
  cs_certificate_type :: client_certificate_type
  cs_is_psk :: bool
  cs_cipher :: suite_cipher

definition new_aes_128_ccm :: "client_certificate_type \<Rightarrow> cipher_suite_id \<Rightarrow> bool \<Rightarrow> crypto_ccm_tag_len \<Rightarrow> cipher_suite" where
  "new_aes_128_ccm cert i psk tag_len = \<lparr>cs_id = i, cs_certificate_type = cert, cs_is_psk = psk,
     cs_cipher = Ccm_Suite tag_len None\<rparr>"

definition new_aes_128_gcm_sha256 :: "bool \<Rightarrow> cipher_suite" where
  "new_aes_128_gcm_sha256 rsa = \<lparr>cs_id = (if rsa then Tls_Ecdhe_Rsa_With_Aes_128_Gcm_Sha256
     else Tls_Ecdhe_Ecdsa_With_Aes_128_Gcm_Sha256),
     cs_certificate_type = (if rsa then CCT_RsaSign else CCT_EcdsaSign), cs_is_psk = False,
     cs_cipher = Gcm_Suite None\<rparr>"

definition new_aes_256_cbc_sha :: "bool \<Rightarrow> cipher_suite" where
  "new_aes_256_cbc_sha rsa = \<lparr>cs_id = (if rsa then Tls_Ecdhe_Rsa_With_Aes_256_Cbc_Sha
     else Tls_Ecdhe_Ecdsa_With_Aes_256_Cbc_Sha),
     cs_certificate_type = (if rsa then CCT_RsaSign else CCT_EcdsaSign), cs_is_psk = False,
     cs_cipher = Cbc_Suite None\<rparr>"

definition new_psk_aes_128_gcm_sha256 :: cipher_suite where
  "new_psk_aes_128_gcm_sha256 = \<lparr>cs_id = Tls_Psk_With_Aes_128_Gcm_Sha256,
     cs_certificate_type = CCT_Unsupported, cs_is_psk = True, cs_cipher = Gcm_Suite None\<rparr>"

fun cipher_suite_for_id :: "cipher_suite_id \<Rightarrow> (cipher_suite, dtls_error) outcome" where
  "cipher_suite_for_id Tls_Ecdhe_Ecdsa_With_Aes_128_Ccm =
     Ok (new_aes_128_ccm CCT_EcdsaSign Tls_Ecdhe_Ecdsa_With_Aes_128_Ccm False CryptoCcmTagLength)"
| "cipher_suite_for_id Tls_Ecdhe_Ecdsa_With_Aes_128_Ccm_8 =
     Ok (new_aes_128_ccm CCT_EcdsaSign Tls_Ecdhe_Ecdsa_With_Aes_128_Ccm_8 False CryptoCcm8TagLength)"
| "cipher_suite_for_id Tls_Ecdhe_Ecdsa_With_Aes_128_Gcm_Sha256 = Ok (new_aes_128_gcm_sha256 False)"
| "cipher_suite_for_id Tls_Ecdhe_Rsa_With_Aes_128_Gcm_Sha256 = Ok (new_aes_128_gcm_sha256 True)"
| "cipher_suite_for_id Tls_Ecdhe_Rsa_With_Aes_256_Cbc_Sha = Ok (new_aes_256_cbc_sha True)"
| "cipher_suite_for_id Tls_Ecdhe_Ecdsa_With_Aes_256_Cbc_Sha = Ok (new_aes_256_cbc_sha False)"
| "cipher_suite_for_id Tls_Psk_With_Aes_128_Ccm =
     Ok (new_aes_128_ccm CCT_Unsupported Tls_Psk_With_Aes_128_Ccm True CryptoCcmTagLength)"
| "cipher_suite_for_id Tls_Psk_With_Aes_128_Ccm_8 =
     Ok (new_aes_128_ccm CCT_Unsupported Tls_Psk_With_Aes_128_Ccm_8 True CryptoCcm8TagLength)"
| "cipher_suite_for_id Tls_Psk_With_Aes_128_Gcm_Sha256 = Ok new_psk_aes_128_gcm_sha256"
| "cipher_suite_for_id CS_Unsupported = Err ErrInvalidCipherSuite"

definition default_cipher_suites :: "cipher_suite list" where
  "default_cipher_suites = [new_aes_128_gcm_sha256 False, new_aes_256_cbc_sha False,
     new_aes_128_gcm_sha256 True, new_aes_256_cbc_sha True]"

fun cipher_suites_for_ids :: "cipher_suite_id list \<Rightarrow> (cipher_suite list, dtls_error) outcome" where
  "cipher_suites_for_ids [] = Ok []"
| "cipher_suites_for_ids (i # is) =
     obind (cipher_suite_for_id i) (\<lambda>c. obind (cipher_suites_for_ids is) (\<lambda>cs. Ok (c # cs)))"

definition parse_cipher_suites :: "cipher_suite_id list \<Rightarrow> bool \<Rightarrow> bool \<Rightarrow> (cipher_suite list, dtls_error) outcome" where
  "parse_cipher_suites user_selected exclude_psk exclude_non_psk =
     obind (if user_selected \<noteq> [] then cipher_suites_for_ids user_selected else Ok default_cipher_suites)
       (\<lambda>suites. let filtered = filter (\<lambda>c. \<not> ((exclude_psk \<and> cs_is_psk c) \<or> (exclude_non_psk \<and> \<not> cs_is_psk c))) suites
         in if filtered = [] then Err ErrNoAvailableCipherSuites else Ok filtered)"

section \<open>Matching lists\<close>

text \<open>The two nested loops of \<^verbatim>\<open>find_matching_srtp_profile\<close> and \<^verbatim>\<open>find_matching_cipher_suite\<close>.\<close>

fun find_equal :: "'a \<Rightarrow> 'a list \<Rightarrow> 'a option" where
  "find_equal x [] = None"
| "find_equal x (y # ys) = (if x = y then Some x else find_equal x ys)"

fun find_matching :: "'a list \<Rightarrow> 'a list \<Rightarrow> 'a option" where
  "find_matching [] bs = None"
| "find_matching (a # as) bs = (case find_equal a bs of Some x \<Rightarrow> Some x | None \<Rightarrow> find_matching as bs)"

definition find_matching_srtp_profile ::
  "srtp_protection_profile list \<Rightarrow> srtp_protection_profile list \<Rightarrow> srtp_protection_profile option" where
  "find_matching_srtp_profile a b = find_matching a b"

definition find_matching_cipher_suite :: "cipher_suite_id list \<Rightarrow> cipher_suite_id list \<Rightarrow> cipher_suite_id option" where
  "find_matching_cipher_suite a b = find_matching a b"

lemma find_equal_iff: "find_equal x ys = (if x \<in> set ys then Some x else None)"
  by (induction ys) auto

lemma find_matching_eq_find: "find_matching as bs = find (\<lambda>a. a \<in> set bs) as"
  by (induction as) (auto simp: find_equal_iff)

section \<open>Signature schemes\<close>

definition hash_insecure :: "hash_algorithm \<Rightarrow> bool" where
  "hash_insecure h \<longleftrightarrow> h = HA_Md2 \<or> h = HA_Md5 \<or> h = HA_Sha1"

definition hash_invalid :: "hash_algorithm \<Rightarrow> bool" where
  "hash_invalid h \<longleftrightarrow> h = HA_Md2"

definition default_signature_schemes :: "signature_hash_algorithm list" where
  "default_signature_schemes = map (\<lambda>(h, s). \<lparr>sha_hash = h, sha_signature = s\<rparr>)
     [(HA_Sha256, SA_Ecdsa), (HA_Sha384, SA_Ecdsa), (HA_Sha512, SA_Ecdsa),
      (HA_Sha256, SA_Rsa), (HA_Sha384, SA_Rsa), (HA_Sha512, SA_Rsa), (HA_Ed25519, SA_Ed25519)]"

text \<open>The kinds of private key a certificate can have; the keys themselves play no role here.\<close>

datatype private_key_kind = Ed25519 | Ecdsa256 | Rsa256

definition is_compatible :: "signature_hash_algorithm \<Rightarrow> private_key_kind \<Rightarrow> bool" where
  "is_compatible ss key = (case key of
       Ed25519 \<Rightarrow> sha_signature ss = SA_Ed25519
     | Ecdsa256 \<Rightarrow> sha_signature ss = SA_Ecdsa
     | Rsa256 \<Rightarrow> sha_signature ss = SA_Rsa)"

fun select_signature_scheme :: "signature_hash_algorithm list \<Rightarrow> private_key_kind
    \<Rightarrow> (signature_hash_algorithm, dtls_error) outcome" where
  "select_signature_scheme [] key = Err ErrNoAvailableSignatureSchemes"
| "select_signature_scheme (ss # sigs) key =
     (if is_compatible ss key then Ok ss else select_signature_scheme sigs key)"

fun parse_schemes :: "u16 list \<Rightarrow> bool \<Rightarrow> (signature_hash_algorithm list, dtls_error) outcome" where
  "parse_schemes [] insecure_hashes = Ok []"
| "parse_schemes (ss # sigs) insecure_hashes =
     (let sig = signature_algorithm_from (ucast (ss AND 0xFF));
          h = hash_algorithm_from (ucast (drop_bit 8 ss AND 0xFF))
      in if sig = SA_Unsupported then Err ErrInvalidSignatureAlgorithm
         else if h = HA_Unsupported \<or> hash_invalid h then Err ErrInvalidHashAlgorithm
         else if hash_insecure h \<and> \<not> insecure_hashes then parse_schemes sigs insecure_hashes
         else obind (parse_schemes sigs insecure_hashes) (\<lambda>out. Ok (\<lparr>sha_hash = h, sha_signature = sig\<rparr> # out)))"

definition parse_signature_schemes :: "u16 list \<Rightarrow> bool \<Rightarrow> (signature_hash_algorithm list, dtls_error) outcome" where
  "parse_signature_schemes sigs insecure_hashes =
     (if sigs = [] then Ok default_signature_schemes
      else obind (parse_schemes sigs insecure_hashes) (\<lambda>out.
        if out = [] then Err ErrNoAvailableSignatureSchemes else Ok out))"

section \<open>Configuration and state\<close>

datatype extended_master_secret_type = EMS_Request | EMS_Require | EMS_Disable

datatype client_auth_type = NoClientCert | RequestClientCert | RequireAnyClientCert | VerifyClientCertIfGiven
  | RequireAndVerifyClientCert

text \<open>A certificate chain with its private key, which is its kind and its encoding.\<close>

record crypto_private_key =
  key_kind :: private_key_kind
  key_serialized_der :: "byte list"

record dtls_certificate =
  cert_certificate :: "byte list list"
  cert_private_key :: crypto_private_key

text \<open>
  The handshake configuration. The verifiers of \<^verbatim>\<open>rustls\<close> and the callbacks are functions; the names of
  servers and certificates are bytes. The retransmission interval is left out.
\<close>

record handshake_config =
  cfg_local_psk_callback :: "(byte list \<Rightarrow> (byte list, dtls_error) outcome) option"
  cfg_local_psk_identity_hint :: "byte list option"
  cfg_local_cipher_suites :: "cipher_suite_id list"
  cfg_local_signature_schemes :: "signature_hash_algorithm list"
  cfg_extended_master_secret :: extended_master_secret_type
  cfg_local_srtp_protection_profiles :: "srtp_protection_profile list"
  cfg_server_name :: "byte list"
  cfg_client_auth :: client_auth_type
  cfg_local_certificates :: "dtls_certificate list"
  cfg_name_to_certificate :: "byte list \<rightharpoonup> dtls_certificate"
  cfg_insecure_skip_verify :: bool
  cfg_insecure_verification :: bool
  cfg_verify_peer_certificate :: "(byte list list \<Rightarrow> byte list list \<Rightarrow> (unit, dtls_error) outcome) option"
  cfg_server_cert_verifier :: "byte list \<Rightarrow> byte list list \<Rightarrow> byte list \<Rightarrow> (unit, string) outcome"
  cfg_client_cert_verifier :: "(byte list \<Rightarrow> byte list list \<Rightarrow> (unit, string) outcome) option"
  cfg_initial_epoch :: u16

datatype 'k named_curve_private_key = EphemeralSecretP256 'k | EphemeralSecretP384 'k | StaticSecretX25519 'k

record 'k keypair =
  kp_curve :: named_curve
  kp_public_key :: "byte list"
  kp_private_key :: "'k named_curve_private_key"

text \<open>The state of a connection, but for the record numbers, which the sending side keeps.\<close>

record 'k dtls_state =
  st_local_epoch :: u16
  st_remote_epoch :: u16
  st_local_random :: handshake_random
  st_remote_random :: handshake_random
  st_master_secret :: "byte list"
  st_cipher_suite :: "cipher_suite option"
  st_srtp_protection_profile :: srtp_protection_profile
  st_peer_certificates :: "byte list list"
  st_identity_hint :: "byte list"
  st_is_client :: bool
  st_pre_master_secret :: "byte list"
  st_extended_master_secret :: bool
  st_named_curve :: named_curve
  st_local_keypair :: "'k keypair option"
  st_cookie :: "byte list"
  st_handshake_send_sequence :: int
  st_handshake_recv_sequence :: int
  st_server_name :: "byte list"
  st_remote_requested_certificate :: bool
  st_local_certificates_verify :: "byte list"
  st_local_verify_data :: "byte list"
  st_local_key_signature :: "byte list"
  st_peer_certificates_verified :: bool

text \<open>
  \<open>gen\<close> makes the public key and the secret of a curve (the random generator of the system is behind it).
\<close>

fun curve_private_key :: "named_curve \<Rightarrow> 'k \<Rightarrow> 'k named_curve_private_key" where
  "curve_private_key NC_P256 k = EphemeralSecretP256 k"
| "curve_private_key NC_P384 k = EphemeralSecretP384 k"
| "curve_private_key _ k = StaticSecretX25519 k"

definition elliptic_curve_keypair :: "(named_curve \<Rightarrow> byte list \<times> 'k) \<Rightarrow> named_curve \<Rightarrow> 'k keypair" where
  "elliptic_curve_keypair gen curve = \<lparr>kp_curve = curve, kp_public_key = fst (gen curve),
     kp_private_key = curve_private_key curve (snd (gen curve))\<rparr>"

definition generate_keypair :: "(named_curve \<Rightarrow> byte list \<times> 'k) \<Rightarrow> named_curve \<Rightarrow> ('k keypair, dtls_error) outcome" where
  "generate_keypair gen curve = (case curve of
       NC_Unsupported \<Rightarrow> Err ErrInvalidNamedCurve
     | _ \<Rightarrow> Ok (elliptic_curve_keypair gen curve))"

datatype flight = Flight0 | Flight1 | Flight2 | Flight3 | Flight4 | Flight5 | Flight6

type_synonym flight_error = "alert option \<times> dtls_error option"

definition fatal :: "alert_description \<Rightarrow> dtls_error option \<Rightarrow> flight_error" where
  "fatal d e = (Some \<lparr>alert_level_field = AL_Fatal, alert_description_field = d\<rparr>, e)"

lemma fatal_inject [simp]: "fatal d e = fatal d' e' \<longleftrightarrow> d = d' \<and> e = e'" "fatal d e \<noteq> (None, None)"
  by (simp_all add: fatal_def)

section \<open>Flight 0\<close>

text \<open>The patched choice: the client's first curve that this implementation can do.\<close>

definition select_curve :: "named_curve list \<Rightarrow> named_curve option" where
  "select_curve curves = find (\<lambda>c. c \<noteq> NC_Unsupported) curves"

text \<open>The loop over the hello's extensions; an error leaves what the earlier extensions set.\<close>

fun apply_extensions :: "handshake_config \<Rightarrow> extension list \<Rightarrow> 'k dtls_state
    \<Rightarrow> 'k dtls_state \<times> (unit, flight_error) outcome" where
  "apply_extensions cfg [] st = (st, Ok ())"
| "apply_extensions cfg (SupportedEllipticCurves curves # es) st =
     (case select_curve curves of
        None \<Rightarrow> (st, Err (fatal AD_InsufficientSecurity (Some ErrNoSupportedEllipticCurves)))
      | Some c \<Rightarrow> apply_extensions cfg es (st\<lparr>st_named_curve := c\<rparr>))"
| "apply_extensions cfg (UseSrtp profiles # es) st =
     (case find_matching_srtp_profile profiles (cfg_local_srtp_protection_profiles cfg) of
        None \<Rightarrow> (st, Err (fatal AD_InsufficientSecurity (Some ErrServerNoMatchingSrtpProfile)))
      | Some p \<Rightarrow> apply_extensions cfg es (st\<lparr>st_srtp_protection_profile := p\<rparr>))"
| "apply_extensions cfg (UseExtendedMasterSecret _ # es) st =
     apply_extensions cfg es
       (if cfg_extended_master_secret cfg \<noteq> EMS_Disable then st\<lparr>st_extended_master_secret := True\<rparr> else st)"
| "apply_extensions cfg (ServerName name # es) st = apply_extensions cfg es (st\<lparr>st_server_name := name\<rparr>)"
| "apply_extensions cfg (_ # es) st = apply_extensions cfg es st"

definition flight0_keypair :: "(named_curve \<Rightarrow> byte list \<times> 'k) \<Rightarrow> 'k dtls_state \<Rightarrow> 'k dtls_state \<times> (flight, flight_error) outcome" where
  "flight0_keypair gen st =
     (if st_local_keypair st = None
      then (case generate_keypair gen (st_named_curve st) of
          Ok kp \<Rightarrow> (st\<lparr>st_local_keypair := Some kp\<rparr>, Ok Flight2)
        | Err e \<Rightarrow> (st, Err (fatal AD_IllegalParameter (Some e)))
        | Panic \<Rightarrow> (st, Panic))
      else (st, Ok Flight2))"

definition flight0_suite :: "cipher_suite_id \<Rightarrow> 'k dtls_state \<Rightarrow> 'k dtls_state" where
  "flight0_suite i st = (case cipher_suite_for_id i of Ok cs \<Rightarrow> st\<lparr>st_cipher_suite := Some cs\<rparr> | _ \<Rightarrow> st)"

definition flight0_hello :: "(named_curve \<Rightarrow> byte list \<times> 'k) \<Rightarrow> handshake_config \<Rightarrow> client_hello \<Rightarrow> 'k dtls_state
    \<Rightarrow> 'k dtls_state \<times> (flight, flight_error) outcome" where
  "flight0_hello gen cfg ch st =
     (if ch_version ch \<noteq> PROTOCOL_VERSION1_2
      then (st, Err (fatal AD_ProtocolVersion (Some ErrUnsupportedProtocolVersion)))
      else let st = st\<lparr>st_remote_random := ch_random ch\<rparr> in
      case find_matching_cipher_suite (ch_cipher_suites ch) (cfg_local_cipher_suites cfg) of
        None \<Rightarrow> (st, Err (fatal AD_InsufficientSecurity (Some ErrCipherSuiteNoIntersection)))
      | Some i \<Rightarrow>
          case apply_extensions cfg (ch_extensions ch) (flight0_suite i st) of
               (st, Err e) \<Rightarrow> (st, Err e)
             | (st, Panic) \<Rightarrow> (st, Panic)
             | (st, Ok _) \<Rightarrow>
                 if cfg_extended_master_secret cfg = EMS_Require \<and> \<not> st_extended_master_secret st
                 then (st, Err (fatal AD_InsufficientSecurity (Some ErrServerRequiredButNoClientEms)))
                 else flight0_keypair gen st)"

definition client_hello_rule :: "handshake_config \<Rightarrow> pull_rule" where
  "client_hello_rule cfg = \<lparr>pr_typ = HT_ClientHello, pr_epoch = cfg_initial_epoch cfg,
     pr_is_client = True, pr_optional = False\<rparr>"

definition flight0_parse :: "(named_curve \<Rightarrow> byte list \<times> 'k) \<Rightarrow> handshake_config \<Rightarrow> handshake_cache \<Rightarrow> 'k dtls_state
    \<Rightarrow> 'k dtls_state \<times> (flight, flight_error) outcome" where
  "flight0_parse gen cfg cache st =
     (case full_pull_map cache 0 [client_hello_rule cfg] of
        Err _ \<Rightarrow> (st, Err (None, None))
      | Panic \<Rightarrow> (st, Panic)
      | Ok (sq, msgs) \<Rightarrow>
          let st = st\<lparr>st_handshake_recv_sequence := sq\<rparr>
          in case msgs HT_ClientHello of
               Some (MsgClientHello ch) \<Rightarrow> flight0_hello gen cfg ch st
             | _ \<Rightarrow> (st, Err (fatal AD_InternalError None)))"

definition COOKIE_LENGTH :: nat where "COOKIE_LENGTH = 20"
definition DEFAULT_NAMED_CURVE :: named_curve where "DEFAULT_NAMED_CURVE = NC_X25519"

text \<open>\<open>rnd\<close> are the random bytes drawn for the cookie, \<open>lr\<close> the local random.\<close>

definition flight0_generate :: "(nat \<Rightarrow> byte list) \<Rightarrow> handshake_random \<Rightarrow> 'k dtls_state \<Rightarrow> 'k dtls_state" where
  "flight0_generate rnd lr st = st\<lparr>st_cookie := rnd COOKIE_LENGTH, st_local_epoch := 0, st_remote_epoch := 0,
     st_named_curve := DEFAULT_NAMED_CURVE, st_local_random := lr\<rparr>"

section \<open>Flight 2\<close>

definition flight2_hello :: "client_hello \<Rightarrow> 'k dtls_state \<Rightarrow> (flight, flight_error) outcome" where
  "flight2_hello ch st =
     (if ch_version ch \<noteq> PROTOCOL_VERSION1_2
      then Err (fatal AD_ProtocolVersion (Some ErrUnsupportedProtocolVersion))
      else if ch_cookie ch = [] then Err (None, None)
      else if st_cookie st \<noteq> ch_cookie ch then Err (fatal AD_AccessDenied (Some ErrCookieMismatch))
      else Ok Flight4)"

definition flight2_parse :: "(named_curve \<Rightarrow> byte list \<times> 'k) \<Rightarrow> handshake_config \<Rightarrow> handshake_cache \<Rightarrow> 'k dtls_state
    \<Rightarrow> 'k dtls_state \<times> (flight, flight_error) outcome" where
  "flight2_parse gen cfg cache st =
     (case full_pull_map cache (st_handshake_recv_sequence st) [client_hello_rule cfg] of
        Err _ \<Rightarrow> flight0_parse gen cfg cache st
      | Panic \<Rightarrow> (st, Panic)
      | Ok (sq, msgs) \<Rightarrow>
          let st = st\<lparr>st_handshake_recv_sequence := sq\<rparr>
          in case msgs HT_ClientHello of
               Some (MsgClientHello ch) \<Rightarrow> (st, flight2_hello ch st)
             | _ \<Rightarrow> (st, Err (fatal AD_InternalError None)))"

record packet =
  pk_record :: record_layer
  pk_should_encrypt :: bool
  pk_reset_local_sequence_number :: bool

definition flight2_generate :: "'k dtls_state \<Rightarrow> 'k dtls_state \<times> packet list" where
  "flight2_generate st = (st\<lparr>st_handshake_send_sequence := 0\<rparr>,
     [\<lparr>pk_record = record_layer_new PROTOCOL_VERSION1_2 0 (Handshake (handshake_new
         (MsgHelloVerifyRequest \<lparr>hvr_version = PROTOCOL_VERSION1_2, hvr_cookie = st_cookie st\<rparr>))),
       pk_should_encrypt = False, pk_reset_local_sequence_number = False\<rparr>])"

text \<open>The profiles \<^verbatim>\<open>setting_engine\<close> sets.\<close>

definition setting_engine_profiles :: "srtp_protection_profile list" where
  "setting_engine_profiles = [Srtp_Aead_Aes_128_Gcm, Srtp_Aes128_Cm_Hmac_Sha1_80]"

section \<open>What the extensions of a hello amount to\<close>

fun ext_acceptable :: "handshake_config \<Rightarrow> extension \<Rightarrow> bool" where
  "ext_acceptable cfg (SupportedEllipticCurves curves) \<longleftrightarrow> (\<exists>c \<in> set curves. c \<noteq> NC_Unsupported)"
| "ext_acceptable cfg (UseSrtp profiles) \<longleftrightarrow> (\<exists>p \<in> set profiles. p \<in> set (cfg_local_srtp_protection_profiles cfg))"
| "ext_acceptable cfg _ \<longleftrightarrow> True"

fun final_curve :: "extension list \<Rightarrow> named_curve \<Rightarrow> named_curve" where
  "final_curve [] d = d"
| "final_curve (SupportedEllipticCurves curves # es) d = final_curve es (the (select_curve curves))"
| "final_curve (_ # es) d = final_curve es d"

fun final_profile :: "handshake_config \<Rightarrow> extension list \<Rightarrow> srtp_protection_profile \<Rightarrow> srtp_protection_profile" where
  "final_profile cfg [] d = d"
| "final_profile cfg (UseSrtp profiles # es) d =
     final_profile cfg es (the (find_matching_srtp_profile profiles (cfg_local_srtp_protection_profiles cfg)))"
| "final_profile cfg (_ # es) d = final_profile cfg es d"

fun final_name :: "extension list \<Rightarrow> byte list \<Rightarrow> byte list" where
  "final_name [] d = d"
| "final_name (ServerName name # es) d = final_name es name"
| "final_name (_ # es) d = final_name es d"

definition offers_ems :: "extension list \<Rightarrow> bool" where
  "offers_ems es \<longleftrightarrow> (\<exists>b. UseExtendedMasterSecret b \<in> set es)"

definition applied :: "handshake_config \<Rightarrow> extension list \<Rightarrow> 'k dtls_state \<Rightarrow> 'k dtls_state" where
  "applied cfg es st = st\<lparr>st_named_curve := final_curve es (st_named_curve st),
     st_srtp_protection_profile := final_profile cfg es (st_srtp_protection_profile st),
     st_extended_master_secret := (st_extended_master_secret st
       \<or> (cfg_extended_master_secret cfg \<noteq> EMS_Disable \<and> offers_ems es)),
     st_server_name := final_name es (st_server_name st)\<rparr>"

lemma offers_ems_simps [simp]:
  "\<not> offers_ems []" "offers_ems (e # es) \<longleftrightarrow> (\<exists>b. e = UseExtendedMasterSecret b) \<or> offers_ems es"
  by (auto simp: offers_ems_def)

lemma select_curve_None: "select_curve curves = None \<longleftrightarrow> (\<forall>c \<in> set curves. c = NC_Unsupported)"
  by (auto simp: select_curve_def find_None_iff)

lemma select_curve_Some:
  "select_curve curves = Some c \<longleftrightarrow>
     c \<noteq> NC_Unsupported \<and> (\<exists>pre post. curves = pre @ c # post \<and> set pre \<subseteq> {NC_Unsupported})"
proof
  assume "select_curve curves = Some c"
  then obtain i where i: "i < length curves" "curves ! i \<noteq> NC_Unsupported" "c = curves ! i"
      "\<forall>j < i. curves ! j = NC_Unsupported"
    by (auto simp: select_curve_def find_Some_iff)
  then have "curves = take i curves @ c # drop (Suc i) curves" "set (take i curves) \<subseteq> {NC_Unsupported}"
    by (auto simp: id_take_nth_drop [symmetric] in_set_conv_nth)
  then have "\<exists>pre post. curves = pre @ c # post \<and> set pre \<subseteq> {NC_Unsupported}"
    by (intro exI conjI)
  with i(2,3) show "c \<noteq> NC_Unsupported \<and> (\<exists>pre post. curves = pre @ c # post \<and> set pre \<subseteq> {NC_Unsupported})"
    by simp
next
  assume "c \<noteq> NC_Unsupported \<and> (\<exists>pre post. curves = pre @ c # post \<and> set pre \<subseteq> {NC_Unsupported})"
  then obtain pre post where c: "c \<noteq> NC_Unsupported" "curves = pre @ c # post" "set pre \<subseteq> {NC_Unsupported}" by blast
  from c(3) have "find (\<lambda>c. c \<noteq> NC_Unsupported) (pre @ c # post) = Some c"
    using c(1) by (induction pre) auto
  with c(2) show "select_curve curves = Some c" by (simp add: select_curve_def)
qed

lemma matching_None: "find_matching as bs = None \<longleftrightarrow> (\<forall>a \<in> set as. a \<notin> set bs)"
  by (auto simp: find_matching_eq_find find_None_iff)

lemma matching_Some: "find_matching as bs = Some a \<Longrightarrow> a \<in> set as \<and> a \<in> set bs"
  by (auto simp: find_matching_eq_find find_Some_iff)

lemma matching_first:
  "find_matching as bs = Some a \<Longrightarrow> \<exists>pre post. as = pre @ a # post \<and> a \<in> set bs \<and> set pre \<inter> set bs = {}"
proof (induction as)
  case (Cons x as)
  show ?case
  proof (cases "x \<in> set bs")
    case True
    with Cons.prems show ?thesis by (auto simp: find_equal_iff intro: exI [of _ "[]"])
  next
    case False
    with Cons obtain pre post where "as = pre @ a # post" "a \<in> set bs" "set pre \<inter> set bs = {}"
      by (auto simp: find_equal_iff)
    with False show ?thesis by (intro exI [of _ "x # pre"] exI [of _ post]) auto
  qed
qed simp

lemma apply_extensions_ok:
  assumes "list_all (ext_acceptable cfg) es"
  shows "apply_extensions cfg es st = (applied cfg es st, Ok ())"
  using assms
proof (induction cfg es st rule: apply_extensions.induct)
  case (2 cfg curves es st)
  then obtain c where "select_curve curves = Some c"
    using select_curve_None [of curves] by auto
  with 2 show ?case by (simp add: applied_def)
next
  case (3 cfg profiles es st)
  then obtain p where "find_matching_srtp_profile profiles (cfg_local_srtp_protection_profiles cfg) = Some p"
    using matching_None [of profiles "cfg_local_srtp_protection_profiles cfg"]
    by (auto simp: find_matching_srtp_profile_def)
  with 3 show ?case by (simp add: applied_def)
qed (simp_all add: applied_def)

lemma apply_extensions_bad:
  assumes "\<not> list_all (ext_acceptable cfg) es"
  shows "\<exists>st' e. apply_extensions cfg es st = (st', Err (fatal AD_InsufficientSecurity (Some e)))
    \<and> e \<in> {ErrNoSupportedEllipticCurves, ErrServerNoMatchingSrtpProfile}"
  using assms
proof (induction cfg es st rule: apply_extensions.induct)
  case (2 cfg curves es st)
  then show ?case
    using select_curve_None [of curves] by (cases "select_curve curves") auto
next
  case (3 cfg profiles es st)
  then show ?case
    using matching_None [of profiles "cfg_local_srtp_protection_profiles cfg"]
    by (cases "find_matching_srtp_profile profiles (cfg_local_srtp_protection_profiles cfg)")
      (auto simp: find_matching_srtp_profile_def)
qed auto

lemma final_curve_supported:
  assumes "list_all (ext_acceptable cfg) es" and "d \<noteq> NC_Unsupported"
  shows "final_curve es d \<noteq> NC_Unsupported"
  using assms
proof (induction es d rule: final_curve.induct)
  case (2 curves es d)
  then obtain c where "select_curve curves = Some c"
    using select_curve_None [of curves] by auto
  moreover from this have "c \<noteq> NC_Unsupported" by (simp add: select_curve_Some)
  ultimately show ?case using 2 by simp
qed auto

lemma final_profile_member:
  assumes "list_all (ext_acceptable cfg) es"
  shows "final_profile cfg es d \<in> insert d (set (cfg_local_srtp_protection_profiles cfg))"
  using assms
proof (induction cfg es d rule: final_profile.induct)
  case (2 cfg profiles es d)
  then obtain p where p: "find_matching_srtp_profile profiles (cfg_local_srtp_protection_profiles cfg) = Some p"
    using matching_None [of profiles "cfg_local_srtp_protection_profiles cfg"]
    by (auto simp: find_matching_srtp_profile_def)
  then have "p \<in> set (cfg_local_srtp_protection_profiles cfg)"
    by (auto simp: find_matching_srtp_profile_def dest: matching_Some)
  with 2 p show ?case by auto
qed auto

text \<open>Applying the same extensions once more changes nothing.\<close>

lemma final_curve_twice: "final_curve es (final_curve es d) = final_curve es d"
proof -
  have "(\<forall>d. final_curve es d = d) \<or> (\<exists>c. \<forall>d. final_curve es d = c)"
  proof (induction es)
    case (Cons e es)
    then show ?case by (cases e) auto
  qed simp
  then show ?thesis by metis
qed

lemma final_profile_twice: "final_profile cfg es (final_profile cfg es d) = final_profile cfg es d"
proof -
  have "(\<forall>d. final_profile cfg es d = d) \<or> (\<exists>c. \<forall>d. final_profile cfg es d = c)"
  proof (induction es)
    case (Cons e es)
    then show ?case by (cases e) auto
  qed simp
  then show ?thesis by metis
qed

lemma final_name_twice: "final_name es (final_name es d) = final_name es d"
proof -
  have "(\<forall>d. final_name es d = d) \<or> (\<exists>c. \<forall>d. final_name es d = c)"
  proof (induction es)
    case (Cons e es)
    then show ?case by (cases e) auto
  qed simp
  then show ?thesis by metis
qed

lemma applied_twice: "applied cfg es (applied cfg es st) = applied cfg es st"
  by (auto simp: applied_def final_curve_twice final_profile_twice final_name_twice)

section \<open>When a hello is accepted\<close>

definition hello_acceptable :: "handshake_config \<Rightarrow> client_hello \<Rightarrow> 'k dtls_state \<Rightarrow> bool" where
  "hello_acceptable cfg ch st \<longleftrightarrow> ch_version ch = PROTOCOL_VERSION1_2
     \<and> (\<exists>s \<in> set (ch_cipher_suites ch). s \<in> set (cfg_local_cipher_suites cfg))
     \<and> list_all (ext_acceptable cfg) (ch_extensions ch)
     \<and> (cfg_extended_master_secret cfg = EMS_Require \<longrightarrow> st_extended_master_secret st \<or> offers_ems (ch_extensions ch))"

definition with_suite :: "handshake_config \<Rightarrow> client_hello \<Rightarrow> 'k dtls_state \<Rightarrow> 'k dtls_state" where
  "with_suite cfg ch st = (case find_matching_cipher_suite (ch_cipher_suites ch) (cfg_local_cipher_suites cfg) of
       None \<Rightarrow> st\<lparr>st_remote_random := ch_random ch\<rparr>
     | Some i \<Rightarrow> flight0_suite i (st\<lparr>st_remote_random := ch_random ch\<rparr>))"

lemma with_suite_frame:
  "st_named_curve (with_suite cfg ch st) = st_named_curve st"
  "st_local_keypair (with_suite cfg ch st) = st_local_keypair st"
  "st_srtp_protection_profile (with_suite cfg ch st) = st_srtp_protection_profile st"
  "st_extended_master_secret (with_suite cfg ch st) = st_extended_master_secret st"
  "st_cookie (with_suite cfg ch st) = st_cookie st"
  "st_handshake_recv_sequence (with_suite cfg ch st) = st_handshake_recv_sequence st"
  by (simp_all add: with_suite_def flight0_suite_def split: option.splits outcome.splits)

lemma applied_frame:
  "st_named_curve (applied cfg es st) = final_curve es (st_named_curve st)"
  "st_local_keypair (applied cfg es st) = st_local_keypair st"
  "st_srtp_protection_profile (applied cfg es st) = final_profile cfg es (st_srtp_protection_profile st)"
  "st_cipher_suite (applied cfg es st) = st_cipher_suite st"
  "st_cookie (applied cfg es st) = st_cookie st"
  "st_handshake_recv_sequence (applied cfg es st) = st_handshake_recv_sequence st"
  by (simp_all add: applied_def)

lemma flight0_hello_step:
  assumes "ch_version ch = PROTOCOL_VERSION1_2"
    and "find_matching_cipher_suite (ch_cipher_suites ch) (cfg_local_cipher_suites cfg) = Some i"
  shows "flight0_hello gen cfg ch st = (case apply_extensions cfg (ch_extensions ch) (with_suite cfg ch st) of
      (st, Err e) \<Rightarrow> (st, Err e)
    | (st, Panic) \<Rightarrow> (st, Panic)
    | (st, Ok _) \<Rightarrow> if cfg_extended_master_secret cfg = EMS_Require \<and> \<not> st_extended_master_secret st
        then (st, Err (fatal AD_InsufficientSecurity (Some ErrServerRequiredButNoClientEms)))
        else flight0_keypair gen st)"
  using assms by (simp add: flight0_hello_def with_suite_def)

lemma suite_found:
  "(\<exists>s \<in> set (ch_cipher_suites ch). s \<in> set (cfg_local_cipher_suites cfg)) \<longleftrightarrow>
     (\<exists>i. find_matching_cipher_suite (ch_cipher_suites ch) (cfg_local_cipher_suites cfg) = Some i)"
  using matching_None [of "ch_cipher_suites ch" "cfg_local_cipher_suites cfg"]
  by (auto simp: find_matching_cipher_suite_def)

lemma flight0_hello_ok:
  assumes "hello_acceptable cfg ch st"
  shows "flight0_hello gen cfg ch st = flight0_keypair gen (applied cfg (ch_extensions ch) (with_suite cfg ch st))"
proof -
  obtain i where "find_matching_cipher_suite (ch_cipher_suites ch) (cfg_local_cipher_suites cfg) = Some i"
    using assms suite_found by (auto simp: hello_acceptable_def)
  moreover have "apply_extensions cfg (ch_extensions ch) (with_suite cfg ch st)
      = (applied cfg (ch_extensions ch) (with_suite cfg ch st), Ok ())"
    using assms by (intro apply_extensions_ok) (simp add: hello_acceptable_def)
  moreover have "\<not> (cfg_extended_master_secret cfg = EMS_Require
      \<and> \<not> st_extended_master_secret (applied cfg (ch_extensions ch) (with_suite cfg ch st)))"
    using assms by (auto simp: hello_acceptable_def applied_def with_suite_frame)
  ultimately show ?thesis
    using assms by (auto simp: flight0_hello_step hello_acceptable_def)
qed

lemma flight0_hello_bad:
  assumes "\<not> hello_acceptable cfg ch st"
  shows "\<exists>st' d e. flight0_hello gen cfg ch st = (st', Err (fatal d (Some e)))
    \<and> d \<in> {AD_ProtocolVersion, AD_InsufficientSecurity}"
proof -
  let ?ems = "cfg_extended_master_secret cfg = EMS_Require \<and> \<not> st_extended_master_secret st
    \<and> \<not> offers_ems (ch_extensions ch)"
  consider "ch_version ch \<noteq> PROTOCOL_VERSION1_2"
    | "ch_version ch = PROTOCOL_VERSION1_2"
      "find_matching_cipher_suite (ch_cipher_suites ch) (cfg_local_cipher_suites cfg) = None"
    | i where "ch_version ch = PROTOCOL_VERSION1_2"
      "find_matching_cipher_suite (ch_cipher_suites ch) (cfg_local_cipher_suites cfg) = Some i"
      "\<not> list_all (ext_acceptable cfg) (ch_extensions ch) \<or> (list_all (ext_acceptable cfg) (ch_extensions ch) \<and> ?ems)"
    using assms suite_found [of ch cfg] unfolding hello_acceptable_def by fastforce
  then show ?thesis
  proof cases
    case (3 i)
    show ?thesis
    proof (cases "list_all (ext_acceptable cfg) (ch_extensions ch)")
      case True
      with 3 have "\<not> st_extended_master_secret (applied cfg (ch_extensions ch) (with_suite cfg ch st))"
        by (simp add: applied_def with_suite_frame)
      with 3 True show ?thesis
        by (simp add: flight0_hello_step apply_extensions_ok)
    next
      case False
      with 3 apply_extensions_bad [OF False, of "with_suite cfg ch st"] show ?thesis
        by (auto simp: flight0_hello_step)
    qed
  qed (simp_all add: flight0_hello_def)
qed

lemma flight0_hello_success:
  assumes "flight0_hello gen cfg ch st = (st', Ok f)"
  shows "hello_acceptable cfg ch st" and "f = Flight2"
    and "st_local_keypair st \<noteq> None \<Longrightarrow> st' = applied cfg (ch_extensions ch) (with_suite cfg ch st)"
    and "st_local_keypair st = None \<Longrightarrow> final_curve (ch_extensions ch) (st_named_curve st) \<noteq> NC_Unsupported
      \<and> st' = (applied cfg (ch_extensions ch) (with_suite cfg ch st))\<lparr>st_local_keypair :=
        Some (elliptic_curve_keypair gen (final_curve (ch_extensions ch) (st_named_curve st)))\<rparr>"
proof -
  show ok: "hello_acceptable cfg ch st"
    using assms flight0_hello_bad [of cfg ch st gen] by fastforce
  note result = assms [unfolded flight0_hello_ok [OF ok]]
  show "f = Flight2"
    using result by (auto simp: flight0_keypair_def split: if_splits outcome.splits)
  show "st' = applied cfg (ch_extensions ch) (with_suite cfg ch st)" if "st_local_keypair st \<noteq> None"
    using result that by (simp add: flight0_keypair_def applied_frame with_suite_frame)
  show "final_curve (ch_extensions ch) (st_named_curve st) \<noteq> NC_Unsupported
      \<and> st' = (applied cfg (ch_extensions ch) (with_suite cfg ch st))\<lparr>st_local_keypair :=
        Some (elliptic_curve_keypair gen (final_curve (ch_extensions ch) (st_named_curve st)))\<rparr>"
    if "st_local_keypair st = None"
    using result that
    by (auto simp: flight0_keypair_def applied_frame with_suite_frame generate_keypair_def split: named_curve.splits)
qed

lemma flight0_hello_accepted:
  assumes "hello_acceptable cfg ch st" and "flight0_hello gen cfg ch st = (st', out)"
    and "st_named_curve st \<noteq> NC_Unsupported"
  shows "out = Ok Flight2"
    and "st' = (applied cfg (ch_extensions ch) (with_suite cfg ch st))\<lparr>st_local_keypair :=
      (case st_local_keypair st of None \<Rightarrow> Some (elliptic_curve_keypair gen (st_named_curve st')) | k \<Rightarrow> k)\<rparr>"
    and "st_named_curve st' \<noteq> NC_Unsupported"
proof -
  let ?c = "final_curve (ch_extensions ch) (st_named_curve st)"
  have c: "?c \<noteq> NC_Unsupported"
    using assms(1,3) by (intro final_curve_supported [of cfg]) (simp_all add: hello_acceptable_def)
  then show ok: "out = Ok Flight2"
    using assms(2) unfolding flight0_hello_ok [OF assms(1)]
    by (auto simp: flight0_keypair_def applied_frame with_suite_frame generate_keypair_def
        split: if_splits named_curve.splits)
  note success = flight0_hello_success(3,4) [OF assms(2) [unfolded ok]]
  have st': "st' = (applied cfg (ch_extensions ch) (with_suite cfg ch st))\<lparr>st_local_keypair :=
      (case st_local_keypair st of None \<Rightarrow> Some (elliptic_curve_keypair gen (st_named_curve st')) | k \<Rightarrow> k)\<rparr>"
  proof (cases "st_local_keypair st")
    case None
    with success(2) show ?thesis by (simp add: applied_frame with_suite_frame)
  next
    case (Some k)
    then have "st_local_keypair (applied cfg (ch_extensions ch) (with_suite cfg ch st)) = Some k"
      by (simp add: applied_frame with_suite_frame)
    with success(1) Some show ?thesis by simp
  qed
  then show "st' = (applied cfg (ch_extensions ch) (with_suite cfg ch st))\<lparr>st_local_keypair :=
      (case st_local_keypair st of None \<Rightarrow> Some (elliptic_curve_keypair gen (st_named_curve st')) | k \<Rightarrow> k)\<rparr>" .
  have "st_named_curve st' = st_named_curve (applied cfg (ch_extensions ch) (with_suite cfg ch st))"
    by (subst st') simp
  with c show "st_named_curve st' \<noteq> NC_Unsupported" by (simp add: applied_frame with_suite_frame)
qed

text \<open>The state an accepted hello leaves, when \<open>i\<close> is the agreed suite: what it sets, field by field.\<close>

definition accepted_state :: "(named_curve \<Rightarrow> byte list \<times> 'k) \<Rightarrow> handshake_config \<Rightarrow> client_hello
    \<Rightarrow> cipher_suite_id \<Rightarrow> 'k dtls_state \<Rightarrow> 'k dtls_state" where
  "accepted_state gen cfg ch i st =
     st\<lparr>st_remote_random := ch_random ch,
       st_cipher_suite := (case cipher_suite_for_id i of Ok cs \<Rightarrow> Some cs | _ \<Rightarrow> st_cipher_suite st),
       st_srtp_protection_profile := final_profile cfg (ch_extensions ch) (st_srtp_protection_profile st),
       st_extended_master_secret := (st_extended_master_secret st
         \<or> (cfg_extended_master_secret cfg \<noteq> EMS_Disable \<and> offers_ems (ch_extensions ch))),
       st_named_curve := final_curve (ch_extensions ch) (st_named_curve st),
       st_server_name := final_name (ch_extensions ch) (st_server_name st),
       st_local_keypair := (case st_local_keypair st of
           None \<Rightarrow> Some (elliptic_curve_keypair gen (final_curve (ch_extensions ch) (st_named_curve st)))
         | Some k \<Rightarrow> Some k)\<rparr>"

text \<open>
  C28. Which client hellos the server answers, and with what state: exactly those of DTLS 1.2 that
  share a cipher suite with it, whose curve lists each contain a curve it can do, whose SRTP lists
  each share a profile with it, and that offer the extended master secret where it is required. The
  state an accepted hello leaves is the old one with the client's random, the first suite of the
  client that the server has (every one before it is unknown to the server), the curve, profile and
  server name of the last extension of each kind, the extended master secret when it was agreed
  before or is offered and not disabled, and a key pair: the one it had, or a new one for that curve,
  which is a supported one. The others are refused with a fatal alert and a specific error, and no
  hello at all leads to the failure "invalid named curve" (the failure that made the server
  unreachable from browsers listing an unknown curve first).
\<close>

theorem flight0_accepts_exactly:
  assumes "st_named_curve st \<noteq> NC_Unsupported" and "flight0_hello gen cfg ch st = (st', out)"
  shows "(hello_acceptable cfg ch st \<longleftrightarrow> out = Ok Flight2)
    \<and> (hello_acceptable cfg ch st \<longrightarrow> (\<exists>pre i post. ch_cipher_suites ch = pre @ i # post
        \<and> i \<in> set (cfg_local_cipher_suites cfg) \<and> set pre \<inter> set (cfg_local_cipher_suites cfg) = {}
        \<and> st' = accepted_state gen cfg ch i st
        \<and> st_named_curve st' \<noteq> NC_Unsupported))
    \<and> (\<not> hello_acceptable cfg ch st \<longrightarrow> (\<exists>d e. out = Err (fatal d (Some e))))
    \<and> out \<noteq> Err (fatal AD_IllegalParameter (Some ErrInvalidNamedCurve))"
proof (cases "hello_acceptable cfg ch st")
  case True
  note acc = flight0_hello_accepted [OF True assms(2,1)]
  obtain i where i: "find_matching_cipher_suite (ch_cipher_suites ch) (cfg_local_cipher_suites cfg) = Some i"
    using True suite_found by (auto simp: hello_acceptable_def)
  then obtain pre post where suites: "ch_cipher_suites ch = pre @ i # post"
      "i \<in> set (cfg_local_cipher_suites cfg)" "set pre \<inter> set (cfg_local_cipher_suites cfg) = {}"
    by (auto simp: find_matching_cipher_suite_def dest: matching_first)
  have curve: "st_named_curve st' = final_curve (ch_extensions ch) (st_named_curve st)"
    by (subst acc(2)) (simp add: applied_frame with_suite_frame)
  have "st' = accepted_state gen cfg ch i st"
    by (rule trans [OF acc(2) [unfolded curve]])
      (simp add: accepted_state_def applied_def with_suite_def i flight0_suite_def split: outcome.splits option.splits)
  with suites acc(1,3) True show ?thesis by auto
next
  case False
  from flight0_hello_bad [OF False, of gen] assms(2) obtain d e where
    "out = Err (fatal d (Some e))" "d \<in> {AD_ProtocolVersion, AD_InsufficientSecurity}"
    by auto
  with False show ?thesis by auto
qed

fun is_curves :: "extension \<Rightarrow> bool" where
  "is_curves (SupportedEllipticCurves _) = True"
| "is_curves _ = False"

lemma final_curve_single:
  "filter is_curves es = [SupportedEllipticCurves curves] \<Longrightarrow> final_curve es d = the (select_curve curves)"
proof (induction es d rule: final_curve.induct)
  case (2 cs es d)
  have "final_curve es c = c" for c
    using 2(2) by (induction es c rule: final_curve.induct) auto
  with 2(2) show ?case by simp
qed auto

text \<open>
  C26. The curve is negotiated, not taken blindly: when a hello with one curve list is accepted, the
  server's curve is the first one of the list that it can do (every curve before it is unknown to
  it), and the key pair it makes is for that curve.
\<close>

theorem curve_negotiated:
  assumes "flight0_hello gen cfg ch st = (st', Ok f)" and "st_local_keypair st = None"
    and "filter is_curves (ch_extensions ch) = [SupportedEllipticCurves curves]"
  shows "\<exists>pre c post. curves = pre @ c # post \<and> set pre \<subseteq> {NC_Unsupported} \<and> c \<noteq> NC_Unsupported
    \<and> st_named_curve st' = c \<and> st_local_keypair st' = Some (elliptic_curve_keypair gen c)"
proof -
  have "SupportedEllipticCurves curves \<in> set (ch_extensions ch)"
    using assms(3) by (metis filter_is_subset list.set_intros(1) subsetD)
  with flight0_hello_success(1) [OF assms(1)] have "select_curve curves \<noteq> None"
    unfolding select_curve_None hello_acceptable_def list_all_iff by fastforce
  then obtain c where c: "select_curve curves = Some c" by blast
  with flight0_hello_success(4) [OF assms(1,2)] final_curve_single [OF assms(3), of "st_named_curve st"]
  show ?thesis by (auto simp: applied_frame with_suite_frame select_curve_Some)
qed

lemma final_profile_cases:
  assumes "list_all (ext_acceptable cfg) es"
  shows "final_profile cfg es d \<in> set (cfg_local_srtp_protection_profiles cfg)
    \<or> ((\<forall>ps. UseSrtp ps \<notin> set es) \<and> final_profile cfg es d = d)"
  using assms
proof (induction cfg es d rule: final_profile.induct)
  case (2 cfg ps es d)
  then obtain p where p: "find_matching_srtp_profile ps (cfg_local_srtp_protection_profiles cfg) = Some p"
    using matching_None [of ps "cfg_local_srtp_protection_profiles cfg"]
    by (auto simp: find_matching_srtp_profile_def)
  then have "p \<in> set (cfg_local_srtp_protection_profiles cfg)"
    by (auto simp: find_matching_srtp_profile_def dest: matching_Some)
  moreover have "final_profile cfg es p \<in> set (cfg_local_srtp_protection_profiles cfg) \<or> final_profile cfg es p = p"
    using 2 p by auto
  ultimately show ?case using p by auto
qed auto

lemma flight0_hello_profile:
  assumes "flight0_hello gen cfg ch st = (st', Ok f)"
  shows "st_srtp_protection_profile st' = final_profile cfg (ch_extensions ch) (st_srtp_protection_profile st)"
  using flight0_hello_success(3,4) [OF assms]
  by (cases "st_local_keypair st = None") (simp_all add: applied_frame with_suite_frame)

text \<open>
  C27. The restricted offer keeps AES-256-GCM out: with the profiles the transport configures, no client
  hello can make the server agree on \<^verbatim>\<open>Srtp_Aead_Aes_256_Gcm\<close> (on which the SRTP layer panics) or on
  an unknown profile: it agrees on one of the two configured ones, or the hello does not mention SRTP
  and the profile stays what it was. A client that lists none of the two is refused.
\<close>

theorem srtp_never_256:
  assumes "cfg_local_srtp_protection_profiles cfg = setting_engine_profiles"
    and "flight0_hello gen cfg ch st = (st', Ok f)"
  shows "(st_srtp_protection_profile st' \<in> {Srtp_Aead_Aes_128_Gcm, Srtp_Aes128_Cm_Hmac_Sha1_80}
      \<or> ((\<forall>ps. UseSrtp ps \<notin> set (ch_extensions ch)) \<and> st_srtp_protection_profile st' = st_srtp_protection_profile st))
    \<and> (\<forall>ps. UseSrtp ps \<in> set (ch_extensions ch) \<longrightarrow> \<not> set ps \<subseteq> {Srtp_Aead_Aes_256_Gcm, Srtp_Unsupported})"
proof -
  have es: "list_all (ext_acceptable cfg) (ch_extensions ch)"
    using flight0_hello_success(1) [OF assms(2)] by (simp add: hello_acceptable_def)
  have "\<not> set ps \<subseteq> {Srtp_Aead_Aes_256_Gcm, Srtp_Unsupported}" if "UseSrtp ps \<in> set (ch_extensions ch)" for ps
  proof -
    from es that have "ext_acceptable cfg (UseSrtp ps)" by (auto simp: list_all_iff)
    then show ?thesis using assms(1) by (auto simp: setting_engine_profiles_def)
  qed
  with final_profile_cases [OF es, of "st_srtp_protection_profile st"] flight0_hello_profile [OF assms(2)] assms(1)
  show ?thesis by (auto simp: setting_engine_profiles_def)
qed

section \<open>Retransmitted hellos\<close>

lemma with_suite_twice: "with_suite cfg ch (applied cfg es (with_suite cfg ch st)) = applied cfg es (with_suite cfg ch st)"
  by (simp add: with_suite_def flight0_suite_def applied_def split: option.splits outcome.splits)

lemma with_suite_keypair: "with_suite cfg ch (st\<lparr>st_local_keypair := k\<rparr>) = (with_suite cfg ch st)\<lparr>st_local_keypair := k\<rparr>"
  by (simp add: with_suite_def flight0_suite_def split: option.splits outcome.splits)

lemma applied_keypair: "applied cfg es (st\<lparr>st_local_keypair := k\<rparr>) = (applied cfg es st)\<lparr>st_local_keypair := k\<rparr>"
  by (simp add: applied_def)

lemma flight0_hello_again:
  assumes "flight0_hello gen cfg ch st = (st', Ok f)"
  shows "flight0_hello gen' cfg ch st' = (st', Ok f)"
proof -
  let ?applied = "applied cfg (ch_extensions ch) (with_suite cfg ch st)"
  note ok = flight0_hello_success [OF assms]
  obtain k where st': "st' = ?applied\<lparr>st_local_keypair := Some k\<rparr>"
  proof (cases "st_local_keypair st")
    case None
    with ok(4) that show ?thesis by blast
  next
    case (Some k)
    then have "st' = ?applied" using ok(3) by simp
    moreover have "?applied\<lparr>st_local_keypair := Some k\<rparr> = ?applied"
      using Some applied_frame(2) [of cfg "ch_extensions ch" "with_suite cfg ch st"] with_suite_frame(2) [of cfg ch st]
      by simp
    ultimately show ?thesis by (intro that [of k]) simp
  qed
  have "applied cfg (ch_extensions ch) (with_suite cfg ch st') = st'"
    by (simp add: st' with_suite_keypair applied_keypair with_suite_twice applied_twice)
  moreover have "hello_acceptable cfg ch st'"
    using ok(1) by (auto simp: hello_acceptable_def st' applied_def with_suite_frame)
  ultimately show ?thesis
    using ok(2) st' by (simp add: flight0_hello_ok flight0_keypair_def)
qed

lemma recv_sequence_hello:
  "flight0_hello gen cfg ch st = (st', Ok f) \<Longrightarrow> st_handshake_recv_sequence st' = st_handshake_recv_sequence st"
  using flight0_hello_success(3,4)
  by (cases "st_local_keypair st = None") (fastforce simp: applied_frame with_suite_frame)+

lemma cookie_hello: "flight0_hello gen cfg ch st = (st', Ok f) \<Longrightarrow> st_cookie st' = st_cookie st"
  using flight0_hello_success(3,4)
  by (cases "st_local_keypair st = None") (fastforce simp: applied_frame with_suite_frame)+

lemma flight0_parse_success:
  assumes "flight0_parse gen cfg cache st = (st', Ok f)"
  shows "\<exists>sq msgs ch. full_pull_map cache 0 [client_hello_rule cfg] = Ok (sq, msgs)
    \<and> msgs HT_ClientHello = Some (MsgClientHello ch)
    \<and> flight0_hello gen cfg ch (st\<lparr>st_handshake_recv_sequence := sq\<rparr>) = (st', Ok f)"
  using assms
  by (auto simp: flight0_parse_def Let_def split: outcome.splits option.splits handshake_message.splits)

text \<open>
  A retransmitted hello changes nothing: once flight 0 has accepted the hello in the cache, parsing
  the same cache again, as flight 2 does when the answer was lost, succeeds and leaves the state as
  it is. In particular the ephemeral key pair, the curve and the cipher suite are not replaced, even
  if fresh keys are at hand.
\<close>

theorem flight0_parse_idempotent:
  assumes "flight0_parse gen cfg cache st = (st', Ok f)"
  shows "flight0_parse gen' cfg cache st' = (st', Ok f)"
proof -
  from assms obtain sq msgs ch where p: "full_pull_map cache 0 [client_hello_rule cfg] = Ok (sq, msgs)"
      "msgs HT_ClientHello = Some (MsgClientHello ch)"
      "flight0_hello gen cfg ch (st\<lparr>st_handshake_recv_sequence := sq\<rparr>) = (st', Ok f)"
    using flight0_parse_success by blast
  have "st_handshake_recv_sequence st' = sq"
    using recv_sequence_hello [OF p(3)] by simp
  then have "st'\<lparr>st_handshake_recv_sequence := sq\<rparr> = st'" by simp
  with flight0_hello_again [OF p(3), of gen'] p(1,2) show ?thesis
    by (simp add: flight0_parse_def)
qed

text \<open>
  The cookie is checked: flight 2 moves on to flight 4 exactly when the next hello is of DTLS 1.2 and
  carries the non-empty cookie the server sent; a wrong cookie is refused with an access-denied alert,
  an absent one is ignored, and nothing of the negotiated state changes.
\<close>

theorem flight2_checks_cookie:
  assumes "full_pull_map cache (st_handshake_recv_sequence st) [client_hello_rule cfg] = Ok (sq, msgs)"
    and "msgs HT_ClientHello = Some (MsgClientHello ch)"
    and "flight2_parse gen cfg cache st = (st', out)"
  shows "st' = st\<lparr>st_handshake_recv_sequence := sq\<rparr>
    \<and> (out = Ok Flight4 \<longleftrightarrow> ch_version ch = PROTOCOL_VERSION1_2 \<and> ch_cookie ch \<noteq> [] \<and> ch_cookie ch = st_cookie st)
    \<and> (ch_version ch = PROTOCOL_VERSION1_2 \<and> ch_cookie ch \<noteq> [] \<and> ch_cookie ch \<noteq> st_cookie st \<longrightarrow>
        out = Err (fatal AD_AccessDenied (Some ErrCookieMismatch)))"
  using assms by (auto simp: flight2_parse_def flight2_hello_def Let_def split: if_splits)

section \<open>The cookie exchange\<close>

definition hello_ok :: "client_hello \<Rightarrow> bool" where
  "hello_ok ch \<longleftrightarrow> client_hello_ok ch \<and> message_size (MsgClientHello ch) < 0x1000000"

abbreviation hello_item :: "u16 \<Rightarrow> client_hello \<Rightarrow> cache_item" where
  "hello_item n ch \<equiv> sent_item n (MsgClientHello ch)"

lemma hello_rule_matches: "cfg_initial_epoch cfg = 0 \<Longrightarrow> rule_matches (client_hello_rule cfg) (hello_item n ch)"
  by (simp add: rule_matches_def client_hello_rule_def sent_item_def)

lemma pull_hello:
  assumes "select_item (client_hello_rule cfg) None cache = Some (hello_item n ch)" and "hello_ok ch"
    and "word_of_int sq = n"
  shows "full_pull_map cache sq [client_hello_rule cfg] = Ok (sq + 1, [HT_ClientHello \<mapsto> MsgClientHello ch])"
proof -
  obtain rest where "handshake_unmarshal (ci_data (hello_item n ch)) = Ok (demo_handshake n (MsgClientHello ch), rest)"
    using sent_item_parses [of "MsgClientHello ch" n] assms(2) by (auto simp: hello_ok_def)
  moreover have "pr_typ (client_hello_rule cfg) = HT_ClientHello"
    by (simp add: client_hello_rule_def)
  ultimately show ?thesis
    using assms(1,3) by (simp add: full_pull_map_def demo_handshake_def)
qed

lemma generate2_delivered:
  assumes "length (st_cookie st) \<le> 255"
  shows "\<exists>pk bs rest. snd (flight2_generate st) = [pk] \<and> record_layer_marshal (pk_record pk) = Ok bs
    \<and> record_layer_unmarshal bs = Ok (pk_record pk, rest)
    \<and> rl_content (pk_record pk) = Handshake (handshake_new
        (MsgHelloVerifyRequest \<lparr>hvr_version = PROTOCOL_VERSION1_2, hvr_cookie = st_cookie st\<rparr>))"
proof -
  let ?m = "MsgHelloVerifyRequest \<lparr>hvr_version = PROTOCOL_VERSION1_2, hvr_cookie = st_cookie st\<rparr>"
  let ?r = "record_layer_new PROTOCOL_VERSION1_2 0 (Handshake (handshake_new ?m))"
  have "message_size ?m < 0x1000000"
    using assms by (simp add: hello_verify_request_size_def)
  then have "record_ok ?r"
    using assms by (simp add: record_ok_def record_layer_new_def handshake_ok_def handshake_new_def header_ok_def
        word_less_nat_alt unat_of_nat)
  from record_dec_enc [OF this] show ?thesis
    by (auto simp: flight2_generate_def record_layer_new_def MAX_SEQUENCE_NUMBER_def)
qed

text \<open>
  The first exchange of a handshake, server and wire together: the server prepares flight 0, finds
  an acceptable hello in its cache, and answers with a hello verify request; the client that reads
  the record and repeats a hello with the cookie it found there, as the next message, takes the
  server to flight 4, with the parameters and the key pair agreed in flight 0 unchanged.
\<close>

theorem hello_exchange:
  assumes "cfg_initial_epoch cfg = 0" and "length (rnd COOKIE_LENGTH) = COOKIE_LENGTH"
    and "hello_ok ch1" and "hello_acceptable cfg ch1 st" and "st_local_keypair st = None"
    and "flight0_parse gen cfg [hello_item 0 ch1] (flight0_generate rnd lr st) = (st1, out)"
    and "hello_ok ch2" and "ch_version ch2 = PROTOCOL_VERSION1_2"
    and "flight2_generate st1 = (st2, [pk])"
    and "rl_content (pk_record pk) = Handshake hs" and "hs_message hs = MsgHelloVerifyRequest hvr"
    and "ch_cookie ch2 = hvr_cookie hvr"
  shows "out = Ok Flight2
    \<and> (\<exists>bs rest. record_layer_marshal (pk_record pk) = Ok bs \<and> record_layer_unmarshal bs = Ok (pk_record pk, rest))
    \<and> flight2_parse gen cfg [hello_item 0 ch1, hello_item 1 ch2] st2
        = (st1\<lparr>st_handshake_send_sequence := 0, st_handshake_recv_sequence := 2\<rparr>, Ok Flight4)"
proof -
  let ?st0 = "(flight0_generate rnd lr st)\<lparr>st_handshake_recv_sequence := 1\<rparr>"
  have "select_item (client_hello_rule cfg) None [hello_item 0 ch1] = Some (hello_item 0 ch1)"
    using hello_rule_matches [OF assms(1)] by simp
  from pull_hello [OF this assms(3), of 0] have parse: "flight0_hello gen cfg ch1 ?st0 = (st1, out)"
    using assms(6) by (simp add: flight0_parse_def)
  have "hello_acceptable cfg ch1 ?st0"
    using assms(4) by (simp add: hello_acceptable_def flight0_generate_def)
  moreover have "st_named_curve ?st0 \<noteq> NC_Unsupported"
    by (simp add: flight0_generate_def DEFAULT_NAMED_CURVE_def)
  then have "final_curve (ch_extensions ch1) (st_named_curve ?st0) \<noteq> NC_Unsupported"
    using calculation by (intro final_curve_supported [of cfg]) (simp_all add: hello_acceptable_def)
  ultimately have out: "out = Ok Flight2"
    using parse by (auto simp: flight0_hello_ok flight0_keypair_def applied_frame with_suite_frame generate_keypair_def
        split: if_splits named_curve.splits)
  have st1: "st_cookie st1 = rnd COOKIE_LENGTH" "st_handshake_recv_sequence st1 = 1"
    using flight0_hello_success(4) [OF parse [unfolded out]] assms(5)
    by (auto simp: applied_frame with_suite_frame flight0_generate_def)
  have st2: "st2 = st1\<lparr>st_handshake_send_sequence := 0\<rparr>" "snd (flight2_generate st1) = [pk]"
    using assms(9) by (simp_all add: flight2_generate_def)
  with generate2_delivered [of st1] st1(1) assms(2,10,11) have wire:
      "\<exists>bs rest. record_layer_marshal (pk_record pk) = Ok bs \<and> record_layer_unmarshal bs = Ok (pk_record pk, rest)"
    and cookie: "hvr_cookie hvr = st_cookie st1"
    by (auto simp: COOKIE_LENGTH_def handshake_new_def)
  have "select_item (client_hello_rule cfg) None [hello_item 0 ch1, hello_item 1 ch2] = Some (hello_item 1 ch2)"
    using hello_rule_matches [OF assms(1)] by (simp add: sent_item_def)
  from pull_hello [OF this assms(7), of 1] have
    "full_pull_map [hello_item 0 ch1, hello_item 1 ch2] (st_handshake_recv_sequence st2) [client_hello_rule cfg]
       = Ok (2, [HT_ClientHello \<mapsto> MsgClientHello ch2])"
    by (simp add: st2(1) st1(2))
  moreover have "ch_cookie ch2 \<noteq> []"
    using assms(2,12) cookie st1(1) by (auto simp: COOKIE_LENGTH_def)
  ultimately have "flight2_parse gen cfg [hello_item 0 ch1, hello_item 1 ch2] st2
      = (st1\<lparr>st_handshake_send_sequence := 0, st_handshake_recv_sequence := 2\<rparr>, Ok Flight4)"
    using assms(8,12) cookie by (simp add: flight2_parse_def flight2_hello_def st2(1))
  with out wire show ?thesis by blast
qed

section \<open>Cipher suites and signature schemes\<close>

lemma cipher_suite_for_id_id: "cipher_suite_for_id i = Ok cs \<Longrightarrow> cs_id cs = i \<and> i \<noteq> CS_Unsupported"
  by (cases i) (auto simp: new_aes_128_ccm_def new_aes_128_gcm_sha256_def new_aes_256_cbc_sha_def new_psk_aes_128_gcm_sha256_def)

lemma cipher_suites_for_ids_ids: "cipher_suites_for_ids is = Ok css \<Longrightarrow> map cs_id css = is \<and> CS_Unsupported \<notin> set is"
  by (induction "is" arbitrary: css) (auto simp: obind_eq_Ok dest!: cipher_suite_for_id_id)

lemma default_cipher_suites_ids:
  "cs \<in> set default_cipher_suites \<Longrightarrow> cipher_suite_for_id (cs_id cs) = Ok cs \<and> \<not> cs_is_psk cs"
  by (auto simp: default_cipher_suites_def new_aes_128_gcm_sha256_def new_aes_256_cbc_sha_def)

lemma cipher_suites_for_ids_mem:
  "cipher_suites_for_ids is = Ok css \<Longrightarrow> cs \<in> set css \<Longrightarrow> cipher_suite_for_id (cs_id cs) = Ok cs"
proof (induction "is" arbitrary: css)
  case (Cons i "is")
  then obtain c cs' where "cipher_suite_for_id i = Ok c" "cipher_suites_for_ids is = Ok cs'" "css = c # cs'"
    by (auto simp: obind_eq_Ok)
  with Cons cipher_suite_for_id_id [of i c] show ?case by auto
qed simp

lemma parse_cipher_suites_mem:
  assumes "parse_cipher_suites ids exclude_psk exclude_non_psk = Ok suites" and "cs \<in> set suites"
  shows "cipher_suite_for_id (cs_id cs) = Ok cs" and "exclude_psk \<Longrightarrow> \<not> cs_is_psk cs"
    and "exclude_non_psk \<Longrightarrow> cs_is_psk cs"
  using assms default_cipher_suites_ids cipher_suites_for_ids_mem
  by (auto simp: parse_cipher_suites_def obind_eq_Ok Let_def split: if_splits)

text \<open>
  A configured server never runs without a cipher suite: when its suites come from the
  configuration, an accepted hello leaves it with a suite that the client offered, the configuration
  allows and, without a pre-shared key, is not a PSK suite.
\<close>

theorem accepted_hello_has_suite:
  assumes "parse_cipher_suites ids (psk = None) (psk \<noteq> None) = Ok suites"
    and "cfg_local_cipher_suites cfg = map cs_id suites"
    and "flight0_hello gen cfg ch st = (st', Ok f)"
  shows "\<exists>cs \<in> set suites. st_cipher_suite st' = Some cs \<and> cs_id cs \<in> set (ch_cipher_suites ch)
    \<and> (cs_is_psk cs \<longleftrightarrow> psk \<noteq> None)"
proof -
  note ok = flight0_hello_success [OF assms(3)]
  have st': "st_cipher_suite st' = st_cipher_suite (with_suite cfg ch st)"
    using ok(3,4) by (cases "st_local_keypair st = None") (simp_all add: applied_frame)
  obtain i where i: "find_matching_cipher_suite (ch_cipher_suites ch) (cfg_local_cipher_suites cfg) = Some i"
    using ok(1) suite_found by (auto simp: hello_acceptable_def)
  then have mem: "i \<in> set (ch_cipher_suites ch)" "i \<in> cs_id ` set suites"
    using matching_Some [of "ch_cipher_suites ch" "cfg_local_cipher_suites cfg" i] assms(2)
    by (auto simp: find_matching_cipher_suite_def)
  then obtain cs where cs: "cs \<in> set suites" "i = cs_id cs" by blast
  note facts = parse_cipher_suites_mem [OF assms(1) cs(1)]
  have "st_cipher_suite (with_suite cfg ch st) = Some cs"
    using i cs(2) facts(1) by (simp add: with_suite_def flight0_suite_def)
  moreover have "cs_is_psk cs \<longleftrightarrow> psk \<noteq> None"
    using facts(2,3) by (cases "psk = None") auto
  ultimately show ?thesis using st' cs mem(1) by auto
qed

lemma parse_schemes_secure:
  assumes "parse_schemes sigs insecure = Ok out" and "ss \<in> set out"
  shows "sha_signature ss \<noteq> SA_Unsupported \<and> sha_hash ss \<noteq> HA_Unsupported \<and> sha_hash ss \<noteq> HA_Md2
    \<and> (hash_insecure (sha_hash ss) \<longrightarrow> insecure)"
  using assms
proof (induction sigs arbitrary: out)
  case (Cons s sigs)
  then show ?case
    by (auto simp: Let_def obind_eq_Ok hash_invalid_def split: if_splits)
qed simp

lemma select_scheme_first:
  "select_signature_scheme sigs key = (case find (\<lambda>ss. is_compatible ss key) sigs of
     Some ss \<Rightarrow> Ok ss | None \<Rightarrow> Err ErrNoAvailableSignatureSchemes)"
  by (induction sigs) auto

text \<open>
  Signature schemes: what the configuration parses to is never empty and contains no unknown
  signature, no unknown hash and never MD2, and MD5 or SHA-1 only if insecure hashes were allowed;
  the scheme selected for a key is the most preferred compatible one, and there is one exactly when
  some scheme is compatible.
\<close>

theorem signature_schemes_secure:
  assumes "parse_signature_schemes sigs insecure = Ok out"
  shows "out \<noteq> [] \<and> (\<forall>ss \<in> set out. sha_signature ss \<noteq> SA_Unsupported \<and> sha_hash ss \<notin> {HA_Unsupported, HA_Md2}
      \<and> (sha_hash ss \<in> {HA_Md5, HA_Sha1} \<longrightarrow> insecure))
    \<and> select_signature_scheme out key = (case find (\<lambda>ss. is_compatible ss key) out of
        Some ss \<Rightarrow> Ok ss | None \<Rightarrow> Err ErrNoAvailableSignatureSchemes)"
proof (cases "sigs = []")
  case True
  with assms show ?thesis
    by (auto simp: parse_signature_schemes_def default_signature_schemes_def select_scheme_first)
next
  case False
  with assms have "parse_schemes sigs insecure = Ok out" "out \<noteq> []"
    by (auto simp: parse_signature_schemes_def obind_eq_Ok split: if_splits)
  with parse_schemes_secure [of sigs insecure out] show ?thesis
    by (auto simp: select_scheme_first hash_insecure_def)
qed

section \<open>A browser's hello\<close>

text \<open>
  A hello as a browser with post-quantum key agreement sends it: the curve with the code 0x11ec, which
  the implementation does not know, comes first, X25519 and P-256 follow; the SRTP list of another
  client that prefers AES-256-GCM is added.
\<close>

definition browser_hello :: "byte list \<Rightarrow> client_hello" where
  "browser_hello cookie = demo_client_hello\<lparr>ch_cookie := cookie,
     ch_extensions := [SupportedEllipticCurves (map named_curve_from [0x11ec, 0x001d, 0x0017]),
       UseSrtp [Srtp_Aead_Aes_256_Gcm, Srtp_Aead_Aes_128_Gcm], UseExtendedMasterSecret True]\<rparr>"

definition server_cfg :: handshake_config where
  "server_cfg = \<lparr>cfg_local_psk_callback = None, cfg_local_psk_identity_hint = None,
     cfg_local_cipher_suites = map cs_id default_cipher_suites, cfg_local_signature_schemes = default_signature_schemes,
     cfg_extended_master_secret = EMS_Request, cfg_local_srtp_protection_profiles = setting_engine_profiles,
     cfg_server_name = [], cfg_client_auth = RequireAnyClientCert,
     cfg_local_certificates = [\<lparr>cert_certificate = [[48]], cert_private_key = \<lparr>key_kind = Ecdsa256, key_serialized_der = [1]\<rparr>\<rparr>],
     cfg_name_to_certificate = Map.empty, cfg_insecure_skip_verify = True, cfg_insecure_verification = False,
     cfg_verify_peer_certificate = None, cfg_server_cert_verifier = (\<lambda>_ _ _. Ok ()), cfg_client_cert_verifier = None,
     cfg_initial_epoch = 0\<rparr>"

definition initial_state :: "nat dtls_state" where
  "initial_state = \<lparr>st_local_epoch = 0, st_remote_epoch = 0, st_local_random = demo_random, st_remote_random = demo_random,
     st_master_secret = [], st_cipher_suite = None, st_srtp_protection_profile = Srtp_Unsupported, st_peer_certificates = [],
     st_identity_hint = [], st_is_client = False, st_pre_master_secret = [], st_extended_master_secret = False,
     st_named_curve = NC_Unsupported, st_local_keypair = None, st_cookie = [], st_handshake_send_sequence = 0,
     st_handshake_recv_sequence = 0, st_server_name = [], st_remote_requested_certificate = False,
     st_local_certificates_verify = [], st_local_verify_data = [], st_local_key_signature = [],
     st_peer_certificates_verified = False\<rparr>"

definition ready_state :: "nat dtls_state" where
  "ready_state = flight0_generate (\<lambda>n. replicate n 7) demo_random initial_state"

definition demo_gen :: "named_curve \<Rightarrow> byte list \<times> nat" where
  "demo_gen c = (replicate 32 (ucast (named_curve_as c)), unat (named_curve_as c))"

lemma browser_curves: "map named_curve_from [0x11ec, 0x001d, 0x0017] = [NC_Unsupported, NC_X25519, NC_P256]"
  by (simp add: named_curve_from_def)

lemma browser_acceptable: "hello_acceptable server_cfg (browser_hello cookie) st"
proof -
  have "ch_version (browser_hello cookie) = PROTOCOL_VERSION1_2"
    "ch_cipher_suites (browser_hello cookie) = [Tls_Ecdhe_Ecdsa_With_Aes_128_Gcm_Sha256]"
    "ch_extensions (browser_hello cookie) = [SupportedEllipticCurves [NC_Unsupported, NC_X25519, NC_P256],
       UseSrtp [Srtp_Aead_Aes_256_Gcm, Srtp_Aead_Aes_128_Gcm], UseExtendedMasterSecret True]"
    unfolding browser_hello_def browser_curves by (simp_all add: demo_client_hello_def)
  then show ?thesis
    by (simp add: hello_acceptable_def server_cfg_def default_cipher_suites_def new_aes_128_gcm_sha256_def
        setting_engine_profiles_def)
qed

lemma ready_curve: "st_named_curve ready_state \<noteq> NC_Unsupported" "st_local_keypair ready_state = None"
  by (simp_all add: ready_state_def flight0_generate_def DEFAULT_NAMED_CURVE_def initial_state_def)

lemma browser_accepted: "\<exists>st'. flight0_hello demo_gen server_cfg (browser_hello cookie) ready_state = (st', Ok Flight2)"
proof -
  have "final_curve (ch_extensions (browser_hello cookie)) (st_named_curve ready_state) \<noteq> NC_Unsupported"
    using browser_acceptable [of cookie ready_state] ready_curve(1)
    by (intro final_curve_supported [of server_cfg]) (simp_all add: hello_acceptable_def)
  then show ?thesis
    unfolding flight0_hello_ok [OF browser_acceptable]
    by (auto simp: flight0_keypair_def applied_frame with_suite_frame generate_keypair_def split: named_curve.splits)
qed

theorem flight0_accepts_exactly_witness:
  "\<exists>st'. flight0_hello demo_gen server_cfg (browser_hello []) ready_state = (st', Ok Flight2)
     \<and> hello_acceptable server_cfg (browser_hello []) ready_state
     \<and> st_remote_random st' = ch_random (browser_hello []) \<and> st_named_curve st' \<noteq> NC_Unsupported"
proof -
  obtain st' where st': "flight0_hello demo_gen server_cfg (browser_hello []) ready_state = (st', Ok Flight2)"
    using browser_accepted by blast
  note facts = flight0_accepts_exactly [OF ready_curve(1) st']
  then have "hello_acceptable server_cfg (browser_hello []) ready_state" by blast
  moreover from this facts have "st_remote_random st' = ch_random (browser_hello [])"
    "st_named_curve st' \<noteq> NC_Unsupported"
    by (auto simp: accepted_state_def)
  ultimately show ?thesis using st' by blast
qed

theorem curve_negotiated_witness:
  "\<exists>st'. flight0_hello demo_gen server_cfg (browser_hello []) ready_state = (st', Ok Flight2)
     \<and> st_named_curve st' = NC_X25519"
proof -
  obtain st' where st': "flight0_hello demo_gen server_cfg (browser_hello []) ready_state = (st', Ok Flight2)"
    using browser_accepted by blast
  have "filter is_curves (ch_extensions (browser_hello [])) = [SupportedEllipticCurves [NC_Unsupported, NC_X25519, NC_P256]]"
    unfolding browser_hello_def browser_curves by simp
  from curve_negotiated [OF st' ready_curve(2) this] obtain pre c post where
    "[NC_Unsupported, NC_X25519, NC_P256] = pre @ c # post" "set pre \<subseteq> {NC_Unsupported}" "c \<noteq> NC_Unsupported"
    "st_named_curve st' = c" by blast
  moreover from this have "c = NC_X25519"
    by (auto simp: Cons_eq_append_conv)
  ultimately show ?thesis using st' by blast
qed

theorem srtp_never_256_witness:
  "\<exists>st'. flight0_hello demo_gen server_cfg (browser_hello []) ready_state = (st', Ok Flight2)
     \<and> st_srtp_protection_profile st' \<in> {Srtp_Aead_Aes_128_Gcm, Srtp_Aes128_Cm_Hmac_Sha1_80}"
proof -
  obtain st' where st': "flight0_hello demo_gen server_cfg (browser_hello []) ready_state = (st', Ok Flight2)"
    using browser_accepted by blast
  have "UseSrtp [Srtp_Aead_Aes_256_Gcm, Srtp_Aead_Aes_128_Gcm] \<in> set (ch_extensions (browser_hello []))"
    by (simp add: browser_hello_def)
  with srtp_never_256 [OF _ st'] st' show ?thesis by (auto simp: server_cfg_def)
qed

lemma browser_hello_ok: "length cookie \<le> 255 \<Longrightarrow> hello_ok (browser_hello cookie)"
  by (simp add: hello_ok_def client_hello_ok_def browser_hello_def demo_client_hello_def demo_random_ok extensions_ok_def
      extension_size_def client_hello_size_def RANDOM_BYTES_LENGTH_def)

lemma browser_parsed:
  "\<exists>st'. flight0_parse demo_gen server_cfg [hello_item 0 (browser_hello [])] ready_state = (st', Ok Flight2)"
proof -
  have "select_item (client_hello_rule server_cfg) None [hello_item 0 (browser_hello [])] = Some (hello_item 0 (browser_hello []))"
    using hello_rule_matches [of server_cfg] by (simp add: server_cfg_def)
  from pull_hello [OF this browser_hello_ok, of 0] have
    "flight0_parse demo_gen server_cfg [hello_item 0 (browser_hello [])] ready_state
       = flight0_hello demo_gen server_cfg (browser_hello []) (ready_state\<lparr>st_handshake_recv_sequence := 1\<rparr>)"
    by (simp add: flight0_parse_def)
  moreover have "final_curve (ch_extensions (browser_hello [])) (st_named_curve ready_state) \<noteq> NC_Unsupported"
    using browser_acceptable [of "[]" ready_state] ready_curve(1)
    by (intro final_curve_supported [of server_cfg]) (simp_all add: hello_acceptable_def)
  then have "\<exists>st'. flight0_hello demo_gen server_cfg (browser_hello []) (ready_state\<lparr>st_handshake_recv_sequence := 1\<rparr>)
      = (st', Ok Flight2)"
    unfolding flight0_hello_ok [OF browser_acceptable]
    by (auto simp: flight0_keypair_def applied_frame with_suite_frame generate_keypair_def split: named_curve.splits)
  ultimately show ?thesis by simp
qed

theorem flight0_parse_idempotent_witness:
  "\<exists>st'. flight0_parse demo_gen server_cfg [hello_item 0 (browser_hello [])] ready_state = (st', Ok Flight2)
     \<and> flight0_parse (\<lambda>_. ([1], 1)) server_cfg [hello_item 0 (browser_hello [])] st' = (st', Ok Flight2)"
  using browser_parsed flight0_parse_idempotent [of demo_gen server_cfg _ ready_state _ Flight2 "\<lambda>_. ([1], 1)"] by blast

theorem hello_exchange_witness:
  "\<exists>st1 pk st2 cookie. flight0_parse demo_gen server_cfg [hello_item 0 (browser_hello [])] ready_state = (st1, Ok Flight2)
     \<and> flight2_generate st1 = (st2, [pk])
     \<and> snd (flight2_parse demo_gen server_cfg [hello_item 0 (browser_hello []), hello_item 1 (browser_hello cookie)] st2) = Ok Flight4"
proof -
  obtain st1 where st1: "flight0_parse demo_gen server_cfg [hello_item 0 (browser_hello [])] ready_state = (st1, Ok Flight2)"
    using browser_parsed by blast
  obtain pk st2 where g: "flight2_generate st1 = (st2, [pk])" by (simp add: flight2_generate_def)
  let ?hvr = "\<lparr>hvr_version = PROTOCOL_VERSION1_2, hvr_cookie = st_cookie st1\<rparr>"
  let ?hs = "handshake_new (MsgHelloVerifyRequest ?hvr)"
  have pk: "rl_content (pk_record pk) = Handshake ?hs" "hs_message ?hs = MsgHelloVerifyRequest ?hvr"
    using g by (auto simp: flight2_generate_def record_layer_new_def handshake_new_def)
  have "st_cookie st1 = replicate 20 7"
    using flight0_parse_success [OF st1] cookie_hello by (fastforce simp: ready_state_def flight0_generate_def COOKIE_LENGTH_def)
  then have ok: "hello_ok (browser_hello (st_cookie st1))" by (simp add: browser_hello_ok)
  have st1': "flight0_parse demo_gen server_cfg [hello_item 0 (browser_hello [])]
      (flight0_generate (\<lambda>n. replicate n 7) demo_random initial_state) = (st1, Ok Flight2)"
    using st1 by (simp add: ready_state_def)
  have "cfg_initial_epoch server_cfg = 0" "length ((\<lambda>n. replicate n (7 :: byte)) COOKIE_LENGTH) = COOKIE_LENGTH"
    "st_local_keypair initial_state = None" "ch_version (browser_hello (st_cookie st1)) = PROTOCOL_VERSION1_2"
    "ch_cookie (browser_hello (st_cookie st1)) = hvr_cookie ?hvr"
    by (simp_all add: server_cfg_def initial_state_def browser_hello_def demo_client_hello_def)
  from hello_exchange [OF this(1,2) browser_hello_ok browser_acceptable this(3) st1' ok this(4) g pk this(5)]
  have "snd (flight2_parse demo_gen server_cfg
      [hello_item 0 (browser_hello []), hello_item 1 (browser_hello (st_cookie st1))] st2) = Ok Flight4"
    by simp
  with st1 g show ?thesis by blast
qed

theorem flight2_checks_cookie_witness:
  "snd (flight2_parse demo_gen server_cfg [hello_item 0 (browser_hello [8])] (ready_state\<lparr>st_handshake_recv_sequence := 0\<rparr>))
     = Err (fatal AD_AccessDenied (Some ErrCookieMismatch))
   \<and> snd (flight2_parse demo_gen server_cfg [hello_item 0 (browser_hello (replicate 20 7))] (ready_state\<lparr>st_handshake_recv_sequence := 0\<rparr>))
     = Ok Flight4"
proof -
  let ?st = "ready_state\<lparr>st_handshake_recv_sequence := 0\<rparr>"
  have pull: "full_pull_map [hello_item 0 (browser_hello c)] (st_handshake_recv_sequence ?st) [client_hello_rule server_cfg]
      = Ok (1, [HT_ClientHello \<mapsto> MsgClientHello (browser_hello c)])" if "length c \<le> 255" for c
    using pull_hello [of server_cfg "[hello_item 0 (browser_hello c)]" 0 "browser_hello c" 0] that
      hello_rule_matches [of server_cfg] browser_hello_ok by (simp add: server_cfg_def)
  have fields: "ch_version (browser_hello c) = PROTOCOL_VERSION1_2" "ch_cookie (browser_hello c) = c"
    "st_cookie ?st = replicate 20 7" for c
    by (simp_all add: browser_hello_def demo_client_hello_def ready_state_def flight0_generate_def COOKIE_LENGTH_def)
  have "snd (flight2_parse demo_gen server_cfg [hello_item 0 (browser_hello c)] ?st)
      = (if c = replicate 20 7 then Ok Flight4 else Err (fatal AD_AccessDenied (Some ErrCookieMismatch)))"
    if "length c \<le> 255" "c \<noteq> []" for c
    using flight2_checks_cookie [OF pull [OF that(1)], of "browser_hello c" demo_gen
        "fst (flight2_parse demo_gen server_cfg [hello_item 0 (browser_hello c)] ?st)"
        "snd (flight2_parse demo_gen server_cfg [hello_item 0 (browser_hello c)] ?st)"] that(2) fields
    by auto
  moreover have "length [8 :: byte] \<noteq> length (replicate 20 (7 :: byte))" by simp
  then have "[8 :: byte] \<noteq> replicate 20 7" by metis
  ultimately show ?thesis by simp
qed

theorem accepted_hello_has_suite_witness:
  "\<exists>cs \<in> set default_cipher_suites. cs_id cs = Tls_Ecdhe_Ecdsa_With_Aes_128_Gcm_Sha256 \<and> \<not> cs_is_psk cs"
proof -
  obtain st' where st': "flight0_hello demo_gen server_cfg (browser_hello []) ready_state = (st', Ok Flight2)"
    using browser_accepted by blast
  have "parse_cipher_suites [] ((None :: nat option) = None) ((None :: nat option) \<noteq> None) = Ok default_cipher_suites"
    by (simp add: parse_cipher_suites_def default_cipher_suites_def new_aes_128_gcm_sha256_def new_aes_256_cbc_sha_def)
  from accepted_hello_has_suite [OF this _ st'] show ?thesis
    by (auto simp: server_cfg_def browser_hello_def demo_client_hello_def)
qed

theorem signature_schemes_secure_witness:
  "parse_signature_schemes [0x0403, 0x0203] False = Ok [\<lparr>sha_hash = HA_Sha256, sha_signature = SA_Ecdsa\<rparr>]
   \<and> select_signature_scheme [\<lparr>sha_hash = HA_Sha256, sha_signature = SA_Ecdsa\<rparr>] Ecdsa256
     = Ok \<lparr>sha_hash = HA_Sha256, sha_signature = SA_Ecdsa\<rparr>"
proof -
  have p: "parse_signature_schemes [0x0403, 0x0203] False = Ok [\<lparr>sha_hash = HA_Sha256, sha_signature = SA_Ecdsa\<rparr>]"
    by (simp add: parse_signature_schemes_def Let_def signature_algorithm_from_def hash_algorithm_from_def
        hash_invalid_def hash_insecure_def)
  from signature_schemes_secure [OF p, of Ecdsa256] p show ?thesis
    by (simp add: is_compatible_def)
qed

end
