(* ===== verification/Dtls_Sending.thy ===== *)
theory Dtls_Sending
  imports Dtls_Fragment Dtls_Negotiation
begin

text \<open>
  Sending a flight (\<^verbatim>\<open>handle_outgoing_packets\<close>, \<^verbatim>\<open>process_packet\<close>, \<^verbatim>\<open>process_handshake_packet\<close> and
  \<^verbatim>\<open>compact_raw_packets\<close> in \<^verbatim>\<open>conn/mod.rs\<close>): packets are numbered per epoch, handshake messages are
  entered in the transcript cache and cut into fragments, and the records are packed into datagrams.
  The theory shows that no record number is used twice, and that a message sent this way is
  reassembled by the receiver to the bytes the sender's own transcript holds.
\<close>

section \<open>Numbering records\<close>

text \<open>
  The next sequence number per epoch, as a vector that grows on demand. \<open>enc\<close> is the encryption of
  the connection's cipher suite, when there is one.
\<close>

type_synonym sealer = "(record_layer_header \<Rightarrow> byte list \<Rightarrow> (byte list, dtls_error) outcome) option"

definition pad_sequence :: "nat \<Rightarrow> u64 list \<Rightarrow> u64 list" where
  "pad_sequence epoch lsn = lsn @ replicate (Suc epoch - length lsn) 0"

definition take_sequence :: "nat \<Rightarrow> u64 list \<Rightarrow> u64 list \<times> u64" where
  "take_sequence epoch lsn =
     (let lsn = pad_sequence epoch lsn in (lsn[epoch := lsn ! epoch + 1], lsn ! epoch))"

definition seal :: "sealer \<Rightarrow> packet \<Rightarrow> record_layer_header \<Rightarrow> byte list \<Rightarrow> (byte list, dtls_error) outcome" where
  "seal enc p rh raw =
     (if pk_should_encrypt p then (case enc of None \<Rightarrow> Ok raw | Some encrypt \<Rightarrow> encrypt rh raw) else Ok raw)"

definition process_packet :: "sealer \<Rightarrow> packet \<Rightarrow> u64 list \<Rightarrow> u64 list \<times> (byte list, dtls_error) outcome" where
  "process_packet enc p lsn =
     (let (lsn, sq) = take_sequence (unat (rl_epoch (record_layer_header (pk_record p)))) lsn in
      if MAX_SEQUENCE_NUMBER < sq then (lsn, Err ErrSequenceNumberOverflow)
      else let rh = (record_layer_header (pk_record p))\<lparr>rl_sequence_number := sq\<rparr> in
        (lsn, obind (record_layer_marshal ((pk_record p)\<lparr>record_layer_header := rh\<rparr>)) (seal enc p rh)))"

fun fragment_records :: "sealer \<Rightarrow> packet \<Rightarrow> byte list list \<Rightarrow> u64 list
    \<Rightarrow> u64 list \<times> (byte list list, dtls_error) outcome" where
  "fragment_records enc p [] lsn = (lsn, Ok [])"
| "fragment_records enc p (f # fs) lsn =
     (let ph = record_layer_header (pk_record p); (lsn, sq) = take_sequence (unat (rl_epoch ph)) lsn in
      if MAX_SEQUENCE_NUMBER < sq then (lsn, Err ErrSequenceNumberOverflow)
      else let rh = \<lparr>rl_content_type = rl_content_type ph, rl_protocol_version = rl_protocol_version ph,
               rl_epoch = rl_epoch ph, rl_sequence_number = sq, rl_content_len = word_of_nat (length f)\<rparr> in
        case obind (record_layer_header_marshal rh) (\<lambda>hb. seal enc p rh (hb @ f)) of
          Err e \<Rightarrow> (lsn, Err e)
        | Panic \<Rightarrow> (lsn, Panic)
        | Ok raw \<Rightarrow> (case fragment_records enc p fs lsn of (lsn, r) \<Rightarrow> (lsn, omap ((#) raw) r)))"

definition process_handshake_packet :: "sealer \<Rightarrow> nat \<Rightarrow> packet \<Rightarrow> handshake \<Rightarrow> u64 list
    \<Rightarrow> u64 list \<times> (byte list list, dtls_error) outcome" where
  "process_handshake_packet enc mtu p h lsn =
     (case fragment_handshake mtu h of
        Err e \<Rightarrow> (lsn, Err e)
      | Panic \<Rightarrow> (lsn, Panic)
      | Ok fragments \<Rightarrow>
          fragment_records enc p fragments (pad_sequence (unat (rl_epoch (record_layer_header (pk_record p)))) lsn))"

section \<open>Sending a flight\<close>

record send_state =
  ss_sequence_numbers :: "u64 list"
  ss_cache :: handshake_cache

definition outgoing_packet :: "sealer \<Rightarrow> nat \<Rightarrow> bool \<Rightarrow> packet \<Rightarrow> send_state
    \<Rightarrow> send_state \<times> (byte list list, dtls_error) outcome" where
  "outgoing_packet enc mtu is_client p st =
     (case rl_content (pk_record p) of
        Handshake h \<Rightarrow>
          (case record_layer_marshal (pk_record p) of
             Err e \<Rightarrow> (st, Err e)
           | Panic \<Rightarrow> (st, Panic)
           | Ok handshake_raw \<Rightarrow>
               let (_, cache) = cache_push (drop RECORD_LAYER_HEADER_SIZE handshake_raw)
                     (rl_epoch (record_layer_header (pk_record p))) (hh_message_sequence (hs_header h))
                     (hh_type (hs_header h)) is_client (ss_cache st);
                   (lsn, r) = process_handshake_packet enc mtu p h (ss_sequence_numbers st)
               in (\<lparr>ss_sequence_numbers = lsn, ss_cache = cache\<rparr>, r))
      | _ \<Rightarrow> (let (lsn, r) = process_packet enc p (ss_sequence_numbers st)
             in (st\<lparr>ss_sequence_numbers := lsn\<rparr>, omap (\<lambda>raw. [raw]) r)))"

fun outgoing_loop :: "sealer \<Rightarrow> nat \<Rightarrow> bool \<Rightarrow> packet list \<Rightarrow> send_state
    \<Rightarrow> send_state \<times> (byte list list, dtls_error) outcome" where
  "outgoing_loop enc mtu is_client [] st = (st, Ok [])"
| "outgoing_loop enc mtu is_client (p # ps) st =
     (case outgoing_packet enc mtu is_client p st of
        (st, Err e) \<Rightarrow> (st, Err e)
      | (st, Panic) \<Rightarrow> (st, Panic)
      | (st, Ok raws) \<Rightarrow>
          (case outgoing_loop enc mtu is_client ps st of (st, r) \<Rightarrow> (st, omap ((@) raws) r)))"

fun compact_loop :: "nat \<Rightarrow> byte list list \<Rightarrow> byte list \<Rightarrow> byte list list \<Rightarrow> byte list list" where
  "compact_loop mtu [] current combined = combined @ [current]"
| "compact_loop mtu (raw # raws) current combined =
     (if current \<noteq> [] \<and> mtu \<le> length current + length raw
      then compact_loop mtu raws raw (combined @ [current])
      else compact_loop mtu raws (current @ raw) combined)"

definition compact_raw_packets :: "byte list list \<Rightarrow> nat \<Rightarrow> byte list list" where
  "compact_raw_packets raw_packets mtu = compact_loop mtu raw_packets [] []"

text \<open>The datagrams handed to the transport, in order.\<close>

definition handle_outgoing_packets :: "sealer \<Rightarrow> nat \<Rightarrow> bool \<Rightarrow> packet list \<Rightarrow> send_state
    \<Rightarrow> send_state \<times> (byte list list, dtls_error) outcome" where
  "handle_outgoing_packets enc mtu is_client pkts st =
     (case outgoing_loop enc mtu is_client pkts st of
        (st, r) \<Rightarrow> (st, omap (\<lambda>raws. if raws \<noteq> [] then compact_raw_packets raws mtu else []) r))"

section \<open>No record number is used twice\<close>

definition counter :: "u64 list \<Rightarrow> u16 \<Rightarrow> u64" where
  "counter lsn e = (if unat e < length lsn then lsn ! unat e else 0)"

text \<open>Epoch and sequence number, as they stand in the header of a record on the wire.\<close>

definition record_number :: "byte list \<Rightarrow> u16 \<times> u64" where
  "record_number raw = (from_be (take 2 (drop 3 raw)), from_be (take 6 (drop 5 raw)))"

definition numbered :: "u64 list \<Rightarrow> byte list list \<Rightarrow> u64 list \<Rightarrow> bool" where
  "numbered lsn raws lsn' \<longleftrightarrow> distinct (map record_number raws)
     \<and> (\<forall>raw \<in> set raws. counter lsn (fst (record_number raw)) \<le> snd (record_number raw)
          \<and> snd (record_number raw) < counter lsn' (fst (record_number raw)))
     \<and> (\<forall>e. counter lsn e \<le> counter lsn' e)"

lemma numbered_refl: "numbered lsn [] lsn"
  by (simp add: numbered_def)

lemma numbered_append:
  assumes "numbered lsn as lsn1" and "numbered lsn1 bs lsn2"
  shows "numbered lsn (as @ bs) lsn2"
proof -
  have neq: "record_number a \<noteq> record_number b" if "a \<in> set as" "b \<in> set bs" for a b
  proof
    assume "record_number a = record_number b"
    with that assms have "snd (record_number a) < counter lsn1 (fst (record_number a))"
      "counter lsn1 (fst (record_number a)) \<le> snd (record_number a)"
      by (auto simp: numbered_def)
    then show False by simp
  qed
  have "record_number ` set as \<inter> record_number ` set bs = {}"
    using neq by (blast elim: imageE)
  moreover have "counter lsn1 e \<le> counter lsn2 e" "counter lsn e \<le> counter lsn1 e" for e
    using assms by (simp_all add: numbered_def)
  ultimately show ?thesis
    using assms unfolding numbered_def
    by (auto intro: order.strict_trans2 order.trans)
qed

lemma take_sequence_counter:
  "snd (take_sequence (unat e) lsn) = counter lsn e"
  "counter (fst (take_sequence (unat e) lsn)) e' = (if e' = e then counter lsn e + 1 else counter lsn e')"
  by (auto simp: take_sequence_def pad_sequence_def counter_def Let_def nth_append nth_list_update
      word_unat_eq_iff)

lemma counter_pad: "counter (pad_sequence n lsn) e = counter lsn e"
  by (auto simp: counter_def pad_sequence_def nth_append)

lemma numbered_single:
  assumes "take_sequence (unat e) lsn = (lsn', sq)" and "\<not> MAX_SEQUENCE_NUMBER < sq"
    and "record_number raw = (e, sq)"
  shows "numbered lsn [raw] lsn'"
proof -
  have c: "sq = counter lsn e" "counter lsn' e' = (if e' = e then counter lsn e + 1 else counter lsn e')" for e'
    using take_sequence_counter [of e lsn] assms(1) by simp_all
  have "unat sq < 2 ^ 48" using assms(2) by (simp add: MAX_SEQUENCE_NUMBER_def word_less_nat_alt)
  then have "unat (sq + 1) = unat sq + 1" by (subst unat_add_lem [THEN iffD1]) simp_all
  then have "sq < sq + 1" by (simp add: word_less_nat_alt)
  with c assms(3) show ?thesis by (auto simp: numbered_def)
qed

text \<open>
  What is relied on of the encryption: it leaves the first eleven bytes of a record, up to its length
  field, as they are.
\<close>

definition keeps_number :: "sealer \<Rightarrow> bool" where
  "keeps_number enc \<longleftrightarrow> (\<forall>encrypt rh raw out. enc = Some encrypt \<longrightarrow> encrypt rh raw = Ok out
     \<longrightarrow> take 11 out = take 11 raw)"

lemma record_number_prefix: "take 11 out = take 11 raw \<Longrightarrow> record_number out = record_number raw"
proof -
  have "take 2 (drop 3 xs) = take 2 (drop 3 (take 11 xs))" "take 6 (drop 5 xs) = take 6 (drop 5 (take 11 xs))"
    for xs :: "byte list" by (simp_all add: drop_take)
  then show "take 11 out = take 11 raw \<Longrightarrow> ?thesis" unfolding record_number_def by metis
qed

lemma record_number_header:
  assumes "record_layer_header_marshal rh = Ok hb"
  shows "record_number (hb @ body) = (rl_epoch rh, rl_sequence_number rh)"
proof -
  have "\<not> MAX_SEQUENCE_NUMBER < rl_sequence_number rh"
    using assms by (auto simp: record_layer_header_marshal_def split: if_splits)
  from sequence_number_bytes [OF this] have "from_be (to_be 6 (rl_sequence_number rh)) = rl_sequence_number rh"
    unfolding from_be_zeros .
  moreover have "from_be (to_be 2 (rl_epoch rh)) = rl_epoch rh" by (simp add: from_be_to_be)
  ultimately show ?thesis
    using assms by (auto simp: record_layer_header_marshal_def record_number_def drop_to_be split: if_splits)
qed

lemma sealed_number:
  assumes "keeps_number enc" and "record_layer_header_marshal rh = Ok hb" and "seal enc p rh (hb @ body) = Ok raw"
  shows "record_number raw = (rl_epoch rh, rl_sequence_number rh)"
proof -
  have "take 11 raw = take 11 (hb @ body)"
    using assms(1,3) by (auto simp: seal_def keeps_number_def split: if_splits option.splits)
  from record_number_prefix [OF this] record_number_header [OF assms(2)] show ?thesis by simp
qed

lemma process_packet_numbered:
  assumes "keeps_number enc" and "process_packet enc p lsn = (lsn', Ok raw)"
  shows "numbered lsn [raw] lsn'"
proof -
  let ?e = "rl_epoch (record_layer_header (pk_record p))"
  obtain l sq where t: "take_sequence (unat ?e) lsn = (l, sq)" by fastforce
  let ?rh = "(record_layer_header (pk_record p))\<lparr>rl_sequence_number := sq\<rparr>"
  from assms(2) t obtain hb body where *: "l = lsn'" "\<not> MAX_SEQUENCE_NUMBER < sq"
    "record_layer_header_marshal ?rh = Ok hb" "seal enc p ?rh (hb @ body) = Ok raw"
    by (auto simp: process_packet_def Let_def record_layer_marshal_def obind_eq_Ok split: if_splits)
  with numbered_single [OF t *(2)] sealed_number [OF assms(1) *(3,4)] show ?thesis by simp
qed

lemma fragment_records_numbered:
  assumes "keeps_number enc" and "fragment_records enc p fs lsn = (lsn', Ok raws)"
  shows "numbered lsn raws lsn'"
  using assms(2)
proof (induction fs arbitrary: lsn raws)
  case Nil
  then show ?case by (simp add: numbered_refl)
next
  case (Cons f fs)
  let ?ph = "record_layer_header (pk_record p)"
  obtain l sq where t: "take_sequence (unat (rl_epoch ?ph)) lsn = (l, sq)" by fastforce
  let ?rh = "\<lparr>rl_content_type = rl_content_type ?ph, rl_protocol_version = rl_protocol_version ?ph,
      rl_epoch = rl_epoch ?ph, rl_sequence_number = sq, rl_content_len = word_of_nat (length f)\<rparr>"
  from Cons.prems t obtain hb raw raws' where *: "\<not> MAX_SEQUENCE_NUMBER < sq"
    "record_layer_header_marshal ?rh = Ok hb" "seal enc p ?rh (hb @ f) = Ok raw"
    "fragment_records enc p fs l = (lsn', Ok raws')" "raws = raw # raws'"
    by (auto simp: Let_def obind_eq_Ok omap_eq_Ok split: if_splits outcome.splits prod.splits)
  from numbered_single [OF t *(1)] sealed_number [OF assms(1) *(2,3)] have "numbered lsn [raw] l" by simp
  from numbered_append [OF this Cons.IH [OF *(4)]] *(5) show ?case by simp
qed

lemma process_handshake_numbered:
  assumes "keeps_number enc" and "process_handshake_packet enc mtu p h lsn = (lsn', Ok raws)"
  shows "numbered lsn raws lsn'"
proof -
  from assms(2) obtain fs n where "fragment_records enc p fs (pad_sequence n lsn) = (lsn', Ok raws)"
    by (auto simp: process_handshake_packet_def split: outcome.splits)
  from fragment_records_numbered [OF assms(1) this] show ?thesis
    by (simp add: numbered_def counter_pad)
qed

lemma outgoing_packet_numbered:
  assumes "keeps_number enc" and "outgoing_packet enc mtu c p st = (st', Ok raws)"
  shows "numbered (ss_sequence_numbers st) raws (ss_sequence_numbers st')"
  using assms(2) process_handshake_numbered [OF assms(1)] process_packet_numbered [OF assms(1)]
  by (auto simp: outgoing_packet_def Let_def omap_eq_Ok
      split: outcome.splits prod.splits dtls_content.splits)

lemma outgoing_numbered:
  assumes "keeps_number enc" and "outgoing_loop enc mtu c ps st = (st', Ok raws)"
  shows "numbered (ss_sequence_numbers st) raws (ss_sequence_numbers st')"
  using assms(2)
proof (induction ps arbitrary: st raws)
  case Nil
  then show ?case by (simp add: numbered_refl)
next
  case (Cons p ps)
  then obtain st1 raws1 raws2 where s: "raws = raws1 @ raws2" "outgoing_loop enc mtu c ps st1 = (st', Ok raws2)"
    "outgoing_packet enc mtu c p st = (st1, Ok raws1)"
    by (auto simp: omap_eq_Ok split: outcome.splits prod.splits)
  from numbered_append [OF outgoing_packet_numbered [OF assms(1) s(3)] Cons.IH [OF s(2)]] s(1) show ?case by simp
qed

text \<open>
  All that a connection has sent. A flight that fails is not sent at all, whatever it has used up;
  when the numbers of an epoch are exhausted nothing more is sent in it.
\<close>

inductive sent :: "send_state \<Rightarrow> byte list list \<Rightarrow> bool" where
  start: "sent \<lparr>ss_sequence_numbers = [], ss_cache = []\<rparr> []"
| flight: "sent st log \<Longrightarrow> keeps_number enc \<Longrightarrow> outgoing_loop enc mtu c ps st = (st', Ok raws)
     \<Longrightarrow> sent st' (log @ raws)"
| failed: "sent st log \<Longrightarrow> outgoing_loop enc mtu c ps st = (st', Err e) \<Longrightarrow> e \<noteq> ErrSequenceNumberOverflow
     \<Longrightarrow> sent st' log"

definition grows :: "u64 list \<Rightarrow> u64 list \<Rightarrow> bool" where
  "grows lsn lsn' \<longleftrightarrow> (\<forall>e. counter lsn e \<le> counter lsn' e)"

lemma grows_refl: "grows lsn lsn" by (simp add: grows_def)

lemma grows_trans: "grows a b \<Longrightarrow> grows b c \<Longrightarrow> grows a c"
  unfolding grows_def by (meson order.trans)

lemma grows_pad: "grows lsn (pad_sequence n lsn)"
  by (simp add: grows_def counter_pad)

lemma grows_take:
  fixes e :: u16
  assumes "take_sequence (unat e) lsn = (lsn', sq)" and "\<not> MAX_SEQUENCE_NUMBER < sq"
  shows "grows lsn lsn'"
proof -
  have "record_number ([0, 0, 0] @ to_be 2 e @ to_be 6 sq) = (e, sq)"
    using sequence_number_bytes [OF assms(2)] unfolding from_be_zeros
    by (simp add: record_number_def from_be_to_be)
  from numbered_single [OF assms this] show ?thesis by (simp add: numbered_def grows_def)
qed

lemma process_packet_grows:
  assumes "process_packet enc p lsn = (lsn', r)" and "r \<noteq> Err ErrSequenceNumberOverflow"
  shows "grows lsn lsn'"
proof -
  obtain l sq where t: "take_sequence (unat (rl_epoch (record_layer_header (pk_record p)))) lsn = (l, sq)"
    by fastforce
  with assms have "l = lsn'" "\<not> MAX_SEQUENCE_NUMBER < sq"
    by (auto simp: process_packet_def Let_def split: if_splits)
  with grows_take [OF t] show ?thesis by simp
qed

lemma fragment_records_grows:
  "fragment_records enc p fs lsn = (lsn', r) \<Longrightarrow> r \<noteq> Err ErrSequenceNumberOverflow \<Longrightarrow> grows lsn lsn'"
proof (induction fs arbitrary: lsn r)
  case (Cons f fs)
  obtain l sq where t: "take_sequence (unat (rl_epoch (record_layer_header (pk_record p)))) lsn = (l, sq)"
    by fastforce
  with Cons.prems have "\<not> MAX_SEQUENCE_NUMBER < sq" by (auto simp: Let_def split: if_splits)
  note first = grows_take [OF t this]
  from Cons.prems t \<open>\<not> MAX_SEQUENCE_NUMBER < sq\<close> consider "lsn' = l"
    | r' where "fragment_records enc p fs l = (lsn', r')" "r' \<noteq> Err ErrSequenceNumberOverflow"
    by (fastforce simp: Let_def split: outcome.splits prod.splits)
  then show ?case
    using first Cons.IH grows_trans by cases blast+
qed (simp add: grows_refl)

lemma process_handshake_grows:
  assumes "process_handshake_packet enc mtu p h lsn = (lsn', r)" and "r \<noteq> Err ErrSequenceNumberOverflow"
  shows "grows lsn lsn'"
proof -
  from assms(1) consider "lsn' = lsn" | fs n where "fragment_records enc p fs (pad_sequence n lsn) = (lsn', r)"
    by (auto simp: process_handshake_packet_def split: outcome.splits)
  then show ?thesis
  proof cases
    case 2
    from grows_trans [OF grows_pad fragment_records_grows [OF 2 assms(2)]] show ?thesis .
  qed (simp add: grows_refl)
qed

lemma outgoing_packet_grows:
  assumes "outgoing_packet enc mtu c p st = (st', r)" and "r \<noteq> Err ErrSequenceNumberOverflow"
  shows "grows (ss_sequence_numbers st) (ss_sequence_numbers st')"
  using assms process_handshake_grows process_packet_grows
  by (cases "rl_content (pk_record p)"; cases "record_layer_marshal (pk_record p)")
    (fastforce simp: outgoing_packet_def Let_def grows_refl split: prod.splits)+

lemma outgoing_grows:
  "outgoing_loop enc mtu c ps st = (st', r) \<Longrightarrow> r \<noteq> Err ErrSequenceNumberOverflow
     \<Longrightarrow> grows (ss_sequence_numbers st) (ss_sequence_numbers st')"
proof (induction ps arbitrary: st r)
  case (Cons p ps)
  obtain st1 r1 where o: "outgoing_packet enc mtu c p st = (st1, r1)" by fastforce
  with Cons.prems have "r1 \<noteq> Err ErrSequenceNumberOverflow" by auto
  note first = outgoing_packet_grows [OF o this]
  from Cons.prems o consider "st' = st1"
    | r' where "outgoing_loop enc mtu c ps st1 = (st', r')" "r' \<noteq> Err ErrSequenceNumberOverflow"
    by (fastforce split: outcome.splits prod.splits)
  then show ?case
    using first Cons.IH grows_trans by cases blast+
qed (simp add: grows_refl)

text \<open>
  C32. No record number is used twice: over all the flights a connection sends, retransmissions included,
  with and without encryption, every record on the wire has an epoch and sequence number of its own, and
  the counters stay above all numbers in use.
\<close>

theorem record_numbers_unique:
  assumes "sent st log"
  shows "distinct (map record_number log)
    \<and> (\<forall>raw \<in> set log. snd (record_number raw) < counter (ss_sequence_numbers st) (fst (record_number raw)))"
proof -
  from assms have "numbered [] log (ss_sequence_numbers st)"
  proof induction
    case start
    then show ?case by (simp add: numbered_refl)
  next
    case (flight st log enc mtu c ps st' raws)
    from numbered_append [OF flight.IH outgoing_numbered [OF flight.hyps(2,3)]] show ?case .
  next
    case (failed st log enc mtu c ps st' e)
    from outgoing_grows [OF failed.hyps(2)] failed.hyps(3)
    have "grows (ss_sequence_numbers st) (ss_sequence_numbers st')" by simp
    with failed.IH show ?case
      unfolding numbered_def grows_def by (auto intro: order.strict_trans2 order.trans)
  qed
  then show ?thesis by (simp add: numbered_def)
qed

section \<open>Packing records into datagrams\<close>

lemma compact_loop_groups:
  assumes "[] \<notin> set raws" and "g = [] \<or> length g = 1 \<or> length (concat g) < mtu" and "[] \<notin> set g"
  shows "\<exists>groups. compact_loop mtu raws (concat g) combined = combined @ map concat groups
    \<and> concat groups = g @ raws \<and> (g @ raws \<noteq> [] \<longrightarrow> [] \<notin> set groups)
    \<and> (\<forall>x \<in> set groups. length x \<le> 1 \<or> length (concat x) < mtu)"
  using assms
proof (induction raws arbitrary: g combined)
  case Nil
  then show ?case by (intro exI [of _ "[g]"]) auto
next
  case (Cons raw raws)
  show ?case
  proof (cases "g \<noteq> [] \<and> mtu \<le> length (concat g) + length raw")
    case True
    with Cons.prems(3) have "concat g \<noteq> []" by (cases g) auto
    from Cons.IH [of "[raw]" "combined @ [concat g]"] Cons.prems(1) obtain groups where
      "compact_loop mtu raws raw (combined @ [concat g]) = (combined @ [concat g]) @ map concat groups"
      "concat groups = raw # raws" "[] \<notin> set groups" "\<forall>x \<in> set groups. length x \<le> 1 \<or> length (concat x) < mtu"
      by auto
    with True \<open>concat g \<noteq> []\<close> Cons.prems(2) show ?thesis
      by (intro exI [of _ "g # groups"]) auto
  next
    case False
    then have "g @ [raw] = [] \<or> length (g @ [raw]) = 1 \<or> length (concat (g @ [raw])) < mtu" by auto
    from Cons.IH [OF _ this, of combined] Cons.prems obtain groups where
      "compact_loop mtu raws (concat (g @ [raw])) combined = combined @ map concat groups"
      "concat groups = g @ raw # raws" "[] \<notin> set groups" "\<forall>x \<in> set groups. length x \<le> 1 \<or> length (concat x) < mtu"
      by auto
    with False show ?thesis by (intro exI [of _ groups]) auto
  qed
qed

lemma compact_groups:
  assumes "[] \<notin> set raws" and "raws \<noteq> []"
  shows "\<exists>groups. compact_raw_packets raws mtu = map concat groups \<and> concat groups = raws \<and> [] \<notin> set groups
    \<and> (\<forall>x \<in> set groups. length x = 1 \<or> length (concat x) < mtu)"
proof -
  obtain groups where g: "compact_raw_packets raws mtu = map concat groups" "concat groups = raws" "[] \<notin> set groups"
    "\<forall>x \<in> set groups. length x \<le> 1 \<or> length (concat x) < mtu"
    using compact_loop_groups [OF assms(1), of "[]" mtu "[]"] assms(2) by (auto simp: compact_raw_packets_def)
  moreover have "length x = 1" if "x \<in> set groups" "length x \<le> 1" for x
  proof -
    from that(1) g(3) have "x \<noteq> []" by blast
    with that(2) show ?thesis by (simp add: le_Suc_eq)
  qed
  ultimately show ?thesis by blast
qed

lemma unpack_group:
  assumes "g \<noteq> []" and "\<forall>r \<in> set g. framed r \<and> RECORD_LAYER_HEADER_SIZE < length r"
  shows "unpack_datagram (concat g) = Ok g"
  using unpack_loop_Ok [of 0 "concat g" "[]" g] assms
  by (auto simp: unpack_datagram_def splits_into_def list_all_iff)

definition records_of :: "byte list list \<Rightarrow> byte list list" where
  "records_of datagrams = concat (map (\<lambda>d. case unpack_datagram d of Ok rs \<Rightarrow> rs | _ \<Rightarrow> []) datagrams)"

text \<open>What the receiver unpacks from the datagrams, in whatever order and however often they arrive.\<close>

lemma unpack_compacted:
  assumes "\<forall>r \<in> set raws. framed r \<and> RECORD_LAYER_HEADER_SIZE < length r" and "raws \<noteq> []"
    and "set arrived = set (compact_raw_packets raws mtu)"
  shows "\<forall>d \<in> set arrived. \<exists>rs. unpack_datagram d = Ok rs" and "set (records_of arrived) = set raws"
    and "sum_list (map length (records_of arrived)) = sum_list (map length arrived)"
proof -
  have "[] \<notin> set raws" using assms(1) by auto
  from compact_groups [OF this assms(2)] obtain groups where
    g: "compact_raw_packets raws mtu = map concat groups" "concat groups = raws" "[] \<notin> set groups" by blast
  have unpack: "unpack_datagram (concat x) = Ok x" if "x \<in> set groups" for x
    using that g(2,3) assms(1) by (intro unpack_group) auto
  have arr: "set arrived = concat ` set groups" using assms(3) g(1) by simp
  with unpack show each: "\<forall>d \<in> set arrived. \<exists>rs. unpack_datagram d = Ok rs" by auto
  have "set (records_of arrived) = \<Union> (set ` set groups)"
    using unpack by (auto simp: records_of_def arr)
  then show "set (records_of arrived) = set raws" using g(2) by auto
  have "concat rs = d" if "unpack_datagram d = Ok rs" for d rs
    using that unpack_loop_Ok [of 0 d "[]" rs] by (simp add: unpack_datagram_def splits_into_def)
  then have "sum_list (map length rs) = length d" if "unpack_datagram d = Ok rs" for d rs
    using that by (metis length_concat)
  with each show "sum_list (map length (records_of arrived)) = sum_list (map length arrived)"
    unfolding records_of_def by (induction arrived) (auto simp: records_of_def)
qed

section \<open>A message reaches the other side\<close>

lemma framed_record:
  assumes "record_layer_header_marshal rh = Ok hb" and "rl_content_len rh = word_of_nat (length body)"
    and "length body < 65536"
  shows "framed (hb @ body)"
proof -
  obtain a b where ab: "to_be 2 (rl_content_len rh) = [a, b]" by (simp add: numeral_2_eq_2)
  have "hb = ([content_type_as (rl_content_type rh), major (rl_protocol_version rh),
      minor (rl_protocol_version rh)] @ to_be 2 (rl_epoch rh) @ to_be 6 (rl_sequence_number rh)) @ [a, b]"
    using assms(1) ab by (auto simp: record_layer_header_marshal_def drop_to_be split: if_splits)
  then obtain xs where hb: "hb = xs @ [a, b]" "length xs = 11" by simp
  have "(from_be [a, b] :: u16) = rl_content_len rh"
    using ab from_be_to_be [of 2 "rl_content_len rh"] by simp
  then have "unat (from_be [a, b] :: u16) = length body"
    using assms(2,3) by (simp add: unat_of_nat)
  with hb show ?thesis by (simp add: framed_def RECORD_LAYER_HEADER_SIZE_def nth_append)
qed

lemma fragment_records_plain:
  assumes "\<not> pk_should_encrypt p" and "fragment_records enc p fs lsn = (lsn', Ok raws)"
  defines "ph \<equiv> record_layer_header (pk_record p)"
  shows "\<exists>qs. map snd qs = fs \<and> raws = map (\<lambda>(rh, f). handshake_record rh f) qs
    \<and> (\<forall>(rh, f) \<in> set qs. rl_content_type rh = rl_content_type ph \<and> rl_protocol_version rh = rl_protocol_version ph
        \<and> rl_epoch rh = rl_epoch ph \<and> \<not> MAX_SEQUENCE_NUMBER < rl_sequence_number rh
        \<and> rl_content_len rh = word_of_nat (length f))
    \<and> sorted_wrt (<) (map (rl_sequence_number \<circ> fst) qs)
    \<and> (\<forall>q \<in> set qs. counter lsn (rl_epoch ph) \<le> rl_sequence_number (fst q)
        \<and> rl_sequence_number (fst q) < counter lsn' (rl_epoch ph))
    \<and> counter lsn (rl_epoch ph) \<le> counter lsn' (rl_epoch ph)"
  using assms(2)
proof (induction fs arbitrary: lsn raws)
  case (Cons f fs)
  obtain l sq where t: "take_sequence (unat (rl_epoch ph)) lsn = (l, sq)" by fastforce
  define rh where "rh = \<lparr>rl_content_type = rl_content_type ph, rl_protocol_version = rl_protocol_version ph,
      rl_epoch = rl_epoch ph, rl_sequence_number = sq, rl_content_len = word_of_nat (length f)\<rparr>"
  from Cons.prems t assms(1) obtain hb raws' where *: "\<not> MAX_SEQUENCE_NUMBER < sq"
    "record_layer_header_marshal rh = Ok hb"
    "fragment_records enc p fs l = (lsn', Ok raws')" "raws = (hb @ f) # raws'"
    by (auto simp: Let_def obind_eq_Ok omap_eq_Ok seal_def ph_def [symmetric] rh_def [symmetric]
        split: if_splits outcome.splits prod.splits)
  have "record_number (hb @ f) = (rl_epoch ph, sq)"
    using record_number_header [OF *(2)] by (simp add: rh_def)
  from numbered_single [OF t *(1) this] have num: "sq < counter l (rl_epoch ph)" "counter lsn (rl_epoch ph) \<le> sq"
    using \<open>record_number (hb @ f) = _\<close> by (auto simp: numbered_def)
  from Cons.IH [OF *(3)] obtain qs where qs: "map snd qs = fs" "raws' = map (\<lambda>(rh, f). handshake_record rh f) qs"
    "\<forall>(rh, f) \<in> set qs. rl_content_type rh = rl_content_type ph \<and> rl_protocol_version rh = rl_protocol_version ph
        \<and> rl_epoch rh = rl_epoch ph \<and> \<not> MAX_SEQUENCE_NUMBER < rl_sequence_number rh
        \<and> rl_content_len rh = word_of_nat (length f)"
    "sorted_wrt (<) (map (rl_sequence_number \<circ> fst) qs)"
    "\<forall>q \<in> set qs. counter l (rl_epoch ph) \<le> rl_sequence_number (fst q) \<and> rl_sequence_number (fst q) < counter lsn' (rl_epoch ph)"
    "counter l (rl_epoch ph) \<le> counter lsn' (rl_epoch ph)" by blast
  have "\<forall>q \<in> set qs. sq < rl_sequence_number (fst q) \<and> counter lsn (rl_epoch ph) \<le> rl_sequence_number (fst q)"
    using qs(5) num by (meson less_le_trans order.strict_implies_order order.trans)
  moreover have "sq < counter lsn' (rl_epoch ph)" "counter lsn (rl_epoch ph) \<le> counter lsn' (rl_epoch ph)"
    using num qs(6) by (auto intro: less_le_trans order.strict_implies_order)
  ultimately show ?case
    using qs * num by (intro exI [of _ "(rh, f) # qs"]) (auto simp: handshake_record_def rh_def o_def)
qed simp

lemma recovered_records:
  assumes "\<forall>(rh, f) \<in> set qs. carries_handshake rh"
    and "set records = (\<lambda>(rh, f). handshake_record rh f) ` set qs"
  shows "\<exists>rs. map (\<lambda>(rh, f). handshake_record rh f) rs = records \<and> set rs = set qs"
proof -
  let ?f = "\<lambda>(rh, f). handshake_record rh f"
  have read: "record_layer_header_unmarshal (?f x) = Ok x" if "x \<in> set qs" for x
    using that assms(1) handshake_record_header(1) [of "fst x" "snd x"] by (auto simp: case_prod_beta)
  have inj: "inj_on ?f (set qs)"
  proof (rule inj_onI)
    fix x y assume "x \<in> set qs" "y \<in> set qs" "?f x = ?f y"
    then have "(Ok x :: (_, dtls_error) outcome) = Ok y" using read by metis
    then show "x = y" by simp
  qed
  have "map ?f (map (inv_into (set qs) ?f) records) = records"
    unfolding map_map using assms(2) by (intro map_idI) (simp add: f_inv_into_f)
  moreover have "set (map (inv_into (set qs) ?f) records) = set qs"
    using inj by (simp add: assms(2) inv_into_image_cancel)
  ultimately show ?thesis by blast
qed

definition handshake_packet :: "packet \<Rightarrow> handshake \<Rightarrow> bool" where
  "handshake_packet p h \<longleftrightarrow> rl_content (pk_record p) = Handshake h
     \<and> rl_content_type (record_layer_header (pk_record p)) = CT_Handshake
     \<and> rl_protocol_version (record_layer_header (pk_record p)) \<in> {PROTOCOL_VERSION1_0, PROTOCOL_VERSION1_2}
     \<and> hh_fragment_offset (hs_header h) = 0 \<and> hh_fragment_length (hs_header h) = hh_length (hs_header h)"

lemma outgoing_handshake:
  assumes "handshake_packet p h" and "handle_outgoing_packets enc mtu is_client [p] st = (st', Ok datagrams)"
  obtains data fragments raws lsn where "handshake_marshal h = Ok data" "fragment_handshake mtu h = Ok fragments"
    "fragment_records enc p fragments lsn = (ss_sequence_numbers st', Ok raws)"
    "datagrams = (if raws \<noteq> [] then compact_raw_packets raws mtu else [])"
    "ss_cache st' = snd (cache_push data (rl_epoch (record_layer_header (pk_record p)))
       (hh_message_sequence (hs_header h)) (hh_type (hs_header h)) is_client (ss_cache st))"
proof -
  have c: "rl_content (pk_record p) = Handshake h" using assms(1) by (simp add: handshake_packet_def)
  from assms(2) c obtain raw lsn' raws where *: "record_layer_marshal (pk_record p) = Ok raw"
    "process_handshake_packet enc mtu p h (ss_sequence_numbers st) = (lsn', Ok raws)"
    "st' = \<lparr>ss_sequence_numbers = lsn', ss_cache = snd (cache_push (drop RECORD_LAYER_HEADER_SIZE raw)
       (rl_epoch (record_layer_header (pk_record p))) (hh_message_sequence (hs_header h)) (hh_type (hs_header h))
       is_client (ss_cache st))\<rparr>"
    "datagrams = (if raws \<noteq> [] then compact_raw_packets raws mtu else [])"
    by (auto simp: handle_outgoing_packets_def outgoing_packet_def Let_def omap_eq_Ok
        split: outcome.splits prod.splits)
  from *(1) c obtain hb data where h: "record_layer_header_marshal (record_layer_header (pk_record p)) = Ok hb"
    "handshake_marshal h = Ok data" "raw = hb @ data"
    by (auto simp: record_layer_marshal_def obind_eq_Ok)
  have "length hb = RECORD_LAYER_HEADER_SIZE"
    using record_header_dec_enc(2) [OF h(1)] assms(1) by (auto simp: handshake_packet_def)
  with h(3) *(3) have "ss_cache st' = snd (cache_push data (rl_epoch (record_layer_header (pk_record p)))
       (hh_message_sequence (hs_header h)) (hh_type (hs_header h)) is_client (ss_cache st))" by simp
  moreover obtain fragments where "fragment_handshake mtu h = Ok fragments" "fragment_records enc p fragments
      (pad_sequence (unat (rl_epoch (record_layer_header (pk_record p)))) (ss_sequence_numbers st)) = (lsn', Ok raws)"
    using *(2) by (auto simp: process_handshake_packet_def split: outcome.splits)
  ultimately show ?thesis using that h(2) *(3,4) by simp
qed

lemma fragment_lengths:
  assumes "message_marshal (hs_message h) = Ok content"
    and "hh_length (hs_header h) = word_of_nat (length content)" and "length content < 0x1000000"
    and "fragment_handshake mtu h = Ok fragments"
  shows "fragments \<noteq> []" and "\<forall>f \<in> set fragments. HANDSHAKE_HEADER_LENGTH \<le> length f \<and> length f \<le> HANDSHAKE_HEADER_LENGTH + mtu"
proof -
  have mtu: "0 < mtu"
    using assms(1,4) by (auto simp: fragment_handshake_def split_bytes_def split: if_splits)
  obtain fs where fs: "fragments = map fragment_bytes (ideal_fragments (hs_header h) 0 fs)" "fs \<noteq> []"
      "concat fs = content" "\<forall>f \<in> set fs. length f \<le> mtu"
    using fragment_handshake_ideal [OF assms(1) mtu assms(2,3)] assms(4) by auto
  then show "fragments \<noteq> []" by (cases fs) auto
  have mem: "snd p \<in> set gs" if "p \<in> set (ideal_fragments hd' off gs)" for p hd' off gs
    using that by (induction gs arbitrary: off) auto
  have "hh_length (hs_header h) < 0x1000000" "0 + length (concat fs) < 0x1000000"
    using assms(2,3) fs(3) by (simp_all add: word_less_nat_alt unat_u32_small)
  note facts = ideal_fragments_facts(1) [OF _ this]
  show "\<forall>f \<in> set fragments. HANDSHAKE_HEADER_LENGTH \<le> length f \<and> length f \<le> HANDSHAKE_HEADER_LENGTH + mtu"
    using fs(1,4) mem length_fragment_bytes [OF facts] by auto
qed

lemma sent_records:
  assumes "handshake_packet p h" and "\<not> pk_should_encrypt p"
    and "\<forall>f \<in> set fragments. f \<noteq> [] \<and> length f < 65536"
    and "fragment_records enc p fragments lsn = (lsn', Ok raws)"
  defines "epoch \<equiv> rl_epoch (record_layer_header (pk_record p))"
  obtains qs where "map snd qs = fragments" "raws = map (\<lambda>(rh, f). handshake_record rh f) qs"
    "\<forall>(rh, f) \<in> set qs. carries_handshake rh \<and> rl_epoch rh = epoch"
    "\<forall>r \<in> set raws. framed r \<and> RECORD_LAYER_HEADER_SIZE < length r"
    "sorted_wrt (<) (map (rl_sequence_number \<circ> fst) qs)"
    "\<forall>q \<in> set qs. counter lsn epoch \<le> rl_sequence_number (fst q) \<and> rl_sequence_number (fst q) < counter lsn' epoch"
    "counter lsn epoch \<le> counter lsn' epoch"
proof -
  let ?ph = "record_layer_header (pk_record p)"
  from fragment_records_plain [OF assms(2,4)] obtain qs where qs: "map snd qs = fragments"
    "raws = map (\<lambda>(rh, f). handshake_record rh f) qs"
    "\<forall>(rh, f) \<in> set qs. rl_content_type rh = rl_content_type ?ph \<and> rl_protocol_version rh = rl_protocol_version ?ph
        \<and> rl_epoch rh = rl_epoch ?ph \<and> \<not> MAX_SEQUENCE_NUMBER < rl_sequence_number rh
        \<and> rl_content_len rh = word_of_nat (length f)"
    "sorted_wrt (<) (map (rl_sequence_number \<circ> fst) qs)"
    "\<forall>q \<in> set qs. counter lsn epoch \<le> rl_sequence_number (fst q) \<and> rl_sequence_number (fst q) < counter lsn' epoch"
    "counter lsn epoch \<le> counter lsn' epoch" unfolding epoch_def by blast
  have carries: "\<forall>(rh, f) \<in> set qs. carries_handshake rh \<and> rl_epoch rh = epoch"
    using qs(3) assms(1) unfolding epoch_def by (fastforce simp: carries_handshake_def handshake_packet_def)
  have "framed (handshake_record rh f) \<and> RECORD_LAYER_HEADER_SIZE < length (handshake_record rh f)"
    if q: "(rh, f) \<in> set qs" for rh f
  proof -
    have f: "f \<in> set fragments" using q qs(1) by force
    from q carries have c: "carries_handshake rh" by blast
    then obtain hb where hb: "record_layer_header_marshal rh = Ok hb"
      by (simp add: carries_handshake_def record_layer_header_marshal_def)
    with framed_record [OF hb, of f] q qs(3) assms(3) f handshake_record_header(3) [OF c, of f]
    show ?thesis by (auto simp: handshake_record_def)
  qed
  with qs(2) have "\<forall>r \<in> set raws. framed r \<and> RECORD_LAYER_HEADER_SIZE < length r" by auto
  with that qs(1,2,4-6) carries show ?thesis by blast
qed

lemma marshal_whole:
  assumes "handshake_packet p h" and "message_marshal (hs_message h) = Ok content"
    and "handshake_marshal h = Ok data"
    and "handshake_header_marshal ((hs_header h)\<lparr>hh_fragment_offset := 0,
        hh_fragment_length := hh_length (hs_header h)\<rparr>) = Ok hb"
  shows "data = hb @ content"
proof -
  have "(hs_header h)\<lparr>hh_fragment_offset := 0, hh_fragment_length := hh_length (hs_header h)\<rparr> = hs_header h"
    using assms(1) by (simp add: handshake_packet_def)
  with assms(2-4) show ?thesis by (simp add: handshake_marshal_def)
qed

text \<open>
  C31. A handshake message reaches the other side, and both sides hash the same bytes: when a message is
  sent unencrypted with any MTU whose fragments fit a record, and the resulting datagrams arrive in any
  order and any number of times (each at least once), every datagram unpacks, and the receiver, pushing
  the records into a buffer that waits for this message, pops exactly the bytes that the sender entered
  in its own transcript cache, under the sender's epoch.
\<close>

theorem handshake_message_delivered:
  assumes "handshake_packet p h" and "\<not> pk_should_encrypt p"
    and "message_marshal (hs_message h) = Ok content"
    and "hh_length (hs_header h) = word_of_nat (length content)" and "length content < 0x1000000"
    and "HANDSHAKE_HEADER_LENGTH + mtu < 65536"
    and "handle_outgoing_packets enc mtu is_client [p] st = (st', Ok datagrams)"
    and "set arrived = set datagrams"
    and "buffer_wf fb" and "fb_current fb = hh_message_sequence (hs_header h)"
    and "map_of (fb_cache fb) (fb_current fb) = None"
    and "buffer_size fb + sum_list (map length arrived) < FRAGMENT_BUFFER_MAX_SIZE"
  shows "\<exists>data fb'. (\<forall>d \<in> set arrived. is_ok (unpack_datagram d))
    \<and> buffer_pop (buffer_push_all (records_of arrived) fb)
        = Some (fb', Ok (data, rl_epoch (record_layer_header (pk_record p))))
    \<and> ss_cache st' = snd (cache_push data (rl_epoch (record_layer_header (pk_record p)))
        (hh_message_sequence (hs_header h)) (hh_type (hs_header h)) is_client (ss_cache st))
    \<and> fb_current fb' = fb_current fb + 1"
proof -
  let ?rec = "\<lambda>(rh, f). handshake_record rh f"
  obtain data fragments raws lsn where out: "handshake_marshal h = Ok data" "fragment_handshake mtu h = Ok fragments"
    "fragment_records enc p fragments lsn = (ss_sequence_numbers st', Ok raws)"
    "datagrams = (if raws \<noteq> [] then compact_raw_packets raws mtu else [])"
    "ss_cache st' = snd (cache_push data (rl_epoch (record_layer_header (pk_record p)))
       (hh_message_sequence (hs_header h)) (hh_type (hs_header h)) is_client (ss_cache st))"
    by (rule outgoing_handshake [OF assms(1,7)])
  note len = fragment_lengths [OF assms(3-5) out(2)]
  have "\<forall>f \<in> set fragments. f \<noteq> [] \<and> length f < 65536"
    using len(2) assms(6) by (fastforce simp: HANDSHAKE_HEADER_LENGTH_def)
  from sent_records [OF assms(1,2) this out(3)] obtain qs where qs: "map snd qs = fragments" "raws = map ?rec qs"
    "\<forall>(rh, f) \<in> set qs. carries_handshake rh \<and> rl_epoch rh = rl_epoch (record_layer_header (pk_record p))"
    "\<forall>r \<in> set raws. framed r \<and> RECORD_LAYER_HEADER_SIZE < length r" by blast
  have "raws \<noteq> []" using qs(1,2) len(1) by auto
  then have arrived: "set arrived = set (compact_raw_packets raws mtu)" using assms(8) out(4) by simp
  note unp = unpack_compacted [OF qs(4) \<open>raws \<noteq> []\<close> arrived]
  obtain rs where rs: "map ?rec rs = records_of arrived" "set rs = set qs"
    using recovered_records [of qs "records_of arrived"] qs(2,3) unp(2) by fastforce
  have "delivers fragments rs"
    unfolding delivers_def using qs(1,3) rs(2) by (fastforce simp: list_all_iff)
  moreover have "buffer_size fb + sum_list (map (\<lambda>(rh, f). length (handshake_record rh f)) rs) < FRAGMENT_BUFFER_MAX_SIZE"
    using assms(12) unp(3) unfolding rs(1) [symmetric] by (simp add: o_def case_prod_unfold)
  ultimately obtain fb' hb where pop: "buffer_pop (buffer_push_all (records_of arrived) fb)
      = Some (fb', Ok (hb @ content, rl_epoch (fst (rs ! 0))))"
    "handshake_header_marshal ((hs_header h)\<lparr>hh_fragment_offset := 0,
        hh_fragment_length := hh_length (hs_header h)\<rparr>) = Ok hb" "fb_current fb' = fb_current fb + 1"
    using reassembled [OF assms(3-5) out(2) _ assms(9-11)] unfolding rs(1) [symmetric] by blast
  have "rs ! 0 \<in> set qs" using rs(2) qs(2) \<open>raws \<noteq> []\<close> by (metis length_greater_0_conv list.map_disc_iff nth_mem set_empty)
  then have "rl_epoch (fst (rs ! 0)) = rl_epoch (record_layer_header (pk_record p))" using qs(3) by auto
  with pop unp(1) out(5) marshal_whole [OF assms(1,3) out(1) pop(2)] show ?thesis
    by (auto simp: is_ok_iff)
qed

section \<open>Witnesses\<close>

definition demo_packet :: packet where
  "demo_packet = \<lparr>pk_record = record_layer_new PROTOCOL_VERSION1_2 0 (Handshake demo_finished),
     pk_should_encrypt = False, pk_reset_local_sequence_number = False\<rparr>"

definition demo_send_state :: send_state where
  "demo_send_state = \<lparr>ss_sequence_numbers = [], ss_cache = []\<rparr>"

definition demo_raws :: "send_state \<Rightarrow> send_state \<times> byte list list" where
  "demo_raws st = (case outgoing_loop None 2 False [demo_packet] st of (st', Ok raws) \<Rightarrow> (st', raws) | (st', _) \<Rightarrow> (st', []))"

lemma demo_flight:
  "length (snd (demo_raws demo_send_state)) = 3" "length (snd (demo_raws (fst (demo_raws demo_send_state)))) = 3"
  by code_simp+

lemma demo_flight_sent:
  assumes "snd (demo_raws st) \<noteq> []"
  shows "outgoing_loop None 2 False [demo_packet] st = (fst (demo_raws st), Ok (snd (demo_raws st)))"
  using assms unfolding demo_raws_def by (simp split: prod.splits outcome.splits del: outgoing_loop.simps)

theorem record_numbers_unique_witness:
  "length (snd (demo_raws demo_send_state) @ snd (demo_raws (fst (demo_raws demo_send_state)))) = 6
   \<and> distinct (map record_number (snd (demo_raws demo_send_state) @ snd (demo_raws (fst (demo_raws demo_send_state)))))"
proof -
  have k: "keeps_number None" by (simp add: keeps_number_def)
  let ?st1 = "fst (demo_raws demo_send_state)"
  have "sent ?st1 ([] @ snd (demo_raws demo_send_state))"
    using sent.flight [OF sent.start k demo_flight_sent [unfolded demo_send_state_def]] demo_flight(1)
    unfolding demo_send_state_def by force
  from sent.flight [OF this k demo_flight_sent] demo_flight(2)
  have "sent (fst (demo_raws ?st1)) (snd (demo_raws demo_send_state) @ snd (demo_raws ?st1))" by force
  from record_numbers_unique [OF this] demo_flight show ?thesis by simp
qed

abbreviation "demo_datagrams \<equiv> compact_raw_packets (snd (demo_raws demo_send_state)) 2"

theorem handshake_message_delivered_witness:
  "\<exists>data fb'. buffer_pop (buffer_push_all (records_of (rev demo_datagrams @ demo_datagrams)) fragment_buffer_new)
      = Some (fb', Ok (data, 0))
    \<and> ss_cache (fst (demo_raws demo_send_state)) = snd (cache_push data 0 0 HT_Finished False [])"
proof -
  have "snd (demo_raws demo_send_state) \<noteq> []" using demo_flight(1) by force
  then have out: "handle_outgoing_packets None 2 False [demo_packet] demo_send_state
      = (fst (demo_raws demo_send_state), Ok demo_datagrams)"
    unfolding handle_outgoing_packets_def demo_flight_sent [OF \<open>snd (demo_raws demo_send_state) \<noteq> []\<close>] by simp
  have msg: "hs_message demo_finished = MsgFinished [1, 2, 3, 4, 5]" "hh_length (hs_header demo_finished) = 5"
    "hh_message_sequence (hs_header demo_finished) = 0" "hh_type (hs_header demo_finished) = HT_Finished"
    "rl_epoch (record_layer_header (pk_record demo_packet)) = 0" "\<not> pk_should_encrypt demo_packet"
    "ss_cache demo_send_state = []"
    by (simp_all add: demo_finished_def handshake_new_def demo_packet_def record_layer_new_def demo_send_state_def)
  have hp: "handshake_packet demo_packet demo_finished"
    by (simp add: handshake_packet_def demo_packet_def record_layer_new_def demo_finished_def handshake_new_def)
  have "sum_list (map length (rev demo_datagrams @ demo_datagrams)) \<le> 200" by code_simp
  then have size: "buffer_size fragment_buffer_new + sum_list (map length (rev demo_datagrams @ demo_datagrams))
      < FRAGMENT_BUFFER_MAX_SIZE"
    by (simp add: buffer_size_def fragment_buffer_new_def FRAGMENT_BUFFER_MAX_SIZE_def)
  have marshal: "message_marshal (hs_message demo_finished) = Ok [1, 2, 3, 4, 5]"
    "hh_length (hs_header demo_finished) = word_of_nat (length [1 :: byte, 2, 3, 4, 5])"
    "length [1 :: byte, 2, 3, 4, 5] < 0x1000000" "HANDSHAKE_HEADER_LENGTH + 2 < 65536"
    by (simp_all add: msg finished_marshal_def HANDSHAKE_HEADER_LENGTH_def)
  have fb: "fb_current fragment_buffer_new = hh_message_sequence (hs_header demo_finished)"
    "map_of (fb_cache fragment_buffer_new) (fb_current fragment_buffer_new) = None"
    by (simp_all add: fragment_buffer_new_def msg)
  have "set (rev demo_datagrams @ demo_datagrams) = set demo_datagrams" by simp
  from handshake_message_delivered [OF hp msg(6) marshal out this wf_new fb size] show ?thesis
    unfolding msg by blast
qed

end
