(* ===== verification/Dtls_Receiving.thy ===== *)
theory Dtls_Receiving
  imports Dtls_Sending
begin

text \<open>
  Receiving (\<^verbatim>\<open>handle_incoming_packet\<close>, \<^verbatim>\<open>handle_queued_packets\<close> and the packet loop of
  \<^verbatim>\<open>read_and_buffer\<close> in \<^verbatim>\<open>conn/mod.rs\<close>): a record is checked for its epoch and for replay, decrypted,
  and handed to the fragment buffer, from which whole handshake messages go to the transcript cache;
  alerts, cipher changes and application data are acted upon. The theory shows that handling a record
  always ends, that no record is delivered twice, and that an unauthenticated alert closes a connection.
\<close>

section \<open>Alerts as text\<close>

fun show_alert_level :: "alert_level \<Rightarrow> string" where
  "show_alert_level AL_Warning = ''LevelWarning''"
| "show_alert_level AL_Fatal = ''LevelFatal''"
| "show_alert_level AL_Invalid = ''Invalid alert level''"

fun show_alert_description :: "alert_description \<Rightarrow> string" where
  "show_alert_description AD_CloseNotify = ''CloseNotify''"
| "show_alert_description AD_UnexpectedMessage = ''UnexpectedMessage''"
| "show_alert_description AD_BadRecordMac = ''BadRecordMac''"
| "show_alert_description AD_DecryptionFailed = ''DecryptionFailed''"
| "show_alert_description AD_RecordOverflow = ''RecordOverflow''"
| "show_alert_description AD_DecompressionFailure = ''DecompressionFailure''"
| "show_alert_description AD_HandshakeFailure = ''HandshakeFailure''"
| "show_alert_description AD_NoCertificate = ''NoCertificate''"
| "show_alert_description AD_BadCertificate = ''BadCertificate''"
| "show_alert_description AD_UnsupportedCertificate = ''UnsupportedCertificate''"
| "show_alert_description AD_CertificateRevoked = ''CertificateRevoked''"
| "show_alert_description AD_CertificateExpired = ''CertificateExpired''"
| "show_alert_description AD_CertificateUnknown = ''CertificateUnknown''"
| "show_alert_description AD_IllegalParameter = ''IllegalParameter''"
| "show_alert_description AD_UnknownCa = ''UnknownCA''"
| "show_alert_description AD_AccessDenied = ''AccessDenied''"
| "show_alert_description AD_DecodeError = ''DecodeError''"
| "show_alert_description AD_DecryptError = ''DecryptError''"
| "show_alert_description AD_ExportRestriction = ''ExportRestriction''"
| "show_alert_description AD_ProtocolVersion = ''ProtocolVersion''"
| "show_alert_description AD_InsufficientSecurity = ''InsufficientSecurity''"
| "show_alert_description AD_InternalError = ''InternalError''"
| "show_alert_description AD_UserCanceled = ''UserCanceled''"
| "show_alert_description AD_NoRenegotiation = ''NoRenegotiation''"
| "show_alert_description AD_UnsupportedExtension = ''UnsupportedExtension''"
| "show_alert_description AD_UnknownPskIdentity = ''UnknownPskIdentity''"
| "show_alert_description AD_Invalid = ''Invalid alert description''"

definition show_alert :: "alert \<Rightarrow> string" where
  "show_alert a = ''Alert '' @ show_alert_level (alert_level_field a) @ '': ''
     @ show_alert_description (alert_description_field a)"

section \<open>The reader's state\<close>

text \<open>
  The replay detector is a library: \<open>rd_new\<close> makes one for a window and a largest number, \<open>rd_check\<close>
  asks about a number and \<open>rd_accept\<close> marks the number last asked about. Of the cipher suite the reader
  uses three operations. What is delivered to the application is collected in \<open>rc_decrypted\<close>.
\<close>

record 'r replay_libs =
  rd_new :: "nat \<Rightarrow> u64 \<Rightarrow> 'r"
  rd_check :: "'r \<Rightarrow> u64 \<Rightarrow> 'r \<times> bool"
  rd_accept :: "'r \<Rightarrow> 'r"

record open_suite =
  os_is_psk :: bool
  os_is_initialized :: bool
  os_decrypt :: "byte list \<Rightarrow> (byte list, dtls_error) outcome"

record 'r reader_context =
  rc_is_client :: bool
  rc_replay_protection_window :: nat
  rc_replay_detector :: "'r list"
  rc_decrypted :: "byte list list"
  rc_encrypted_packets :: "byte list list"
  rc_fragment_buffer :: fragment_buffer
  rc_cache :: handshake_cache
  rc_cipher_suite :: "open_suite option"
  rc_remote_epoch :: u16

type_synonym verdict = "bool \<times> alert option \<times> dtls_error option"

abbreviation quiet :: verdict where "quiet \<equiv> (False, None, None)"

abbreviation fatal_alert :: "alert_description \<Rightarrow> alert" where
  "fatal_alert d \<equiv> \<lparr>alert_level_field = AL_Fatal, alert_description_field = d\<rparr>"

section \<open>Handling one record\<close>

definition cipher_suite_invalid :: "'r reader_context \<Rightarrow> bool" where
  "cipher_suite_invalid ctx = (case rc_cipher_suite ctx of None \<Rightarrow> True | Some cs \<Rightarrow> \<not> os_is_initialized cs)"

definition enqueue_packet :: "bool \<Rightarrow> byte list \<Rightarrow> 'r reader_context \<Rightarrow> 'r reader_context" where
  "enqueue_packet enqueue pkt ctx =
     (if enqueue then ctx\<lparr>rc_encrypted_packets := rc_encrypted_packets ctx @ [pkt]\<rparr> else ctx)"

definition check_replay :: "'r replay_libs \<Rightarrow> record_layer_header \<Rightarrow> 'r reader_context \<Rightarrow> 'r reader_context \<times> bool" where
  "check_replay R h ctx =
     (let e = unat (rl_epoch h);
          ds = rc_replay_detector ctx @ replicate (Suc e - length (rc_replay_detector ctx))
            (rd_new R (rc_replay_protection_window ctx) MAX_SEQUENCE_NUMBER);
          (d, ok) = rd_check R (ds ! e) (rl_sequence_number h)
      in (ctx\<lparr>rc_replay_detector := ds[e := d]\<rparr>, ok))"

definition accept_replay :: "'r replay_libs \<Rightarrow> record_layer_header \<Rightarrow> 'r reader_context \<Rightarrow> 'r reader_context" where
  "accept_replay R h ctx = ctx\<lparr>rc_replay_detector :=
     (rc_replay_detector ctx)[unat (rl_epoch h) := rd_accept R (rc_replay_detector ctx ! unat (rl_epoch h))]\<rparr>"

text \<open>Decryption; an error is an early return with its verdict.\<close>

definition open_packet :: "record_layer_header \<Rightarrow> byte list \<Rightarrow> bool \<Rightarrow> 'r reader_context
    \<Rightarrow> 'r reader_context \<times> (byte list, verdict) outcome" where
  "open_packet h pkt enqueue ctx =
     (if rl_epoch h = 0 then (ctx, Ok pkt)
      else if cipher_suite_invalid ctx then (enqueue_packet enqueue pkt ctx, Err quiet)
      else case rc_cipher_suite ctx of
        None \<Rightarrow> (ctx, Ok pkt)
      | Some cs \<Rightarrow> (ctx, map_err (\<lambda>_. if os_is_psk cs then (False, Some (fatal_alert AD_UnknownPskIdentity), None) else quiet)
          (os_decrypt cs pkt)))"

text \<open>Moving whole messages from the fragment buffer to the cache. \<open>None\<close> would be a loop that does not end.\<close>

partial_function (option) drain_messages :: "bool \<Rightarrow> fragment_buffer \<Rightarrow> handshake_cache
    \<Rightarrow> (fragment_buffer \<times> handshake_cache, verdict) outcome option" where
  "drain_messages is_client fb cache = Option.bind (buffer_pop fb) (\<lambda>(fb, popped).
     case popped of
       Err _ \<Rightarrow> Some (Ok (fb, cache))
     | Panic \<Rightarrow> Some Panic
     | Ok (out, epoch) \<Rightarrow>
         (case handshake_unmarshal out of
            Err _ \<Rightarrow> drain_messages is_client fb cache
          | Panic \<Rightarrow> Some Panic
          | Ok (h, _) \<Rightarrow> drain_messages is_client fb (snd (cache_push out epoch
              (hh_message_sequence (hs_header h)) (hh_type (hs_header h)) (\<not> is_client) cache))))"

definition handle_content :: "'r replay_libs \<Rightarrow> record_layer_header \<Rightarrow> byte list \<Rightarrow> bool \<Rightarrow> 'r reader_context
    \<Rightarrow> ('r reader_context \<times> verdict, verdict) outcome" where
  "handle_content R h pkt enqueue ctx =
     (case record_layer_unmarshal pkt of
        Err e \<Rightarrow> Ok (ctx, False, Some (fatal_alert AD_DecodeError), Some e)
      | Panic \<Rightarrow> Panic
      | Ok (r, _) \<Rightarrow>
          (case rl_content r of
             Alert a \<Rightarrow>
               let a = (if alert_description_field a = AD_CloseNotify
                        then \<lparr>alert_level_field = AL_Warning, alert_description_field = AD_CloseNotify\<rparr> else a)
               in Ok (accept_replay R h ctx, False, Some a, Some (Other (''Error of Alert '' @ show_alert a)))
           | ChangeCipherSpec \<Rightarrow>
               if cipher_suite_invalid ctx then Ok (enqueue_packet enqueue pkt ctx, quiet)
               else if rc_remote_epoch ctx + 1 = rl_epoch h + 1
               then Ok (accept_replay R h (ctx\<lparr>rc_remote_epoch := rl_epoch h + 1\<rparr>), quiet)
               else Ok (ctx, quiet)
           | ApplicationData d \<Rightarrow>
               if rl_epoch h = 0
               then Ok (ctx, False, Some (fatal_alert AD_UnexpectedMessage), Some ErrApplicationDataEpochZero)
               else Ok ((accept_replay R h ctx)\<lparr>rc_decrypted := rc_decrypted ctx @ [d]\<rparr>, quiet)
           | Handshake _ \<Rightarrow>
               Ok (ctx, False, Some (fatal_alert AD_UnexpectedMessage), Some ErrUnhandledContextType)))"

definition handle_opened :: "'r replay_libs \<Rightarrow> record_layer_header \<Rightarrow> byte list \<Rightarrow> bool \<Rightarrow> 'r reader_context
    \<Rightarrow> ('r reader_context \<times> verdict, verdict) outcome option" where
  "handle_opened R h pkt enqueue ctx =
     (case buffer_push pkt (rc_fragment_buffer ctx) of
        (fb, Err _) \<Rightarrow> Some (Ok (ctx\<lparr>rc_fragment_buffer := fb\<rparr>, quiet))
      | (fb, Panic) \<Rightarrow> Some Panic
      | (fb, Ok True) \<Rightarrow>
          Option.bind (drain_messages (rc_is_client ctx) fb (rc_cache ctx)) (\<lambda>r.
            Some (omap (\<lambda>(fb, cache). ((accept_replay R h ctx)\<lparr>rc_fragment_buffer := fb, rc_cache := cache\<rparr>,
              (True, None, None))) r))
      | (fb, Ok False) \<Rightarrow> Some (handle_content R h pkt enqueue (ctx\<lparr>rc_fragment_buffer := fb\<rparr>)))"

definition handle_incoming_packet :: "'r replay_libs \<Rightarrow> byte list \<Rightarrow> bool \<Rightarrow> 'r reader_context
    \<Rightarrow> ('r reader_context \<times> verdict, verdict) outcome option" where
  "handle_incoming_packet R pkt enqueue ctx =
     (case record_layer_header_unmarshal pkt of
        Err _ \<Rightarrow> Some (Ok (ctx, quiet))
      | Panic \<Rightarrow> Some Panic
      | Ok (h, _) \<Rightarrow>
          if rc_remote_epoch ctx < rl_epoch h
          then if rc_remote_epoch ctx + 1 < rl_epoch h then Some (Ok (ctx, quiet))
               else Some (Ok (enqueue_packet enqueue pkt ctx, quiet))
          else (case check_replay R h ctx of
             (ctx, False) \<Rightarrow> Some (Ok (ctx, quiet))
           | (ctx, True) \<Rightarrow>
               (case open_packet h pkt enqueue ctx of
                  (ctx, Err v) \<Rightarrow> Some (Ok (ctx, v))
                | (ctx, Panic) \<Rightarrow> Some Panic
                | (ctx, Ok pkt) \<Rightarrow> handle_opened R h pkt enqueue ctx)))"

section \<open>Handling a datagram\<close>

text \<open>
  The loop over the records of a datagram: an alert is answered with an alert, and a fatal one or a
  closing one ends the connection. The result holds the state, the alerts sent and whether a handshake
  record was among them. The task that sends is taken to be running.
\<close>

fun packet_loop :: "'r replay_libs \<Rightarrow> bool \<Rightarrow> byte list list \<Rightarrow> 'r reader_context \<Rightarrow> alert list \<Rightarrow> bool
    \<Rightarrow> ('r reader_context \<times> alert list \<times> (bool, dtls_error) outcome) option" where
  "packet_loop R enqueue [] ctx alerts has_handshake = Some (ctx, alerts, Ok has_handshake)"
| "packet_loop R enqueue (pkt # pkts) ctx alerts has_handshake =
     Option.bind (handle_incoming_packet R pkt enqueue ctx) (\<lambda>r. case r of
       Panic \<Rightarrow> Some (ctx, alerts, Panic)
     | Err _ \<Rightarrow> Some (ctx, alerts, Panic)
     | Ok (ctx, hs, alert, err) \<Rightarrow>
         let alerts = alerts @ (case alert of None \<Rightarrow> [] | Some a \<Rightarrow> [a]) in
         if (case alert of None \<Rightarrow> False
             | Some a \<Rightarrow> alert_level_field a = AL_Fatal \<or> alert_description_field a = AD_CloseNotify)
         then Some (ctx, alerts, Err ErrAlertFatalOrClose)
         else case err of
           Some e \<Rightarrow> Some (ctx, alerts, Err e)
         | None \<Rightarrow> packet_loop R enqueue pkts ctx alerts (has_handshake \<or> hs))"

definition read_and_buffer :: "'r replay_libs \<Rightarrow> byte list \<Rightarrow> 'r reader_context
    \<Rightarrow> ('r reader_context \<times> alert list \<times> (bool, dtls_error) outcome) option" where
  "read_and_buffer R datagram ctx =
     (case unpack_datagram datagram of
        Err e \<Rightarrow> Some (ctx, [], Err e)
      | Panic \<Rightarrow> Some (ctx, [], Panic)
      | Ok pkts \<Rightarrow> packet_loop R True pkts ctx [] False)"

definition handle_queued_packets :: "'r replay_libs \<Rightarrow> 'r reader_context
    \<Rightarrow> ('r reader_context \<times> alert list \<times> (bool, dtls_error) outcome) option" where
  "handle_queued_packets R ctx =
     packet_loop R False (rc_encrypted_packets ctx) (ctx\<lparr>rc_encrypted_packets := []\<rparr>) [] False"

section \<open>Handling always ends\<close>

definition buffer_good :: "fragment_buffer \<Rightarrow> bool" where
  "buffer_good fb \<longleftrightarrow> buffer_wf fb \<and> buffer_size fb < FRAGMENT_BUFFER_MAX_SIZE"

lemma pop_good: "buffer_good fb \<Longrightarrow> buffer_pop fb = Some (fb', out) \<Longrightarrow> buffer_good fb'"
  using wf_pop size_pop le_less_trans unfolding buffer_good_def by blast

lemma push_good: "buffer_good fb \<Longrightarrow> buffer_good (fst (buffer_push buf fb))"
  by (simp add: buffer_good_def wf_push size_push)

lemma pop_shrinks:
  assumes "buffer_pop fb = Some (fb', Ok out)"
  shows "length (fb_cache fb') < length (fb_cache fb)"
proof -
  have "map_of (fb_cache fb) (fb_current fb) \<noteq> None" "fb_cache fb' = AList.delete (fb_current fb) (fb_cache fb)"
    using assms by (auto simp: buffer_pop_def Let_def bind_eq_Some_conv
        split: option.splits if_splits list.splits outcome.splits)
  moreover have "length (AList.delete k al) < length al" if "map_of al k \<noteq> None" for k and al :: "(u16 \<times> fragment list) list"
    using that by (induction al) (auto simp: AList.delete_eq intro: le_imp_less_Suc length_filter_le)
  ultimately show ?thesis by simp
qed

lemma drain_returns:
  assumes "buffer_good fb"
  shows "\<exists>r. drain_messages c fb cache = Some r \<and> (\<forall>fb' cache'. r = Ok (fb', cache') \<longrightarrow> buffer_good fb')
    \<and> (\<forall>v. r \<noteq> Err v)"
  using assms
proof (induction "length (fb_cache fb)" arbitrary: fb cache rule: less_induct)
  case less
  obtain fb' out where pop: "buffer_pop fb = Some (fb', out)" "out \<noteq> Panic"
    using pop_returns less.prems unfolding buffer_good_def by blast
  note good = pop_good [OF less.prems pop(1)]
  show ?case
  proof (cases out)
    case (Ok p)
    obtain bs epoch where p: "p = (bs, epoch)" by fastforce
    have "length (fb_cache fb') < length (fb_cache fb)" using pop_shrinks pop(1) Ok by blast
    from less.hyps [OF this good] Ok p pop(1) show ?thesis
      by (subst drain_messages.simps) (auto split: outcome.splits)
  next
    case (Err e)
    with pop(1) good show ?thesis by (subst drain_messages.simps) simp
  qed (use pop(2) in simp)
qed

lemma buffer_fields [simp]:
  "rc_fragment_buffer (accept_replay R h ctx) = rc_fragment_buffer ctx"
  "rc_fragment_buffer (enqueue_packet e pkt ctx) = rc_fragment_buffer ctx"
  by (simp_all add: accept_replay_def enqueue_packet_def)

lemma buffer_check: "check_replay R h ctx = (ctx', ok) \<Longrightarrow> rc_fragment_buffer ctx' = rc_fragment_buffer ctx"
  by (auto simp: check_replay_def Let_def split: prod.splits)

lemma buffer_open: "open_packet h pkt e ctx = (ctx', r) \<Longrightarrow> rc_fragment_buffer ctx' = rc_fragment_buffer ctx"
  by (auto simp: open_packet_def split: if_splits option.splits)

lemma buffer_content: "handle_content R h pkt e ctx = Ok (ctx', v) \<Longrightarrow> rc_fragment_buffer ctx' = rc_fragment_buffer ctx"
  by (auto simp: handle_content_def Let_def split: outcome.splits dtls_content.splits if_splits)

lemma content_no_Err: "handle_content R h pkt e ctx \<noteq> Err v"
  by (auto simp: handle_content_def Let_def split: outcome.splits dtls_content.splits)

lemma opened_returns:
  assumes "buffer_good (rc_fragment_buffer ctx)"
  shows "\<exists>r. handle_opened R h pkt e ctx = Some r
    \<and> (\<forall>ctx' v. r = Ok (ctx', v) \<longrightarrow> buffer_good (rc_fragment_buffer ctx')) \<and> (\<forall>v. r \<noteq> Err v)"
proof -
  obtain fb r where p: "buffer_push pkt (rc_fragment_buffer ctx) = (fb, r)" by fastforce
  have good: "buffer_good fb" using push_good [OF assms, of pkt] p by simp
  show ?thesis
  proof (cases "r = Ok True")
    case True
    obtain d where "drain_messages (rc_is_client ctx) fb (rc_cache ctx) = Some d"
      "\<forall>fb' cache'. d = Ok (fb', cache') \<longrightarrow> buffer_good fb'" "\<forall>v. d \<noteq> Err v"
      using drain_returns [OF good] by blast
    with p True show ?thesis by (cases d) (auto simp: handle_opened_def)
  next
    case False
    with p good content_no_Err [of R h pkt e] buffer_content [of R h pkt e] show ?thesis
      by (cases r) (auto simp: handle_opened_def)
  qed
qed

lemma incoming_returns:
  assumes "buffer_good (rc_fragment_buffer ctx)"
  shows "\<exists>r. handle_incoming_packet R pkt e ctx = Some r
    \<and> (\<forall>ctx' v. r = Ok (ctx', v) \<longrightarrow> buffer_good (rc_fragment_buffer ctx')) \<and> (\<forall>v. r \<noteq> Err v)"
proof (cases "record_layer_header_unmarshal pkt")
  case (Ok hr)
  obtain h rest where hr: "hr = (h, rest)" by fastforce
  obtain ctx1 ok where c: "check_replay R h ctx = (ctx1, ok)" by fastforce
  obtain ctx2 o2 where o: "open_packet h pkt e ctx1 = (ctx2, o2)" by fastforce
  have good: "buffer_good (rc_fragment_buffer ctx1)" "buffer_good (rc_fragment_buffer ctx2)"
    using assms buffer_check [OF c] buffer_open [OF o] by simp_all
  show ?thesis
    using Ok hr c o assms good opened_returns [OF good(2), of R h _ e]
    by (cases ok; cases o2) (auto simp: handle_incoming_packet_def)
qed (use assms in \<open>auto simp: handle_incoming_packet_def\<close>)

lemma packet_loop_returns:
  assumes "buffer_good (rc_fragment_buffer ctx)"
  shows "\<exists>ctx' alerts' r. packet_loop R e pkts ctx alerts hs = Some (ctx', alerts', r)
    \<and> (r \<noteq> Panic \<longrightarrow> buffer_good (rc_fragment_buffer ctx'))"
  using assms
proof (induction pkts arbitrary: ctx alerts hs)
  case (Cons pkt pkts)
  from incoming_returns [OF Cons.prems, of R pkt e] obtain r where
    r: "handle_incoming_packet R pkt e ctx = Some r" "\<forall>ctx' v. r = Ok (ctx', v) \<longrightarrow> buffer_good (rc_fragment_buffer ctx')"
    by blast
  show ?case
  proof (cases r)
    case (Ok p)
    obtain ctx' hs' alert err where p: "p = (ctx', hs', alert, err)" by (cases p)
    with r(2) Ok have "buffer_good (rc_fragment_buffer ctx')" by simp
    with Cons.IH r(1) Ok p show ?thesis by (auto simp: Let_def split: option.splits)
  qed (use r Cons.prems in auto)
qed simp

text \<open>
  The states a connection's reader can be in, whatever datagrams arrive: a single record, a whole datagram
  and the queue are handled, and the handshake sets the cipher suite and adds to the cache.
\<close>

definition reader_start :: "bool \<Rightarrow> nat \<Rightarrow> 'r reader_context" where
  "reader_start is_client window = \<lparr>rc_is_client = is_client, rc_replay_protection_window = window,
     rc_replay_detector = [], rc_decrypted = [], rc_encrypted_packets = [], rc_fragment_buffer = fragment_buffer_new,
     rc_cache = [], rc_cipher_suite = None, rc_remote_epoch = 0\<rparr>"

inductive reader_step :: "'r replay_libs \<Rightarrow> 'r reader_context \<Rightarrow> 'r reader_context \<Rightarrow> bool" for R where
  one_record: "handle_incoming_packet R pkt e ctx = Some (Ok (ctx', v)) \<Longrightarrow> reader_step R ctx ctx'"
| datagram: "read_and_buffer R d ctx = Some (ctx', alerts, r) \<Longrightarrow> r \<noteq> Panic \<Longrightarrow> reader_step R ctx ctx'"
| queued: "handle_queued_packets R ctx = Some (ctx', alerts, r) \<Longrightarrow> r \<noteq> Panic \<Longrightarrow> reader_step R ctx ctx'"
| handshake: "reader_step R ctx (ctx\<lparr>rc_cipher_suite := suite, rc_cache := cache\<rparr>)"

inductive_cases reader_stepE: "reader_step R ctx ctx'"

lemma read_returns:
  assumes "buffer_good (rc_fragment_buffer ctx)"
  shows "\<exists>ctx' alerts r. read_and_buffer R d ctx = Some (ctx', alerts, r)
    \<and> (r \<noteq> Panic \<longrightarrow> buffer_good (rc_fragment_buffer ctx'))"
proof (cases "unpack_datagram d")
  case (Ok pkts)
  with packet_loop_returns [OF assms, of R True pkts "[]" False] show ?thesis
    by (simp add: read_and_buffer_def)
qed (use assms in \<open>simp_all add: read_and_buffer_def\<close>)

lemma queued_returns:
  assumes "buffer_good (rc_fragment_buffer ctx)"
  shows "\<exists>ctx' alerts r. handle_queued_packets R ctx = Some (ctx', alerts, r)
    \<and> (r \<noteq> Panic \<longrightarrow> buffer_good (rc_fragment_buffer ctx'))"
  unfolding handle_queued_packets_def by (rule packet_loop_returns) (simp add: assms)

lemma reader_step_good: "reader_step R ctx ctx' \<Longrightarrow> buffer_good (rc_fragment_buffer ctx) \<Longrightarrow> buffer_good (rc_fragment_buffer ctx')"
proof (induction rule: reader_step.induct)
  case (one_record pkt e ctx ctx' v)
  with incoming_returns [OF one_record.prems, of R pkt e] show ?case by (metis option.inject)
next
  case (datagram d ctx ctx' alerts r)
  with read_returns [OF datagram.prems, of R d] show ?case by auto
next
  case (queued ctx ctx' alerts r)
  with queued_returns [OF queued.prems, of R] show ?case by auto
qed simp

lemma start_good: "buffer_good (rc_fragment_buffer (reader_start c w))"
  using reachable_wf [OF buffer_reachable.fresh] by (simp add: reader_start_def buffer_good_def)


section \<open>No record is delivered twice\<close>

text \<open>
  What is relied on of the replay detector, in terms of the numbers \<open>seen\<close> it has accepted and the
  number \<open>pending\<close> it was last asked about: a number it approves is new, and accepting marks it.
\<close>

definition replay_contract :: "'r replay_libs \<Rightarrow> ('r \<Rightarrow> u64 set) \<Rightarrow> ('r \<Rightarrow> u64 option) \<Rightarrow> bool" where
  "replay_contract R seen pending \<longleftrightarrow> (\<forall>w m. seen (rd_new R w m) = {})
     \<and> (\<forall>d s d' ok. rd_check R d s = (d', ok) \<longrightarrow> seen d' = seen d \<and> (ok \<longrightarrow> s \<notin> seen d \<and> pending d' = Some s))
     \<and> (\<forall>d s. pending d = Some s \<longrightarrow> seen (rd_accept R d) = insert s (seen d))"

definition seen_at :: "('r \<Rightarrow> u64 set) \<Rightarrow> 'r reader_context \<Rightarrow> u16 \<Rightarrow> u64 set" where
  "seen_at seen ctx e = (if unat e < length (rc_replay_detector ctx) then seen (rc_replay_detector ctx ! unat e) else {})"

lemma seen_at_cong: "rc_replay_detector ctx = rc_replay_detector ctx' \<Longrightarrow> seen_at seen ctx = seen_at seen ctx'"
  by (simp add: seen_at_def fun_eq_iff)

lemma check_seen:
  assumes "replay_contract R seen pending" and "check_replay R h ctx = (ctx', ok)"
  shows "seen_at seen ctx' e = seen_at seen ctx e"
    and "ok \<Longrightarrow> rl_sequence_number h \<notin> seen_at seen ctx (rl_epoch h)"
    and "ok \<Longrightarrow> seen_at seen (accept_replay R h ctx') e
      = (if e = rl_epoch h then insert (rl_sequence_number h) (seen_at seen ctx e) else seen_at seen ctx e)"
proof -
  let ?e = "unat (rl_epoch h)" and ?ds = "rc_replay_detector ctx"
  define ds where "ds = ?ds @ replicate (Suc ?e - length ?ds) (rd_new R (rc_replay_protection_window ctx) MAX_SEQUENCE_NUMBER)"
  obtain d where d: "rd_check R (ds ! ?e) (rl_sequence_number h) = (d, ok)" "ctx' = ctx\<lparr>rc_replay_detector := ds[?e := d]\<rparr>"
    using assms(2) by (auto simp: check_replay_def Let_def ds_def split: prod.splits)
  have len: "?e < length ds" "length ?ds \<le> length ds" by (simp_all add: ds_def)
  have padded: "(if i < length ds then seen (ds ! i) else {}) = (if i < length ?ds then seen (?ds ! i) else {})" for i
    using assms(1) by (auto simp: ds_def nth_append replay_contract_def)
  have d': "seen d = seen (ds ! ?e)" "ok \<Longrightarrow> rl_sequence_number h \<notin> seen (ds ! ?e)" "ok \<Longrightarrow> pending d = Some (rl_sequence_number h)"
    using assms(1) d(1) by (auto simp: replay_contract_def)
  then show "seen_at seen ctx' e = seen_at seen ctx e"
    using d(2) padded [of "unat e"] len by (auto simp: seen_at_def nth_list_update split: if_splits)
  show "ok \<Longrightarrow> rl_sequence_number h \<notin> seen_at seen ctx (rl_epoch h)"
    using d'(2) padded [of ?e] len(1) by (simp add: seen_at_def)
  assume ok
  then have "seen (rd_accept R d) = insert (rl_sequence_number h) (seen (ds ! ?e))"
    using d' assms(1) by (simp add: replay_contract_def)
  then show "seen_at seen (accept_replay R h ctx') e
      = (if e = rl_epoch h then insert (rl_sequence_number h) (seen_at seen ctx e) else seen_at seen ctx e)"
    using d(2) padded [of "unat e"] len
    by (auto simp: seen_at_def accept_replay_def nth_list_update word_unat_eq_iff split: if_splits)
qed

text \<open>What handling a record does to the detectors: nothing, a check, or a check that is then accepted.\<close>

lemma accept_detectors:
  "rc_replay_detector ctx = rc_replay_detector ctx' \<Longrightarrow>
     rc_replay_detector (accept_replay R h ctx) = rc_replay_detector (accept_replay R h ctx')"
  by (simp add: accept_replay_def)

lemma map_err_eq_Err: "map_err f m = Err e \<longleftrightarrow> (\<exists>e'. m = Err e' \<and> e = f e')"
  by (cases m) auto

lemma open_frame:
  assumes "open_packet h pkt e ctx = (ctx', r)"
  shows "rc_replay_detector ctx' = rc_replay_detector ctx" and "rc_decrypted ctx' = rc_decrypted ctx"
    and "rc_cache ctx' = rc_cache ctx" and "r = Err v \<Longrightarrow> \<not> fst v"
  using assms by (auto simp: open_packet_def enqueue_packet_def map_err_eq_Err split: if_splits option.splits)

lemma content_effects:
  assumes "handle_content R h pkt e ctx = Ok (ctx', v)"
  shows "(rc_replay_detector ctx' = rc_replay_detector ctx \<and> rc_decrypted ctx' = rc_decrypted ctx \<and> \<not> fst v)
    \<or> rc_replay_detector ctx' = rc_replay_detector (accept_replay R h ctx)"
  using assms
  by (auto simp: handle_content_def Let_def accept_replay_def enqueue_packet_def
      split: outcome.splits dtls_content.splits if_splits)

lemma opened_effects:
  assumes "handle_opened R h pkt e ctx = Some (Ok (ctx', v))"
  shows "(rc_replay_detector ctx' = rc_replay_detector ctx \<and> rc_decrypted ctx' = rc_decrypted ctx \<and> \<not> fst v)
    \<or> rc_replay_detector ctx' = rc_replay_detector (accept_replay R h ctx)"
proof -
  obtain fb r where p: "buffer_push pkt (rc_fragment_buffer ctx) = (fb, r)" by fastforce
  consider "r = Ok True" | "r = Ok False" | er where "r = Err er" | "r = Panic" by (cases r) auto
  then show ?thesis
  proof cases
    case 1
    with assms p show ?thesis
      by (auto simp: handle_opened_def omap_eq_Ok bind_eq_Some_conv)
  next
    case 2
    with assms p have "handle_content R h pkt e (ctx\<lparr>rc_fragment_buffer := fb\<rparr>) = Ok (ctx', v)"
      by (simp add: handle_opened_def)
    from content_effects [OF this] show ?thesis by (simp add: accept_replay_def)
  qed (use assms p in \<open>auto simp: handle_opened_def\<close>)
qed

lemma incoming_effects:
  assumes "handle_incoming_packet R pkt e ctx = Some (Ok (ctx', v))"
  shows "(rc_replay_detector ctx' = rc_replay_detector ctx \<and> rc_decrypted ctx' = rc_decrypted ctx \<and> \<not> fst v)
    \<or> (\<exists>h rest ctx1 ok. record_layer_header_unmarshal pkt = Ok (h, rest) \<and> check_replay R h ctx = (ctx1, ok)
        \<and> ((rc_replay_detector ctx' = rc_replay_detector ctx1 \<and> rc_decrypted ctx' = rc_decrypted ctx \<and> \<not> fst v)
          \<or> ok \<and> rc_replay_detector ctx' = rc_replay_detector (accept_replay R h ctx1)))"
proof (cases "record_layer_header_unmarshal pkt")
  case (Ok hr)
  obtain h rest where hr: "hr = (h, rest)" by fastforce
  show ?thesis
  proof (cases "rc_remote_epoch ctx < rl_epoch h")
    case True
    with assms Ok hr show ?thesis
      by (auto simp: handle_incoming_packet_def enqueue_packet_def split: if_splits)
  next
    case False
    obtain ctx1 ok where c: "check_replay R h ctx = (ctx1, ok)" by fastforce
    have d1: "rc_decrypted ctx1 = rc_decrypted ctx" using c by (auto simp: check_replay_def Let_def split: prod.splits)
    obtain ctx2 o2 where o: "open_packet h pkt e ctx1 = (ctx2, o2)" by fastforce
    note frame = open_frame [OF o]
    have "(rc_replay_detector ctx' = rc_replay_detector ctx1 \<and> rc_decrypted ctx' = rc_decrypted ctx \<and> \<not> fst v)
        \<or> ok \<and> rc_replay_detector ctx' = rc_replay_detector (accept_replay R h ctx1)"
    proof (cases ok)
      case True
      show ?thesis
      proof (cases o2)
        case o2: (Ok p2)
        with assms Ok hr False c True o have "handle_opened R h p2 e ctx2 = Some (Ok (ctx', v))"
          by (simp add: handle_incoming_packet_def)
        from opened_effects [OF this] frame(1,2) d1 True accept_detectors [OF frame(1), of R h] show ?thesis by auto
      qed (use assms Ok hr False c True o frame d1 in \<open>auto simp: handle_incoming_packet_def\<close>)
    qed (use assms Ok hr False c d1 in \<open>auto simp: handle_incoming_packet_def\<close>)
    with Ok hr c show ?thesis by blast
  qed
qed (use assms in \<open>auto simp: handle_incoming_packet_def\<close>)

lemma incoming_seen_mono:
  assumes "replay_contract R seen pending" and "handle_incoming_packet R pkt e ctx = Some (Ok (ctx', v))"
  shows "seen_at seen ctx k \<subseteq> seen_at seen ctx' k"
proof -
  from incoming_effects [OF assms(2)] consider "rc_replay_detector ctx' = rc_replay_detector ctx"
    | h ctx1 ok where "check_replay R h ctx = (ctx1, ok)" "rc_replay_detector ctx' = rc_replay_detector ctx1"
    | h ctx1 where "check_replay R h ctx = (ctx1, True)" "rc_replay_detector ctx' = rc_replay_detector (accept_replay R h ctx1)"
    by auto
  then show ?thesis
  proof cases
    case 1
    from seen_at_cong [OF 1, of seen] show ?thesis by simp
  next
    case 2
    from check_seen(1) [OF assms(1) 2(1)] seen_at_cong [OF 2(2), of seen] show ?thesis by simp
  next
    case 3
    from check_seen(3) [OF assms(1) 3(1)] seen_at_cong [OF 3(2), of seen] show ?thesis by auto
  qed
qed

lemma incoming_marks:
  assumes "replay_contract R seen pending" and "handle_incoming_packet R pkt e ctx = Some (Ok (ctx', v))"
    and "rc_decrypted ctx' \<noteq> rc_decrypted ctx \<or> fst v" and "record_layer_header_unmarshal pkt = Ok (h, rest)"
  shows "rl_sequence_number h \<in> seen_at seen ctx' (rl_epoch h)"
proof -
  from incoming_effects [OF assms(2)] assms(3,4) obtain ctx1 where c: "check_replay R h ctx = (ctx1, True)"
    "rc_replay_detector ctx' = rc_replay_detector (accept_replay R h ctx1)" by auto
  from check_seen(3) [OF assms(1) c(1)] seen_at_cong [OF c(2), of seen] show ?thesis by simp
qed

lemma packet_loop_seen_mono:
  assumes "replay_contract R seen pending"
  shows "packet_loop R e pkts ctx alerts hs = Some (ctx', alerts', r) \<Longrightarrow> seen_at seen ctx k \<subseteq> seen_at seen ctx' k"
proof (induction pkts arbitrary: ctx alerts hs)
  case (Cons pkt pkts)
  from Cons.prems obtain r1 where r1: "handle_incoming_packet R pkt e ctx = Some r1" by (auto simp: bind_eq_Some_conv)
  show ?case
  proof (cases r1)
    case (Ok p)
    obtain ctx1 hs1 alert err where p: "p = (ctx1, hs1, alert, err)" by (cases p)
    have m: "seen_at seen ctx k \<subseteq> seen_at seen ctx1 k"
      using incoming_seen_mono [OF assms] r1 Ok p by blast
    from Cons.prems r1 Ok p consider "ctx' = ctx1"
      | alerts1 hs2 where "packet_loop R e pkts ctx1 alerts1 hs2 = Some (ctx', alerts', r)"
      by (auto simp: Let_def split: if_splits option.splits)
    then show ?thesis using m Cons.IH by cases blast+
  qed (use Cons.prems r1 in auto)
qed simp

lemma reader_step_seen_mono:
  assumes "replay_contract R seen pending"
  shows "reader_step R ctx ctx' \<Longrightarrow> seen_at seen ctx k \<subseteq> seen_at seen ctx' k"
proof (induction rule: reader_step.induct)
  case (one_record pkt e ctx ctx' v)
  then show ?case by (rule incoming_seen_mono [OF assms])
next
  case (datagram d ctx ctx' alerts r)
  then show ?case
    using packet_loop_seen_mono [OF assms] by (fastforce simp: read_and_buffer_def split: outcome.splits)
next
  case (queued ctx ctx' alerts r)
  have "seen_at seen (ctx\<lparr>rc_encrypted_packets := []\<rparr>) = seen_at seen ctx" by (rule seen_at_cong) simp
  with packet_loop_seen_mono [OF assms queued(1) [unfolded handle_queued_packets_def], of k] show ?case by simp
qed (simp add: seen_at_def)

lemma seen_dropped:
  assumes "replay_contract R seen pending" and "record_layer_header_unmarshal pkt = Ok (h, rest)"
    and "rl_sequence_number h \<in> seen_at seen ctx (rl_epoch h)"
  shows "\<exists>ctx'. handle_incoming_packet R pkt e ctx = Some (Ok (ctx', quiet)) \<and> rc_decrypted ctx' = rc_decrypted ctx
    \<and> rc_cache ctx' = rc_cache ctx \<and> rc_fragment_buffer ctx' = rc_fragment_buffer ctx"
proof -
  obtain ctx1 ok where c: "check_replay R h ctx = (ctx1, ok)" by fastforce
  with check_seen(2) [OF assms(1) c] assms(3) have "\<not> ok" by blast
  moreover have "rc_decrypted ctx1 = rc_decrypted ctx" "rc_cache ctx1 = rc_cache ctx"
    "rc_fragment_buffer ctx1 = rc_fragment_buffer ctx"
    using c by (auto simp: check_replay_def Let_def split: prod.splits)
  ultimately show ?thesis
    using assms(2) c by (auto simp: handle_incoming_packet_def enqueue_packet_def)
qed

text \<open>
  C33. No record takes effect twice: once a record has delivered data to the application or a handshake
  fragment to the buffer, then whatever happens on the connection afterwards, every record with the
  same epoch and sequence number is dropped without a word, and data, transcript and fragments stay as
  they are.
\<close>

theorem record_delivered_once:
  assumes "replay_contract R seen pending"
    and "handle_incoming_packet R pkt e ctx = Some (Ok (ctx1, v))"
    and "rc_decrypted ctx1 \<noteq> rc_decrypted ctx \<or> fst v"
    and "(reader_step R)\<^sup>*\<^sup>* ctx1 ctx2"
    and "record_layer_header_unmarshal pkt = Ok (h, rest)" and "record_layer_header_unmarshal pkt' = Ok (h', rest')"
    and "rl_epoch h' = rl_epoch h" and "rl_sequence_number h' = rl_sequence_number h"
  shows "\<exists>ctx3. handle_incoming_packet R pkt' e' ctx2 = Some (Ok (ctx3, quiet)) \<and> rc_decrypted ctx3 = rc_decrypted ctx2
    \<and> rc_cache ctx3 = rc_cache ctx2 \<and> rc_fragment_buffer ctx3 = rc_fragment_buffer ctx2"
proof -
  have "rl_sequence_number h \<in> seen_at seen ctx1 (rl_epoch h)"
    by (rule incoming_marks [OF assms(1-3,5)])
  moreover from assms(4) have "seen_at seen ctx1 k \<subseteq> seen_at seen ctx2 k" for k
    by (induction rule: rtranclp_induct) (auto dest: reader_step_seen_mono [OF assms(1)])
  ultimately show ?thesis
    using assms(7,8) by (intro seen_dropped [OF assms(1,6)]) auto
qed

section \<open>What an unauthenticated record can do\<close>

text \<open>The window of a replay detector only excludes numbers behind the largest it has accepted.\<close>

definition accepts_newer :: "'r replay_libs \<Rightarrow> ('r \<Rightarrow> u64 set) \<Rightarrow> bool" where
  "accepts_newer R seen \<longleftrightarrow>
     (\<forall>d s. (\<forall>x \<in> seen d. x < s) \<longrightarrow> s \<le> MAX_SEQUENCE_NUMBER \<longrightarrow> snd (rd_check R d s))"

lemma check_newer:
  assumes "replay_contract R seen pending" and "accepts_newer R seen"
    and "\<forall>x \<in> seen_at seen ctx (rl_epoch h). x < rl_sequence_number h" and "\<not> MAX_SEQUENCE_NUMBER < rl_sequence_number h"
  shows "\<exists>ds. check_replay R h ctx = (ctx\<lparr>rc_replay_detector := ds\<rparr>, True)"
proof -
  let ?e = "unat (rl_epoch h)" and ?ds = "rc_replay_detector ctx"
  define ds where "ds = ?ds @ replicate (Suc ?e - length ?ds) (rd_new R (rc_replay_protection_window ctx) MAX_SEQUENCE_NUMBER)"
  have "seen (ds ! ?e) = seen_at seen ctx (rl_epoch h)"
    using assms(1) by (auto simp: ds_def seen_at_def nth_append replay_contract_def)
  with assms(2-4) have "snd (rd_check R (ds ! ?e) (rl_sequence_number h))"
    unfolding accepts_newer_def by auto
  then show ?thesis
    by (auto simp: check_replay_def Let_def ds_def [symmetric] split: prod.splits)
qed

definition alert_record :: "u64 \<Rightarrow> alert \<Rightarrow> record_layer" where
  "alert_record s a = \<lparr>record_layer_header = (record_layer_header (record_layer_new PROTOCOL_VERSION1_2 0 (Alert a)))
     \<lparr>rl_sequence_number := s\<rparr>, rl_content = Alert a\<rparr>"

lemma alert_record_bytes:
  assumes "\<not> MAX_SEQUENCE_NUMBER < s"
  obtains pkt rest rest' where "record_layer_marshal (alert_record s a) = Ok pkt" "length pkt = 15"
    "record_layer_unmarshal pkt = Ok (alert_record s a, rest)"
    "record_layer_header_unmarshal pkt = Ok (record_layer_header (alert_record s a), rest')"
    "unpack_datagram pkt = Ok [pkt]"
proof -
  have ok: "record_ok (alert_record s a)"
    by (simp add: record_ok_def alert_record_def record_layer_new_def)
  obtain pkt rest where pkt: "record_layer_marshal (alert_record s a) = Ok pkt"
    "length pkt = RECORD_LAYER_HEADER_SIZE + content_size (Alert a)" "record_layer_unmarshal pkt = Ok (alert_record s a, rest)"
    using record_dec_enc [OF ok] assms by (auto simp: alert_record_def)
  then obtain hb body where hb: "record_layer_header_marshal (record_layer_header (alert_record s a)) = Ok hb" "pkt = hb @ body"
    by (auto simp: record_layer_marshal_def obind_eq_Ok)
  have len: "length pkt = 15" "content_size (Alert a) = 2" using pkt(2) by (simp_all add: RECORD_LAYER_HEADER_SIZE_def)
  have v: "rl_protocol_version (record_layer_header (alert_record s a)) = PROTOCOL_VERSION1_0
      \<or> rl_protocol_version (record_layer_header (alert_record s a)) = PROTOCOL_VERSION1_2"
    by (simp add: alert_record_def record_layer_new_def)
  note h = record_header_dec_enc [OF hb(1) v]
  have body: "length body = 2" using hb(2) h(2) len(1) by (simp add: RECORD_LAYER_HEADER_SIZE_def)
  have "framed pkt"
    unfolding hb(2) by (rule framed_record [OF hb(1)]) (simp_all add: body alert_record_def record_layer_new_def)
  then have "unpack_datagram pkt = Ok [pkt]"
    using unpack_group [of "[pkt]"] len(1) by (simp add: RECORD_LAYER_HEADER_SIZE_def)
  with that pkt len h(1) [of body] hb(2) show ?thesis by blast
qed

text \<open>
  C35. Anyone who can reach the socket can close a connection: in every state of the reader whose
  fragment buffer has room for 15 more bytes, after the handshake too and whatever the cipher suite, one
  datagram of 15 bytes with an unencrypted fatal alert, or an unencrypted closing alert, of epoch 0 and a
  number above those seen in that epoch ends the reader. Nothing in it is authenticated. In a state
  without that room the same datagram is dropped: nothing but the replay detectors changes, and the
  reader goes on.
\<close>

theorem unauthenticated_alert_closes:
  assumes "replay_contract R seen pending" and "accepts_newer R seen"
    and "\<forall>x \<in> seen_at seen ctx 0. x < s" and "\<not> MAX_SEQUENCE_NUMBER < s"
    and "alert_level_field a = AL_Fatal \<or> alert_description_field a = AD_CloseNotify"
  shows "\<exists>pkt. record_layer_marshal (alert_record s a) = Ok pkt \<and> length pkt = 15
    \<and> (if buffer_size (rc_fragment_buffer ctx) + 15 < FRAGMENT_BUFFER_MAX_SIZE
       then \<exists>ctx' alerts. read_and_buffer R pkt ctx = Some (ctx', alerts, Err ErrAlertFatalOrClose)
       else \<exists>ds. read_and_buffer R pkt ctx = Some (ctx\<lparr>rc_replay_detector := ds\<rparr>, [], Ok False))"
proof -
  let ?h = "record_layer_header (alert_record s a)"
  have h: "rl_epoch ?h = 0" "rl_sequence_number ?h = s" "rl_content_type ?h = CT_Alert" "rl_content (alert_record s a) = Alert a"
    by (simp_all add: alert_record_def record_layer_new_def)
  obtain pkt rest rest' where pkt: "record_layer_marshal (alert_record s a) = Ok pkt" "length pkt = 15"
    "record_layer_unmarshal pkt = Ok (alert_record s a, rest)" "record_layer_header_unmarshal pkt = Ok (?h, rest')"
    "unpack_datagram pkt = Ok [pkt]"
    by (rule alert_record_bytes [OF assms(4)])
  obtain ds where ds: "check_replay R ?h ctx = (ctx\<lparr>rc_replay_detector := ds\<rparr>, True)"
    using check_newer [OF assms(1,2), of ctx ?h] assms(3,4) h by auto
  show ?thesis
  proof (cases "buffer_size (rc_fragment_buffer ctx) + 15 < FRAGMENT_BUFFER_MAX_SIZE")
    case True
    then have "buffer_push pkt (rc_fragment_buffer ctx) = (rc_fragment_buffer ctx, Ok False)"
      using pkt(2,4) h(3) by (simp add: buffer_push_def)
    with ds obtain ctx' a' where "handle_incoming_packet R pkt True ctx
        = Some (Ok (ctx', False, Some a', Some (Other (''Error of Alert '' @ show_alert a'))))"
      "alert_level_field a' = AL_Fatal \<or> alert_description_field a' = AD_CloseNotify"
      using pkt(3,4) h assms(5)
      by (auto simp: handle_incoming_packet_def open_packet_def handle_opened_def handle_content_def Let_def)
    with pkt(1,2,5) True show ?thesis by (simp add: read_and_buffer_def Let_def)
  next
    case False
    then have "\<exists>e. buffer_push pkt (rc_fragment_buffer ctx) = (rc_fragment_buffer ctx, Err e)"
      using pkt(2,4) h(3) by (simp add: buffer_push_def)
    with ds have "\<exists>ds. handle_incoming_packet R pkt True ctx = Some (Ok (ctx\<lparr>rc_replay_detector := ds\<rparr>, quiet))"
      using pkt(3,4) h
      by (auto simp: handle_incoming_packet_def open_packet_def handle_opened_def Let_def)
    with pkt(1,2,5) False show ?thesis by (auto simp: read_and_buffer_def Let_def)
  qed
qed

section \<open>Witnesses\<close>

text \<open>
  A replay detector that remembers all it has accepted, an established connection whose suite hands
  records through, and a record of that connection with the two bytes \<open>hi\<close>.
\<close>

definition demo_detector :: "(u64 list \<times> u64) replay_libs" where
  "demo_detector = \<lparr>rd_new = \<lambda>_ _. ([], 0), rd_check = \<lambda>d s. ((fst d, s), s \<notin> set (fst d)),
     rd_accept = \<lambda>d. (snd d # fst d, snd d)\<rparr>"

lemma demo_detector_contract: "replay_contract demo_detector (\<lambda>d. set (fst d)) (\<lambda>d. Some (snd d))"
  by (simp add: replay_contract_def demo_detector_def)

lemma demo_detector_newer: "accepts_newer demo_detector (\<lambda>d. set (fst d))"
  by (auto simp: accepts_newer_def demo_detector_def)

definition demo_open_suite :: open_suite where
  "demo_open_suite = \<lparr>os_is_psk = False, os_is_initialized = True, os_decrypt = Ok\<rparr>"

definition demo_established :: "(u64 list \<times> u64) reader_context" where
  "demo_established = (reader_start False 64)\<lparr>rc_cipher_suite := Some demo_open_suite, rc_remote_epoch := 1\<rparr>"

definition demo_hi :: "byte list" where
  "demo_hi = [23, 254, 253, 0, 1, 0, 0, 0, 0, 0, 7, 0, 2, 104, 105]"

definition demo_delivered :: "(u64 list \<times> u64) reader_context" where
  "demo_delivered = (case handle_incoming_packet demo_detector demo_hi True demo_established of
     Some (Ok (ctx, _)) \<Rightarrow> ctx | _ \<Rightarrow> demo_established)"

lemma demo_hi_bytes:
  "case record_layer_header_unmarshal demo_hi of
     Ok (h, _) \<Rightarrow> rl_epoch h = 1 \<and> rl_sequence_number h = 7 \<and> rl_content_type h = CT_ApplicationData | _ \<Rightarrow> False"
  "case record_layer_unmarshal demo_hi of
     Ok (r, _) \<Rightarrow> (case rl_content r of ApplicationData d \<Rightarrow> d = [104, 105] | _ \<Rightarrow> False) | _ \<Rightarrow> False"
  by code_simp+

lemma demo_hi_handled:
  obtains h rest where "record_layer_header_unmarshal demo_hi = Ok (h, rest)"
    "handle_incoming_packet demo_detector demo_hi True demo_established = Some (Ok (demo_delivered, quiet))"
    "rc_decrypted demo_delivered = [[104, 105]]" "rc_replay_detector demo_delivered = [([], 0), ([7], 7)]"
    "rc_fragment_buffer demo_delivered = fragment_buffer_new"
proof -
  obtain h rest r rest' where h: "record_layer_header_unmarshal demo_hi = Ok (h, rest)" "rl_epoch h = 1"
    "rl_sequence_number h = 7" "rl_content_type h = CT_ApplicationData"
    "record_layer_unmarshal demo_hi = Ok (r, rest')" "rl_content r = ApplicationData [104, 105]"
    using demo_hi_bytes by (auto split: outcome.splits dtls_content.splits)
  have "buffer_push demo_hi fragment_buffer_new = (fragment_buffer_new, Ok False)"
    using h(1,4) by (simp add: buffer_push_def demo_hi_def buffer_size_def fragment_buffer_new_def FRAGMENT_BUFFER_MAX_SIZE_def)
  with h have "handle_incoming_packet demo_detector demo_hi True demo_established = Some (Ok (demo_established
      \<lparr>rc_replay_detector := [([], 0), ([7], 7)], rc_decrypted := [[104, 105]]\<rparr>, quiet))"
    by (simp add: handle_incoming_packet_def check_replay_def open_packet_def cipher_suite_invalid_def handle_opened_def
        handle_content_def accept_replay_def demo_established_def demo_open_suite_def demo_detector_def reader_start_def)
  with h(1) that show ?thesis
    by (simp add: demo_delivered_def demo_established_def reader_start_def)
qed

theorem record_delivered_once_witness:
  "rc_decrypted demo_delivered = [[104, 105]]
    \<and> (\<exists>ctx3. handle_incoming_packet demo_detector demo_hi False demo_delivered = Some (Ok (ctx3, quiet))
        \<and> rc_decrypted ctx3 = [[104, 105]])"
proof -
  obtain h rest where h: "record_layer_header_unmarshal demo_hi = Ok (h, rest)"
    "handle_incoming_packet demo_detector demo_hi True demo_established = Some (Ok (demo_delivered, quiet))"
    "rc_decrypted demo_delivered = [[104, 105]]" by (rule demo_hi_handled)
  then have "rc_decrypted demo_delivered \<noteq> rc_decrypted demo_established \<or> fst quiet"
    by (simp add: demo_established_def reader_start_def)
  from record_delivered_once [OF demo_detector_contract h(2) this rtranclp.rtrancl_refl h(1) h(1) refl refl, of False] h(3)
  show ?thesis by auto
qed

theorem unauthenticated_alert_closes_witness:
  "\<exists>pkt ctx' alerts. record_layer_marshal (alert_record 0 \<lparr>alert_level_field = AL_Warning, alert_description_field = AD_CloseNotify\<rparr>) = Ok pkt
    \<and> read_and_buffer demo_detector pkt demo_delivered = Some (ctx', alerts, Err ErrAlertFatalOrClose)"
proof -
  have d: "rc_replay_detector demo_delivered = [([], 0), ([7], 7)]"
    "rc_fragment_buffer demo_delivered = fragment_buffer_new" by (rule demo_hi_handled; simp)+
  then have "buffer_size (rc_fragment_buffer demo_delivered) + 15 < FRAGMENT_BUFFER_MAX_SIZE"
    "\<forall>x \<in> seen_at (\<lambda>d. set (fst d)) demo_delivered 0. x < 0"
    by (simp_all add: seen_at_def buffer_size_def fragment_buffer_new_def FRAGMENT_BUFFER_MAX_SIZE_def)
  with unauthenticated_alert_closes [OF demo_detector_contract demo_detector_newer, of demo_delivered 0
      "\<lparr>alert_level_field = AL_Warning, alert_description_field = AD_CloseNotify\<rparr>"]
  show ?thesis by (auto simp: MAX_SEQUENCE_NUMBER_def)
qed

lemma demo_reached: "(reader_step demo_detector)\<^sup>*\<^sup>* (reader_start False 64)
    ((reader_start False 64)\<lparr>rc_cipher_suite := Some demo_open_suite\<rparr>)"
  using reader_step.handshake [of demo_detector "reader_start False 64" "[]" "Some demo_open_suite"]
  by (simp add: reader_start_def r_into_rtranclp)


end
