(* ===== verification/Dtls_Crypto.thy ===== *)
theory Dtls_Crypto
  imports Dtls_Sending
begin

text \<open>
  What the definitions of \<open>Dtls_Ciphers\<close> promise: the padding is read back exactly, the pseudo-random
  function is the one of RFC 5246, and the two sides of a connection that share a master secret decrypt
  what the other encrypts, whatever suite was negotiated.
\<close>

section \<open>Padding is read back exactly\<close>

lemma raw_unpad_Ok: "raw_unpad data = Ok d \<longleftrightarrow> (\<exists>n \<le> 255. data = d @ replicate (Suc n) (word_of_nat n))"
proof
  assume ok: "raw_unpad data = Ok d"
  then have ne: "data \<noteq> []" by (auto simp: raw_unpad_def)
  define n where "n = unat (last data)"
  have n: "n \<le> 255" using unsigned_less [of "last data", where ?'a = nat] by (simp add: n_def)
  from ok ne have "\<not> length data < n + 1 \<and> d = take (length data - n - 1) data
      \<and> \<not> (\<exists>b \<in> set (take n (drop (length data - n - 1) data)). unat b \<noteq> n)"
    unfolding raw_unpad_def Let_def n_def [symmetric] if_not_P [OF ne] by (simp only: outcome.simps simp_thms split: if_splits)
  then have d: "n + 1 \<le> length data" "d = take (length data - n - 1) data"
    and all: "\<forall>b \<in> set (take n (drop (length data - n - 1) data)). unat b = n" by auto
  have "\<forall>b \<in> set (drop (length data - n - 1) data). b = word_of_nat n"
  proof
    fix b
    assume b: "b \<in> set (drop (length data - n - 1) data)"
    have "drop (length data - n - 1) data = take n (drop (length data - n - 1) data) @ [last data]"
      using d(1) append_butlast_last_id [of "drop (length data - n - 1) data"] by (simp add: butlast_conv_take)
    with b have "b \<in> set (take n (drop (length data - n - 1) data)) \<or> b = last data"
      by (metis Un_iff empty_iff empty_set insert_iff list.simps(15) set_append)
    with all n_def have "unat b = n" by blast
    moreover have "b = word_of_nat (unat b)" by simp
    ultimately show "b = word_of_nat n" by (simp only:)
  qed
  then have "drop (length data - n - 1) data = replicate (Suc n) (word_of_nat n)"
    using d(1) by (intro replicate_eqI) auto
  with d(2) n show "\<exists>n \<le> 255. data = d @ replicate (Suc n) (word_of_nat n)"
    by (metis append_take_drop_id)
next
  assume "\<exists>n \<le> 255. data = d @ replicate (Suc n) (word_of_nat n)"
  then obtain n where n: "n \<le> 255" "data = d @ replicate (Suc n) (word_of_nat n)" by blast
  then have "unat (word_of_nat n :: byte) = n" by (simp add: unat_of_nat)
  moreover have "last data = word_of_nat n" "data \<noteq> []" "length data = length d + Suc n"
    "take n (drop (length d) data) = replicate n (word_of_nat n)" "take (length d) data = d"
    using n(2) by (simp_all add: take_replicate del: replicate.simps)
  ultimately show "raw_unpad data = Ok d" by (simp add: raw_unpad_def Let_def)
qed

lemma raw_pad_unpad:
  assumes "pos < length block" and "length block \<le> 256"
  shows "\<exists>b. raw_pad block pos = Ok b \<and> length b = length block \<and> raw_unpad b = Ok (take pos block)"
proof -
  have "length block - pos = Suc (length block - pos - 1)" using assms(1) by simp
  with assms show ?thesis
    by (auto simp: raw_pad_def Let_def raw_unpad_Ok simp del: replicate.simps)
qed

text \<open>What a block cipher relies on of a padding: padded blocks are as long as before and are read back.\<close>

locale block_padding =
  fixes pad :: "byte list \<Rightarrow> nat \<Rightarrow> (byte list, unit) outcome"
    and unpad :: "byte list \<Rightarrow> (byte list, unit) outcome"
  assumes pad_unpad: "pos < length block \<Longrightarrow> length block \<le> 256
    \<Longrightarrow> \<exists>b. pad block pos = Ok b \<and> length b = length block \<and> unpad b = Ok (take pos block)"
begin

lemma last_block:
  assumes "length t < n" and "n \<le> 256"
  shows "\<exists>b. pad (t @ replicate (n - length t) 0) (length t) = Ok b \<and> length b = n \<and> unpad b = Ok t"
  using pad_unpad [of "length t" "t @ replicate (n - length t) 0"] assms by simp

end

interpretation dtls_padding: block_padding raw_pad raw_unpad
  by unfold_locales (rule raw_pad_unpad)

text \<open>
  The padding of the CBC suites is read back exactly: a block is padded whenever it has room and the
  padding fits a byte; unpadding gives the bytes before it; and data is accepted with result \<open>d\<close> exactly
  when it is \<open>d\<close> followed by \<open>n + 1\<close> bytes of value \<open>n\<close>, so that any other padding is refused and nothing
  panics.
\<close>

theorem padding_exact:
  "(raw_unpad data = Ok d \<longleftrightarrow> (\<exists>n \<le> 255. data = d @ replicate (Suc n) (word_of_nat n)))
    \<and> raw_unpad data \<noteq> Panic
    \<and> (raw_pad block pos \<noteq> Panic \<longleftrightarrow> pos < length block \<and> length block \<le> pos + 256)
    \<and> (raw_pad block pos = Ok b \<longrightarrow> length b = length block \<and> raw_unpad b = Ok (take pos block))"
proof (intro conjI)
  show "raw_unpad data = Ok d \<longleftrightarrow> (\<exists>n \<le> 255. data = d @ replicate (Suc n) (word_of_nat n))" by (rule raw_unpad_Ok)
  show "raw_unpad data \<noteq> Panic"
    unfolding raw_unpad_def Let_def by (simp only: outcome.distinct split: if_split) blast
  show "raw_pad block pos \<noteq> Panic \<longleftrightarrow> pos < length block \<and> length block \<le> pos + 256"
    by (auto simp: raw_pad_def Let_def)
  show "raw_pad block pos = Ok b \<longrightarrow> length b = length block \<and> raw_unpad b = Ok (take pos block)"
  proof
    assume p: "raw_pad block pos = Ok b"
    then have b: "pos < length block" "length block - pos - 1 \<le> 255"
      "b = take pos block @ replicate (Suc (length block - pos - 1)) (word_of_nat (length block - pos - 1))"
      by (auto simp: raw_pad_def Let_def Suc_diff_Suc split: if_splits simp del: replicate.simps)
    then have "raw_unpad b = Ok (take pos block)" unfolding raw_unpad_Ok by blast
    with b show "length b = length block \<and> raw_unpad b = Ok (take pos block)" by simp
  qed
qed

section \<open>The pseudo-random function is P_hash\<close>

text \<open>RFC 5246, section 5: the stream of HMACs of which the output is a prefix.\<close>

primrec A_hash :: "crypto_libs \<Rightarrow> byte list \<Rightarrow> byte list \<Rightarrow> nat \<Rightarrow> byte list" where
  "A_hash L secret seed 0 = seed"
| "A_hash L secret seed (Suc i) = cl_hmac_sha256 L secret (A_hash L secret seed i)"

definition P_hash :: "crypto_libs \<Rightarrow> byte list \<Rightarrow> byte list \<Rightarrow> nat \<Rightarrow> byte list" where
  "P_hash L secret seed k = concat (map (\<lambda>i. cl_hmac_sha256 L secret (A_hash L secret seed (Suc i) @ seed)) [0..<k])"

lemma p_hash_loop_eq:
  "p_hash_loop L secret seed n (A_hash L secret seed i) out
    = out @ concat (map (\<lambda>j. cl_hmac_sha256 L secret (A_hash L secret seed (Suc j) @ seed)) [i..<i + n])"
proof (induction n arbitrary: i out)
  case (Suc n)
  have "[i..<i + Suc n] = i # [Suc i..<Suc i + n]" by (simp add: upt_conv_Cons)
  with Suc [of "Suc i"] show ?case by (simp add: Let_def)
qed simp

lemma P_hash_prefix:
  assumes "\<And>k d. length (cl_hmac_sha256 L k d) = hash_size"
  shows "length (P_hash L secret seed k) = hash_size * k"
    and "k \<le> k' \<Longrightarrow> n \<le> hash_size * k \<Longrightarrow> take n (P_hash L secret seed k') = take n (P_hash L secret seed k)"
proof -
  have len: "length (P_hash L secret seed k) = hash_size * k" for k
    by (induction k) (simp_all add: P_hash_def assms)
  then show "length (P_hash L secret seed k) = hash_size * k" .
  assume "k \<le> k'" "n \<le> hash_size * k"
  moreover from this have "[0..<k'] = [0..<k] @ [k..<k']" by (metis le0 upt_add_eq_append le_add_diff_inverse)
  then have "P_hash L secret seed k' = P_hash L secret seed k
      @ concat (map (\<lambda>i. cl_hmac_sha256 L secret (A_hash L secret seed (Suc i) @ seed)) [k..<k'])"
    by (simp add: P_hash_def)
  ultimately show "take n (P_hash L secret seed k') = take n (P_hash L secret seed k)" by (simp add: len)
qed

lemma prf_p_hash_Ok:
  assumes "\<And>k d. length (cl_hmac_sha256 L k d) = hash_size"
  shows "\<exists>out. prf_p_hash L secret seed n = Ok out \<and> length out = n
    \<and> (\<forall>k. n \<le> hash_size * k \<longrightarrow> out = take n (P_hash L secret seed k))"
proof -
  let ?k = "(n + hash_size - 1) div hash_size"
  have n: "n \<le> hash_size * ?k" by (simp add: hash_size_def)
  have loop: "p_hash_loop L secret seed ?k seed [] = P_hash L secret seed ?k"
    using p_hash_loop_eq [of L secret seed ?k 0 "[]"] by (simp add: P_hash_def)
  show ?thesis
  proof (intro exI conjI allI impI)
    show "prf_p_hash L secret seed n = Ok (take n (P_hash L secret seed ?k))"
      using n loop by (simp add: prf_p_hash_def Let_def P_hash_prefix(1) [OF assms])
    show "length (take n (P_hash L secret seed ?k)) = n" using n by (simp add: P_hash_prefix(1) [OF assms])
    show "take n (P_hash L secret seed ?k) = take n (P_hash L secret seed k)" if "n \<le> hash_size * k" for k
      using P_hash_prefix(2) [OF assms] n that by (metis linorder_le_cases)
  qed
qed

text \<open>
  C38. The pseudo-random function is the P_hash of RFC 5246: for every length it returns exactly that many
  bytes, the first of the stream \<open>HMAC(secret, A(1) + seed) + HMAC(secret, A(2) + seed) + \<dots>\<close>, however
  far the stream is computed, and it never panics.
\<close>

theorem prf_is_P_hash:
  assumes "\<And>k d. length (cl_hmac_sha256 L k d) = hash_size" and "n \<le> hash_size * k"
  shows "prf_p_hash L secret seed n = Ok (take n (P_hash L secret seed k))
    \<and> length (take n (P_hash L secret seed k)) = n"
  using prf_p_hash_Ok [OF assms(1), of secret seed n] assms(2) P_hash_prefix(1) [OF assms(1), of secret seed k] by auto

section \<open>Both sides derive the same keys\<close>

lemma encryption_keys_Ok:
  assumes "\<And>k d. length (cl_hmac_sha256 L k d) = hash_size"
  obtains k where "prf_encryption_keys L ms cr sr mac_len key_len iv_len = Ok k"
    "length (ek_client_mac_key k) = mac_len" "length (ek_server_mac_key k) = mac_len"
    "length (ek_client_write_key k) = key_len" "length (ek_server_write_key k) = key_len"
    "length (ek_client_write_iv k) = iv_len" "length (ek_server_write_iv k) = iv_len"
proof -
  obtain out where out: "prf_p_hash L ms (label_bytes ''key expansion'' @ sr @ cr) (2 * mac_len + 2 * key_len + 2 * iv_len) = Ok out"
    "length out = 2 * mac_len + 2 * key_len + 2 * iv_len"
    using prf_p_hash_Ok [OF assms] by blast
  with that show ?thesis by (simp add: prf_encryption_keys_def next_key_def)
qed

text \<open>
  What is relied on of the libraries: the length of a MAC, that what was encrypted is decrypted with the
  same key, nonce and additional data and that a tag is appended, and that CBC gives a message back when
  the padding does.
\<close>

fun tag_length :: "aead_kind \<Rightarrow> nat" where
  "tag_length Aes128Gcm = CRYPTO_GCM_TAG_LENGTH"
| "tag_length AesCcm = CRYPTO_CCM_TAG_LENGTH"
| "tag_length AesCcm8 = CRYPTO_CCM_8_TAG_LENGTH"

definition mac_contract :: "crypto_libs \<Rightarrow> bool" where
  "mac_contract L \<longleftrightarrow> (\<forall>k d. length (cl_hmac_sha256 L k d) = hash_size \<and> length (cl_hmac_sha1 L k d) = MAC_SIZE)"

definition aead_contract :: "crypto_libs \<Rightarrow> bool" where
  "aead_contract L \<longleftrightarrow> (\<forall>kind key nonce aad m. length key = 16 \<longrightarrow> length nonce = 12 \<longrightarrow> length m < 65536
     \<longrightarrow> (\<exists>c. cl_encrypt_in_place L kind key nonce aad m = Ok c \<and> length c = length m + tag_length kind
          \<and> cl_decrypt_in_place L kind key nonce aad c = Ok m))"

definition cbc_contract :: "crypto_libs \<Rightarrow> bool" where
  "cbc_contract L \<longleftrightarrow> (\<forall>pad unpad key iv m. block_padding pad unpad \<longrightarrow> length key = 32 \<longrightarrow> length iv = BLOCK_SIZE
     \<longrightarrow> (\<exists>c. cl_encrypt_padded L pad key iv m = Ok c \<and> length c \<le> length m + BLOCK_SIZE
          \<and> cl_decrypt_padded L unpad key iv c = Ok m))"

definition crypto_contract :: "crypto_libs \<Rightarrow> bool" where
  "crypto_contract L \<longleftrightarrow> mac_contract L \<and> aead_contract L \<and> cbc_contract L"

text \<open>The record that carries a protected body: its header up to the length, and how it is parsed again.\<close>

lemma with_length_header:
  fixes body payload :: "byte list"
  assumes "record_layer_header_marshal h = Ok hb"
    and "rl_protocol_version h = PROTOCOL_VERSION1_0 \<or> rl_protocol_version h = PROTOCOL_VERSION1_2"
  defines "h' \<equiv> h\<lparr>rl_content_len := word_of_nat (length body)\<rparr>"
  obtains hb' where "with_length (hb @ payload) body = hb' @ body" "length hb' = RECORD_LAYER_HEADER_SIZE"
    "record_layer_header_marshal h' = Ok hb'" "record_layer_header_unmarshal (hb' @ body) = Ok (h', body)"
    "take 11 hb' = take 11 hb"
proof -
  define pre where "pre = [content_type_as (rl_content_type h), major (rl_protocol_version h), minor (rl_protocol_version h)]
    @ to_be 2 (rl_epoch h) @ drop 2 (to_be 8 (rl_sequence_number h))"
  have pre: "hb = pre @ to_be 2 (rl_content_len h)" "length pre = 11"
    "record_layer_header_marshal h' = Ok (pre @ to_be 2 (word_of_nat (length body) :: u16))"
    using assms(1) by (auto simp: record_layer_header_marshal_def h'_def pre_def split: if_splits)
  from pre(1,2) have "with_length (hb @ payload) body = (pre @ to_be 2 (word_of_nat (length body) :: u16)) @ body"
    by (simp add: with_length_def RECORD_LAYER_HEADER_SIZE_def)
  with that [OF this _ pre(3)] record_header_dec_enc [OF pre(3)] assms(2) pre(1,2) show ?thesis
    by (simp add: h'_def)
qed

text \<open>
  A protected record \<open>out\<close> of the plain record with header \<open>h\<close> and body \<open>payload\<close>, and what opening it
  gives: the header is kept but for its length, and the payload comes back.
\<close>

definition sealed :: "record_layer_header \<Rightarrow> byte list \<Rightarrow> byte list \<Rightarrow> (byte list, dtls_error) outcome \<Rightarrow> bool" where
  "sealed h payload out opened \<longleftrightarrow> (\<exists>hb body. out = hb @ body \<and> body \<noteq> [] \<and> framed out
     \<and> length body \<le> length payload + 52
     \<and> record_layer_header_marshal (h\<lparr>rl_content_len := word_of_nat (length body)\<rparr>) = Ok hb
     \<and> opened = Ok (hb @ payload))"

definition plain_record :: "record_layer_header \<Rightarrow> byte list \<Rightarrow> byte list \<Rightarrow> bool" where
  "plain_record h payload raw \<longleftrightarrow> (\<exists>hb. record_layer_header_marshal h = Ok hb \<and> raw = hb @ payload)
     \<and> (rl_protocol_version h = PROTOCOL_VERSION1_0 \<or> rl_protocol_version h = PROTOCOL_VERSION1_2)
     \<and> rl_content_type h \<noteq> CT_ChangeCipherSpec \<and> length payload \<le> 65000"

lemma additional_data_length [simp]:
  "generate_aead_additional_data (h\<lparr>rl_content_len := n\<rparr>) = generate_aead_additional_data h"
  "prf_mac L (h\<lparr>rl_content_len := n\<rparr>) = prf_mac L h"
  by (simp_all add: generate_aead_additional_data_def prf_mac_def fun_eq_iff)

lemma aead_roundtrip:
  assumes "aead_contract L" and "length key = 16" and "4 \<le> length iv" and "length (rnd 8) = 8"
    and "plain_record h payload raw"
  shows "\<exists>out. aead_encrypt L kind key iv rnd h raw = Ok out
    \<and> sealed h payload out (aead_decrypt L kind (tag_length kind) key iv out)
    \<and> length out = RECORD_LAYER_HEADER_SIZE + 8 + length payload + tag_length kind"
proof -
  from assms(5) obtain hb where hb: "record_layer_header_marshal h = Ok hb" "raw = hb @ payload"
    and v: "rl_protocol_version h = PROTOCOL_VERSION1_0 \<or> rl_protocol_version h = PROTOCOL_VERSION1_2"
    and t: "rl_content_type h \<noteq> CT_ChangeCipherSpec" and len: "length payload \<le> 65000"
    by (auto simp: plain_record_def)
  let ?nonce = "take 4 iv @ rnd 8" and ?aad = "generate_aead_additional_data h (word_of_nat (length payload))"
  have "length ?nonce = 12" "length payload < 65536" using assms(3,4) len by simp_all
  with assms(1,2) obtain c where c: "cl_encrypt_in_place L kind key ?nonce ?aad payload = Ok c"
    "length c = length payload + tag_length kind" "cl_decrypt_in_place L kind key ?nonce ?aad c = Ok payload"
    unfolding aead_contract_def by blast
  obtain hb' where w: "with_length (hb @ payload) (rnd 8 @ c) = hb' @ rnd 8 @ c" "length hb' = RECORD_LAYER_HEADER_SIZE"
    "record_layer_header_marshal (h\<lparr>rl_content_len := word_of_nat (length (rnd 8 @ c))\<rparr>) = Ok hb'"
    "record_layer_header_unmarshal (hb' @ rnd 8 @ c) = Ok (h\<lparr>rl_content_len := word_of_nat (length (rnd 8 @ c))\<rparr>, rnd 8 @ c)"
    using with_length_header [OF hb(1) v, of payload "rnd 8 @ c"] by blast
  have tag: "0 < tag_length kind" "tag_length kind \<le> 16"
    by (cases kind; simp add: CRYPTO_GCM_TAG_LENGTH_def CRYPTO_CCM_TAG_LENGTH_def CRYPTO_CCM_8_TAG_LENGTH_def)+
  have hlen: "length hb = RECORD_LAYER_HEADER_SIZE" by (rule record_header_dec_enc(2) [OF hb(1) v])
  have enc: "aead_encrypt L kind key iv rnd h raw = Ok (hb' @ rnd 8 @ c)"
    using assms(3) c(1) w(1) hlen hb(2) by (simp add: aead_encrypt_def)
  have dec: "aead_decrypt L kind (tag_length kind) key iv (hb' @ rnd 8 @ c) = Ok (hb' @ payload)"
    using assms(3,4) c(2,3) w(2,4) t tag by (simp add: aead_decrypt_def Let_def)
  have "framed (hb' @ rnd 8 @ c)"
    by (rule framed_record [OF w(3)]) (use assms(4) c(2) len tag in simp_all)
  moreover have "rnd 8 @ c \<noteq> []" "length (rnd 8 @ c) \<le> length payload + 52" using assms(4) c(2) tag by auto
  ultimately have "sealed h payload (hb' @ rnd 8 @ c) (aead_decrypt L kind (tag_length kind) key iv (hb' @ rnd 8 @ c))"
    using dec w(3) unfolding sealed_def by blast
  with enc show ?thesis using w(2) assms(4) c(2) by simp
qed

lemma cbc_roundtrip:
  assumes "mac_contract L" and "cbc_contract L" and "length (cbc_local_key a) = 32" and "length (rnd BLOCK_SIZE) = BLOCK_SIZE"
    and "cbc_remote_key b = cbc_local_key a" and "cbc_read_mac b = cbc_write_mac a" and "plain_record h payload raw"
  shows "\<exists>out. cbc_encrypt L rnd a h raw = Ok out \<and> sealed h payload out (cbc_decrypt L b out)"
proof -
  from assms(7) obtain hb where hb: "record_layer_header_marshal h = Ok hb" "raw = hb @ payload"
    and v: "rl_protocol_version h = PROTOCOL_VERSION1_0 \<or> rl_protocol_version h = PROTOCOL_VERSION1_2"
    and t: "rl_content_type h \<noteq> CT_ChangeCipherSpec" and len: "length payload \<le> 65000"
    by (auto simp: plain_record_def)
  let ?mac = "prf_mac L h payload (cbc_write_mac a)" and ?iv = "rnd BLOCK_SIZE"
  have mac: "length ?mac = MAC_SIZE" using assms(1) by (simp add: mac_contract_def prf_mac_def)
  obtain c where c: "cl_encrypt_padded L raw_pad (cbc_local_key a) ?iv (payload @ ?mac) = Ok c"
    "length c \<le> length (payload @ ?mac) + BLOCK_SIZE" "cl_decrypt_padded L raw_unpad (cbc_local_key a) ?iv c = Ok (payload @ ?mac)"
    using assms(2-4) dtls_padding.block_padding_axioms unfolding cbc_contract_def by blast
  obtain hb' where w: "with_length (hb @ payload) (?iv @ c) = hb' @ ?iv @ c" "length hb' = RECORD_LAYER_HEADER_SIZE"
    "record_layer_header_marshal (h\<lparr>rl_content_len := word_of_nat (length (?iv @ c))\<rparr>) = Ok hb'"
    "record_layer_header_unmarshal (hb' @ ?iv @ c) = Ok (h\<lparr>rl_content_len := word_of_nat (length (?iv @ c))\<rparr>, ?iv @ c)"
    using with_length_header [OF hb(1) v, of payload "?iv @ c"] by blast
  have hlen: "length hb = RECORD_LAYER_HEADER_SIZE" by (rule record_header_dec_enc(2) [OF hb(1) v])
  have enc: "cbc_encrypt L rnd a h raw = Ok (hb' @ ?iv @ c)"
    using assms(3,4) c(1) w(1) hlen hb(2) by (simp add: cbc_encrypt_def Let_def)
  have dec: "cbc_decrypt L b (hb' @ ?iv @ c) = Ok (hb' @ payload)"
    using assms(3-6) c(3) w(2,4) t mac by (simp add: cbc_decrypt_def Let_def)
  have "framed (hb' @ ?iv @ c)"
    by (rule framed_record [OF w(3)]) (use assms(4) c(2) len mac in \<open>simp_all add: BLOCK_SIZE_def MAC_SIZE_def\<close>)
  moreover have "?iv @ c \<noteq> []" "length (?iv @ c) \<le> length payload + 52"
    using assms(4) c(2) mac by (auto simp: BLOCK_SIZE_def MAC_SIZE_def)
  ultimately show ?thesis using enc dec w(3) unfolding sealed_def by blast
qed

text \<open>Two sides whose suites were initialised from the same secret, in opposite roles.\<close>

lemma peers_gcm:
  assumes "mac_contract L"
  obtains a b where "suite_init L (Gcm_Suite x) ms cr sr c = Ok (Gcm_Suite (Some a))"
    "suite_init L (Gcm_Suite x) ms cr sr (\<not> c) = Ok (Gcm_Suite (Some b))"
    "gcm_remote_key b = gcm_local_key a" "gcm_remote_write_iv b = gcm_local_write_iv a"
    "length (gcm_local_key a) = 16" "length (gcm_local_write_iv a) = 4"
proof -
  obtain k where "prf_encryption_keys L ms cr sr 0 16 4 = Ok k" "length (ek_client_write_key k) = 16"
    "length (ek_server_write_key k) = 16" "length (ek_client_write_iv k) = 4" "length (ek_server_write_iv k) = 4"
    using encryption_keys_Ok [of L ms cr sr 0 16 4] assms unfolding mac_contract_def by blast
  with that show ?thesis by (cases c) (simp_all add: crypto_gcm_new_def gcm_suite_init_def)
qed

lemma peers_ccm:
  assumes "mac_contract L"
  obtains a b where "suite_init L (Ccm_Suite t x) ms cr sr c = Ok (Ccm_Suite t (Some a))"
    "suite_init L (Ccm_Suite t x) ms cr sr (\<not> c) = Ok (Ccm_Suite t (Some b))"
    "ccm_remote_key b = ccm_local_key a" "ccm_remote_write_iv b = ccm_local_write_iv a"
    "length (ccm_local_key a) = 16" "length (ccm_local_write_iv a) = 4" "ccm_tag_len a = t" "ccm_tag_len b = t"
proof -
  obtain k where "prf_encryption_keys L ms cr sr 0 16 4 = Ok k" "length (ek_client_write_key k) = 16"
    "length (ek_server_write_key k) = 16" "length (ek_client_write_iv k) = 4" "length (ek_server_write_iv k) = 4"
    using encryption_keys_Ok [of L ms cr sr 0 16 4] assms unfolding mac_contract_def by blast
  with that show ?thesis by (cases c) (simp_all add: crypto_ccm_new_def ccm_suite_init_def)
qed

lemma peers_cbc:
  assumes "mac_contract L"
  obtains a b where "suite_init L (Cbc_Suite x) ms cr sr c = Ok (Cbc_Suite (Some a))"
    "suite_init L (Cbc_Suite x) ms cr sr (\<not> c) = Ok (Cbc_Suite (Some b))"
    "cbc_remote_key b = cbc_local_key a" "cbc_read_mac b = cbc_write_mac a" "length (cbc_local_key a) = 32"
proof -
  obtain k where "prf_encryption_keys L ms cr sr 20 32 16 = Ok k" "length (ek_client_write_key k) = 32"
    "length (ek_server_write_key k) = 32"
    using encryption_keys_Ok [of L ms cr sr 20 32 16] assms unfolding mac_contract_def by blast
  with that show ?thesis by (cases c) (simp_all add: crypto_cbc_new_def cbc_suite_init_def)
qed

text \<open>The random bytes a side draws have the length asked for.\<close>

definition fills :: "(nat \<Rightarrow> byte list) \<Rightarrow> bool" where
  "fills rnd \<longleftrightarrow> (\<forall>n. length (rnd n) = n)"

lemma suite_roundtrip:
  assumes "crypto_contract L" and "fills rnd" and "plain_record h payload raw"
  shows "\<exists>a b out. suite_init L sc ms cr sr c = Ok a \<and> suite_init L sc ms cr sr (\<not> c) = Ok b
    \<and> suite_is_initialized a \<and> suite_is_initialized b
    \<and> suite_encrypt L rnd a h raw = Ok out \<and> sealed h payload out (suite_decrypt L b out)"
proof -
  from assms(1,2) have con: "mac_contract L" "aead_contract L" "cbc_contract L" and rnd: "length (rnd 8) = 8"
      "length (rnd BLOCK_SIZE) = BLOCK_SIZE"
    by (simp_all add: crypto_contract_def fills_def)
  note seal = aead_roundtrip [where rnd = rnd, OF con(2) _ _ rnd(1) assms(3)]
  show ?thesis
  proof (cases sc)
    case (Gcm_Suite x)
    obtain a b where ab: "suite_init L (Gcm_Suite x) ms cr sr c = Ok (Gcm_Suite (Some a))"
      "suite_init L (Gcm_Suite x) ms cr sr (\<not> c) = Ok (Gcm_Suite (Some b))"
      "gcm_remote_key b = gcm_local_key a" "gcm_remote_write_iv b = gcm_local_write_iv a"
      "length (gcm_local_key a) = 16" "length (gcm_local_write_iv a) = 4"
      using peers_gcm [OF con(1)] by blast
    from seal [of "gcm_local_key a" "gcm_local_write_iv a" Aes128Gcm] ab Gcm_Suite show ?thesis
      by (auto simp: gcm_encrypt_def gcm_decrypt_def)
  next
    case (Ccm_Suite t x)
    obtain a b where ab: "suite_init L (Ccm_Suite t x) ms cr sr c = Ok (Ccm_Suite t (Some a))"
      "suite_init L (Ccm_Suite t x) ms cr sr (\<not> c) = Ok (Ccm_Suite t (Some b))"
      "ccm_remote_key b = ccm_local_key a" "ccm_remote_write_iv b = ccm_local_write_iv a"
      "length (ccm_local_key a) = 16" "length (ccm_local_write_iv a) = 4" "ccm_tag_len a = t" "ccm_tag_len b = t"
      using peers_ccm [OF con(1)] by blast
    from seal [of "ccm_local_key a" "ccm_local_write_iv a"] ab Ccm_Suite show ?thesis
      by (cases t) (fastforce simp: ccm_encrypt_def ccm_decrypt_def)+
  next
    case (Cbc_Suite x)
    obtain a b where ab: "suite_init L (Cbc_Suite x) ms cr sr c = Ok (Cbc_Suite (Some a))"
      "suite_init L (Cbc_Suite x) ms cr sr (\<not> c) = Ok (Cbc_Suite (Some b))"
      "cbc_remote_key b = cbc_local_key a" "cbc_read_mac b = cbc_write_mac a" "length (cbc_local_key a) = 32"
      using peers_cbc [OF con(1)] by blast
    from cbc_roundtrip [where rnd = rnd, OF con(1,3) ab(5) rnd(2) ab(3,4) assms(3)] ab Cbc_Suite show ?thesis by auto
  qed
qed

text \<open>
  C30. Two sides that share a master secret understand each other, whatever suite they negotiated: both
  initialisations succeed, and every record either side encrypts, with any random bytes, is decrypted by
  the other to its payload, its type, version, epoch and number unchanged and its length field that of
  the protected body.
\<close>

theorem suites_interoperate:
  assumes "crypto_contract L" and "fills rnd" and "cipher_suite_for_id i = Ok cs" and "plain_record h payload raw"
  shows "\<exists>a b out. suite_init L (cs_cipher cs) ms cr sr is_client = Ok a
    \<and> suite_init L (cs_cipher cs) ms cr sr (\<not> is_client) = Ok b
    \<and> suite_encrypt L rnd a h raw = Ok out \<and> sealed h payload out (suite_decrypt L b out)"
  using suite_roundtrip [OF assms(1,2,4), of "cs_cipher cs" ms cr sr is_client] by blast

text \<open>The suites leave epoch and number of a record readable, which the numbering of records relies on.\<close>

lemma with_length_prefix: "RECORD_LAYER_HEADER_SIZE \<le> length raw \<Longrightarrow> take 11 (with_length raw body) = take 11 raw"
  by (simp add: with_length_def RECORD_LAYER_HEADER_SIZE_def)

lemma suite_keeps_number: "keeps_number (Some (suite_encrypt L rnd sc))"
proof -
  have aead: "take 11 out = take 11 raw" if "aead_encrypt L kind key iv rnd h raw = Ok out" for kind key iv h raw out
    using that by (auto simp: aead_encrypt_def Let_def obind_eq_Ok with_length_prefix split: if_splits)
  have "take 11 out = take 11 raw" if "suite_encrypt L rnd sc h raw = Ok out" for h raw out
    using that aead
    by (cases "(L, rnd, sc, h, raw)" rule: suite_encrypt.cases)
      (auto simp: gcm_encrypt_def ccm_encrypt_def cbc_encrypt_def Let_def with_length_prefix
        split: crypto_ccm_tag_len.splits outcome.splits if_splits)
  then show ?thesis by (simp add: keeps_number_def)
qed

section \<open>Witnesses\<close>

text \<open>Libraries that keep their contracts without hiding anything: the tag is zero and the padding is all that CBC adds.\<close>

definition demo_encrypt_padded :: "(byte list \<Rightarrow> nat \<Rightarrow> (byte list, unit) outcome) \<Rightarrow> byte list \<Rightarrow> (byte list, unit) outcome" where
  "demo_encrypt_padded pad m = (let k = length m - length m mod 16; t = drop k m in
     omap ((@) (take k m)) (pad (t @ replicate (16 - length t) 0) (length t)))"

definition demo_crypto :: crypto_libs where
  "demo_crypto = \<lparr>cl_sha256 = \<lambda>_. replicate 32 0, cl_hmac_sha256 = \<lambda>k d. replicate 32 (word_of_nat (length d)),
     cl_hmac_sha1 = \<lambda>k d. replicate 20 (word_of_nat (length d)),
     cl_encrypt_in_place = \<lambda>kind key nonce aad m. Ok (m @ replicate (tag_length kind) 0),
     cl_decrypt_in_place = \<lambda>kind key nonce aad c. Ok (take (length c - tag_length kind) c),
     cl_encrypt_padded = \<lambda>pad key iv m. demo_encrypt_padded pad m,
     cl_decrypt_padded = \<lambda>unpad key iv c. omap ((@) (take (length c - 16) c)) (unpad (drop (length c - 16) c))\<rparr>"

lemma demo_cbc: "cbc_contract demo_crypto"
  unfolding cbc_contract_def
proof (intro allI impI)
  fix pad unpad and key iv m :: "byte list"
  assume p: "block_padding pad unpad"
  define k where "k = length m - length m mod 16"
  have t: "length (drop k m) = length m mod 16" "length (drop k m) < 16" by (simp_all add: k_def)
  obtain b where b: "pad (drop k m @ replicate (16 - length (drop k m)) 0) (length (drop k m)) = Ok b"
    "length b = 16" "unpad b = Ok (drop k m)"
    using block_padding.last_block [OF p t(2)] by auto
  have "cl_encrypt_padded demo_crypto pad key iv m = Ok (take k m @ b)"
    using b(1) unfolding t(1) by (simp add: demo_crypto_def demo_encrypt_padded_def k_def [symmetric] Let_def t(1) del: length_drop)
  moreover have "cl_decrypt_padded demo_crypto unpad key iv (take k m @ b) = Ok m"
    using b(2,3) by (simp add: demo_crypto_def min_absorb2 k_def)
  moreover have "length (take k m @ b) \<le> length m + BLOCK_SIZE" using b(2) by (simp add: BLOCK_SIZE_def)
  ultimately show "\<exists>c. cl_encrypt_padded demo_crypto pad key iv m = Ok c \<and> length c \<le> length m + BLOCK_SIZE
      \<and> cl_decrypt_padded demo_crypto unpad key iv c = Ok m" by blast
qed

lemma demo_crypto_contract: "crypto_contract demo_crypto"
  using demo_cbc
  by (simp add: crypto_contract_def mac_contract_def aead_contract_def demo_crypto_def hash_size_def MAC_SIZE_def)

definition demo_plain_header :: record_layer_header where
  "demo_plain_header = \<lparr>rl_content_type = CT_ApplicationData, rl_protocol_version = PROTOCOL_VERSION1_2, rl_epoch = 1,
     rl_sequence_number = 7, rl_content_len = 2\<rparr>"

lemma demo_plain: "plain_record demo_plain_header [104, 105] [23, 254, 253, 0, 1, 0, 0, 0, 0, 0, 7, 0, 2, 104, 105]"
proof -
  have "case record_layer_header_marshal demo_plain_header of Ok hb \<Rightarrow> hb = [23, 254, 253, 0, 1, 0, 0, 0, 0, 0, 7, 0, 2] | _ \<Rightarrow> False"
    by code_simp
  then show ?thesis
    by (auto simp: plain_record_def demo_plain_header_def split: outcome.splits)
qed

theorem suites_interoperate_witness:
  "\<exists>a b out. suite_init demo_crypto (Cbc_Suite None) [1] [2] [3] True = Ok a
    \<and> suite_init demo_crypto (Cbc_Suite None) [1] [2] [3] False = Ok b
    \<and> suite_encrypt demo_crypto (\<lambda>n. replicate n 9) a demo_plain_header [23, 254, 253, 0, 1, 0, 0, 0, 0, 0, 7, 0, 2, 104, 105] = Ok out
    \<and> sealed demo_plain_header [104, 105] out (suite_decrypt demo_crypto b out)"
  using suites_interoperate [OF demo_crypto_contract _ _ demo_plain, of "\<lambda>n. replicate n 9"
      Tls_Ecdhe_Rsa_With_Aes_256_Cbc_Sha "new_aes_256_cbc_sha True" "[1]" "[2]" "[3]" True]
  by (simp add: fills_def new_aes_256_cbc_sha_def)

theorem prf_is_P_hash_witness:
  "prf_p_hash demo_crypto [1] [2, 3] 40 = Ok (take 40 (P_hash demo_crypto [1] [2, 3] 2))"
  using prf_is_P_hash [of demo_crypto 40 2 "[1]" "[2, 3]"] by (simp add: demo_crypto_def hash_size_def)

theorem padding_exact_witness:
  "raw_unpad [7, 8, 1, 1] = Ok [7, 8] \<and> raw_unpad [7, 8, 2, 1] \<noteq> Panic
    \<and> raw_pad [7, 8, 0, 0] 2 = Ok [7, 8, 1, 1] \<and> raw_unpad [7, 8, 1, 1] = Ok (take 2 [7, 8, 0, 0])"
proof -
  have "raw_pad [7, 8, 0, 0] 2 = Ok [7, 8, 1, 1]" by code_simp
  with padding_exact [of "[7, 8, 2, 1]" "[]" "[7, 8, 0, 0]" 2 "[7, 8, 1, 1]"] show ?thesis by auto
qed

end
