(* ===== verification/Dtls_Channel.thy ===== *)
theory Dtls_Channel
  imports Dtls_Receiving Dtls_Crypto
begin

text \<open>
  A connection as an application sees it (\<^verbatim>\<open>read\<close>, \<^verbatim>\<open>write\<close>, \<^verbatim>\<open>notify\<close>, \<^verbatim>\<open>close\<close> and \<^verbatim>\<open>write_packets\<close> of
  \<^verbatim>\<open>conn/mod.rs\<close>) and the reader task that \<^verbatim>\<open>DTLSConn::new\<close> starts. The theory composes the sender, the
  cipher suites and the reader: what one side writes the other reads, in order, as
  far as the datagrams arrive and fit the reader's buffer, and a write too large for it is lost.
\<close>

section \<open>The application's side\<close>

definition INBOUND_BUFFER_SIZE :: nat where "INBOUND_BUFFER_SIZE = 8192"

record connection =
  cn_is_client :: bool
  cn_closed :: bool
  cn_completed :: bool
  cn_local_epoch :: u16
  cn_mtu :: nat
  cn_send :: send_state
  cn_reader_open :: bool
  cn_socket_open :: bool

text \<open>The transport takes one datagram after the other; the first failure ends the flight.\<close>

fun send_all :: "(byte list \<Rightarrow> (unit, dtls_error) outcome) \<Rightarrow> byte list list \<Rightarrow> byte list list \<times> (unit, dtls_error) outcome" where
  "send_all T [] = ([], Ok ())"
| "send_all T (d # ds) = (case T d of
     Ok _ \<Rightarrow> (case send_all T ds of (gone, r) \<Rightarrow> (d # gone, r))
   | Err e \<Rightarrow> ([], Err e)
   | Panic \<Rightarrow> ([], Panic))"

definition write_packets :: "(byte list \<Rightarrow> (unit, dtls_error) outcome) \<Rightarrow> sealer \<Rightarrow> packet list \<Rightarrow> connection
    \<Rightarrow> connection \<times> byte list list \<times> (unit, dtls_error) outcome" where
  "write_packets T enc pkts cn =
     (case handle_outgoing_packets enc (cn_mtu cn) (cn_is_client cn) pkts (cn_send cn) of
        (st, r) \<Rightarrow> let cn = cn\<lparr>cn_send := st\<rparr> in
          (case r of
             Ok ds \<Rightarrow> (cn, send_all T ds)
           | Err e \<Rightarrow> (cn, [], Err e)
           | Panic \<Rightarrow> (cn, [], Panic)))"

definition conn_write :: "(byte list \<Rightarrow> (unit, dtls_error) outcome) \<Rightarrow> sealer \<Rightarrow> byte list \<Rightarrow> connection
    \<Rightarrow> connection \<times> byte list list \<times> (nat, dtls_error) outcome" where
  "conn_write T enc p cn =
     (if cn_closed cn then (cn, [], Err ErrConnClosed)
      else if \<not> cn_completed cn then (cn, [], Err ErrHandshakeInProgress)
      else case write_packets T enc
          [\<lparr>pk_record = record_layer_new PROTOCOL_VERSION1_2 (cn_local_epoch cn) (ApplicationData p),
            pk_should_encrypt = True, pk_reset_local_sequence_number = False\<rparr>] cn of
        (cn, gone, r) \<Rightarrow> (cn, gone, omap (\<lambda>_. length p) r))"

definition notify :: "(byte list \<Rightarrow> (unit, dtls_error) outcome) \<Rightarrow> sealer \<Rightarrow> alert \<Rightarrow> connection
    \<Rightarrow> connection \<times> byte list list \<times> (unit, dtls_error) outcome" where
  "notify T enc a cn = write_packets T enc
     [\<lparr>pk_record = record_layer_new PROTOCOL_VERSION1_2 (cn_local_epoch cn) (Alert a),
       pk_should_encrypt = cn_completed cn, pk_reset_local_sequence_number = False\<rparr>] cn"

text \<open>\<open>close\<close> is what the transport answers when it is closed.\<close>

definition conn_close :: "(byte list \<Rightarrow> (unit, dtls_error) outcome) \<Rightarrow> (unit, dtls_error) outcome \<Rightarrow> sealer \<Rightarrow> connection
    \<Rightarrow> connection \<times> byte list list \<times> (unit, dtls_error) outcome" where
  "conn_close T close enc cn =
     (if cn_closed cn then (cn, [], Ok ())
      else case notify T enc \<lparr>alert_level_field = AL_Warning, alert_description_field = AD_CloseNotify\<rparr>
          (cn\<lparr>cn_closed := True\<rparr>) of
        (cn, gone, Ok _) \<Rightarrow> (cn\<lparr>cn_reader_open := False, cn_socket_open := False\<rparr>, gone, close)
      | (cn, gone, r) \<Rightarrow> (cn, gone, r))"

text \<open>
  Reading from the channel of delivered data, with a buffer of \<open>room\<close> bytes. Nothing to read and a
  reader that has ended is the end of the connection; \<open>None\<close> is a read that waits.
\<close>

definition conn_read :: "bool \<Rightarrow> bool \<Rightarrow> bool \<Rightarrow> nat \<Rightarrow> byte list list
    \<Rightarrow> (byte list list \<times> (byte list, dtls_error) outcome) option" where
  "conn_read completed reader_running deadline_passed room decrypted =
     (if \<not> completed then Some (decrypted, Err ErrHandshakeInProgress)
      else case decrypted of
        val # rest \<Rightarrow> Some (rest, if room < length val then Err ErrBufferTooSmall else Ok val)
      | [] \<Rightarrow> if \<not> reader_running then Some ([], Err ErrAlertFatalOrClose)
             else if deadline_passed then Some ([], Err ErrDeadlineExceeded) else None)"

section \<open>The reader task\<close>

text \<open>
  What the calls of the transport's \<open>recv\<close> in \<^verbatim>\<open>read_and_buffer\<close> put into the task's buffer of
  \<^verbatim>\<open>INBOUND_BUFFER_SIZE\<close> bytes: an error of the transport is logged and the loop goes on with the next
  datagram. A transport hands a datagram that fits over as it is; one that does not fit is cut off or an
  error, as the transport at hand has it.
\<close>

fun received :: "(nat \<Rightarrow> byte list \<Rightarrow> (byte list, 'u) outcome) \<Rightarrow> byte list list \<Rightarrow> byte list list" where
  "received recv [] = []"
| "received recv (d # ds) = (case recv INBOUND_BUFFER_SIZE d of Ok buf \<Rightarrow> buf # received recv ds | _ \<Rightarrow> received recv ds)"

definition recv_contract :: "(nat \<Rightarrow> byte list \<Rightarrow> (byte list, 'u) outcome) \<Rightarrow> bool" where
  "recv_contract recv \<longleftrightarrow> (\<forall>n d. if length d \<le> n then recv n d = Ok d
     else recv n d = Ok (take n d) \<or> (\<exists>e. recv n d = Err e))"

text \<open>
  The task reads datagrams until one of them closes the connection; other errors are logged and
  ignored, and a panic ends the task. The last component says whether the task is still running. This is
  the task of a connection whose handshake is complete: the channel on which the reader would wait for
  the handshake is then closed, and the reader goes on at once.
\<close>

fun reader_task :: "'r replay_libs \<Rightarrow> byte list list \<Rightarrow> 'r reader_context \<Rightarrow> alert list
    \<Rightarrow> ('r reader_context \<times> alert list \<times> bool) option" where
  "reader_task R [] ctx alerts = Some (ctx, alerts, True)"
| "reader_task R (d # ds) ctx alerts = Option.bind (read_and_buffer R d ctx) (\<lambda>(ctx, gone, r).
     case r of
       Err ErrAlertFatalOrClose \<Rightarrow> Some (ctx, alerts @ gone, False)
     | Panic \<Rightarrow> Some (ctx, alerts @ gone, False)
     | _ \<Rightarrow> reader_task R ds ctx (alerts @ gone))"

lemma reader_task_Ok:
  "read_and_buffer R d ctx = Some (ctx', gone, Ok hs)
    \<Longrightarrow> reader_task R (d # ds) ctx alerts = reader_task R ds ctx' (alerts @ gone)"
  by simp

section \<open>One write and one read\<close>

lemma application_record:
  fixes e :: u16
  assumes "\<not> MAX_SEQUENCE_NUMBER < sq" and "length p \<le> 65000"
  defines "rh \<equiv> (record_layer_header (record_layer_new PROTOCOL_VERSION1_2 e (ApplicationData p)))\<lparr>rl_sequence_number := sq\<rparr>"
  shows "\<exists>raw. record_layer_marshal \<lparr>record_layer_header = rh, rl_content = ApplicationData p\<rparr> = Ok raw \<and> plain_record rh p raw"
    and "rl_epoch rh = e" "rl_sequence_number rh = sq" "rl_content_type rh = CT_ApplicationData"
    "rl_protocol_version rh = PROTOCOL_VERSION1_2"
proof -
  show f: "rl_epoch rh = e" "rl_sequence_number rh = sq" "rl_content_type rh = CT_ApplicationData"
    "rl_protocol_version rh = PROTOCOL_VERSION1_2"
    by (simp_all add: rh_def record_layer_new_def)
  obtain hb where "record_layer_header_marshal rh = Ok hb"
    using assms(1) f(2) by (auto simp: record_layer_header_marshal_def)
  then show "\<exists>raw. record_layer_marshal \<lparr>record_layer_header = rh, rl_content = ApplicationData p\<rparr> = Ok raw \<and> plain_record rh p raw"
    using assms(2) f by (auto simp: record_layer_marshal_def plain_record_def)
qed

text \<open>The suites of two connected sides: what the one seals the other opens.\<close>

definition matched :: "sealer \<Rightarrow> open_suite \<Rightarrow> bool" where
  "matched enc os \<longleftrightarrow> os_is_initialized os \<and> (\<exists>encrypt. enc = Some encrypt
     \<and> (\<forall>h payload raw. plain_record h payload raw \<longrightarrow> (\<exists>out. encrypt h raw = Ok out \<and> sealed h payload out (os_decrypt os out))))"

lemma write_once:
  assumes "\<not> cn_closed cn" and "cn_completed cn" and "length p \<le> 65000"
    and "matched enc os" and "\<And>d. T d = Ok ()"
  defines "sq \<equiv> counter (ss_sequence_numbers (cn_send cn)) (cn_local_epoch cn)"
  assumes "\<not> MAX_SEQUENCE_NUMBER < sq"
  obtains cn' out h where "conn_write T enc p cn = (cn', [out], Ok (length p))"
    "sealed h p out (os_decrypt os out)" "rl_epoch h = cn_local_epoch cn" "rl_sequence_number h = sq"
    "rl_content_type h = CT_ApplicationData" "rl_protocol_version h = PROTOCOL_VERSION1_2"
    "cn' = cn\<lparr>cn_send := cn_send cn'\<rparr>"
    "counter (ss_sequence_numbers (cn_send cn')) (cn_local_epoch cn) = sq + 1"
    "\<exists>raw. plain_record h p raw \<and> the enc h raw = Ok out"
proof -
  let ?e = "cn_local_epoch cn" and ?r = "record_layer_new PROTOCOL_VERSION1_2 (cn_local_epoch cn) (ApplicationData p)"
  let ?h = "(record_layer_header ?r)\<lparr>rl_sequence_number := sq\<rparr>"
  obtain lsn' where t: "take_sequence (unat ?e) (ss_sequence_numbers (cn_send cn)) = (lsn', sq)"
    using take_sequence_counter(1) [of ?e "ss_sequence_numbers (cn_send cn)"] sq_def by (metis prod.collapse)
  have cnt: "counter lsn' ?e = sq + 1"
    using take_sequence_counter(2) [of ?e "ss_sequence_numbers (cn_send cn)" ?e] t by (simp add: sq_def)
  note app = application_record [OF assms(7,3), of ?e]
  obtain raw where raw: "record_layer_marshal \<lparr>record_layer_header = ?h, rl_content = ApplicationData p\<rparr> = Ok raw"
    "plain_record ?h p raw" using app(1) by blast
  with assms(4) obtain encrypt out where out: "enc = Some encrypt" "encrypt ?h raw = Ok out" "sealed ?h p out (os_decrypt os out)"
    unfolding matched_def by blast
  have r: "?r\<lparr>record_layer_header := ?h\<rparr> = \<lparr>record_layer_header = ?h, rl_content = ApplicationData p\<rparr>" "rl_content ?r = ApplicationData p"
    "rl_epoch (record_layer_header ?r) = ?e" by (simp_all add: record_layer_new_def)
  then have "process_packet enc \<lparr>pk_record = ?r, pk_should_encrypt = True, pk_reset_local_sequence_number = False\<rparr>
      (ss_sequence_numbers (cn_send cn)) = (lsn', Ok out)"
    using t assms(7) raw(1) out(1,2) by (simp add: process_packet_def seal_def Let_def r)
  with r(2) have "conn_write T enc p cn = (cn\<lparr>cn_send := (cn_send cn)\<lparr>ss_sequence_numbers := lsn'\<rparr>\<rparr>, [out], Ok (length p))"
    using assms(1,2,5) by (simp add: conn_write_def write_packets_def handle_outgoing_packets_def outgoing_packet_def
        compact_raw_packets_def)
  moreover have "\<exists>raw. plain_record ?h p raw \<and> the enc ?h raw = Ok out" using raw(2) out(1,2) by auto
  ultimately show ?thesis using that [OF _ out(3)] app(2-5) cnt by simp
qed

lemma sealed_bytes:
  assumes "sealed h p out opened" and "rl_protocol_version h = PROTOCOL_VERSION1_2" and "rl_content_type h = CT_ApplicationData"
  obtains hb h' rest where "opened = Ok (hb @ p)" "length hb = RECORD_LAYER_HEADER_SIZE" "unpack_datagram out = Ok [out]"
    "record_layer_header_unmarshal out = Ok (h', rest)" "rl_epoch h' = rl_epoch h" "rl_sequence_number h' = rl_sequence_number h"
    "record_layer_header_unmarshal (hb @ p) = Ok (h', p)"
    "record_layer_unmarshal (hb @ p) = Ok (\<lparr>record_layer_header = h', rl_content = ApplicationData p\<rparr>, [])"
    "rl_content_type h' = CT_ApplicationData" "length out \<le> RECORD_LAYER_HEADER_SIZE + length p + 52"
proof -
  from assms(1) obtain hb body where s: "out = hb @ body" "body \<noteq> []" "framed out" "length body \<le> length p + 52"
    "record_layer_header_marshal (h\<lparr>rl_content_len := word_of_nat (length body)\<rparr>) = Ok hb" "opened = Ok (hb @ p)"
    unfolding sealed_def by blast
  let ?h = "h\<lparr>rl_content_len := word_of_nat (length body)\<rparr>"
  have v: "rl_protocol_version ?h = PROTOCOL_VERSION1_0 \<or> rl_protocol_version ?h = PROTOCOL_VERSION1_2" using assms(2) by simp
  note dec = record_header_dec_enc [OF s(5) v]
  have "unpack_datagram out = Ok [out]"
    using unpack_group [of "[out]"] s(1-3) dec(2) by simp
  moreover have "record_layer_unmarshal (hb @ p) = Ok (\<lparr>record_layer_header = ?h, rl_content = ApplicationData p\<rparr>, [])"
    using dec(1) assms(3) by (simp add: record_layer_unmarshal_def content_unmarshal_with_def rbind_def rmap_reader_def rret_def read_to_end_def)
  ultimately show ?thesis
    using that [of hb ?h body] s(1,4,6) dec(1) [of body] dec(1) [of p] dec(2) assms(3) by simp
qed

lemma read_once:
  assumes "replay_contract R seen pending" and "accepts_newer R seen"
    and "rc_cipher_suite ctx = Some os" and "os_is_initialized os"
    and "sealed h p out (os_decrypt os out)" and "rl_content_type h = CT_ApplicationData"
    and "rl_protocol_version h = PROTOCOL_VERSION1_2" and "rl_epoch h \<noteq> 0" and "\<not> rc_remote_epoch ctx < rl_epoch h"
    and "\<forall>x \<in> seen_at seen ctx (rl_epoch h). x < rl_sequence_number h" and "\<not> MAX_SEQUENCE_NUMBER < rl_sequence_number h"
    and "buffer_size (rc_fragment_buffer ctx) + RECORD_LAYER_HEADER_SIZE + length p < FRAGMENT_BUFFER_MAX_SIZE"
  obtains ctx' where "read_and_buffer R out ctx = Some (ctx', [], Ok False)" "rc_decrypted ctx' = rc_decrypted ctx @ [p]"
    "rc_cipher_suite ctx' = rc_cipher_suite ctx" "rc_remote_epoch ctx' = rc_remote_epoch ctx"
    "rc_fragment_buffer ctx' = rc_fragment_buffer ctx"
    "seen_at seen ctx' (rl_epoch h) = insert (rl_sequence_number h) (seen_at seen ctx (rl_epoch h))"
proof -
  obtain hb h' rest where b: "os_decrypt os out = Ok (hb @ p)" "length hb = RECORD_LAYER_HEADER_SIZE" "unpack_datagram out = Ok [out]"
    "record_layer_header_unmarshal out = Ok (h', rest)" "rl_epoch h' = rl_epoch h" "rl_sequence_number h' = rl_sequence_number h"
    "record_layer_header_unmarshal (hb @ p) = Ok (h', p)"
    "record_layer_unmarshal (hb @ p) = Ok (\<lparr>record_layer_header = h', rl_content = ApplicationData p\<rparr>, [])"
    "rl_content_type h' = CT_ApplicationData"
    using sealed_bytes [OF assms(5,7,6)] by metis
  obtain ds1 where c: "check_replay R h' ctx = (ctx\<lparr>rc_replay_detector := ds1\<rparr>, True)"
    using check_newer [OF assms(1,2), of ctx h'] assms(10,11) b(5,6) by auto
  let ?ctx = "accept_replay R h' (ctx\<lparr>rc_replay_detector := ds1\<rparr>)"
  define ds where "ds = rc_replay_detector ?ctx"
  have push: "buffer_push (hb @ p) (rc_fragment_buffer ctx) = (rc_fragment_buffer ctx, Ok False)"
    using b(2,7,9) assms(12) by (simp add: buffer_push_def)
  have "handle_incoming_packet R out True ctx
      = Some (Ok (ctx\<lparr>rc_replay_detector := ds, rc_decrypted := rc_decrypted ctx @ [p]\<rparr>, quiet))"
    using b(1,4,5,8) c push assms(3,4,8,9)
    by (simp add: handle_incoming_packet_def open_packet_def cipher_suite_invalid_def handle_opened_def handle_content_def
        accept_replay_def ds_def)
  then have "read_and_buffer R out ctx
      = Some (ctx\<lparr>rc_replay_detector := ds, rc_decrypted := rc_decrypted ctx @ [p]\<rparr>, [], Ok False)"
    using b(3) by (simp add: read_and_buffer_def Let_def)
  moreover have "seen_at seen (ctx\<lparr>rc_replay_detector := ds, rc_decrypted := rc_decrypted ctx @ [p]\<rparr>) = seen_at seen ?ctx"
    by (rule seen_at_cong) (simp add: ds_def)
  ultimately show ?thesis
    using that [OF _ _ _ _ _] check_seen(3) [OF assms(1) c, of "rl_epoch h"] b(5,6) by simp
qed

section \<open>Everything written is read\<close>

fun write_all :: "(byte list \<Rightarrow> (unit, dtls_error) outcome) \<Rightarrow> (sealer \<times> byte list) list \<Rightarrow> connection
    \<Rightarrow> connection \<times> byte list list \<times> (nat, dtls_error) outcome list" where
  "write_all T [] cn = (cn, [], [])"
| "write_all T ((enc, p) # ws) cn = (case conn_write T enc p cn of (cn, gone, r) \<Rightarrow>
     (case write_all T ws cn of (cn, gone', rs) \<Rightarrow> (cn, gone @ gone', r # rs)))"

text \<open>
  A sender and a reader that are connected: the handshake is complete, the reader knows the sender's epoch
  and has seen only numbers the sender has used in it, and its fragment buffer has room.
\<close>

definition connected :: "('r \<Rightarrow> u64 set) \<Rightarrow> open_suite \<Rightarrow> connection \<Rightarrow> 'r reader_context \<Rightarrow> bool" where
  "connected seen os cn ctx \<longleftrightarrow> \<not> cn_closed cn \<and> cn_completed cn \<and> cn_local_epoch cn \<noteq> 0
     \<and> \<not> rc_remote_epoch ctx < cn_local_epoch cn \<and> rc_cipher_suite ctx = Some os
     \<and> (\<forall>x \<in> seen_at seen ctx (cn_local_epoch cn). x < counter (ss_sequence_numbers (cn_send cn)) (cn_local_epoch cn))
     \<and> buffer_size (rc_fragment_buffer ctx) + 2 ^ 16 < FRAGMENT_BUFFER_MAX_SIZE"

abbreviation next_number :: "connection \<Rightarrow> u64" where
  "next_number cn \<equiv> counter (ss_sequence_numbers (cn_send cn)) (cn_local_epoch cn)"

lemma next_number_less:
  assumes "\<not> MAX_SEQUENCE_NUMBER < sq"
  shows "sq < sq + 1" and "unat (sq + 1) = Suc (unat sq)"
proof -
  have "unat sq < 2 ^ 48" using assms by (simp add: MAX_SEQUENCE_NUMBER_def word_less_nat_alt)
  then show "unat (sq + 1) = Suc (unat sq)" by (subst unat_add_lem [THEN iffD1]) simp_all
  then show "sq < sq + 1" by (simp add: word_less_nat_alt)
qed

text \<open>A record cut off by the buffer is no record: the datagram is an error, which the loop ignores.\<close>

lemma cut_record_dropped:
  assumes "framed out" and "n < length out" and "0 < n"
  shows "read_and_buffer R (take n out) ctx = Some (ctx, [], Err ErrInvalidPacketLength)"
proof -
  have "unpack_loop (take n out) 0 [] \<noteq> Ok rs" for rs
  proof
    assume "unpack_loop (take n out) 0 [] = Ok rs"
    then have rs: "concat rs = take n out" "list_all framed rs"
      using unpack_loop_Ok [of 0 "take n out" "[]" rs] by (simp_all add: splits_into_def)
    with assms have "rs \<noteq> []" by auto
    then obtain r rest where "rs = r # rest" by (cases rs) auto
    with rs have r: "framed r" "take n out = r @ concat rest" by simp_all
    then have len: "RECORD_LAYER_HEADER_SIZE \<le> length r" "length r \<le> n"
      using assms(2) by (auto simp: framed_def dest: arg_cong [where f = length])
    have "r ! k = out ! k" if "k < length r" for k
      using that r(2) len(2) by (metis nth_append nth_take order_less_le_trans)
    with len(1) have "r ! 11 = out ! 11" "r ! 12 = out ! 12" by (simp_all add: RECORD_LAYER_HEADER_SIZE_def)
    with r(1) assms(1) have "length r = length out" by (simp add: framed_def)
    with len(2) assms(2) show False by simp
  qed
  then have "unpack_datagram (take n out) = Err ErrInvalidPacketLength"
    using unpack_loop_error [of "take n out" 0 "[]"] unfolding unpack_datagram_def
    by (cases "unpack_loop (take n out) 0 []") auto
  then show ?thesis by (simp add: read_and_buffer_def)
qed

lemma large_datagram_dropped:
  assumes "recv_contract recv" and "framed out" and "INBOUND_BUFFER_SIZE < length out"
  shows "reader_task R (received recv (out # ds)) ctx alerts = reader_task R (received recv ds) ctx alerts"
proof -
  have "\<not> length out \<le> INBOUND_BUFFER_SIZE" using assms(3) by simp
  with assms(1) consider "recv INBOUND_BUFFER_SIZE out = Ok (take INBOUND_BUFFER_SIZE out)"
    | e where "recv INBOUND_BUFFER_SIZE out = Err e"
    unfolding recv_contract_def by meson
  then show ?thesis
    using cut_record_dropped [OF assms(2,3), of R ctx] by cases (simp_all add: INBOUND_BUFFER_SIZE_def)
qed

lemma sealed_framed: "sealed h p out opened \<Longrightarrow> framed out"
  by (auto simp: sealed_def)

text \<open>The datagrams of \<open>ds\<close> that the network delivers; the others are lost.\<close>

definition delivered :: "bool list \<Rightarrow> 'd list \<Rightarrow> 'd list" where
  "delivered arrives ds = map snd (filter fst (zip arrives ds))"

text \<open>What becomes of one datagram: it is read, or it is lost or too large and changes nothing.\<close>

lemma one_datagram:
  assumes "replay_contract R seen pending" and "accepts_newer R seen" and "recv_contract recv"
    and "connected seen os cn ctx" and "os_is_initialized os" and "length p \<le> 65000" and "\<not> MAX_SEQUENCE_NUMBER < next_number cn"
    and "sealed h p out (os_decrypt os out)" and "rl_epoch h = cn_local_epoch cn" and "rl_sequence_number h = next_number cn"
    and "rl_content_type h = CT_ApplicationData" and "rl_protocol_version h = PROTOCOL_VERSION1_2"
    and "cn1 = cn\<lparr>cn_send := cn_send cn1\<rparr>"
    and "counter (ss_sequence_numbers (cn_send cn1)) (cn_local_epoch cn) = next_number cn + 1"
  shows "\<exists>ctx1. (\<forall>ds. reader_task R (received recv (delivered (arr # arrs) (out # ds))) ctx alerts
        = reader_task R (received recv (delivered arrs ds)) ctx1 alerts)
    \<and> rc_decrypted ctx1 = rc_decrypted ctx @ (if arr \<and> length out \<le> INBOUND_BUFFER_SIZE then [p] else [])
    \<and> connected seen os cn1 ctx1"
proof -
  note con = assms(4) [unfolded connected_def]
  have fields: "cn_local_epoch cn1 = cn_local_epoch cn" "cn_closed cn1 = cn_closed cn" "cn_completed cn1 = cn_completed cn"
    by (subst assms(13), simp)+
  note less = next_number_less(1) [OF assms(7)]
  show ?thesis
  proof (cases "arr \<and> length out \<le> INBOUND_BUFFER_SIZE")
    case True
    have room: "buffer_size (rc_fragment_buffer ctx) + RECORD_LAYER_HEADER_SIZE + length p < FRAGMENT_BUFFER_MAX_SIZE"
      using con assms(6) by (simp add: RECORD_LAYER_HEADER_SIZE_def)
    have c: "rc_cipher_suite ctx = Some os" using con by simp
    obtain ctx1 where rd: "read_and_buffer R out ctx = Some (ctx1, [], Ok False)" "rc_decrypted ctx1 = rc_decrypted ctx @ [p]"
      "rc_cipher_suite ctx1 = rc_cipher_suite ctx" "rc_remote_epoch ctx1 = rc_remote_epoch ctx"
      "rc_fragment_buffer ctx1 = rc_fragment_buffer ctx" "seen_at seen ctx1 (rl_epoch h) = insert (rl_sequence_number h) (seen_at seen ctx (rl_epoch h))"
      by (rule read_once [OF assms(1,2) c assms(5,8,11,12) _ _ _ _ room]) (use con assms(7,9,10) in simp_all)
    have "connected seen os cn1 ctx1"
      using con rd fields assms(9,10,14) less by (auto simp: connected_def)
    moreover have "recv INBOUND_BUFFER_SIZE out = Ok out" using assms(3) True by (simp add: recv_contract_def)
    ultimately show ?thesis using True rd by (intro exI [of _ ctx1]) (simp add: delivered_def)
  next
    case False
    have "connected seen os cn1 ctx"
      using con fields assms(14) less by (auto simp: connected_def dest!: bspec)
    moreover have "reader_task R (received recv (delivered (arr # arrs) (out # ds))) ctx alerts
        = reader_task R (received recv (delivered arrs ds)) ctx alerts" for ds
      using False large_datagram_dropped [OF assms(3) sealed_framed [OF assms(8)], of R "delivered arrs ds" ctx alerts]
      by (auto simp: delivered_def)
    ultimately show ?thesis using False by (intro exI [of _ ctx]) simp
  qed
qed

text \<open>The messages whose datagrams arrive and fit the buffer.\<close>

definition readable_messages :: "bool list \<Rightarrow> byte list list \<Rightarrow> byte list list \<Rightarrow> byte list list" where
  "readable_messages arrives ds ps =
     map snd (filter (\<lambda>((arr, d), p). arr \<and> length d \<le> INBOUND_BUFFER_SIZE) (zip (zip arrives ds) ps))"

lemma readable_Cons:
  "readable_messages (arr # arrs) (d # ds) (p # ps)
     = (if arr \<and> length d \<le> INBOUND_BUFFER_SIZE then [p] else []) @ readable_messages arrs ds ps"
  by (simp add: readable_messages_def)

lemma readable_all:
  "list_all id arrives \<Longrightarrow> \<forall>d \<in> set ds. length d \<le> INBOUND_BUFFER_SIZE \<Longrightarrow> length arrives = length ps \<Longrightarrow> length ds = length ps
    \<Longrightarrow> readable_messages arrives ds ps = ps"
proof (induction ps arbitrary: arrives ds)
  case (Cons p ps)
  then show ?case by (cases arrives; cases ds) (simp_all add: readable_Cons)
qed (simp add: readable_messages_def)

lemma written_and_read:
  assumes "replay_contract R seen pending" and "accepts_newer R seen" and "recv_contract recv" and "\<And>d. T d = Ok ()"
    and "connected seen os cn ctx" and "\<forall>(enc, p) \<in> set ws. matched enc os \<and> length p \<le> 65000"
    and "unat (next_number cn) + length ws \<le> 2 ^ 48" and "length arrives = length ws"
  shows "\<exists>cn' ds ctx'. write_all T ws cn = (cn', ds, map (\<lambda>(enc, p). Ok (length p)) ws)
    \<and> list_all2 (\<lambda>d (enc, p). length d \<le> RECORD_LAYER_HEADER_SIZE + length p + 52) ds ws
    \<and> reader_task R (received recv (delivered arrives ds)) ctx alerts = Some (ctx', alerts, True)
    \<and> rc_decrypted ctx' = rc_decrypted ctx @ readable_messages arrives ds (map snd ws) \<and> connected seen os cn' ctx'"
  using assms(5-8)
proof (induction ws arbitrary: cn ctx arrives)
  case (Cons w ws)
  obtain enc p where w: "w = (enc, p)" by fastforce
  obtain arr arrs where arr: "arrives = arr # arrs" "length arrs = length ws"
    using Cons.prems(4) by (cases arrives) auto
  have c: "\<not> cn_closed cn" "cn_completed cn" using Cons.prems(1) by (simp_all add: connected_def)
  have m: "matched enc os" "length p \<le> 65000" "os_is_initialized os" using Cons.prems(2) w by (auto simp: matched_def)
  have sq: "\<not> MAX_SEQUENCE_NUMBER < next_number cn"
    using Cons.prems(3) by (simp add: MAX_SEQUENCE_NUMBER_def word_less_nat_alt)
  obtain cn1 out h where wr: "conn_write T enc p cn = (cn1, [out], Ok (length p))"
    "sealed h p out (os_decrypt os out)" "rl_epoch h = cn_local_epoch cn" "rl_sequence_number h = next_number cn"
    "rl_content_type h = CT_ApplicationData" "rl_protocol_version h = PROTOCOL_VERSION1_2"
    "cn1 = cn\<lparr>cn_send := cn_send cn1\<rparr>" "counter (ss_sequence_numbers (cn_send cn1)) (cn_local_epoch cn) = next_number cn + 1"
    by (rule write_once [OF c m(2,1) assms(4) sq])
  obtain ctx1 where rd: "\<And>ds. reader_task R (received recv (delivered (arr # arrs) (out # ds))) ctx alerts
        = reader_task R (received recv (delivered arrs ds)) ctx1 alerts"
      "rc_decrypted ctx1 = rc_decrypted ctx @ (if arr \<and> length out \<le> INBOUND_BUFFER_SIZE then [p] else [])"
      "connected seen os cn1 ctx1"
    using one_datagram [OF assms(1-3) Cons.prems(1) m(3,2) sq wr(2-8), of arr arrs alerts] by blast
  have "cn_local_epoch cn1 = cn_local_epoch cn" by (subst wr(7)) simp
  then have "unat (next_number cn1) + length ws \<le> 2 ^ 48"
    using Cons.prems(3) wr(8) next_number_less(2) [OF sq] by simp
  from Cons.IH [OF rd(3) _ this arr(2)] Cons.prems(2) obtain cn' ds ctx' where
    ih: "write_all T ws cn1 = (cn', ds, map (\<lambda>(enc, p). Ok (length p)) ws)"
    "list_all2 (\<lambda>d (enc, p). length d \<le> RECORD_LAYER_HEADER_SIZE + length p + 52) ds ws"
    "reader_task R (received recv (delivered arrs ds)) ctx1 alerts = Some (ctx', alerts, True)"
    "rc_decrypted ctx' = rc_decrypted ctx1 @ readable_messages arrs ds (map snd ws)" "connected seen os cn' ctx'"
    by auto
  have "length out \<le> RECORD_LAYER_HEADER_SIZE + length p + 52" by (rule sealed_bytes [OF wr(2,6,5)])
  with ih wr(1) w rd(1,2) arr(1) show ?case by (simp add: readable_Cons)
qed (simp add: delivered_def readable_messages_def)

text \<open>The suite of a connection as its reader uses it.\<close>

definition suite_opener :: "crypto_libs \<Rightarrow> bool \<Rightarrow> suite_cipher \<Rightarrow> open_suite" where
  "suite_opener L psk sc = \<lparr>os_is_psk = psk, os_is_initialized = suite_is_initialized sc, os_decrypt = suite_decrypt L sc\<rparr>"

lemma suite_init_initialized: "suite_init L sc ms cr sr c = Ok b \<Longrightarrow> suite_is_initialized b"
  by (cases sc) (auto simp: obind_eq_Ok omap_eq_Ok)

lemma peers_matched:
  assumes "crypto_contract L" and "suite_init L sc ms cr sr c = Ok a" and "suite_init L sc ms cr sr (\<not> c) = Ok b"
    and "fills rnd"
  shows "matched (Some (suite_encrypt L rnd a)) (suite_opener L psk b)"
proof -
  have "suite_is_initialized b" by (rule suite_init_initialized [OF assms(3)])
  moreover have "\<exists>out. suite_encrypt L rnd a h raw = Ok out \<and> sealed h payload out (suite_decrypt L b out)"
    if "plain_record h payload raw" for h payload raw
    using suite_roundtrip [OF assms(1,4) that, of sc ms cr sr c] assms(2,3) by auto
  ultimately show ?thesis by (simp add: matched_def suite_opener_def)
qed

text \<open>
  C29. What one side writes, the other reads, whatever cipher suite the two negotiated, as far as the
  datagrams get through. Between connected sides, any number of messages of up to 65000 bytes, each
  encrypted with random bytes of its own, are all accepted by \<open>write\<close>, one datagram each, at most 65 bytes
  longer than the message. Whatever datagrams the network then loses, the others arriving in order, the
  reader task delivers exactly the messages whose datagram arrived and is not larger than its buffer of
  8192 bytes, in order, each once and unchanged; it sends no alert and keeps running. In particular,
  when nothing is lost and no message is longer than 8127 bytes, everything written is read.
\<close>

theorem data_delivered_in_order:
  assumes "crypto_contract L" and "replay_contract R seen pending" and "accepts_newer R seen"
    and "recv_contract recv" and "\<And>d. T d = Ok ()"
    and "suite_init L sc ms cr sr is_client = Ok a" and "suite_init L sc ms cr sr (\<not> is_client) = Ok b"
    and "connected seen (suite_opener L psk b) cn ctx"
    and "\<forall>(rnd, p) \<in> set ws. fills rnd \<and> length p \<le> 65000" and "unat (next_number cn) + length ws \<le> 2 ^ 48"
    and "length arrives = length ws"
  shows "\<exists>cn' ds ctx'. write_all T (map (\<lambda>(rnd, p). (Some (suite_encrypt L rnd a), p)) ws) cn
        = (cn', ds, map (\<lambda>(rnd, p). Ok (length p)) ws)
    \<and> list_all2 (\<lambda>d (rnd, p). length d \<le> length p + 65) ds ws
    \<and> reader_task R (received recv (delivered arrives ds)) ctx [] = Some (ctx', [], True)
    \<and> rc_decrypted ctx' = rc_decrypted ctx @ readable_messages arrives ds (map snd ws)
    \<and> (list_all id arrives \<and> (\<forall>(rnd, p) \<in> set ws. length p \<le> 8127) \<longrightarrow> rc_decrypted ctx' = rc_decrypted ctx @ map snd ws)"
proof -
  let ?ws = "map (\<lambda>(rnd, p). (Some (suite_encrypt L rnd a), p)) ws"
  have "matched (Some (suite_encrypt L rnd a)) (suite_opener L psk b)" if "(rnd, p) \<in> set ws" for rnd p
    using that assms(9) peers_matched [OF assms(1,6,7)] by blast
  then have ok: "\<forall>(enc, p) \<in> set ?ws. matched enc (suite_opener L psk b) \<and> length p \<le> 65000" using assms(9) by auto
  have n: "unat (next_number cn) + length ?ws \<le> 2 ^ 48" "length arrives = length ?ws" using assms(10,11) by simp_all
  have eqs: "map (\<lambda>(enc, p). Ok (length p)) ?ws = map (\<lambda>(rnd, p). Ok (length p)) ws" "map snd ?ws = map snd ws"
    by (auto simp: split_beta)
  obtain cn' ds ctx' where wr: "write_all T ?ws cn = (cn', ds, map (\<lambda>(rnd, p). Ok (length p)) ws)"
    "list_all2 (\<lambda>d (enc, p). length d \<le> RECORD_LAYER_HEADER_SIZE + length p + 52) ds ?ws"
    "reader_task R (received recv (delivered arrives ds)) ctx [] = Some (ctx', [], True)"
    "rc_decrypted ctx' = rc_decrypted ctx @ readable_messages arrives ds (map snd ws)"
    using written_and_read [where T = T, OF assms(2-5,8) ok n, of "[]"] unfolding eqs by blast
  have sizes: "list_all2 (\<lambda>d (rnd, p). length d \<le> length p + 65) ds ws"
    using wr(2) unfolding list_all2_map2 by (rule list_all2_mono) (auto simp: RECORD_LAYER_HEADER_SIZE_def)
  have "readable_messages arrives ds (map snd ws) = map snd ws"
    if "list_all id arrives" "\<forall>(rnd, p) \<in> set ws. length p \<le> 8127"
  proof (rule readable_all)
    show "\<forall>d \<in> set ds. length d \<le> INBOUND_BUFFER_SIZE"
    proof
      fix d assume "d \<in> set ds"
      then obtain k where k: "k < length ds" "d = ds ! k" by (auto simp: in_set_conv_nth)
      with sizes have "length d \<le> length (snd (ws ! k)) + 65" "ws ! k \<in> set ws"
        by (auto simp: list_all2_conv_all_nth split_beta)
      with that(2) show "length d \<le> INBOUND_BUFFER_SIZE" by (fastforce simp: INBOUND_BUFFER_SIZE_def split_beta)
    qed
  qed (use that(1) assms(11) sizes in \<open>simp_all add: list_all2_lengthD\<close>)
  with wr sizes show ?thesis by (intro exI conjI) (assumption | simp)+
qed

text \<open>
  A write that cannot arrive succeeds: with a GCM suite, a message of 8156 bytes or more makes a datagram
  that no buffer of the reader holds. \<open>write\<close> returns its length as written, and the reader drops it.
\<close>

theorem large_write_lost:
  assumes "crypto_contract L" and "recv_contract recv" and "\<And>d. T d = Ok ()" and "fills rnd"
    and "suite_init L (Gcm_Suite x) ms cr sr is_client = Ok a"
    and "\<not> cn_closed cn" and "cn_completed cn" and "\<not> MAX_SEQUENCE_NUMBER < next_number cn"
    and "8156 \<le> length p" and "length p \<le> 65000"
  shows "\<exists>cn' d. conn_write T (Some (suite_encrypt L rnd a)) p cn = (cn', [d], Ok (length p))
    \<and> reader_task R (received recv [d]) ctx alerts = Some (ctx, alerts, True)"
proof -
  let ?enc = "Some (suite_encrypt L rnd a)"
  have con: "mac_contract L" "aead_contract L" using assms(1) by (simp_all add: crypto_contract_def)
  obtain k b where k: "a = Gcm_Suite (Some k)" "suite_init L (Gcm_Suite x) ms cr sr (\<not> is_client) = Ok b"
      "length (gcm_local_key k) = 16" "length (gcm_local_write_iv k) = 4"
    using peers_gcm [OF con(1), of x ms cr sr is_client] assms(5) by (metis outcome.inject(1))
  obtain cn' d h where wr: "conn_write T ?enc p cn = (cn', [d], Ok (length p))"
      "sealed h p d (os_decrypt (suite_opener L False b) d)" "\<exists>raw. plain_record h p raw \<and> the ?enc h raw = Ok d"
    by (rule write_once [OF assms(6,7,10) peers_matched [OF assms(1,5) k(2) assms(4)] assms(3,8)])
  then obtain raw where raw: "plain_record h p raw" "suite_encrypt L rnd a h raw = Ok d" by auto
  have "length (rnd 8) = 8" using assms(4) by (simp add: fills_def)
  from aead_roundtrip [where rnd = rnd, OF con(2) k(3) _ this raw(1), of "gcm_local_write_iv k" Aes128Gcm] raw(2) k(1,4)
  have "length d = RECORD_LAYER_HEADER_SIZE + 8 + length p + 16"
    by (auto simp: gcm_encrypt_def CRYPTO_GCM_TAG_LENGTH_def)
  with assms(9) have "INBOUND_BUFFER_SIZE < length d"
    by (simp add: RECORD_LAYER_HEADER_SIZE_def INBOUND_BUFFER_SIZE_def)
  with wr(1) large_datagram_dropped [OF assms(2) sealed_framed [OF wr(2)], of R "[]" ctx alerts] show ?thesis by auto
qed

section \<open>Closing\<close>

lemma write_packets_frame: "write_packets T enc ps cn = (cn', gone, r) \<Longrightarrow> \<exists>st. cn' = cn\<lparr>cn_send := st\<rparr>"
  by (auto simp: write_packets_def Let_def split: prod.splits outcome.splits)

text \<open>
  An error of the closing alert, for example of a transport that is gone, is returned by the first call
  of \<open>close\<close>; the reader and the transport are then left open, and no later call closes them.
\<close>

theorem failed_close_leaks:
  assumes "\<not> cn_closed cn" and "conn_close T close enc cn = (cn', gone, Err e)"
    and "snd (snd (notify T enc \<lparr>alert_level_field = AL_Warning, alert_description_field = AD_CloseNotify\<rparr> (cn\<lparr>cn_closed := True\<rparr>))) = Err e"
  shows "cn_reader_open cn' = cn_reader_open cn \<and> cn_socket_open cn' = cn_socket_open cn
    \<and> conn_close T' close' enc' cn' = (cn', [], Ok ())"
proof -
  let ?n = "notify T enc \<lparr>alert_level_field = AL_Warning, alert_description_field = AD_CloseNotify\<rparr> (cn\<lparr>cn_closed := True\<rparr>)"
  obtain cn1 gone' where n: "?n = (cn1, gone', Err e)" using assms(3) by (metis prod.collapse)
  from write_packets_frame [OF this [unfolded notify_def]] obtain st where "cn1 = cn\<lparr>cn_closed := True, cn_send := st\<rparr>" by auto
  with n assms(1,2) have "cn' = cn\<lparr>cn_closed := True, cn_send := st\<rparr>" by (simp add: conn_close_def)
  then show ?thesis by (simp add: conn_close_def)
qed

section \<open>Witnesses\<close>

definition demo_connection :: connection where
  "demo_connection = \<lparr>cn_is_client = True, cn_closed = False, cn_completed = True, cn_local_epoch = 1, cn_mtu = 1200,
     cn_send = \<lparr>ss_sequence_numbers = [4, 7], ss_cache = []\<rparr>, cn_reader_open = True, cn_socket_open = True\<rparr>"

definition demo_reader :: "suite_cipher \<Rightarrow> (u64 list \<times> u64) reader_context" where
  "demo_reader b = (reader_start False 64)\<lparr>rc_cipher_suite := Some (suite_opener demo_crypto False b), rc_remote_epoch := 1\<rparr>"

definition demo_recv :: "nat \<Rightarrow> byte list \<Rightarrow> (byte list, unit) outcome" where
  "demo_recv n d = Ok (take n d)"

lemma demo_recv_contract: "recv_contract demo_recv"
  by (simp add: recv_contract_def demo_recv_def)

lemma demo_peers:
  obtains a b where "suite_init demo_crypto (Gcm_Suite None) [1] [2] [3] True = Ok a"
    "suite_init demo_crypto (Gcm_Suite None) [1] [2] [3] (\<not> True) = Ok b"
  using suite_roundtrip [OF demo_crypto_contract _ demo_plain, of "\<lambda>n. replicate n 9" "Gcm_Suite None" "[1]" "[2]" "[3]" True]
  by (auto simp: fills_def)

theorem data_delivered_in_order_witness:
  "\<exists>a b cn' ds ctx'. suite_init demo_crypto (Gcm_Suite None) [1] [2] [3] True = Ok a
    \<and> suite_init demo_crypto (Gcm_Suite None) [1] [2] [3] False = Ok b
    \<and> write_all (\<lambda>_. Ok ()) [(Some (suite_encrypt demo_crypto (\<lambda>n. replicate n 9) a), [104, 105]),
         (Some (suite_encrypt demo_crypto (\<lambda>n. replicate n 8) a), [])] demo_connection = (cn', ds, [Ok 2, Ok 0])
    \<and> reader_task demo_detector (received demo_recv (delivered [True, True] ds)) (demo_reader b) [] = Some (ctx', [], True)
    \<and> rc_decrypted ctx' = [[104, 105], []]"
proof -
  obtain a b where ab: "suite_init demo_crypto (Gcm_Suite None) [1] [2] [3] True = Ok a"
    "suite_init demo_crypto (Gcm_Suite None) [1] [2] [3] (\<not> True) = Ok b"
    by (rule demo_peers)
  have "connected (\<lambda>d. set (fst d)) (suite_opener demo_crypto False b) demo_connection (demo_reader b)"
    by (simp add: connected_def demo_connection_def demo_reader_def reader_start_def seen_at_def buffer_size_def
        fragment_buffer_new_def FRAGMENT_BUFFER_MAX_SIZE_def)
  from data_delivered_in_order [where T = "\<lambda>_. Ok ()" and ws = "[(\<lambda>n. replicate n 9, [104, 105]), (\<lambda>n. replicate n 8, [])]"
      and arrives = "[True, True]",
      OF demo_crypto_contract demo_detector_contract demo_detector_newer demo_recv_contract _ ab this] ab
  show ?thesis by (fastforce simp: fills_def demo_connection_def counter_def demo_reader_def reader_start_def)
qed

end
