(* ===== verification/Dtls_Unauthenticated.thy ===== *)
theory Dtls_Unauthenticated
  imports Dtls_Channel
begin

text \<open>
  What records that nobody has authenticated do to an established connection: a short record makes the
  reader of a CBC suite panic, and fragments of a handshake message that will never be complete fill the
  fragment buffer until the reader drops the data of the real peer.
\<close>

section \<open>A short record and the CBC suites\<close>

lemma cbc_short_panics:
  assumes "record_layer_header_unmarshal r = Ok (h, rest)" and "rl_content_type h \<noteq> CT_ChangeCipherSpec"
    and "length r < RECORD_LAYER_HEADER_SIZE + BLOCK_SIZE"
  shows "cbc_decrypt L c r = Panic"
  using assms by (auto simp: cbc_decrypt_def Let_def RECORD_LAYER_HEADER_SIZE_def BLOCK_SIZE_def)

text \<open>
  C37. On a connection with a CBC suite, which the default configuration offers, a single record of epoch 1
  or later with a body of 1 to 15 bytes, whatever they are, ends the reader: the code takes the
  initialisation vector from the body without looking at its length. The record needs a number above
  those seen; nothing in it is authenticated, and nothing after it is read.
\<close>

theorem short_record_ends_cbc_reader:
  assumes "replay_contract R seen pending" and "accepts_newer R seen"
    and "rc_cipher_suite ctx = Some (suite_opener L psk (Cbc_Suite (Some c)))"
    and "record_layer_header_marshal h = Ok hb" and "rl_protocol_version h = PROTOCOL_VERSION1_2"
    and "rl_content_type h \<noteq> CT_ChangeCipherSpec" and "rl_epoch h \<noteq> 0" and "\<not> rc_remote_epoch ctx < rl_epoch h"
    and "\<forall>x \<in> seen_at seen ctx (rl_epoch h). x < rl_sequence_number h"
    and "rl_content_len h = word_of_nat (length body)" and "body \<noteq> []" and "length body < BLOCK_SIZE"
  shows "reader_task R ((hb @ body) # later) ctx alerts = Some (ctx, alerts, False)"
proof -
  have v: "rl_protocol_version h = PROTOCOL_VERSION1_0 \<or> rl_protocol_version h = PROTOCOL_VERSION1_2" using assms(5) by simp
  note dec = record_header_dec_enc [OF assms(4) v]
  have sq: "\<not> MAX_SEQUENCE_NUMBER < rl_sequence_number h"
    using assms(4) by (auto simp: record_layer_header_marshal_def split: if_splits)
  have "framed (hb @ body)"
    by (rule framed_record [OF assms(4,10)]) (use assms(12) in \<open>simp add: BLOCK_SIZE_def\<close>)
  then have unpack: "unpack_datagram (hb @ body) = Ok [hb @ body]"
    using unpack_group [of "[hb @ body]"] assms(11) dec(2) by simp
  obtain ds where "check_replay R h ctx = (ctx\<lparr>rc_replay_detector := ds\<rparr>, True)"
    using check_newer [OF assms(1,2,9) sq] by blast
  moreover have "cbc_decrypt L c (hb @ body) = Panic"
    by (rule cbc_short_panics [OF dec(1) assms(6)]) (use dec(2) assms(12) in simp)
  ultimately have "handle_incoming_packet R (hb @ body) True ctx = Some Panic"
    using dec(1) [of body] assms(3,7,8)
    by (simp add: handle_incoming_packet_def open_packet_def cipher_suite_invalid_def suite_opener_def)
  then show ?thesis using unpack by (simp add: read_and_buffer_def)
qed

section \<open>Filling the fragment buffer\<close>

text \<open>A record of epoch 0 with \<open>n\<close> bytes of a message \<open>k\<close>: the first part of a longer one.\<close>

definition filler_header :: "u16 \<Rightarrow> nat \<Rightarrow> handshake_header" where
  "filler_header k n = \<lparr>hh_type = HT_ClientHello, hh_length = 0xFFFF, hh_message_sequence = k,
     hh_fragment_offset = 0, hh_fragment_length = word_of_nat n\<rparr>"

definition filler_record :: "nat \<Rightarrow> u64 \<Rightarrow> record_layer_header" where
  "filler_record n sq = \<lparr>rl_content_type = CT_Handshake, rl_protocol_version = PROTOCOL_VERSION1_2, rl_epoch = 0,
     rl_sequence_number = sq, rl_content_len = word_of_nat (n + HANDSHAKE_HEADER_LENGTH)\<rparr>"

definition filler :: "u16 \<Rightarrow> nat \<Rightarrow> u64 \<Rightarrow> byte list" where
  "filler k n sq = handshake_record (filler_record n sq) (fragment_bytes (filler_header k n, replicate n 0))"

fun fillers :: "u16 \<Rightarrow> nat \<Rightarrow> u64 \<Rightarrow> nat \<Rightarrow> byte list list" where
  "fillers k n sq 0 = []"
| "fillers k n sq (Suc m) = filler k n sq # fillers k n (sq + 1) m"

lemma filler_ok:
  assumes "n \<le> 8000" and "\<not> MAX_SEQUENCE_NUMBER < sq"
  shows "header_ok (filler_header k n)" and "carries_handshake (filler_record n sq)"
    and "length (filler k n sq) = n + 25" and "unpack_datagram (filler k n sq) = Ok [filler k n sq]"
proof -
  show hdr: "header_ok (filler_header k n)"
    using assms(1) by (simp add: header_ok_def filler_header_def word_less_nat_alt unat_of_nat)
  show car: "carries_handshake (filler_record n sq)"
    using assms(2) by (simp add: carries_handshake_def filler_record_def)
  have frag: "length (fragment_bytes (filler_header k n, replicate n 0)) = n + HANDSHAKE_HEADER_LENGTH"
    using length_fragment_bytes [of "(filler_header k n, replicate n 0)"] hdr by simp
  then show len: "length (filler k n sq) = n + 25"
    using handshake_record_header(3) [OF car]
    by (simp add: filler_def RECORD_LAYER_HEADER_SIZE_def HANDSHAKE_HEADER_LENGTH_def)
  obtain hb where hb: "record_layer_header_marshal (filler_record n sq) = Ok hb"
    using assms(2) by (auto simp: record_layer_header_marshal_def filler_record_def)
  have "framed (hb @ fragment_bytes (filler_header k n, replicate n 0))"
    by (rule framed_record [OF hb]) (use assms(1) frag in \<open>simp_all add: filler_record_def HANDSHAKE_HEADER_LENGTH_def\<close>)
  then have "framed (filler k n sq)" using hb by (simp add: filler_def handshake_record_def)
  then show "unpack_datagram (filler k n sq) = Ok [filler k n sq]"
    using unpack_group [of "[filler k n sq]"] len by (simp add: RECORD_LAYER_HEADER_SIZE_def)
qed

text \<open>The reader after a filler: the fragment is stored and nothing else changes but the replay detector.\<close>

lemma filler_read:
  assumes "replay_contract R seen pending" and "accepts_newer R seen"
    and "map_of (fb_cache (rc_fragment_buffer ctx)) (fb_current (rc_fragment_buffer ctx)) = None"
    and "k \<noteq> fb_current (rc_fragment_buffer ctx)" and "n \<le> 8000"
    and "\<forall>x \<in> seen_at seen ctx 0. x < sq" and "\<not> MAX_SEQUENCE_NUMBER < sq"
    and "buffer_size (rc_fragment_buffer ctx) + n + 25 < FRAGMENT_BUFFER_MAX_SIZE"
  obtains ctx' f where "read_and_buffer R (filler k n sq) ctx = Some (ctx', [], Ok True)"
    "rc_fragment_buffer ctx' = store_fragment k f (rc_fragment_buffer ctx)" "length (fr_data f) = n"
    "fr_handshake_header f = filler_header k n" "rc_decrypted ctx' = rc_decrypted ctx"
    "rc_cipher_suite ctx' = rc_cipher_suite ctx" "seen_at seen ctx' 0 = insert sq (seen_at seen ctx 0)"
proof -
  note ok = filler_ok [OF assms(5,7)]
  let ?rh = "filler_record n sq" and ?fb = "rc_fragment_buffer ctx"
  have rh: "rl_epoch ?rh = 0" "rl_sequence_number ?rh = sq" by (simp_all add: filler_record_def)
  note hdr = handshake_record_header(1) [OF ok(2), of "fragment_bytes (filler_header k n, replicate n 0)", folded filler_def]
  define f where "f = \<lparr>fr_record_layer_header = ?rh, fr_handshake_header = filler_header k n, fr_data = replicate n 0\<rparr>"
  have push: "buffer_push (filler k n sq) ?fb = (store_fragment k f ?fb, Ok True)"
    using push_record [OF ok(2), of "(filler_header k n, replicate n 0)" ?fb] ok(1,3) assms(5,8)
    by (simp add: filler_def f_def filler_header_def unat_of_nat)
  have "map_of (fb_cache (store_fragment k f ?fb)) (fb_current ?fb) = None" "fb_current (store_fragment k f ?fb) = fb_current ?fb"
    using assms(3,4) by (simp_all add: store_fragment_def update_conv')
  then have drain: "drain_messages (rc_is_client ctx) (store_fragment k f ?fb) (rc_cache ctx) = Some (Ok (store_fragment k f ?fb, rc_cache ctx))"
    by (subst drain_messages.simps) (simp add: buffer_pop_def)
  obtain ds where c: "check_replay R ?rh ctx = (ctx\<lparr>rc_replay_detector := ds\<rparr>, True)"
    using check_newer [OF assms(1,2), of ctx ?rh] assms(6,7) rh by auto
  define ctx' where "ctx' = (accept_replay R ?rh (ctx\<lparr>rc_replay_detector := ds\<rparr>))
    \<lparr>rc_fragment_buffer := store_fragment k f ?fb, rc_cache := rc_cache ctx\<rparr>"
  have "handle_incoming_packet R (filler k n sq) True ctx = Some (Ok (ctx', True, None, None))"
    using hdr c rh push drain
    by (simp add: handle_incoming_packet_def open_packet_def handle_opened_def ctx'_def)
  then have "read_and_buffer R (filler k n sq) ctx = Some (ctx', [], Ok True)"
    using ok(4) by (simp add: read_and_buffer_def Let_def)
  moreover have "seen_at seen ctx' = seen_at seen (accept_replay R ?rh (ctx\<lparr>rc_replay_detector := ds\<rparr>))"
    by (rule seen_at_cong) (simp add: ctx'_def)
  then have "seen_at seen ctx' 0 = insert sq (seen_at seen ctx 0)"
    using check_seen(3) [OF assms(1) c, of 0] rh by simp
  ultimately show ?thesis
    using that [of ctx' f] by (simp add: ctx'_def f_def accept_replay_def)
qed

text \<open>A reader that can take fillers for message \<open>k\<close>, and that one of them leaves it so.\<close>

definition floodable :: "('r \<Rightarrow> u64 set) \<Rightarrow> u16 \<Rightarrow> u64 \<Rightarrow> 'r reader_context \<Rightarrow> bool" where
  "floodable seen k sq ctx \<longleftrightarrow> buffer_good (rc_fragment_buffer ctx)
     \<and> map_of (fb_cache (rc_fragment_buffer ctx)) (fb_current (rc_fragment_buffer ctx)) = None
     \<and> k \<noteq> fb_current (rc_fragment_buffer ctx) \<and> (\<forall>x \<in> seen_at seen ctx 0. x < sq)
     \<and> unat sq + (FRAGMENT_BUFFER_MAX_SIZE - buffer_size (rc_fragment_buffer ctx)) \<le> 2 ^ 48"

lemma filler_step:
  assumes "replay_contract R seen pending" and "accepts_newer R seen" and "0 < n" and "n \<le> 8000"
    and "floodable seen k sq ctx" and "buffer_size (rc_fragment_buffer ctx) + n + 25 < FRAGMENT_BUFFER_MAX_SIZE"
  obtains ctx1 where "read_and_buffer R (filler k n sq) ctx = Some (ctx1, [], Ok True)" "floodable seen k (sq + 1) ctx1"
    "buffer_size (rc_fragment_buffer ctx1) = buffer_size (rc_fragment_buffer ctx) + n"
    "rc_decrypted ctx1 = rc_decrypted ctx" "rc_cipher_suite ctx1 = rc_cipher_suite ctx"
proof -
  note fl = assms(5) [unfolded floodable_def buffer_good_def]
  have sq: "\<not> MAX_SEQUENCE_NUMBER < sq"
    using fl by (auto simp: MAX_SEQUENCE_NUMBER_def word_less_nat_alt)
  obtain ctx1 f where r: "read_and_buffer R (filler k n sq) ctx = Some (ctx1, [], Ok True)"
    "rc_fragment_buffer ctx1 = store_fragment k f (rc_fragment_buffer ctx)" "length (fr_data f) = n"
    "fr_handshake_header f = filler_header k n" "rc_decrypted ctx1 = rc_decrypted ctx"
    "rc_cipher_suite ctx1 = rc_cipher_suite ctx" "seen_at seen ctx1 0 = insert sq (seen_at seen ctx 0)"
    by (rule filler_read [OF assms(1,2) _ _ assms(4) _ sq assms(6), of k]) (use fl in auto)
  have size: "buffer_size (rc_fragment_buffer ctx1) = buffer_size (rc_fragment_buffer ctx) + n"
    unfolding r(2) using size_store fl r(3) by metis
  have "buffer_wf (rc_fragment_buffer ctx1)"
    unfolding r(2) using wf_store fl filler_ok(1) [OF assms(4) sq] r(4) by (simp add: filler_header_def)
  moreover have "unat sq + (FRAGMENT_BUFFER_MAX_SIZE - buffer_size (rc_fragment_buffer ctx)) \<le> 2 ^ 48" using fl by blast
  then have "unat (sq + 1) + (FRAGMENT_BUFFER_MAX_SIZE - buffer_size (rc_fragment_buffer ctx1)) \<le> 2 ^ 48"
    unfolding size next_number_less(2) [OF sq] using assms(3,6) by linarith
  moreover have "map_of (fb_cache (rc_fragment_buffer ctx1)) (fb_current (rc_fragment_buffer ctx1)) = None"
    "k \<noteq> fb_current (rc_fragment_buffer ctx1)"
    using fl by (auto simp: r(2) store_fragment_def update_conv')
  moreover have "\<forall>x \<in> seen_at seen ctx1 0. x < sq + 1" using r(7) fl next_number_less(1) [OF sq] by auto
  ultimately have "floodable seen k (sq + 1) ctx1"
    using size assms(6) by (simp add: floodable_def buffer_good_def)
  with that r(1,5,6) size show ?thesis by blast
qed

lemma fillers_read:
  assumes "replay_contract R seen pending" and "accepts_newer R seen" and "0 < n" and "n \<le> 8000"
    and "floodable seen k sq ctx"
  shows "\<exists>m ctx'. reader_task R (fillers k n sq m) ctx alerts = Some (ctx', alerts, True)
    \<and> buffer_size (rc_fragment_buffer ctx') = buffer_size (rc_fragment_buffer ctx) + m * n
    \<and> buffer_size (rc_fragment_buffer ctx') < FRAGMENT_BUFFER_MAX_SIZE
    \<and> FRAGMENT_BUFFER_MAX_SIZE \<le> buffer_size (rc_fragment_buffer ctx') + n + 25
    \<and> rc_decrypted ctx' = rc_decrypted ctx \<and> rc_cipher_suite ctx' = rc_cipher_suite ctx"
  using assms(5)
proof (induction "FRAGMENT_BUFFER_MAX_SIZE - buffer_size (rc_fragment_buffer ctx)" arbitrary: ctx sq rule: less_induct)
  case less
  let ?size = "buffer_size (rc_fragment_buffer ctx)"
  show ?case
  proof (cases "FRAGMENT_BUFFER_MAX_SIZE \<le> ?size + n + 25")
    case True
    with less.prems show ?thesis
      by (intro exI [of _ 0] exI [of _ ctx]) (simp add: floodable_def buffer_good_def)
  next
    case False
    then have room: "?size + n + 25 < FRAGMENT_BUFFER_MAX_SIZE" by simp
    obtain ctx1 where r: "read_and_buffer R (filler k n sq) ctx = Some (ctx1, [], Ok True)" "floodable seen k (sq + 1) ctx1"
      "buffer_size (rc_fragment_buffer ctx1) = ?size + n"
      "rc_decrypted ctx1 = rc_decrypted ctx" "rc_cipher_suite ctx1 = rc_cipher_suite ctx"
      by (rule filler_step [OF assms(1-4) less.prems room])
    have "FRAGMENT_BUFFER_MAX_SIZE - buffer_size (rc_fragment_buffer ctx1) < FRAGMENT_BUFFER_MAX_SIZE - ?size"
      using r(3) room assms(3) by simp
    from less.hyps [OF this r(2)] obtain m ctx' where
      "reader_task R (fillers k n (sq + 1) m) ctx1 alerts = Some (ctx', alerts, True)"
      "buffer_size (rc_fragment_buffer ctx') = buffer_size (rc_fragment_buffer ctx1) + m * n"
      "buffer_size (rc_fragment_buffer ctx') < FRAGMENT_BUFFER_MAX_SIZE"
      "FRAGMENT_BUFFER_MAX_SIZE \<le> buffer_size (rc_fragment_buffer ctx') + n + 25"
      "rc_decrypted ctx' = rc_decrypted ctx1" "rc_cipher_suite ctx' = rc_cipher_suite ctx1" by blast
    with r show ?thesis by (intro exI [of _ "Suc m"] exI [of _ ctx']) simp
  qed
qed

text \<open>Data that is dropped because the fragment buffer is full, although it is not meant for it.\<close>

lemma full_buffer_loses:
  assumes "rc_cipher_suite ctx = Some os" and "os_is_initialized os" and "sealed h p out (os_decrypt os out)"
    and "rl_content_type h = CT_ApplicationData" and "rl_protocol_version h = PROTOCOL_VERSION1_2" and "rl_epoch h \<noteq> 0"
    and "FRAGMENT_BUFFER_MAX_SIZE \<le> buffer_size (rc_fragment_buffer ctx) + RECORD_LAYER_HEADER_SIZE + length p"
  shows "\<exists>ctx'. read_and_buffer R out ctx = Some (ctx', [], Ok False) \<and> rc_decrypted ctx' = rc_decrypted ctx"
proof -
  obtain hb h' rest where b: "os_decrypt os out = Ok (hb @ p)" "length hb = RECORD_LAYER_HEADER_SIZE" "unpack_datagram out = Ok [out]"
    "record_layer_header_unmarshal out = Ok (h', rest)" "rl_epoch h' = rl_epoch h"
    using sealed_bytes [OF assms(3,5,4)] by metis
  obtain ctx1 ok where c: "check_replay R h' ctx = (ctx1, ok)" by fastforce
  have frame: "rc_decrypted ctx1 = rc_decrypted ctx" "rc_cipher_suite ctx1 = rc_cipher_suite ctx"
    "rc_fragment_buffer ctx1 = rc_fragment_buffer ctx"
    using c by (auto simp: check_replay_def Let_def split: prod.splits)
  obtain e where push: "buffer_push (hb @ p) (rc_fragment_buffer ctx) = (rc_fragment_buffer ctx, Err e)"
    using assms(7) b(2) by (simp add: buffer_push_def)
  have "\<exists>ctx'. handle_incoming_packet R out True ctx = Some (Ok (ctx', quiet)) \<and> rc_decrypted ctx' = rc_decrypted ctx"
    using b(1,4,5) c frame push assms(1,2,6)
    by (cases ok) (auto simp: handle_incoming_packet_def enqueue_packet_def open_packet_def cipher_suite_invalid_def handle_opened_def)
  then obtain ctx' where "handle_incoming_packet R out True ctx = Some (Ok (ctx', quiet))" "rc_decrypted ctx' = rc_decrypted ctx" by blast
  with b(3) show ?thesis by (intro exI [of _ ctx']) (simp add: read_and_buffer_def Let_def)
qed

text \<open>
  C36. Anyone who can reach the socket can silence a connection: for every fragment size \<open>n\<close> there are
  unencrypted records of epoch 0, of \<open>n + 25\<close> bytes each and at most 2 million bytes of fragments in all,
  that the reader takes without a word; after them, every message of \<open>n + 12\<close> bytes or more that the real
  peer sends, sealed with the connection's own keys, is dropped without a word. The limit of the fragment
  buffer is checked for every record, handshake or not, and incomplete messages are never discarded.
\<close>

theorem fragments_silence_connection:
  assumes "replay_contract R seen pending" and "accepts_newer R seen" and "0 < n" and "n \<le> 8000"
    and "buffer_good (rc_fragment_buffer ctx)"
    and "map_of (fb_cache (rc_fragment_buffer ctx)) (fb_current (rc_fragment_buffer ctx)) = None"
    and "rc_cipher_suite ctx = Some os" and "os_is_initialized os"
    and "\<forall>x \<in> seen_at seen ctx 0. x < sq" and "unat sq + FRAGMENT_BUFFER_MAX_SIZE \<le> 2 ^ 48"
  shows "\<exists>m ctx'. reader_task R (fillers (fb_current (rc_fragment_buffer ctx) + 1) n sq m) ctx [] = Some (ctx', [], True)
    \<and> m * n < FRAGMENT_BUFFER_MAX_SIZE \<and> rc_decrypted ctx' = rc_decrypted ctx
    \<and> (\<forall>h p out. sealed h p out (os_decrypt os out) \<longrightarrow> rl_content_type h = CT_ApplicationData
        \<longrightarrow> rl_protocol_version h = PROTOCOL_VERSION1_2 \<longrightarrow> rl_epoch h \<noteq> 0 \<longrightarrow> n + 12 \<le> length p
        \<longrightarrow> (\<exists>ctx''. read_and_buffer R out ctx' = Some (ctx'', [], Ok False) \<and> rc_decrypted ctx'' = rc_decrypted ctx'))"
proof -
  have flood: "floodable seen (fb_current (rc_fragment_buffer ctx) + 1) sq ctx"
    using assms(5,6,9,10) by (simp add: floodable_def)
  from fillers_read [OF assms(1-4) flood, of "[]"] obtain m ctx' where
    f: "reader_task R (fillers (fb_current (rc_fragment_buffer ctx) + 1) n sq m) ctx [] = Some (ctx', [], True)"
    "buffer_size (rc_fragment_buffer ctx') = buffer_size (rc_fragment_buffer ctx) + m * n"
    "buffer_size (rc_fragment_buffer ctx') < FRAGMENT_BUFFER_MAX_SIZE"
    "FRAGMENT_BUFFER_MAX_SIZE \<le> buffer_size (rc_fragment_buffer ctx') + n + 25"
    "rc_decrypted ctx' = rc_decrypted ctx" "rc_cipher_suite ctx' = rc_cipher_suite ctx" by blast
  have "\<exists>ctx''. read_and_buffer R out ctx' = Some (ctx'', [], Ok False) \<and> rc_decrypted ctx'' = rc_decrypted ctx'"
    if "sealed h p out (os_decrypt os out)" "rl_content_type h = CT_ApplicationData" "rl_protocol_version h = PROTOCOL_VERSION1_2"
      "rl_epoch h \<noteq> 0" "n + 12 \<le> length p" for h p out
    by (rule full_buffer_loses [OF _ assms(8) that(1-4)])
      (use f(4,6) assms(7) that(5) in \<open>simp_all add: RECORD_LAYER_HEADER_SIZE_def\<close>)
  with f(1-3,5) show ?thesis by (intro exI [of _ m] exI [of _ ctx']) auto
qed

section \<open>Witnesses\<close>

definition demo_cbc_keys :: crypto_cbc where
  "demo_cbc_keys = \<lparr>cbc_local_key = replicate 32 1, cbc_remote_key = replicate 32 2, cbc_write_mac = [], cbc_read_mac = []\<rparr>"

definition demo_cbc_reader :: "(u64 list \<times> u64) reader_context" where
  "demo_cbc_reader = (reader_start False 64)\<lparr>rc_cipher_suite := Some (suite_opener demo_crypto False (Cbc_Suite (Some demo_cbc_keys))),
     rc_remote_epoch := 1\<rparr>"

lemma demo_short_header: "record_layer_header_marshal demo_plain_header = Ok [23, 254, 253, 0, 1, 0, 0, 0, 0, 0, 7, 0, 2]"
  using demo_plain by (auto simp: plain_record_def)

theorem short_record_ends_cbc_reader_witness:
  "reader_task demo_detector ([23, 254, 253, 0, 1, 0, 0, 0, 0, 0, 7, 0, 2, 104, 105] # [demo_hi]) demo_cbc_reader [] = Some (demo_cbc_reader, [], False)"
  using short_record_ends_cbc_reader [OF demo_detector_contract demo_detector_newer _ demo_short_header, where body = "[104, 105]"
      and ctx = demo_cbc_reader and L = demo_crypto and psk = False and c = demo_cbc_keys and later = "[demo_hi]" and alerts = "[]"]
  by (simp add: demo_cbc_reader_def demo_plain_header_def seen_at_def reader_start_def BLOCK_SIZE_def)

theorem fragments_silence_connection_witness:
  "\<exists>m ctx'. reader_task demo_detector (fillers 1 8000 0 m) demo_established [] = Some (ctx', [], True)
    \<and> m * 8000 < FRAGMENT_BUFFER_MAX_SIZE \<and> rc_decrypted ctx' = []"
  using fragments_silence_connection [OF demo_detector_contract demo_detector_newer, of 8000 demo_established demo_open_suite 0]
    start_good [of False 64, where ?'a = "u64 list \<times> u64"]
  by (auto simp: demo_established_def demo_open_suite_def reader_start_def fragment_buffer_new_def seen_at_def FRAGMENT_BUFFER_MAX_SIZE_def)

end
