(* ===== verification/Dtls_Panics.thy ===== *)
theory Dtls_Panics
  imports Dtls_Record
begin

text \<open>
  On which bytes the parser of handshake messages (\<^verbatim>\<open>Handshake::unmarshal\<close> of \<^verbatim>\<open>handshake/mod.rs\<close> and the
  parsers of the messages it calls) panics instead of returning an error. The answer is exact: it is
  given as the shape of the bytes, without the parsers, and a message panics if and only if it has it.
\<close>

section \<open>Extension blocks that break the loop\<close>

text \<open>
  One entry of an extension block: two bytes of type, two bytes of length and as many bytes. A block
  breaks the loop when whole entries are followed by one to three bytes.
\<close>

definition raw_extension :: "byte list \<Rightarrow> bool" where
  "raw_extension r \<longleftrightarrow> 4 \<le> length r \<and> length r = 4 + (256 * unat (r ! 2) + unat (r ! 3))"

definition broken_block :: "byte list \<Rightarrow> bool" where
  "broken_block block \<longleftrightarrow>
     (\<exists>rs t. block = concat rs @ t \<and> list_all raw_extension rs \<and> t \<noteq> [] \<and> length t < 4)"

lemma broken_short:
  assumes "length b < 4"
  shows "broken_block b \<longleftrightarrow> b \<noteq> []"
proof
  assume "b \<noteq> []"
  with assms show "broken_block b"
    unfolding broken_block_def by (intro exI [of _ "[]"] exI [of _ b]) simp
qed (auto simp: broken_block_def)

lemma broken_step:
  assumes "4 \<le> length b"
  defines "n \<equiv> 4 + (256 * unat (b ! 2) + unat (b ! 3))"
  shows "broken_block b \<longleftrightarrow> broken_block (drop n b)"
proof
  assume "broken_block b"
  then obtain rs t where b: "b = concat rs @ t" "list_all raw_extension rs" "t \<noteq> []" "length t < 4"
    by (auto simp: broken_block_def)
  with assms(1) obtain r rs' where rs: "rs = r # rs'" by (cases rs) auto
  with b have r: "raw_extension r" "b = r @ concat rs' @ t" by simp_all
  then have "b ! 2 = r ! 2" "b ! 3 = r ! 3" by (simp_all add: raw_extension_def nth_append)
  with r(1) have "length r = n" by (simp add: raw_extension_def n_def)
  with r(2) have "drop n b = concat rs' @ t" by simp
  with b(2-4) rs show "broken_block (drop n b)" by (auto simp: broken_block_def)
next
  assume "broken_block (drop n b)"
  then obtain rs t where d: "drop n b = concat rs @ t" "list_all raw_extension rs" "t \<noteq> []" "length t < 4"
    by (auto simp: broken_block_def)
  then have "n < length b" by (cases "n < length b") auto
  then have "raw_extension (take n b)" by (simp add: raw_extension_def n_def)
  moreover have "b = concat (take n b # rs) @ t" using d(1) by (metis append_take_drop_id append.assoc concat.simps(2))
  ultimately show "broken_block b"
    unfolding broken_block_def using d(2-4) by (intro exI [of _ "take n b # rs"] exI [of _ t]) simp
qed

lemma extension_loop_Panic: "extension_loop buf offset = Panic \<longleftrightarrow> broken_block (drop offset buf)"
proof (induction buf offset rule: extension_loop.induct)
  case (1 buf offset)
  let ?n = "4 + unat (from_be [buf ! (offset + 2), buf ! (offset + 3)] :: u16)"
  consider "length buf \<le> offset" | "\<not> length buf \<le> offset" "length buf \<le> offset + 3" | "offset + 3 < length buf"
    by linarith
  then show ?case
  proof cases
    case 3
    then have len: "4 \<le> length (drop offset buf)" by simp
    have "broken_block (drop offset buf) \<longleftrightarrow> broken_block (drop (offset + ?n) buf)"
      using broken_step [OF len] 3 by (simp add: unat_from_be_pair add.commute)
    also have "\<dots> \<longleftrightarrow> extension_loop buf (offset + ?n) = Panic"
      using "1.IH" 3 by (simp add: add.assoc)
    finally show ?thesis
      using 3 extension_unmarshal_no_panic [of "drop offset buf"]
      by (subst extension_loop.simps, cases "extension_unmarshal (drop offset buf)") (auto simp: obind_eq_Panic add.assoc)
  qed (subst extension_loop.simps, simp add: broken_short)+
qed

section \<open>Readers of a fixed length\<close>

text \<open>A reader that takes exactly \<open>n\<close> bytes, whatever they are, and never panics.\<close>

definition takes :: "'a dtls_reader \<Rightarrow> nat \<Rightarrow> bool" where
  "takes r n \<longleftrightarrow> (\<forall>bs. r bs \<noteq> Panic)
     \<and> (\<forall>bs rest. (\<exists>a. r bs = Ok (a, rest)) \<longleftrightarrow> (\<exists>p. bs = p @ rest \<and> length p = n))"

lemma takes_uint:
  "takes read_u8 1" "takes read_u16 2" "takes read_u24 3" "takes read_u32 4" "takes (read_bytes n) n"
  by (auto simp: takes_def read_u8_def read_u16_def read_u24_def read_u32_def read_uint_eq_Ok read_exact_eq_Ok)

lemma rbind_assoc: "rbind (rbind m f) g = rbind m (\<lambda>a. rbind (f a) g)"
proof
  show "rbind (rbind m f) g bs = rbind m (\<lambda>a. rbind (f a) g) bs" for bs
    by (cases "m bs") (auto simp: rbind_def)
qed

lemma rret_rbind: "rbind (rret a) f = f a"
  by (simp add: rbind_def fun_eq_iff)

lemma takes_rret: "takes (rret a) 0"
  by (auto simp: takes_def)

lemma takes_rbind:
  assumes "takes r n" and "\<And>a. takes (f a) m"
  shows "takes (rbind r f) (n + m)"
  unfolding takes_def
proof (intro conjI allI iffI)
  show "rbind r f bs \<noteq> Panic" for bs
    using assms by (auto simp: rbind_eq_Panic takes_def)
  fix bs rest
  show "\<exists>p. bs = p @ rest \<and> length p = n + m" if "\<exists>a. rbind r f bs = Ok (a, rest)"
  proof -
    from that obtain a mid b where "r bs = Ok (a, mid)" "f a mid = Ok (b, rest)"
      by (auto simp: rbind_eq_Ok)
    with assms obtain p q where "bs = p @ mid" "length p = n" "mid = q @ rest" "length q = m"
      unfolding takes_def by metis
    then show ?thesis by (intro exI [of _ "p @ q"]) simp
  qed
  show "\<exists>a. rbind r f bs = Ok (a, rest)" if "\<exists>p. bs = p @ rest \<and> length p = n + m"
  proof -
    from that obtain p where p: "bs = p @ rest" "length p = n + m" by blast
    then have "bs = take n p @ drop n p @ rest" "length (take n p) = n" by simp_all
    with assms(1) obtain a where a: "r bs = Ok (a, drop n p @ rest)" unfolding takes_def by metis
    have "length (drop n p) = m" using p(2) by simp
    with assms(2) obtain b where "f a (drop n p @ rest) = Ok (b, rest)" unfolding takes_def by metis
    with a show ?thesis by (auto simp: rbind_eq_Ok)
  qed
qed

lemma takes_many: "takes r n \<Longrightarrow> takes (read_many k r) (k * n)"
proof (induction k)
  case (Suc k)
  then show ?case
    using takes_rbind [OF Suc.prems takes_rbind [OF Suc.IH [OF Suc.prems] takes_rret]] by simp
qed (simp add: takes_rret)

lemma takes_fields:
  "takes random_unmarshal 32" "takes (get_u16_as g) 2" "takes (get_u8_as h) 1" "takes get_sha 2"
proof -
  show "takes random_unmarshal 32"
    using takes_rbind [OF takes_uint(4) takes_rbind [OF takes_uint(5) [of 28] takes_rret]]
    unfolding random_unmarshal_def RANDOM_BYTES_LENGTH_def by simp
  show "takes (get_u16_as g) 2" "takes (get_u8_as h) 1"
    unfolding get_u16_as_def get_u8_as_def
    using takes_rbind [OF takes_uint(2) takes_rret] takes_rbind [OF takes_uint(1) takes_rret] by simp_all
  show "takes get_sha 2"
    using takes_rbind [OF takes_uint(1) takes_rbind [OF takes_uint(1) takes_rret]]
    unfolding get_sha_def by (simp add: numeral_2_eq_2)
qed

text \<open>\<open>after n Q\<close>: behind the first \<open>n\<close> bytes, the rest satisfies \<open>Q\<close>.\<close>

definition after :: "nat \<Rightarrow> (byte list \<Rightarrow> bool) \<Rightarrow> byte list \<Rightarrow> bool" where
  "after n Q bs \<longleftrightarrow> (\<exists>p rest. bs = p @ rest \<and> length p = n \<and> Q rest)"

lemma after_after: "after n (after m Q) bs \<longleftrightarrow> after (n + m) Q bs"
proof
  assume "after n (after m Q) bs"
  then obtain p q rest where "bs = p @ q @ rest" "length p = n" "length q = m" "Q rest"
    by (auto simp: after_def)
  then show "after (n + m) Q bs" unfolding after_def by (intro exI [of _ "p @ q"] exI [of _ rest]) simp
next
  assume "after (n + m) Q bs"
  then obtain p rest where p: "bs = p @ rest" "length p = n + m" "Q rest" by (auto simp: after_def)
  then have "after m Q (drop n p @ rest)"
    unfolding after_def by (intro exI [of _ "drop n p"] exI [of _ rest]) simp
  with p(1,2) show "after n (after m Q) bs"
    unfolding after_def [of n] by (intro exI [of _ "take n p"] exI [of _ "drop n p @ rest"]) simp
qed

text \<open>Whether such a reader is followed by a panic depends only on the bytes behind it.\<close>

lemma takes_Panic:
  assumes "takes r n" and "\<And>a rest. f a rest = Panic \<longleftrightarrow> Q rest"
  shows "rbind r f bs = Panic \<longleftrightarrow> after n Q bs"
  using assms unfolding rbind_eq_Panic takes_def after_def by metis

lemma u8_Panic: "rbind read_u8 f bs = Panic \<longleftrightarrow> (\<exists>c rest. bs = c # rest \<and> f c rest = Panic)"
  by (cases bs) (auto simp: rbind_eq_Panic)

lemma u16_Panic: "rbind read_u16 f bs = Panic \<longleftrightarrow> (\<exists>a b rest. bs = a # b # rest \<and> f (from_be [a, b]) rest = Panic)"
proof -
  have "read_u16 bs = Ok (w, rest) \<longleftrightarrow> (\<exists>a b. bs = a # b # rest \<and> w = from_be [a, b])" for w rest
    by (auto simp: read_u16_def read_uint_eq_Ok numeral_2_eq_2 length_Suc_conv)
  then show ?thesis by (auto simp: rbind_eq_Panic)
qed

section \<open>The hellos\<close>

text \<open>The bytes of an extension block with its length in front, and its end.\<close>

definition broken_extensions :: "byte list \<Rightarrow> bool" where
  "broken_extensions bs \<longleftrightarrow> (\<exists>e1 e2 block rest. bs = [e1, e2] @ block @ rest
     \<and> length block = 256 * unat e1 + unat e2 \<and> broken_block block)"

lemma extensions_Panic: "rbind extensions_unmarshal (\<lambda>e. rret (f e)) bs = Panic \<longleftrightarrow> broken_extensions bs"
proof -
  have "rbind extensions_unmarshal (\<lambda>e. rret (f e)) bs = Panic \<longleftrightarrow> extensions_unmarshal bs = Panic"
    by (auto simp: rbind_eq_Panic)
  also have "\<dots> \<longleftrightarrow> broken_extensions bs"
    unfolding extensions_unmarshal_def u16_Panic broken_extensions_def
    by (simp add: rbind_eq_Panic read_exact_eq_Ok obind_eq_Panic extension_loop_Panic unat_from_be_pair) metis
  finally show ?thesis .
qed

text \<open>
  A client hello that breaks the parser: version, random and session id length (35 bytes), a cookie,
  cipher suites and compression methods behind their lengths, and such a block. A session id is not
  skipped, as in the source.
\<close>

definition broken_client_hello :: "byte list \<Rightarrow> bool" where
  "broken_client_hello bs \<longleftrightarrow> (\<exists>head c cookie s1 s2 suites m methods tail.
     bs = head @ [c] @ cookie @ [s1, s2] @ suites @ [m] @ methods @ tail
     \<and> length head = 35 \<and> length cookie = unat c \<and> length suites = (256 * unat s1 + unat s2) div 2 * 2
     \<and> length methods = unat m \<and> broken_extensions tail)"

text \<open>
  A server hello: version and random (34 bytes), a session id behind its length, suite and compression
  method (3 bytes), and such a block.
\<close>

definition broken_server_hello :: "byte list \<Rightarrow> bool" where
  "broken_server_hello bs \<longleftrightarrow> (\<exists>head c session suite tail.
     bs = head @ [c] @ session @ suite @ tail
     \<and> length head = 34 \<and> length session = unat c \<and> length suite = 3 \<and> broken_extensions tail)"

lemma compression_Panic:
  assumes "\<And>a rest. f a rest = Panic \<longleftrightarrow> Q rest"
  shows "rbind compression_methods_unmarshal f bs = Panic \<longleftrightarrow> (\<exists>m rest. bs = m # rest \<and> after (unat m) Q rest)"
proof -
  have "takes (rbind (read_many k (get_u8_as compression_method_id_from)) (\<lambda>ids.
      rret (filter (\<lambda>i. i \<noteq> CM_Unsupported) ids))) k" for k
    using takes_rbind [OF takes_many [OF takes_fields(3)] takes_rret] by simp
  note many = takes_Panic [OF this assms]
  have "rbind compression_methods_unmarshal f bs
      = rbind read_u8 (\<lambda>n. rbind (rbind (read_many (unat n) (get_u8_as compression_method_id_from)) (\<lambda>ids.
          rret (filter (\<lambda>i. i \<noteq> CM_Unsupported) ids))) f) bs"
    by (simp add: compression_methods_unmarshal_def rbind_assoc)
  then show ?thesis by (simp add: u8_Panic many)
qed

text \<open>What is left of a client hello from the compression methods, from the cipher suites and from the cookie on.\<close>

definition broken_methods :: "byte list \<Rightarrow> bool" where
  "broken_methods bs \<longleftrightarrow> (\<exists>m rest. bs = m # rest \<and> after (unat m) broken_extensions rest)"

definition broken_suites :: "byte list \<Rightarrow> bool" where
  "broken_suites bs \<longleftrightarrow> (\<exists>a b rest. bs = a # b # rest \<and> after ((256 * unat a + unat b) div 2 * 2) broken_methods rest)"

definition broken_cookie :: "byte list \<Rightarrow> bool" where
  "broken_cookie bs \<longleftrightarrow> (\<exists>c rest. bs = c # rest \<and> after (unat c) broken_suites rest)"

lemma client_hello_shape: "after 35 broken_cookie bs \<longleftrightarrow> broken_client_hello bs"
proof
  assume "after 35 broken_cookie bs"
  then obtain head c r1 where head: "bs = head @ c # r1" "length head = 35" "after (unat c) broken_suites r1"
    unfolding after_def [of 35] broken_cookie_def by blast
  from head(3) obtain cookie s1 s2 r2 where cookie: "r1 = cookie @ s1 # s2 # r2" "length cookie = unat c"
      "after ((256 * unat s1 + unat s2) div 2 * 2) broken_methods r2"
    unfolding after_def [of "unat c"] broken_suites_def by blast
  from cookie(3) obtain suites m r3 where suites: "r2 = suites @ m # r3"
      "length suites = (256 * unat s1 + unat s2) div 2 * 2" "after (unat m) broken_extensions r3"
    unfolding after_def [of "_ * _"] broken_methods_def by blast
  from suites(3) obtain methods tail where methods: "r3 = methods @ tail" "length methods = unat m" "broken_extensions tail"
    unfolding after_def by blast
  have "bs = head @ [c] @ cookie @ [s1, s2] @ suites @ [m] @ methods @ tail"
    unfolding head(1) cookie(1) suites(1) methods(1) by simp
  with head(2) cookie(2) suites(2) methods(2,3) show "broken_client_hello bs"
    unfolding broken_client_hello_def by blast
next
  assume "broken_client_hello bs"
  then obtain head c cookie s1 s2 suites m methods tail where
    bs: "bs = head @ [c] @ cookie @ [s1, s2] @ suites @ [m] @ methods @ tail" "length head = 35"
      "length cookie = unat c" "length suites = (256 * unat s1 + unat s2) div 2 * 2"
      "length methods = unat m" "broken_extensions tail"
    unfolding broken_client_hello_def by blast
  have "broken_methods (m # methods @ tail)" unfolding broken_methods_def after_def using bs(5,6) by blast
  with bs(4) have "broken_suites (s1 # s2 # suites @ m # methods @ tail)" unfolding broken_suites_def after_def by blast
  with bs(3) have "broken_cookie (c # cookie @ s1 # s2 # suites @ m # methods @ tail)" unfolding broken_cookie_def after_def by blast
  moreover have "bs = head @ c # cookie @ s1 # s2 # suites @ m # methods @ tail" using bs(1) by simp
  ultimately show "after 35 broken_cookie bs" unfolding after_def using bs(2) by blast
qed

lemma client_hello_Panic: "client_hello_unmarshal bs = Panic \<longleftrightarrow> broken_client_hello bs"
proof -
  have C: "rbind compression_methods_unmarshal (\<lambda>c. rbind extensions_unmarshal (\<lambda>e. rret (f c e))) bs = Panic \<longleftrightarrow> broken_methods bs"
    for f :: "_ \<Rightarrow> _ \<Rightarrow> 'a" and bs
    unfolding broken_methods_def by (rule compression_Panic [OF extensions_Panic])
  have S: "rbind read_u16 (\<lambda>n. rbind (read_many (unat n div 2) (get_u16_as cipher_suite_id_from)) (\<lambda>suites.
      rbind compression_methods_unmarshal (\<lambda>c. rbind extensions_unmarshal (\<lambda>e. rret (f suites c e))))) bs = Panic \<longleftrightarrow> broken_suites bs"
    for f :: "_ \<Rightarrow> _ \<Rightarrow> _ \<Rightarrow> 'a" and bs
    unfolding broken_suites_def u16_Panic takes_Panic [OF takes_many [OF takes_fields(2)] C] unat_from_be_pair ..
  have K: "rbind read_u8 (\<lambda>l. rbind (read_bytes (unat l)) (\<lambda>cookie.
      rbind read_u16 (\<lambda>n. rbind (read_many (unat n div 2) (get_u16_as cipher_suite_id_from)) (\<lambda>suites.
      rbind compression_methods_unmarshal (\<lambda>c. rbind extensions_unmarshal (\<lambda>e. rret (f cookie suites c e))))))) bs = Panic \<longleftrightarrow> broken_cookie bs"
    for f :: "_ \<Rightarrow> _ \<Rightarrow> _ \<Rightarrow> _ \<Rightarrow> 'a" and bs
    unfolding broken_cookie_def u8_Panic takes_Panic [OF takes_uint(5) S] ..
  have "client_hello_unmarshal bs = Panic \<longleftrightarrow> after 1 (after 1 (after 32 (after 1 broken_cookie))) bs"
    unfolding client_hello_unmarshal_def
    by (intro takes_Panic takes_uint(1) takes_fields(1) K)
  also have "\<dots> \<longleftrightarrow> after 35 broken_cookie bs"
    by (simp add: after_after)
  also have "\<dots> \<longleftrightarrow> broken_client_hello bs"
    by (rule client_hello_shape)
  finally show ?thesis .
qed

lemma server_hello_Panic: "server_hello_unmarshal bs = Panic \<longleftrightarrow> broken_server_hello bs"
proof -
  define K where "K = (\<lambda>bs. \<exists>c rest. bs = c # rest \<and> after (unat c) (after 3 broken_extensions) rest)"
  have aa: "after 2 (after 1 broken_extensions) = after 3 broken_extensions"
    by (simp add: fun_eq_iff after_after)
  have K: "rbind read_u8 (\<lambda>l. rbind (read_bytes (unat l)) (\<lambda>_. rbind read_u16 (\<lambda>suite. rbind read_u8 (\<lambda>c.
      rbind extensions_unmarshal (\<lambda>e. rret (f suite c e)))))) bs = Panic \<longleftrightarrow> K bs"
    for f :: "_ \<Rightarrow> _ \<Rightarrow> _ \<Rightarrow> 'a" and bs
    unfolding K_def aa [symmetric] u8_Panic [of "\<lambda>l. rbind (read_bytes (unat l)) _"]
      takes_Panic [OF takes_uint(5) takes_Panic [OF takes_uint(2) takes_Panic [OF takes_uint(1) extensions_Panic]]] ..
  have "server_hello_unmarshal bs = Panic \<longleftrightarrow> after 1 (after 1 (after 32 K)) bs"
    unfolding server_hello_unmarshal_def
    by (intro takes_Panic takes_uint(1) takes_fields(1) K)
  also have "\<dots> \<longleftrightarrow> after 34 K bs"
    by (simp add: after_after)
  also have "\<dots> \<longleftrightarrow> broken_server_hello bs"
  proof
    assume "after 34 K bs"
    then obtain head c r1 where head: "bs = head @ c # r1" "length head = 34" "after (unat c) (after 3 broken_extensions) r1"
      unfolding after_def [of 34] K_def by blast
    from head(3) obtain session r2 where session: "r1 = session @ r2" "length session = unat c" "after 3 broken_extensions r2"
      unfolding after_def [of "unat c"] by blast
    from session(3) obtain suite tail where suite: "r2 = suite @ tail" "length suite = 3" "broken_extensions tail"
      unfolding after_def by blast
    have "bs = head @ [c] @ session @ suite @ tail"
      unfolding head(1) session(1) suite(1) by simp
    with head(2) session(2) suite(2,3) show "broken_server_hello bs"
      unfolding broken_server_hello_def by blast
  next
    assume "broken_server_hello bs"
    then obtain head c session suite tail where bs: "bs = head @ [c] @ session @ suite @ tail" "length head = 34"
        "length session = unat c" "length suite = 3" "broken_extensions tail"
      unfolding broken_server_hello_def by blast
    then have "after 3 broken_extensions (suite @ tail)" unfolding after_def by blast
    with bs(3) have "after (unat c) (after 3 broken_extensions) (session @ suite @ tail)"
      unfolding after_def [of "unat c"] by blast
    then have "K (c # session @ suite @ tail)" unfolding K_def by blast
    moreover have "bs = head @ c # session @ suite @ tail" using bs(1) by simp
    ultimately show "after 34 K bs" unfolding after_def using bs(2) by blast
  qed
  finally show ?thesis .
qed

section \<open>The other messages\<close>

lemma key_exchange_Panic:
  "client_key_exchange_unmarshal bs = Panic \<longleftrightarrow> length bs < 2"
  "server_key_exchange_unmarshal bs = Panic \<longleftrightarrow> length bs < 2"
  by (simp_all add: client_key_exchange_unmarshal_def rbind_Ok)
    (auto simp: server_key_exchange_unmarshal_def rbind_Ok obind_eq_Panic server_key_exchange_parse_def
        Let_def split: if_splits)

lemma read_certificates_no_panic: "read_certificates n offset bs \<noteq> Panic"
proof (induction n offset bs rule: read_certificates.induct)
  case (1 n offset bs)
  show ?case
  proof (cases "n \<le> offset")
    case False
    then show ?thesis
      using 1 by (subst read_certificates.simps) (auto simp: rbind_eq_Panic obind_eq_Panic)
  qed (subst read_certificates.simps, simp)
qed

lemma takes_no_panic: "takes r n \<Longrightarrow> r bs \<noteq> Panic"
  by (simp add: takes_def)

lemma other_messages_no_panic:
  "certificate_unmarshal bs \<noteq> Panic" "certificate_request_unmarshal bs \<noteq> Panic"
  "certificate_verify_unmarshal bs \<noteq> Panic" "hello_verify_request_unmarshal bs \<noteq> Panic"
  by (auto simp: certificate_unmarshal_def read_certificates_no_panic certificate_request_unmarshal_def
      certificate_verify_unmarshal_def hello_verify_request_unmarshal_def rbind_eq_Panic
      takes_no_panic [OF takes_many [OF takes_fields(3)]] takes_no_panic [OF takes_many [OF takes_fields(4)]]
      takes_no_panic [OF takes_fields(4)])

section \<open>Handshake messages\<close>

lemma message_Panic:
  "message_unmarshal t bs = Panic \<longleftrightarrow> (case t of
       HT_ClientHello \<Rightarrow> broken_client_hello bs
     | HT_ServerHello \<Rightarrow> broken_server_hello bs
     | HT_ClientKeyExchange \<Rightarrow> length bs < 2
     | HT_ServerKeyExchange \<Rightarrow> length bs < 2
     | _ \<Rightarrow> False)"
  by (cases t) (simp_all add: message_unmarshal_def rmap_reader_def rbind_eq_Panic client_hello_Panic server_hello_Panic
      key_exchange_Panic other_messages_no_panic server_hello_done_unmarshal_def finished_unmarshal_def)

text \<open>
  C40. The inputs on which the parser of handshake messages panics, exactly: a header of 12 bytes, whatever
  its lengths and numbers, of a key exchange of either side with fewer than two bytes behind it, or of a
  client or server hello whose fields are complete and whose extension block consists of whole entries
  followed by one to three bytes. On every other input, complete or not and of whatever type, it returns a
  message or an error. All of these inputs are bytes a peer can send.
\<close>

theorem message_parsing_panics:
  "handshake_unmarshal bs = Panic \<longleftrightarrow> (\<exists>header body. bs = header @ body \<and> length header = 12
     \<and> (case handshake_type_from (header ! 0) of
          HT_ClientHello \<Rightarrow> broken_client_hello body
        | HT_ServerHello \<Rightarrow> broken_server_hello body
        | HT_ClientKeyExchange \<Rightarrow> length body < 2
        | HT_ServerKeyExchange \<Rightarrow> length body < 2
        | _ \<Rightarrow> False))"
proof -
  define Q where "Q t body \<longleftrightarrow> message_unmarshal (handshake_type_from t) body = Panic" for t body
  have "handshake_unmarshal bs = rbind read_u8 (\<lambda>t. rbind read_u24 (\<lambda>len. rbind read_u16 (\<lambda>sq. rbind read_u24 (\<lambda>off.
      rbind read_u24 (\<lambda>fl. rbind (message_unmarshal (handshake_type_from t)) (\<lambda>m.
        rret \<lparr>hs_header = \<lparr>hh_type = handshake_type_from t, hh_length = len, hh_message_sequence = sq,
          hh_fragment_offset = off, hh_fragment_length = fl\<rparr>, hs_message = m\<rparr>)))))) bs"
    by (simp add: handshake_unmarshal_def handshake_header_unmarshal_def rbind_assoc rret_rbind)
  also have "\<dots> = Panic \<longleftrightarrow> (\<exists>t rest. bs = t # rest \<and> after 3 (after 2 (after 3 (after 3 (Q t)))) rest)"
    unfolding u8_Panic
    by (intro ex_cong1 conj_cong refl takes_Panic takes_uint) (auto simp: Q_def rbind_eq_Panic)
  also have "\<dots> \<longleftrightarrow> (\<exists>t rest. bs = t # rest \<and> after 11 (Q t) rest)"
    by (simp add: after_after)
  also have "\<dots> \<longleftrightarrow> (\<exists>header body. bs = header @ body \<and> length header = 12 \<and> Q (header ! 0) body)"
  proof
    assume "\<exists>t rest. bs = t # rest \<and> after 11 (Q t) rest"
    then obtain t p body where "bs = t # p @ body" "length p = 11" "Q t body" by (auto simp: after_def)
    then show "\<exists>header body. bs = header @ body \<and> length header = 12 \<and> Q (header ! 0) body"
      by (intro exI [of _ "t # p"] exI [of _ body]) simp
  next
    assume "\<exists>header body. bs = header @ body \<and> length header = 12 \<and> Q (header ! 0) body"
    then obtain header body where h: "bs = header @ body" "length header = 12" "Q (header ! 0) body" by blast
    then obtain t p where "header = t # p" by (cases header) auto
    with h show "\<exists>t rest. bs = t # rest \<and> after 11 (Q t) rest" by (auto simp: after_def)
  qed
  finally show ?thesis unfolding Q_def message_Panic .
qed

text \<open>A client hello with one stray byte behind its last extension, and an empty key exchange.\<close>

definition demo_broken_hello :: "byte list" where
  "demo_broken_hello = [1, 0, 0, 50, 0, 0, 0, 0, 0, 0, 0, 50] @ [254, 253] @ replicate 32 7 @ [0, 0, 0, 2, 192, 43, 1, 0, 0, 5, 0, 23, 0, 0, 9]"

lemma demo_breaks: "broken_client_hello (drop 12 demo_broken_hello)"
proof -
  have "broken_block [0, 23, 0, 0, 9]"
    unfolding broken_block_def by (intro exI [of _ "[[0, 23, 0, 0]]"] exI [of _ "[9]"]) (simp add: raw_extension_def)
  then have "broken_extensions [0, 5, 0, 23, 0, 0, 9]"
    unfolding broken_extensions_def
    by (intro exI [of _ 0] exI [of _ 5] exI [of _ "[0, 23, 0, 0, 9]"] exI [of _ "[]"]) simp
  moreover have "drop 12 demo_broken_hello = ([254, 253] @ replicate 32 7 @ [0]) @ [0] @ [] @ [0, 2] @ [192, 43] @ [1] @ [0]
      @ [0, 5, 0, 23, 0, 0, 9]"
    by code_simp
  moreover have "length ([254, 253] @ replicate 32 7 @ [0] :: byte list) = 35" "length ([] :: byte list) = unat (0 :: byte)"
    "length ([192, 43] :: byte list) = (256 * unat (0 :: byte) + unat (2 :: byte)) div 2 * 2"
    "length ([0] :: byte list) = unat (1 :: byte)"
    by code_simp+
  ultimately show ?thesis
    unfolding broken_client_hello_def by blast
qed

theorem message_parsing_panics_witness:
  "handshake_unmarshal demo_broken_hello = Panic
   \<and> handshake_unmarshal [16, 0, 0, 0, 0, 5, 0, 0, 0, 0, 0, 0] = Panic"
proof
  have "handshake_type_from (take 12 demo_broken_hello ! 0) = HT_ClientHello" "length (take 12 demo_broken_hello) = 12"
    by code_simp+
  with demo_breaks show "handshake_unmarshal demo_broken_hello = Panic"
    by (intro message_parsing_panics [THEN iffD2] exI [of _ "take 12 demo_broken_hello"] exI [of _ "drop 12 demo_broken_hello"])
      simp
  have "handshake_type_from 16 = HT_ClientKeyExchange" by code_simp
  then show "handshake_unmarshal [16, 0, 0, 0, 0, 5, 0, 0, 0, 0, 0, 0] = Panic"
    by (intro message_parsing_panics [THEN iffD2] exI [of _ "[16, 0, 0, 0, 0, 5, 0, 0, 0, 0, 0, 0]"] exI [of _ "[]"])
      simp
qed

end
