(* ===== verification/Dtls_Signatures.thy ===== *)
theory Dtls_Signatures
  imports Dtls_Crypto
begin

text \<open>
  Certificates, signatures and key agreement (\<^verbatim>\<open>crypto/mod.rs\<close>, the premaster secret of \<^verbatim>\<open>prf/mod.rs\<close> and
  \<^verbatim>\<open>HandshakeConfig::get_certificate\<close> of \<^verbatim>\<open>handshaker.rs\<close>). Signing, verifying, parsing a certificate and
  multiplying points are packages (\<^verbatim>\<open>ring\<close>, \<^verbatim>\<open>x509_parser\<close>, \<^verbatim>\<open>rustls\<close>, \<^verbatim>\<open>p256\<close>, \<^verbatim>\<open>p384\<close>, \<^verbatim>\<open>x25519_dalek\<close>) and arguments
  here. The theory shows that a signature made with a key is accepted under its certificate when the
  scheme announced with it is one the key signs with, which schemes cannot be verified although they are
  offered, and that both sides of a key agreement compute the same secret.
\<close>

section \<open>Libraries\<close>

datatype verify_alg = ED25519 | ECDSA_P256_SHA256_ASN1 | ECDSA_P384_SHA384_ASN1
  | RSA_PKCS1_1024_8192_SHA1_FOR_LEGACY_USE_ONLY | RSA_PKCS1_1024_8192_SHA256_FOR_LEGACY_USE_ONLY
  | RSA_PKCS1_2048_8192_SHA256 | RSA_PKCS1_2048_8192_SHA384
  | RSA_PKCS1_1024_8192_SHA512_FOR_LEGACY_USE_ONLY | RSA_PKCS1_2048_8192_SHA512

text \<open>
  Signing with a key of each kind, given by its encoding; the public key of a certificate; verification of
  a message and its signature with a public key; reading the point of a curve and multiplying it with a
  secret; the names of servers; and the lower case of a string, which is a table of the standard library.
\<close>

record 'k sign_libs =
  sl_sign_ed25519 :: "byte list \<Rightarrow> byte list \<Rightarrow> byte list"
  sl_sign_ecdsa :: "byte list \<Rightarrow> byte list \<Rightarrow> (byte list, string) outcome"
  sl_sign_rsa :: "byte list \<Rightarrow> byte list \<Rightarrow> (byte list, string) outcome"
  sl_parse_x509_certificate :: "byte list \<Rightarrow> (byte list, string) outcome"
  sl_verify :: "verify_alg \<Rightarrow> byte list \<Rightarrow> byte list \<Rightarrow> byte list \<Rightarrow> (unit, string) outcome"
  sl_read_point :: "named_curve \<Rightarrow> byte list \<Rightarrow> (unit, dtls_error) outcome"
  sl_diffie_hellman :: "named_curve \<Rightarrow> 'k \<Rightarrow> byte list \<Rightarrow> byte list"
  sl_server_name :: "byte list \<Rightarrow> (byte list, string) outcome"
  sl_to_lowercase :: "byte list \<Rightarrow> byte list"

section \<open>Signatures\<close>

definition value_key_message :: "byte list \<Rightarrow> byte list \<Rightarrow> byte list \<Rightarrow> named_curve \<Rightarrow> byte list" where
  "value_key_message client_random server_random public_key curve =
     client_random @ server_random @ [3] @ to_be 2 (named_curve_as curve) @ [len_u8 public_key] @ public_key"

definition sign_with :: "'k sign_libs \<Rightarrow> crypto_private_key \<Rightarrow> byte list \<Rightarrow> (byte list, dtls_error) outcome" where
  "sign_with A key msg = (case key_kind key of
     Ed25519 \<Rightarrow> Ok (sl_sign_ed25519 A (key_serialized_der key) msg)
   | Ecdsa256 \<Rightarrow> map_err Other (sl_sign_ecdsa A (key_serialized_der key) msg)
   | Rsa256 \<Rightarrow> map_err Other (sl_sign_rsa A (key_serialized_der key) msg))"

definition generate_key_signature :: "'k sign_libs \<Rightarrow> byte list \<Rightarrow> byte list \<Rightarrow> byte list \<Rightarrow> named_curve \<Rightarrow> crypto_private_key
    \<Rightarrow> (byte list, dtls_error) outcome" where
  "generate_key_signature A client_random server_random public_key curve key =
     sign_with A key (value_key_message client_random server_random public_key curve)"

definition generate_certificate_verify :: "'k sign_libs \<Rightarrow> byte list \<Rightarrow> crypto_private_key \<Rightarrow> (byte list, dtls_error) outcome" where
  "generate_certificate_verify A handshake_bodies key = sign_with A key handshake_bodies"

text \<open>The algorithm a signature is verified with; schemes without one are refused.\<close>

definition pick_verify_alg :: "signature_hash_algorithm \<Rightarrow> byte list \<Rightarrow> bool \<Rightarrow> verify_alg option" where
  "pick_verify_alg alg signature insecure_verification =
     (case sha_signature alg of
        SA_Ed25519 \<Rightarrow> Some ED25519
      | SA_Ecdsa \<Rightarrow>
          (if sha_hash alg = HA_Sha256 then Some ECDSA_P256_SHA256_ASN1
           else if sha_hash alg = HA_Sha384 then Some ECDSA_P384_SHA384_ASN1 else None)
      | SA_Rsa \<Rightarrow>
          (if sha_hash alg = HA_Sha1 then Some RSA_PKCS1_1024_8192_SHA1_FOR_LEGACY_USE_ONLY
           else if sha_hash alg = HA_Sha256
             then Some (if length signature < 256 \<and> insecure_verification
               then RSA_PKCS1_1024_8192_SHA256_FOR_LEGACY_USE_ONLY else RSA_PKCS1_2048_8192_SHA256)
           else if sha_hash alg = HA_Sha384 then Some RSA_PKCS1_2048_8192_SHA384
           else if sha_hash alg = HA_Sha512
             then Some (if length signature < 256 \<and> insecure_verification
               then RSA_PKCS1_1024_8192_SHA512_FOR_LEGACY_USE_ONLY else RSA_PKCS1_2048_8192_SHA512)
           else None)
      | _ \<Rightarrow> None)"

definition verify_signature :: "'k sign_libs \<Rightarrow> byte list \<Rightarrow> signature_hash_algorithm \<Rightarrow> byte list \<Rightarrow> byte list list \<Rightarrow> bool
    \<Rightarrow> (unit, dtls_error) outcome" where
  "verify_signature A message alg signature raw_certificates insecure_verification =
     (if raw_certificates = [] then Err ErrLengthMismatch
      else obind (map_err Other (sl_parse_x509_certificate A (hd raw_certificates))) (\<lambda>public_key.
        case pick_verify_alg alg signature insecure_verification of
          None \<Rightarrow> Err ErrKeySignatureVerifyUnimplemented
        | Some va \<Rightarrow> map_err Other (sl_verify A va public_key message signature)))"

definition verify_key_signature :: "'k sign_libs \<Rightarrow> byte list \<Rightarrow> signature_hash_algorithm \<Rightarrow> byte list \<Rightarrow> byte list list \<Rightarrow> bool
    \<Rightarrow> (unit, dtls_error) outcome" where
  "verify_key_signature A message alg signature raw_certificates insecure_verification =
     verify_signature A message alg signature raw_certificates insecure_verification"

definition verify_certificate_verify :: "'k sign_libs \<Rightarrow> byte list \<Rightarrow> signature_hash_algorithm \<Rightarrow> byte list \<Rightarrow> byte list list \<Rightarrow> bool
    \<Rightarrow> (unit, dtls_error) outcome" where
  "verify_certificate_verify A handshake_bodies alg signature raw_certificates insecure_verification =
     verify_signature A handshake_bodies alg signature raw_certificates insecure_verification"

section \<open>Certificates\<close>

definition load_certs :: "byte list list \<Rightarrow> (byte list list, dtls_error) outcome" where
  "load_certs raw_certificates = (if raw_certificates = [] then Err ErrLengthMismatch else Ok raw_certificates)"

definition verify_client_cert :: "byte list list \<Rightarrow> (byte list \<Rightarrow> byte list list \<Rightarrow> (unit, string) outcome)
    \<Rightarrow> (byte list list, dtls_error) outcome" where
  "verify_client_cert raw_certificates cert_verifier =
     obind (load_certs raw_certificates) (\<lambda>chains. case chains of
         [] \<Rightarrow> Err ErrClientCertificateRequired
       | end_entity # intermediates \<Rightarrow>
           obind (map_err Other (cert_verifier end_entity intermediates)) (\<lambda>_. Ok chains))"

definition verify_server_cert :: "'k sign_libs \<Rightarrow> byte list list
    \<Rightarrow> (byte list \<Rightarrow> byte list list \<Rightarrow> byte list \<Rightarrow> (unit, string) outcome) \<Rightarrow> byte list
    \<Rightarrow> (byte list list, dtls_error) outcome" where
  "verify_server_cert A raw_certificates cert_verifier server_name =
     obind (load_certs raw_certificates) (\<lambda>chains.
     obind (map_err Other (sl_server_name A server_name)) (\<lambda>server_name. case chains of
         [] \<Rightarrow> Err ErrServerMustHaveCertificate
       | end_entity # intermediates \<Rightarrow>
           obind (map_err Other (cert_verifier end_entity intermediates server_name)) (\<lambda>_. Ok chains)))"

text \<open>The name of a server without the dots at its end, its labels, and names with the first labels replaced.\<close>

definition trim_end_dots :: "byte list \<Rightarrow> byte list" where
  "trim_end_dots name = rev (dropWhile (\<lambda>b. b = 46) (rev name))"

fun split_dots :: "byte list \<Rightarrow> byte list list" where
  "split_dots [] = [[]]"
| "split_dots (b # bs) =
     (if b = 46 then [] # split_dots bs
      else case split_dots bs of [] \<Rightarrow> [[b]] | l # ls \<Rightarrow> (b # l) # ls)"

definition split_terminator_dots :: "byte list \<Rightarrow> byte list list" where
  "split_terminator_dots name = (let ls = split_dots name in if last ls = [] then butlast ls else ls)"

fun join_dots :: "byte list list \<Rightarrow> byte list" where
  "join_dots [] = []"
| "join_dots [l] = l"
| "join_dots (l # ls) = l @ [46] @ join_dots ls"

fun wildcard_loop :: "(byte list \<rightharpoonup> dtls_certificate) \<Rightarrow> byte list list \<Rightarrow> nat list \<Rightarrow> dtls_certificate option" where
  "wildcard_loop names labels [] = None"
| "wildcard_loop names labels (i # is) =
     (let labels = labels[i := [42]] in
      case names (join_dots labels) of Some cert \<Rightarrow> Some cert | None \<Rightarrow> wildcard_loop names labels is)"

definition get_certificate :: "'k sign_libs \<Rightarrow> handshake_config \<Rightarrow> byte list \<Rightarrow> (dtls_certificate, dtls_error) outcome" where
  "get_certificate A cfg server_name = (case cfg_local_certificates cfg of
     [] \<Rightarrow> Err ErrNoCertificates
   | c # cs \<Rightarrow>
       if cs = [] \<or> server_name = [] then Ok c
       else let name = trim_end_dots (sl_to_lowercase A server_name) in
         (case cfg_name_to_certificate cfg name of
            Some cert \<Rightarrow> Ok cert
          | None \<Rightarrow> let labels = split_terminator_dots name in
              (case wildcard_loop (cfg_name_to_certificate cfg) labels [0..<length labels] of
                 Some cert \<Rightarrow> Ok cert | None \<Rightarrow> Ok c)))"

section \<open>The premaster secret\<close>

text \<open>Reading the other side's point comes before the check that the secret is one of the curve.\<close>

definition elliptic_curve_pre_master_secret :: "'k sign_libs \<Rightarrow> byte list \<Rightarrow> 'k named_curve_private_key \<Rightarrow> named_curve
    \<Rightarrow> (byte list, dtls_error) outcome" where
  "elliptic_curve_pre_master_secret A public_key private_key curve = (case curve of
     NC_P256 \<Rightarrow> obind (sl_read_point A NC_P256 public_key) (\<lambda>_. case private_key of
         EphemeralSecretP256 k \<Rightarrow> Ok (sl_diffie_hellman A NC_P256 k public_key)
       | _ \<Rightarrow> Err ErrNamedCurveAndPrivateKeyMismatch)
   | NC_P384 \<Rightarrow> obind (sl_read_point A NC_P384 public_key) (\<lambda>_. case private_key of
         EphemeralSecretP384 k \<Rightarrow> Ok (sl_diffie_hellman A NC_P384 k public_key)
       | _ \<Rightarrow> Err ErrNamedCurveAndPrivateKeyMismatch)
   | NC_X25519 \<Rightarrow>
       if length public_key \<noteq> 32 then Err (Other ''Public key is not 32 len'')
       else (case private_key of
         StaticSecretX25519 k \<Rightarrow> Ok (sl_diffie_hellman A NC_X25519 k public_key)
       | _ \<Rightarrow> Err ErrNamedCurveAndPrivateKeyMismatch)
   | NC_Unsupported \<Rightarrow> Err ErrInvalidNamedCurve)"

definition prf_pre_master_secret :: "'k sign_libs \<Rightarrow> byte list \<Rightarrow> 'k named_curve_private_key \<Rightarrow> named_curve
    \<Rightarrow> (byte list, dtls_error) outcome" where
  "prf_pre_master_secret A public_key private_key curve = (case curve of
     NC_Unsupported \<Rightarrow> Err ErrInvalidNamedCurve
   | _ \<Rightarrow> elliptic_curve_pre_master_secret A public_key private_key curve)"

section \<open>Both sides compute the same secret\<close>

text \<open>
  What is relied on of the curves, for the key pairs that two calls of the generator make: their public
  keys are read without error and have a length of the curve, and either secret with the other's
  public key gives the same point.
\<close>

definition key_agreement :: "'k sign_libs \<Rightarrow> (named_curve \<Rightarrow> byte list \<times> 'k) \<Rightarrow> (named_curve \<Rightarrow> byte list \<times> 'k) \<Rightarrow> bool" where
  "key_agreement A g h \<longleftrightarrow> (\<forall>c. c \<noteq> NC_Unsupported \<longrightarrow>
     sl_diffie_hellman A c (snd (g c)) (fst (h c)) = sl_diffie_hellman A c (snd (h c)) (fst (g c))
     \<and> sl_read_point A c (fst (g c)) = Ok () \<and> sl_read_point A c (fst (h c)) = Ok ()
     \<and> length (fst (g c)) \<in> {32..97} \<and> length (fst (h c)) \<in> {32..97})
     \<and> length (fst (g NC_X25519)) = 32 \<and> length (fst (h NC_X25519)) = 32"

lemma keypair_fields [simp]:
  "kp_curve (elliptic_curve_keypair g c) = c" "kp_public_key (elliptic_curve_keypair g c) = fst (g c)"
  by (simp_all add: elliptic_curve_keypair_def)

lemma pre_master_secret_Ok:
  assumes "key_agreement A g h" and "c \<noteq> NC_Unsupported"
  shows "prf_pre_master_secret A (fst (h c)) (kp_private_key (elliptic_curve_keypair g c)) c
      = Ok (sl_diffie_hellman A c (snd (g c)) (fst (h c)))"
    and "prf_pre_master_secret A (fst (g c)) (kp_private_key (elliptic_curve_keypair h c)) c
      = Ok (sl_diffie_hellman A c (snd (g c)) (fst (h c)))"
  using assms by (cases c; auto simp: key_agreement_def prf_pre_master_secret_def elliptic_curve_pre_master_secret_def
      elliptic_curve_keypair_def)+

section \<open>Schemes and keys\<close>

text \<open>The scheme a key really signs with: the code picks the algorithm by the kind of the key alone.\<close>

definition signs_with :: "private_key_kind \<Rightarrow> signature_hash_algorithm \<Rightarrow> bool" where
  "signs_with kind alg \<longleftrightarrow> (case kind of
     Ed25519 \<Rightarrow> sha_signature alg = SA_Ed25519
   | Ecdsa256 \<Rightarrow> sha_hash alg = HA_Sha256 \<and> sha_signature alg = SA_Ecdsa
   | Rsa256 \<Rightarrow> sha_hash alg = HA_Sha256 \<and> sha_signature alg = SA_Rsa)"

text \<open>
  What is relied on of a certificate and its key: every message is signed, the signature is not longer than
  its length field can say, and it verifies under the certificate with the scheme the key signs with.
\<close>

definition certified :: "'k sign_libs \<Rightarrow> dtls_certificate \<Rightarrow> bool" where
  "certified A cert \<longleftrightarrow> (\<forall>msg. \<exists>signature. sign_with A (cert_private_key cert) msg = Ok signature \<and> length signature \<le> 512
     \<and> (\<forall>alg insecure. signs_with (key_kind (cert_private_key cert)) alg
         \<longrightarrow> verify_signature A msg alg signature (cert_certificate cert) insecure = Ok ()))"

text \<open>
  With the default schemes the announced scheme is the one signed with; the code looks only at the kind of
  signature, so a list that prefers another hash announces what it does not do.
\<close>

theorem default_scheme_signs:
  assumes "select_signature_scheme default_signature_schemes kind = Ok alg"
  shows "signs_with kind alg"
  using assms by (cases kind) (auto simp: default_signature_schemes_def is_compatible_def signs_with_def)

text \<open>
  The signature scheme announced with a key exchange need not be the one it is signed with. The first
  listed scheme for the kind of key is announced, whatever its hash, while a P-256 key always signs with
  SHA-256; so with SHA-384 listed first the peer verifies with another algorithm, and with SHA-512, which
  is one of the default schemes, no peer running this code verifies anything.
\<close>

theorem announced_scheme_not_checked:
  "select_signature_scheme (\<lparr>sha_hash = h, sha_signature = SA_Ecdsa\<rparr> # rest) Ecdsa256 = Ok \<lparr>sha_hash = h, sha_signature = SA_Ecdsa\<rparr>
    \<and> (signs_with Ecdsa256 \<lparr>sha_hash = h, sha_signature = SA_Ecdsa\<rparr> \<longleftrightarrow> h = HA_Sha256)
    \<and> \<lparr>sha_hash = HA_Sha512, sha_signature = SA_Ecdsa\<rparr> \<in> set default_signature_schemes
    \<and> (raw_certificates \<noteq> [] \<and> sl_parse_x509_certificate A (hd raw_certificates) = Ok key \<longrightarrow>
        verify_signature A message \<lparr>sha_hash = HA_Sha512, sha_signature = SA_Ecdsa\<rparr> signature raw_certificates insecure
          = Err ErrKeySignatureVerifyUnimplemented)"
  by (simp add: is_compatible_def signs_with_def default_signature_schemes_def verify_signature_def pick_verify_alg_def)

section \<open>The certificate of a configuration\<close>

lemma wildcard_loop_empty: "wildcard_loop Map.empty labels is = None"
  by (induction "Map.empty :: byte list \<rightharpoonup> dtls_certificate" labels "is" rule: wildcard_loop.induct) (simp_all add: Let_def)

text \<open>
  The table from names to certificates is never filled (\<^verbatim>\<open>DTLSConn::new\<close> takes the default, and the code that
  would fill it is commented out), so the first certificate is used whatever name was asked for.
\<close>

theorem first_certificate_used:
  assumes "cfg_name_to_certificate cfg = Map.empty"
  shows "get_certificate A cfg name = (case cfg_local_certificates cfg of [] \<Rightarrow> Err ErrNoCertificates | c # _ \<Rightarrow> Ok c)"
  using assms by (simp add: get_certificate_def wildcard_loop_empty Let_def split: list.splits)

end
