(* ===== verification/Dtls_Server_Flights.thy ===== *)
theory Dtls_Server_Flights
  imports Dtls_Signatures
begin

text \<open>
  The flights with which a server agrees on the keys, 4 and 6 (\<^verbatim>\<open>flight/flight4.rs\<close>, \<^verbatim>\<open>flight6.rs\<close>), in the
  order of the code; flights 0 and 2 are in \<open>Dtls_Negotiation\<close>. A flight works on the connection's state and
  keeps what it has set when it fails. The theory shows what a server knows of a client it has
  finished a handshake with: its certificate was proved and accepted as the configuration asks, but
  nothing of the client's Finished was compared.
\<close>

section \<open>Steps that change the state\<close>

definition and_then :: "'s \<times> ('a, 'e) outcome \<Rightarrow> ('s \<Rightarrow> 'a \<Rightarrow> 's \<times> ('b, 'e) outcome) \<Rightarrow> 's \<times> ('b, 'e) outcome" where
  "and_then x f = (case x of
     (st, Ok a) \<Rightarrow> f st a
   | (st, Err e) \<Rightarrow> (st, Err e)
   | (st, Panic) \<Rightarrow> (st, Panic))"

text \<open>A fatal alert with the error that caused it.\<close>

abbreviation or_fatal :: "alert_description \<Rightarrow> ('a, dtls_error) outcome \<Rightarrow> ('a, flight_error) outcome" where
  "or_fatal d \<equiv> map_err (\<lambda>e. fatal d (Some e))"

section \<open>Rules and packets\<close>

definition rule :: "handshake_type \<Rightarrow> u16 \<Rightarrow> bool \<Rightarrow> bool \<Rightarrow> pull_rule" where
  "rule typ epoch is_client optional = \<lparr>pr_typ = typ, pr_epoch = epoch, pr_is_client = is_client, pr_optional = optional\<rparr>"

text \<open>The messages a server's Finished covers; a CertificateVerify covers those of the session hash.\<close>

definition finished_rules :: "u16 \<Rightarrow> pull_rule list" where
  "finished_rules epoch = session_hash_rules epoch
     @ [rule HT_CertificateVerify epoch True False, rule HT_Finished (epoch + 1) True False]"

definition plain_packet :: "handshake_message \<Rightarrow> packet" where
  "plain_packet m = \<lparr>pk_record = record_layer_new PROTOCOL_VERSION1_2 0 (Handshake (handshake_new m)),
     pk_should_encrypt = False, pk_reset_local_sequence_number = False\<rparr>"

definition cipher_spec_packet :: packet where
  "cipher_spec_packet = \<lparr>pk_record = record_layer_new PROTOCOL_VERSION1_2 0 ChangeCipherSpec,
     pk_should_encrypt = False, pk_reset_local_sequence_number = False\<rparr>"

definition finished_packet :: "byte list \<Rightarrow> packet" where
  "finished_packet verify_data = \<lparr>pk_record = record_layer_new PROTOCOL_VERSION1_2 1 (Handshake (handshake_new (MsgFinished verify_data))),
     pk_should_encrypt = True, pk_reset_local_sequence_number = True\<rparr>"

definition ELLIPTIC_CURVE_POINT_FORMAT_UNCOMPRESSED :: byte where
  "ELLIPTIC_CURVE_POINT_FORMAT_UNCOMPRESSED = 0"

text \<open>The extensions of both hellos that say which curves can be done.\<close>

definition curve_extensions :: "handshake_config \<Rightarrow> extension list" where
  "curve_extensions cfg = (if cfg_local_psk_callback cfg = None
     then [SupportedEllipticCurves [NC_P256, NC_X25519, NC_P384],
       SupportedPointFormats [ELLIPTIC_CURVE_POINT_FORMAT_UNCOMPRESSED]]
     else [])"

definition enables_ems :: "handshake_config \<Rightarrow> bool" where
  "enables_ems cfg \<longleftrightarrow> cfg_extended_master_secret cfg = EMS_Request \<or> cfg_extended_master_secret cfg = EMS_Require"

text \<open>Taking over the peer's certificates, and whether a scheme is one of the own ones.\<close>

definition take_certificates :: "(handshake_type \<rightharpoonup> handshake_message) \<Rightarrow> 'k dtls_state
    \<Rightarrow> 'k dtls_state \<times> (unit, flight_error) outcome" where
  "take_certificates msgs st = (case msgs HT_Certificate of
     None \<Rightarrow> (st, Ok ())
   | Some (MsgCertificate cs) \<Rightarrow> (st\<lparr>st_peer_certificates := cs\<rparr>, Ok ())
   | Some _ \<Rightarrow> (st, Err (fatal AD_InternalError None)))"

definition scheme_listed :: "handshake_config \<Rightarrow> signature_hash_algorithm \<Rightarrow> bool" where
  "scheme_listed cfg alg \<longleftrightarrow> list_ex (\<lambda>ss. sha_hash ss = sha_hash alg \<and> sha_signature ss = sha_signature alg)
     (cfg_local_signature_schemes cfg)"

definition derive_master_secret :: "crypto_libs \<Rightarrow> bool \<Rightarrow> byte list \<Rightarrow> byte list \<Rightarrow> byte list \<Rightarrow> byte list
    \<Rightarrow> (byte list, dtls_error) outcome" where
  "derive_master_secret L extended pre_master_secret hash_of_session client_random server_random =
     (if extended then prf_extended_master_secret L pre_master_secret hash_of_session
      else prf_master_secret L pre_master_secret client_random server_random)"

section \<open>Flight 4: the server's key exchange\<close>

fun client_auth_as :: "client_auth_type \<Rightarrow> nat" where
  "client_auth_as NoClientCert = 0"
| "client_auth_as RequestClientCert = 1"
| "client_auth_as RequireAnyClientCert = 2"
| "client_auth_as VerifyClientCertIfGiven = 3"
| "client_auth_as RequireAndVerifyClientCert = 4"

definition flight4_rules :: "u16 \<Rightarrow> pull_rule list" where
  "flight4_rules epoch = [rule HT_Certificate epoch True True, rule HT_ClientKeyExchange epoch True False,
     rule HT_CertificateVerify epoch True True]"

text \<open>The check of a CertificateVerify; the result says whether the chain was verified.\<close>

definition flight4_check :: "'k sign_libs \<Rightarrow> handshake_config \<Rightarrow> handshake_cache \<Rightarrow> byte list list \<Rightarrow> certificate_verify
    \<Rightarrow> (bool, flight_error) outcome" where
  "flight4_check A cfg cache certs cv =
     (if certs = [] then Err (fatal AD_NoCertificate (Some ErrCertificateVerifyNoCertificate))
      else if \<not> scheme_listed cfg (cv_algorithm cv)
        then Err (fatal AD_InsufficientSecurity (Some ErrNoAvailableSignatureSchemes))
      else obind (or_fatal AD_BadCertificate (verify_certificate_verify A
          (pull_and_merge (session_hash_rules (cfg_initial_epoch cfg)) cache)
          (cv_algorithm cv) (cv_signature cv) certs (cfg_insecure_verification cfg))) (\<lambda>_.
        obind (if client_auth_as VerifyClientCertIfGiven \<le> client_auth_as (cfg_client_auth cfg)
          then (case cfg_client_cert_verifier cfg of
              Some verifier \<Rightarrow> or_fatal AD_BadCertificate (omap (\<lambda>chains. (chains, True)) (verify_client_cert certs verifier))
            | None \<Rightarrow> Err (fatal AD_BadCertificate (Some ErrInvalidCertificate)))
          else Ok ([], False)) (\<lambda>(chains, verified).
        obind (case cfg_verify_peer_certificate cfg of
              Some verify \<Rightarrow> or_fatal AD_BadCertificate (verify certs chains)
            | None \<Rightarrow> Ok ()) (\<lambda>_. Ok verified))))"

definition flight4_certificate_verify :: "'k sign_libs \<Rightarrow> handshake_config \<Rightarrow> handshake_cache
    \<Rightarrow> (handshake_type \<rightharpoonup> handshake_message) \<Rightarrow> 'k dtls_state \<Rightarrow> 'k dtls_state \<times> (unit, flight_error) outcome" where
  "flight4_certificate_verify A cfg cache msgs st = (case msgs HT_CertificateVerify of
     Some (MsgCertificateVerify cv) \<Rightarrow>
       and_then (st, flight4_check A cfg cache (st_peer_certificates st) cv)
         (\<lambda>st verified. (st\<lparr>st_peer_certificates_verified := verified\<rparr>, Ok ()))
   | Some _ \<Rightarrow> (st, Err (fatal AD_InternalError None))
   | None \<Rightarrow> if st_peer_certificates st \<noteq> [] then (st, Err (None, None)) else (st, Ok ()))"

definition flight4_pre_master_secret :: "'k sign_libs \<Rightarrow> handshake_config \<Rightarrow> client_key_exchange \<Rightarrow> 'k dtls_state
    \<Rightarrow> 'k dtls_state \<times> (byte list, flight_error) outcome" where
  "flight4_pre_master_secret A cfg cke st = (case cfg_local_psk_callback cfg of
     Some psk_callback \<Rightarrow>
       and_then (st, or_fatal AD_InternalError (psk_callback (cke_identity_hint cke)))
         (\<lambda>st psk. (st\<lparr>st_identity_hint := cke_identity_hint cke\<rparr>, Ok (prf_psk_pre_master_secret psk)))
   | None \<Rightarrow> (st, case st_local_keypair st of
         Some kp \<Rightarrow> or_fatal AD_IllegalParameter (prf_pre_master_secret A (cke_public_key cke) (kp_private_key kp) (kp_curve kp))
       | None \<Rightarrow> Ok []))"

definition flight4_keys :: "crypto_libs \<Rightarrow> 'k sign_libs \<Rightarrow> handshake_config \<Rightarrow> handshake_cache \<Rightarrow> client_key_exchange
    \<Rightarrow> 'k dtls_state \<Rightarrow> 'k dtls_state \<times> (unit, flight_error) outcome" where
  "flight4_keys L A cfg cache cke st = (case st_cipher_suite st of
     None \<Rightarrow> (st, Ok ())
   | Some cs \<Rightarrow>
       if suite_is_initialized (cs_cipher cs) then (st, Ok ())
       else let server_random = random_marshal (st_local_random st); client_random = random_marshal (st_remote_random st) in
         and_then (flight4_pre_master_secret A cfg cke st) (\<lambda>st pre_master_secret.
         and_then (st, or_fatal AD_InternalError (derive_master_secret L (st_extended_master_secret st) pre_master_secret
             (session_hash (cl_sha256 L) (cfg_initial_epoch cfg) [] cache) client_random server_random)) (\<lambda>st ms.
         and_then (st\<lparr>st_master_secret := ms\<rparr>,
             or_fatal AD_InternalError (suite_init L (cs_cipher cs) ms client_random server_random False)) (\<lambda>st c.
           (st\<lparr>st_cipher_suite := Some (cs\<lparr>cs_cipher := c\<rparr>)\<rparr>, Ok ())))))"

definition flight4_auth :: "handshake_config \<Rightarrow> 'k dtls_state \<Rightarrow> (flight, flight_error) outcome" where
  "flight4_auth cfg st = (case cfg_client_auth cfg of
     RequireAnyClientCert \<Rightarrow>
       if st_peer_certificates st = [] then Err (fatal AD_NoCertificate (Some ErrClientCertificateRequired)) else Ok Flight6
   | VerifyClientCertIfGiven \<Rightarrow>
       if st_peer_certificates st \<noteq> [] \<and> \<not> st_peer_certificates_verified st
       then Err (fatal AD_BadCertificate (Some ErrClientCertificateNotVerified)) else Ok Flight6
   | RequireAndVerifyClientCert \<Rightarrow>
       if st_peer_certificates st = [] then Err (fatal AD_NoCertificate (Some ErrClientCertificateRequired))
       else if \<not> st_peer_certificates_verified st
         then Err (fatal AD_BadCertificate (Some ErrClientCertificateNotVerified)) else Ok Flight6
   | _ \<Rightarrow> Ok Flight6)"

definition flight4_finished :: "handshake_config \<Rightarrow> handshake_cache \<Rightarrow> int \<Rightarrow> 'k dtls_state
    \<Rightarrow> 'k dtls_state \<times> (flight, flight_error) outcome" where
  "flight4_finished cfg cache sq st =
     (case full_pull_map cache sq [rule HT_Finished (cfg_initial_epoch cfg + 1) True False] of
        Err _ \<Rightarrow> (st, Err (None, None))
      | Panic \<Rightarrow> (st, Panic)
      | Ok (sq, msgs) \<Rightarrow>
          let st = st\<lparr>st_handshake_recv_sequence := sq\<rparr> in
          (case msgs HT_Finished of
             Some (MsgFinished _) \<Rightarrow> (st, flight4_auth cfg st)
           | _ \<Rightarrow> (st, Err (fatal AD_InternalError None))))"

text \<open>
  Once the keys are there the reader is asked to handle the encrypted packets it has queued: \<open>drain\<close> is
  the cache after that, or the text of the error when the reader is gone.
\<close>

definition flight4_parse :: "crypto_libs \<Rightarrow> 'k sign_libs \<Rightarrow> handshake_config
    \<Rightarrow> ('k dtls_state \<Rightarrow> handshake_cache \<Rightarrow> (handshake_cache, string) outcome) \<Rightarrow> handshake_cache \<Rightarrow> 'k dtls_state
    \<Rightarrow> 'k dtls_state \<times> (flight, flight_error) outcome" where
  "flight4_parse L A cfg drain cache st =
     (case full_pull_map cache (st_handshake_recv_sequence st) (flight4_rules (cfg_initial_epoch cfg)) of
        Err _ \<Rightarrow> (st, Err (None, None))
      | Panic \<Rightarrow> (st, Panic)
      | Ok (sq, msgs) \<Rightarrow>
          (case msgs HT_ClientKeyExchange of
             Some (MsgClientKeyExchange cke) \<Rightarrow>
               and_then (take_certificates msgs st) (\<lambda>st _.
               and_then (flight4_certificate_verify A cfg cache msgs st) (\<lambda>st _.
               and_then (flight4_keys L A cfg cache cke st) (\<lambda>st _.
               and_then (st, or_fatal AD_InternalError (map_err Other (drain st cache))) (\<lambda>st cache.
                 flight4_finished cfg cache sq st))))
           | _ \<Rightarrow> (st, Err (fatal AD_InternalError None))))"

definition flight4_server_hello :: "handshake_config \<Rightarrow> 'k dtls_state \<Rightarrow> server_hello" where
  "flight4_server_hello cfg st = \<lparr>sh_version = PROTOCOL_VERSION1_2, sh_random = st_local_random st,
     sh_cipher_suite = (case st_cipher_suite st of Some cs \<Rightarrow> cs_id cs | None \<Rightarrow> CS_Unsupported),
     sh_compression_method = default_compression_methods ! 0,
     sh_extensions = [RenegotiationInfo 0]
       @ (if enables_ems cfg \<and> st_extended_master_secret st then [UseExtendedMasterSecret True] else [])
       @ (if st_srtp_protection_profile st \<noteq> Srtp_Unsupported then [UseSrtp [st_srtp_protection_profile st]] else [])
       @ curve_extensions cfg\<rparr>"

definition flight4_key_exchange :: "'k sign_libs \<Rightarrow> handshake_config \<Rightarrow> dtls_certificate \<Rightarrow> signature_hash_algorithm \<Rightarrow> 'k dtls_state
    \<Rightarrow> 'k dtls_state \<times> (packet list, flight_error) outcome" where
  "flight4_key_exchange A cfg cert alg st = (case st_local_keypair st of
     None \<Rightarrow> (st, Ok [])
   | Some kp \<Rightarrow>
       and_then (st, or_fatal AD_InternalError (generate_key_signature A (random_marshal (st_remote_random st))
           (random_marshal (st_local_random st)) (kp_public_key kp) (st_named_curve st) (cert_private_key cert))) (\<lambda>st signature.
         (st\<lparr>st_local_key_signature := signature\<rparr>, Ok [plain_packet (MsgServerKeyExchange \<lparr>ske_identity_hint = [],
            ske_elliptic_curve_type = ECT_NamedCurve, ske_named_curve = st_named_curve st,
            ske_public_key = kp_public_key kp, ske_algorithm = alg, ske_signature = signature\<rparr>)])))"

definition flight4_certificate :: "'k sign_libs \<Rightarrow> handshake_config \<Rightarrow> 'k dtls_state
    \<Rightarrow> 'k dtls_state \<times> (packet list, flight_error) outcome" where
  "flight4_certificate A cfg st =
     and_then (st, or_fatal AD_HandshakeFailure (get_certificate A cfg (cfg_server_name cfg))) (\<lambda>st cert.
     and_then (st, or_fatal AD_InsufficientSecurity
         (select_signature_scheme (cfg_local_signature_schemes cfg) (key_kind (cert_private_key cert)))) (\<lambda>st alg.
     and_then (flight4_key_exchange A cfg cert alg st) (\<lambda>st key_exchange.
       (st, Ok ([plain_packet (MsgCertificate (cert_certificate cert))] @ key_exchange
         @ (if client_auth_as NoClientCert < client_auth_as (cfg_client_auth cfg)
            then [plain_packet (MsgCertificateRequest \<lparr>certificate_types = [CCT_RsaSign, CCT_EcdsaSign],
              cr_signature_hash_algorithms = cfg_local_signature_schemes cfg\<rparr>)]
            else []))))))"

definition flight4_generate :: "'k sign_libs \<Rightarrow> handshake_config \<Rightarrow> 'k dtls_state
    \<Rightarrow> 'k dtls_state \<times> (packet list, flight_error) outcome" where
  "flight4_generate A cfg st =
     and_then (if cfg_local_psk_callback cfg = None then flight4_certificate A cfg st
         else (st, Ok (case cfg_local_psk_identity_hint cfg of
             Some hint \<Rightarrow> [plain_packet (MsgServerKeyExchange (ske_psk hint))] | None \<Rightarrow> []))) (\<lambda>st' pkts.
       (st', Ok ([plain_packet (MsgServerHello (flight4_server_hello cfg st))] @ pkts @ [plain_packet MsgServerHelloDone])))"

section \<open>Flight 6: the server's Finished\<close>

definition flight6_parse :: "handshake_config \<Rightarrow> handshake_cache \<Rightarrow> 'k dtls_state \<Rightarrow> 'k dtls_state \<times> (flight, flight_error) outcome" where
  "flight6_parse cfg cache st =
     (case full_pull_map cache (st_handshake_recv_sequence st - 1) [rule HT_Finished (cfg_initial_epoch cfg + 1) True False] of
        Err _ \<Rightarrow> (st, Err (None, None))
      | Panic \<Rightarrow> (st, Panic)
      | Ok (_, msgs) \<Rightarrow> (case msgs HT_Finished of
            None \<Rightarrow> (st, Ok Flight6)
          | Some (MsgFinished _) \<Rightarrow> (st, Ok Flight6)
          | Some _ \<Rightarrow> (st, Err (fatal AD_InternalError None))))"

definition flight6_generate :: "crypto_libs \<Rightarrow> handshake_config \<Rightarrow> handshake_cache \<Rightarrow> 'k dtls_state
    \<Rightarrow> 'k dtls_state \<times> (packet list, flight_error) outcome" where
  "flight6_generate L cfg cache st =
     and_then (if st_local_verify_data st = [] \<and> st_cipher_suite st \<noteq> None
         then and_then (st, or_fatal AD_InternalError (prf_verify_data_server L (st_master_secret st)
             (pull_and_merge (finished_rules (cfg_initial_epoch cfg)) cache))) (\<lambda>st d. (st\<lparr>st_local_verify_data := d\<rparr>, Ok ()))
         else (st, Ok ())) (\<lambda>st _.
       (st, Ok [cipher_spec_packet, finished_packet (st_local_verify_data st)]))"

section \<open>Reading the steps\<close>

lemma and_then_simps [simp]:
  "and_then (st, Ok a) f = f st a" "and_then (st, Err e) f = (st, Err e)" "and_then (st, Panic) f = (st, Panic)"
  by (simp_all add: and_then_def)

lemma and_then_Ok: "and_then x f = (st', Ok b) \<longleftrightarrow> (\<exists>st a. x = (st, Ok a) \<and> f st a = (st', Ok b))"
  by (cases x; cases "snd x") auto

lemma pair_Ok: "(st, r) = (st', Ok a) \<longleftrightarrow> st' = st \<and> r = Ok a" by auto

text \<open>What a pull returns comes from the cache, whether its rules are optional or not.\<close>

lemma select_all_from:
  "select_all cache rules ci = Ok ci' \<Longrightarrow> ci' t = Some c \<Longrightarrow> ci t \<noteq> Some c
    \<Longrightarrow> \<exists>r \<in> set rules. pr_typ r = t \<and> c \<in> set cache \<and> rule_matches r c"
proof (induction rules arbitrary: ci)
  case (Cons r rs)
  show ?case
  proof (cases "select_item r None cache")
    case None
    with Cons show ?thesis by (auto split: if_splits)
  next
    case (Some x)
    with select_item_Some [OF Some] have x: "x \<in> set cache" "rule_matches r x" by auto
    from Some Cons.prems(1) have "select_all cache rs (ci(pr_typ r \<mapsto> x)) = Ok ci'" by simp
    from Cons.IH [OF this Cons.prems(2)] x Cons.prems(3) show ?thesis by (cases "pr_typ r = t \<and> x = c") auto
  qed
qed simp

lemma parse_all_from:
  "parse_all ci rules sq out = Ok (sq', out') \<Longrightarrow> out' t = Some m \<Longrightarrow> out t \<noteq> Some m
    \<Longrightarrow> \<exists>c h rest. ci t = Some c \<and> handshake_unmarshal (ci_data c) = Ok (h, rest) \<and> hs_message h = m"
proof (induction rules arbitrary: sq out)
  case (Cons r rs)
  show ?case
  proof (cases "ci (pr_typ r)")
    case None
    with Cons show ?thesis by auto
  next
    case (Some c)
    with Cons.prems(1) obtain h rest where h: "handshake_unmarshal (ci_data c) = Ok (h, rest)"
      "parse_all ci rs (sq + 1) (out(pr_typ r \<mapsto> hs_message h)) = Ok (sq', out')"
      by (auto simp: obind_eq_Ok split: if_splits)
    from Cons.IH [OF h(2) Cons.prems(2)] h(1) Some Cons.prems(3) show ?thesis
      by (cases "pr_typ r = t \<and> hs_message h = m") auto
  qed
qed simp

lemma pulled_from_cache:
  assumes "full_pull_map cache sq rules = Ok (sq', msgs)" and "msgs t = Some m"
  shows "\<exists>r \<in> set rules. \<exists>c \<in> set cache. \<exists>h rest. pr_typ r = t \<and> rule_matches r c
    \<and> handshake_unmarshal (ci_data c) = Ok (h, rest) \<and> hs_message h = m"
proof -
  from assms(1) obtain ci where ci: "select_all cache rules Map.empty = Ok ci" "parse_all ci rules sq Map.empty = Ok (sq', msgs)"
    by (auto simp: full_pull_map_def obind_eq_Ok)
  from parse_all_from [OF ci(2) assms(2)] obtain c h rest where
    "ci t = Some c" "handshake_unmarshal (ci_data c) = Ok (h, rest)" "hs_message h = m" by auto
  with select_all_from [OF ci(1), of t c] show ?thesis by fastforce
qed

section \<open>Messages in the transcript\<close>

text \<open>A handshake message with its sequence number, and the entry of the cache that holds it.\<close>

definition numbered_message :: "u16 \<Rightarrow> handshake_message \<Rightarrow> handshake" where
  "numbered_message n m = \<lparr>hs_header = (hs_header (handshake_new m))\<lparr>hh_message_sequence := n\<rparr>, hs_message = m\<rparr>"

definition message_bytes :: "u16 \<Rightarrow> handshake_message \<Rightarrow> byte list" where
  "message_bytes n m = (case handshake_marshal (numbered_message n m) of Ok bs \<Rightarrow> bs | _ \<Rightarrow> [])"

definition message_item :: "bool \<Rightarrow> u16 \<Rightarrow> u16 \<Rightarrow> handshake_message \<Rightarrow> cache_item" where
  "message_item is_client epoch n m = \<lparr>ci_typ = message_type m, ci_is_client = is_client, ci_epoch = epoch,
     ci_message_sequence = n, ci_data = message_bytes n m\<rparr>"

text \<open>A message that a handshake can carry and that is parsed again to itself.\<close>

definition sendable :: "handshake_message \<Rightarrow> bool" where
  "sendable m \<longleftrightarrow> message_ok m \<and> message_size m < 0x1000000"

lemma message_item_fields [simp]:
  "ci_typ (message_item c e n m) = message_type m" "ci_is_client (message_item c e n m) = c"
  "ci_epoch (message_item c e n m) = e" "ci_message_sequence (message_item c e n m) = n"
  "ci_data (message_item c e n m) = message_bytes n m"
  by (simp_all add: message_item_def)

lemma numbered_message_fields [simp]:
  "hh_message_sequence (hs_header (numbered_message n m)) = n" "hs_message (numbered_message n m) = m"
  by (simp_all add: numbered_message_def)

lemma numbered_message_ok: "sendable m \<Longrightarrow> handshake_ok (numbered_message n m)"
  by (simp add: sendable_def handshake_ok_def numbered_message_def handshake_new_def header_ok_def word_less_nat_alt unat_of_nat)

lemma message_bytes_marshal: "sendable m \<Longrightarrow> handshake_marshal (numbered_message n m) = Ok (message_bytes n m)"
  using handshake_dec_enc [OF numbered_message_ok, of m n] by (auto simp: message_bytes_def)

lemma message_bytes_length: "sendable m \<Longrightarrow> length (message_bytes n m) = 12 + message_size m"
  using handshake_dec_enc [OF numbered_message_ok, of m n] message_bytes_marshal [of m n]
  by (auto simp: handshake_size_def handshake_header_size_def numbered_message_def handshake_new_def)

lemma message_bytes_parse:
  assumes "sendable m"
  obtains rest where "handshake_unmarshal (message_bytes n m) = Ok (numbered_message n m, rest)"
  using handshake_dec_enc [OF numbered_message_ok [OF assms], of n] message_bytes_marshal [OF assms, of n] by auto

lemma rule_matches_rule [simp]:
  "rule_matches (rule t e c opt) i \<longleftrightarrow> ci_typ i = t \<and> ci_is_client i = c \<and> ci_epoch i = e"
  by (simp add: rule_matches_def rule_def)

lemma rule_fields [simp]: "pr_typ (rule t e c opt) = t" "pr_optional (rule t e c opt) = opt"
  by (simp_all add: rule_def)

lemma select_item_append: "select_item r x (as @ bs) = select_item r (select_item r x as) bs"
  by (induction as arbitrary: x) (simp_all split: option.splits)

lemma select_item_other: "\<forall>c \<in> set cache. \<not> rule_matches r c \<Longrightarrow> select_item r x cache = x"
  by (induction cache) auto

section \<open>What a server knows of its client\<close>

text \<open>A CertificateVerify of the client in the transcript.\<close>

definition verify_received :: "handshake_config \<Rightarrow> handshake_cache \<Rightarrow> certificate_verify \<Rightarrow> bool" where
  "verify_received cfg cache cv \<longleftrightarrow> (\<exists>c \<in> set cache. \<exists>h rest. rule_matches (rule HT_CertificateVerify (cfg_initial_epoch cfg) True True) c
     \<and> handshake_unmarshal (ci_data c) = Ok (h, rest) \<and> hs_message h = MsgCertificateVerify cv)"

text \<open>
  The client has proved that it holds the key of its certificate: its signature of the transcript, with a
  scheme of the configuration, verifies under the certificate, and the certificate passed the checks
  that the configuration asks for.
\<close>

definition certificate_proved :: "'k sign_libs \<Rightarrow> handshake_config \<Rightarrow> handshake_cache \<Rightarrow> byte list list \<Rightarrow> bool" where
  "certificate_proved A cfg cache certs \<longleftrightarrow> certs \<noteq> [] \<and> (\<exists>cv. verify_received cfg cache cv
     \<and> scheme_listed cfg (cv_algorithm cv)
     \<and> verify_signature A (pull_and_merge (session_hash_rules (cfg_initial_epoch cfg)) cache) (cv_algorithm cv) (cv_signature cv)
         certs (cfg_insecure_verification cfg) = Ok ())
     \<and> (cfg_client_auth cfg \<in> {VerifyClientCertIfGiven, RequireAndVerifyClientCert}
         \<longrightarrow> (\<exists>v. cfg_client_cert_verifier cfg = Some v \<and> v (hd certs) (tl certs) = Ok ()))
     \<and> (\<forall>f. cfg_verify_peer_certificate cfg = Some f \<longrightarrow> (\<exists>chains. f certs chains = Ok ()))"

lemma client_auth_rank:
  "client_auth_as VerifyClientCertIfGiven \<le> client_auth_as a \<longleftrightarrow> a \<in> {VerifyClientCertIfGiven, RequireAndVerifyClientCert}"
  by (cases a) simp_all

lemma client_cert_verified: "verify_client_cert certs v = Ok cs \<longleftrightarrow> certs \<noteq> [] \<and> cs = certs \<and> v (hd certs) (tl certs) = Ok ()"
  by (auto simp: verify_client_cert_def load_certs_def obind_eq_Ok split: list.splits)

lemma flight4_check_Ok:
  assumes "flight4_check A cfg cache certs cv = Ok verified" and "verify_received cfg cache cv"
  shows "certificate_proved A cfg cache certs"
  using assms unfolding certificate_proved_def flight4_check_def client_auth_rank
  by (auto simp: obind_eq_Ok omap_eq_Ok client_cert_verified verify_certificate_verify_def split: if_splits option.splits)

lemma flight4_keys_frame:
  assumes "flight4_keys L A cfg cache cke st = (st', Ok u)"
  shows "st_peer_certificates st' = st_peer_certificates st"
  using assms by (auto simp: flight4_keys_def flight4_pre_master_secret_def and_then_Ok Let_def split: option.splits if_splits)

text \<open>
  C20. Which clients a server finishes a handshake with. When flight 4 is done, either the client sent no
  certificate and the configuration does not require one, or it sent one and a CertificateVerify of it is
  in the transcript whose signature over the transcript so far, with a scheme of the configuration,
  verifies under the certificate; the chain was accepted by the verifier where the configuration
  says to verify, and by the callback where there is one. This holds from every state, so a certificate
  that an earlier attempt left behind is never accepted without the proof.
\<close>

theorem client_certificate_proved:
  assumes "flight4_parse L A cfg drain cache st = (st', Ok f)"
  shows "f = Flight6 \<and> (if st_peer_certificates st' = []
      then cfg_client_auth cfg \<notin> {RequireAnyClientCert, RequireAndVerifyClientCert}
      else certificate_proved A cfg cache (st_peer_certificates st'))"
proof -
  from assms obtain sq msgs cke st1 st2 st3 cache' where
    pull: "full_pull_map cache (st_handshake_recv_sequence st) (flight4_rules (cfg_initial_epoch cfg)) = Ok (sq, msgs)"
    and verify: "flight4_certificate_verify A cfg cache msgs st1 = (st2, Ok ())"
    and keys: "flight4_keys L A cfg cache cke st2 = (st3, Ok ())"
    and fin: "flight4_finished cfg cache' sq st3 = (st', Ok f)"
    by (auto simp: flight4_parse_def and_then_Ok split: outcome.splits option.splits handshake_message.splits)
  from fin have auth: "flight4_auth cfg st' = Ok f" and st': "st_peer_certificates st' = st_peer_certificates st3"
    by (auto simp: flight4_finished_def Let_def split: outcome.splits option.splits handshake_message.splits)
  from auth have "f = Flight6" and req: "st_peer_certificates st' = [] \<Longrightarrow>
      cfg_client_auth cfg \<notin> {RequireAnyClientCert, RequireAndVerifyClientCert}"
    by (auto simp: flight4_auth_def split: client_auth_type.splits if_splits)
  have certs: "st_peer_certificates st' = st_peer_certificates st2" using st' flight4_keys_frame [OF keys] by simp
  have "certificate_proved A cfg cache (st_peer_certificates st')" if ne: "st_peer_certificates st' \<noteq> []"
  proof -
    from verify certs ne obtain cv verified where cv: "msgs HT_CertificateVerify = Some (MsgCertificateVerify cv)"
      "flight4_check A cfg cache (st_peer_certificates st') cv = Ok verified"
      by (auto simp: flight4_certificate_verify_def and_then_Ok split: option.splits handshake_message.splits if_splits)
    from pulled_from_cache [OF pull cv(1)] have "verify_received cfg cache cv"
      by (auto simp: verify_received_def flight4_rules_def rule_def)
    with cv(2) show ?thesis by (rule flight4_check_Ok)
  qed
  with \<open>f = Flight6\<close> req show ?thesis by simp
qed

section \<open>What a server does not compare\<close>

lemma pull_last:
  assumes "sendable (MsgFinished v)"
  shows "full_pull_map (cache @ [message_item True e n (MsgFinished v)]) sq [rule HT_Finished e True False]
    = (case select_item (rule HT_Finished e True False) None cache of
        Some x \<Rightarrow> if ci_message_sequence x < n then (if word_of_int sq \<noteq> n then Err (Other ''There is a gap. Some messages are not arrived.'')
            else Ok (sq + 1, [HT_Finished \<mapsto> MsgFinished v]))
          else full_pull_map cache sq [rule HT_Finished e True False]
      | None \<Rightarrow> if word_of_int sq \<noteq> n then Err (Other ''There is a gap. Some messages are not arrived.'')
          else Ok (sq + 1, [HT_Finished \<mapsto> MsgFinished v]))"
proof -
  obtain rest where "handshake_unmarshal (message_bytes n (MsgFinished v)) = Ok (numbered_message n (MsgFinished v), rest)"
    using message_bytes_parse [OF assms] .
  then show ?thesis by (simp add: full_pull_map_def select_item_append split: option.splits)
qed

lemma finished_unread:
  assumes "sendable (MsgFinished v)" and "sendable (MsgFinished v')"
  shows "flight4_finished cfg (cache @ [message_item True (cfg_initial_epoch cfg + 1) n (MsgFinished v)]) sq st
    = flight4_finished cfg (cache @ [message_item True (cfg_initial_epoch cfg + 1) n (MsgFinished v')]) sq st"
  unfolding flight4_finished_def pull_last [OF assms(1)] pull_last [OF assms(2)] by (simp add: Let_def split: option.splits)

text \<open>
  C23. The server does not look into the client's Finished: whatever verify data it carries, flight 4 ends
  with the same state and the same result. RFC 5246 asks both sides to compare it with the hash of the
  transcript; only the client does (\<^verbatim>\<open>flight5.rs\<close>).
\<close>

theorem client_finished_unchecked:
  assumes "sendable (MsgFinished v)" and "sendable (MsgFinished v')"
  shows "flight4_parse L A cfg (\<lambda>_ c. Ok (c @ [message_item True (cfg_initial_epoch cfg + 1) n (MsgFinished v)])) cache st
    = flight4_parse L A cfg (\<lambda>_ c. Ok (c @ [message_item True (cfg_initial_epoch cfg + 1) n (MsgFinished v')])) cache st"
  unfolding flight4_parse_def map_err.simps and_then_simps finished_unread [OF assms] ..

section \<open>Witnesses\<close>

definition demo_sign :: "nat sign_libs" where
  "demo_sign = \<lparr>sl_sign_ed25519 = (\<lambda>k m. take 3 m), sl_sign_ecdsa = (\<lambda>k m. Ok (take 3 m)), sl_sign_rsa = (\<lambda>k m. Ok (take 3 m)),
     sl_parse_x509_certificate = (\<lambda>c. Ok c), sl_verify = (\<lambda>va k m s. if s = take 3 m then Ok () else Err ''Unspecified''),
     sl_read_point = (\<lambda>c p. Ok ()), sl_diffie_hellman = (\<lambda>c k p. replicate 32 1), sl_server_name = (\<lambda>n. Ok n),
     sl_to_lowercase = (\<lambda>n. n)\<rparr>"

text \<open>A client that sends a certificate, its key exchange, the proof and a Finished.\<close>

definition demo_proof :: certificate_verify where
  "demo_proof = \<lparr>cv_algorithm = \<lparr>sha_hash = HA_Sha256, sha_signature = SA_Ecdsa\<rparr>, cv_signature = take 3 (message_bytes 0 (MsgCertificate [[48]]))\<rparr>"

definition demo_client_flight :: handshake_cache where
  "demo_client_flight = [message_item True 0 0 (MsgCertificate [[48]]),
     message_item True 0 1 (MsgClientKeyExchange \<lparr>cke_identity_hint = [], cke_public_key = [4, 5]\<rparr>),
     message_item True 0 2 (MsgCertificateVerify demo_proof)]"

lemma demo_sendable:
  "sendable (MsgCertificate [[48]])" "sendable (MsgClientKeyExchange \<lparr>cke_identity_hint = [], cke_public_key = [4, 5]\<rparr>)"
  "sendable (MsgCertificateVerify demo_proof)" "sendable (MsgFinished [v])"
  by (simp_all add: sendable_def certificate_ok_def certificate_size_def client_key_exchange_size_def certificate_verify_size_def
      demo_proof_def min_def)

lemma demo_client_pulled:
  "\<exists>msgs. full_pull_map demo_client_flight 0 (flight4_rules 0) = Ok (3, msgs)
    \<and> msgs HT_Certificate = Some (MsgCertificate [[48]])
    \<and> msgs HT_ClientKeyExchange = Some (MsgClientKeyExchange \<lparr>cke_identity_hint = [], cke_public_key = [4, 5]\<rparr>)
    \<and> msgs HT_CertificateVerify = Some (MsgCertificateVerify demo_proof)"
proof -
  note p = demo_sendable(1-3) [THEN message_bytes_parse]
  obtain r0 where 0: "handshake_unmarshal (message_bytes 0 (MsgCertificate [[48]])) = Ok (numbered_message 0 (MsgCertificate [[48]]), r0)"
    by (rule p(1))
  obtain r1 where 1: "handshake_unmarshal (message_bytes 1 (MsgClientKeyExchange \<lparr>cke_identity_hint = [], cke_public_key = [4, 5]\<rparr>))
      = Ok (numbered_message 1 (MsgClientKeyExchange \<lparr>cke_identity_hint = [], cke_public_key = [4, 5]\<rparr>), r1)"
    by (rule p(2))
  obtain r2 where 2: "handshake_unmarshal (message_bytes 2 (MsgCertificateVerify demo_proof))
      = Ok (numbered_message 2 (MsgCertificateVerify demo_proof), r2)"
    by (rule p(3))
  show ?thesis
    by (simp add: full_pull_map_def flight4_rules_def demo_client_flight_def 0 1 2)
qed

lemma demo_client_accepted:
  "snd (flight4_parse demo_crypto demo_sign server_cfg (\<lambda>_ c. Ok (c @ [message_item True 1 3 (MsgFinished [7])]))
     demo_client_flight initial_state) = Ok Flight6"
proof -
  obtain msgs where m: "full_pull_map demo_client_flight 0 (flight4_rules 0) = Ok (3, msgs)"
    "msgs HT_Certificate = Some (MsgCertificate [[48]])"
    "msgs HT_ClientKeyExchange = Some (MsgClientKeyExchange \<lparr>cke_identity_hint = [], cke_public_key = [4, 5]\<rparr>)"
    "msgs HT_CertificateVerify = Some (MsgCertificateVerify demo_proof)"
    using demo_client_pulled by blast
  have fin: "full_pull_map (demo_client_flight @ [message_item True 1 3 (MsgFinished [7])]) 3 [rule HT_Finished 1 True False]
      = Ok (4, [HT_Finished \<mapsto> MsgFinished [7]])"
    unfolding pull_last [OF demo_sendable(4)] by (simp add: demo_client_flight_def)
  have "pull_and_merge (session_hash_rules 0) demo_client_flight = message_bytes 0 (MsgCertificate [[48]])
      @ message_bytes 1 (MsgClientKeyExchange \<lparr>cke_identity_hint = [], cke_public_key = [4, 5]\<rparr>)"
    by (simp add: pull_and_merge_def cache_pull_def session_hash_rules_def demo_client_flight_def rule_matches_def)
  then have "flight4_check demo_sign server_cfg demo_client_flight [[48]] demo_proof = Ok False"
    using message_bytes_length [OF demo_sendable(1), of 0]
    by (simp add: flight4_check_def server_cfg_def demo_proof_def scheme_listed_def default_signature_schemes_def
        verify_certificate_verify_def verify_signature_def pick_verify_alg_def demo_sign_def)
  with m fin show ?thesis
    by (simp add: flight4_parse_def server_cfg_def initial_state_def take_certificates_def flight4_certificate_verify_def
        flight4_keys_def flight4_finished_def flight4_auth_def)
qed

theorem client_certificate_proved_witness:
  "\<exists>st'. flight4_parse demo_crypto demo_sign server_cfg (\<lambda>_ c. Ok (c @ [message_item True 1 3 (MsgFinished [7])]))
      demo_client_flight initial_state = (st', Ok Flight6)
    \<and> st_peer_certificates st' \<noteq> [] \<and> certificate_proved demo_sign server_cfg demo_client_flight (st_peer_certificates st')"
proof -
  obtain st' where st': "flight4_parse demo_crypto demo_sign server_cfg (\<lambda>_ c. Ok (c @ [message_item True 1 3 (MsgFinished [7])]))
      demo_client_flight initial_state = (st', Ok Flight6)"
    using demo_client_accepted by (metis prod.collapse)
  with client_certificate_proved [OF st'] show ?thesis by (auto simp: server_cfg_def split: if_splits)
qed

theorem client_finished_unchecked_witness:
  "snd (flight4_parse demo_crypto demo_sign server_cfg (\<lambda>_ c. Ok (c @ [message_item True 1 3 (MsgFinished [8])]))
     demo_client_flight initial_state) = Ok Flight6"
proof -
  have "cfg_initial_epoch server_cfg + 1 = 1" by (simp add: server_cfg_def)
  with client_finished_unchecked [OF demo_sendable(4) [of 7] demo_sendable(4) [of 8], of demo_crypto demo_sign server_cfg 3
      demo_client_flight initial_state] demo_client_accepted
  show ?thesis by metis
qed

end
