(* ===== verification/Dtls_Client_Flights.thy ===== *)
theory Dtls_Client_Flights
  imports Dtls_Server_Flights
begin

text \<open>
  The client's flights 1, 3 and 5 (\<^verbatim>\<open>flight/flight1.rs\<close>, \<^verbatim>\<open>flight3.rs\<close>, \<^verbatim>\<open>flight5.rs\<close>), in the order of the
  code. The theory shows what a client knows of a server it has finished a handshake with, and that its
  first flight gives up on any handshake message that is neither of the two it waits for.
\<close>

section \<open>The client's hello\<close>

definition hello_extensions :: "handshake_config \<Rightarrow> extension list" where
  "hello_extensions cfg =
     [SupportedSignatureAlgorithms (cfg_local_signature_schemes cfg), RenegotiationInfo 0]
     @ curve_extensions cfg
     @ (if cfg_local_srtp_protection_profiles cfg \<noteq> [] then [UseSrtp (cfg_local_srtp_protection_profiles cfg)] else [])
     @ (if enables_ems cfg then [UseExtendedMasterSecret True] else [])
     @ (if cfg_server_name cfg \<noteq> [] then [ServerName (cfg_server_name cfg)] else [])"

definition client_hello_of :: "handshake_config \<Rightarrow> 'k dtls_state \<Rightarrow> client_hello" where
  "client_hello_of cfg st = \<lparr>ch_version = PROTOCOL_VERSION1_2, ch_random = st_local_random st, ch_cookie = st_cookie st,
     ch_cipher_suites = cfg_local_cipher_suites cfg, ch_compression_methods = default_compression_methods,
     ch_extensions = hello_extensions cfg\<rparr>"

text \<open>\<open>lr\<close> is the random value drawn for the handshake.\<close>

definition flight1_generate :: "handshake_random \<Rightarrow> handshake_config \<Rightarrow> 'k dtls_state \<Rightarrow> 'k dtls_state \<times> packet list" where
  "flight1_generate lr cfg st =
     (let st = st\<lparr>st_local_epoch := 0, st_remote_epoch := 0, st_named_curve := DEFAULT_NAMED_CURVE, st_cookie := [],
        st_local_random := lr\<rparr>
      in (st, [plain_packet (MsgClientHello (client_hello_of cfg st))]))"

definition flight3_generate :: "handshake_config \<Rightarrow> 'k dtls_state \<Rightarrow> 'k dtls_state \<times> packet list" where
  "flight3_generate cfg st = (st, [plain_packet (MsgClientHello (client_hello_of cfg st))])"

section \<open>Flight 3: the server's hello and key exchange\<close>

definition hello_verify :: "int \<Rightarrow> hello_verify_request \<Rightarrow> 'k dtls_state \<Rightarrow> 'k dtls_state \<times> (flight, flight_error) outcome" where
  "hello_verify sq h st =
     (if hvr_version h \<noteq> PROTOCOL_VERSION1_0 \<and> hvr_version h \<noteq> PROTOCOL_VERSION1_2
      then (st, Err (fatal AD_ProtocolVersion (Some ErrUnsupportedProtocolVersion)))
      else (st\<lparr>st_cookie := hvr_cookie h, st_handshake_recv_sequence := sq\<rparr>, Ok Flight3))"

definition flight3_rules :: "handshake_config \<Rightarrow> pull_rule list" where
  "flight3_rules cfg = (let e = cfg_initial_epoch cfg in
     if cfg_local_psk_callback cfg \<noteq> None
     then [rule HT_ServerHello e False False, rule HT_ServerKeyExchange e False True, rule HT_ServerHelloDone e False False]
     else [rule HT_ServerHello e False False, rule HT_Certificate e False True, rule HT_ServerKeyExchange e False False,
       rule HT_CertificateRequest e False True, rule HT_ServerHelloDone e False False])"

fun apply_server_extensions :: "handshake_config \<Rightarrow> extension list \<Rightarrow> 'k dtls_state
    \<Rightarrow> 'k dtls_state \<times> (unit, flight_error) outcome" where
  "apply_server_extensions cfg [] st = (st, Ok ())"
| "apply_server_extensions cfg (UseSrtp profiles # es) st =
     (case find_matching_srtp_profile profiles (cfg_local_srtp_protection_profiles cfg) of
        None \<Rightarrow> (st, Err (fatal AD_IllegalParameter (Some ErrClientNoMatchingSrtpProfile)))
      | Some p \<Rightarrow> apply_server_extensions cfg es (st\<lparr>st_srtp_protection_profile := p\<rparr>))"
| "apply_server_extensions cfg (UseExtendedMasterSecret _ # es) st =
     apply_server_extensions cfg es
       (if cfg_extended_master_secret cfg \<noteq> EMS_Disable then st\<lparr>st_extended_master_secret := True\<rparr> else st)"
| "apply_server_extensions cfg (_ # es) st = apply_server_extensions cfg es st"

definition flight3_server_hello :: "handshake_config \<Rightarrow> server_hello \<Rightarrow> 'k dtls_state
    \<Rightarrow> 'k dtls_state \<times> (unit, flight_error) outcome" where
  "flight3_server_hello cfg h st =
     (if sh_version h \<noteq> PROTOCOL_VERSION1_2 then (st, Err (fatal AD_ProtocolVersion (Some ErrUnsupportedProtocolVersion)))
      else and_then (apply_server_extensions cfg (sh_extensions h) st) (\<lambda>st _.
        if cfg_extended_master_secret cfg = EMS_Require \<and> \<not> st_extended_master_secret st
        then (st, Err (fatal AD_InsufficientSecurity (Some ErrClientRequiredButNoServerEms)))
        else if cfg_local_srtp_protection_profiles cfg \<noteq> [] \<and> st_srtp_protection_profile st = Srtp_Unsupported
        then (st, Err (fatal AD_InsufficientSecurity (Some ErrRequestedButNoSrtpExtension)))
        else if find_matching_cipher_suite [sh_cipher_suite h] (cfg_local_cipher_suites cfg) = None
        then (st, Err (fatal AD_InsufficientSecurity (Some ErrCipherSuiteNoIntersection)))
        else (case cipher_suite_for_id (sh_cipher_suite h) of
            Ok cs \<Rightarrow> (st\<lparr>st_cipher_suite := Some cs, st_remote_random := sh_random h\<rparr>, Ok ())
          | Err _ \<Rightarrow> (st, Err (fatal AD_InsufficientSecurity (Some ErrInvalidCipherSuite)))
          | Panic \<Rightarrow> (st, Panic))))"

definition handle_server_key_exchange :: "'k sign_libs \<Rightarrow> (named_curve \<Rightarrow> byte list \<times> 'k) \<Rightarrow> handshake_config \<Rightarrow> server_key_exchange
    \<Rightarrow> 'k dtls_state \<Rightarrow> 'k dtls_state \<times> (unit, flight_error) outcome" where
  "handle_server_key_exchange A gen cfg h st = (case cfg_local_psk_callback cfg of
     Some psk_callback \<Rightarrow>
       and_then (st, or_fatal AD_InternalError (psk_callback (ske_identity_hint h))) (\<lambda>st psk.
         (st\<lparr>st_identity_hint := ske_identity_hint h, st_pre_master_secret := prf_psk_pre_master_secret psk\<rparr>, Ok ()))
   | None \<Rightarrow>
       and_then (st, or_fatal AD_InternalError (generate_keypair gen (ske_named_curve h))) (\<lambda>st kp.
       and_then (st, or_fatal AD_InternalError (prf_pre_master_secret A (ske_public_key h) (kp_private_key kp) (kp_curve kp))) (\<lambda>st pms.
         (st\<lparr>st_pre_master_secret := pms, st_local_keypair := Some kp\<rparr>, Ok ()))))"

definition flight3_server :: "'k sign_libs \<Rightarrow> (named_curve \<Rightarrow> byte list \<times> 'k) \<Rightarrow> handshake_config \<Rightarrow> handshake_cache \<Rightarrow> 'k dtls_state
    \<Rightarrow> 'k dtls_state \<times> (flight, flight_error) outcome" where
  "flight3_server A gen cfg cache st =
     (case full_pull_map cache (st_handshake_recv_sequence st) (flight3_rules cfg) of
        Err _ \<Rightarrow> (st, Err (None, None))
      | Panic \<Rightarrow> (st, Panic)
      | Ok (sq, msgs) \<Rightarrow>
          let st = st\<lparr>st_handshake_recv_sequence := sq\<rparr> in
          and_then (case msgs HT_ServerHello of
              None \<Rightarrow> (st, Ok ())
            | Some (MsgServerHello h) \<Rightarrow> flight3_server_hello cfg h st
            | Some _ \<Rightarrow> (st, Err (fatal AD_InternalError None))) (\<lambda>st _.
          and_then (take_certificates msgs st) (\<lambda>st _.
          and_then (case msgs HT_ServerKeyExchange of
              None \<Rightarrow> (st, Ok ())
            | Some (MsgServerKeyExchange h) \<Rightarrow> handle_server_key_exchange A gen cfg h st
            | Some _ \<Rightarrow> (st, Err (fatal AD_InternalError None))) (\<lambda>st _.
          case msgs HT_CertificateRequest of
              None \<Rightarrow> (st, Ok Flight5)
            | Some (MsgCertificateRequest _) \<Rightarrow> (st\<lparr>st_remote_requested_certificate := True\<rparr>, Ok Flight5)
            | Some _ \<Rightarrow> (st, Err (fatal AD_InternalError None))))))"

definition flight3_parse :: "'k sign_libs \<Rightarrow> (named_curve \<Rightarrow> byte list \<times> 'k) \<Rightarrow> handshake_config \<Rightarrow> handshake_cache \<Rightarrow> 'k dtls_state
    \<Rightarrow> 'k dtls_state \<times> (flight, flight_error) outcome" where
  "flight3_parse A gen cfg cache st =
     (case full_pull_map cache (st_handshake_recv_sequence st) [rule HT_HelloVerifyRequest (cfg_initial_epoch cfg) False True] of
        Panic \<Rightarrow> (st, Panic)
      | Err _ \<Rightarrow> flight3_server A gen cfg cache st
      | Ok (sq, msgs) \<Rightarrow> (case msgs HT_HelloVerifyRequest of
            None \<Rightarrow> flight3_server A gen cfg cache st
          | Some (MsgHelloVerifyRequest h) \<Rightarrow> hello_verify sq h st
          | Some _ \<Rightarrow> (st, Err (fatal AD_InternalError None))))"

section \<open>Flight 1: the cookie\<close>

definition flight1_rules :: "u16 \<Rightarrow> pull_rule list" where
  "flight1_rules epoch = [rule HT_HelloVerifyRequest epoch False True, rule HT_ServerHello epoch False True]"

definition flight1_parse :: "'k sign_libs \<Rightarrow> (named_curve \<Rightarrow> byte list \<times> 'k) \<Rightarrow> handshake_config \<Rightarrow> handshake_cache \<Rightarrow> 'k dtls_state
    \<Rightarrow> 'k dtls_state \<times> (flight, flight_error) outcome" where
  "flight1_parse A gen cfg cache st =
     (case full_pull_map cache (st_handshake_recv_sequence st) (flight1_rules (cfg_initial_epoch cfg)) of
        Err _ \<Rightarrow> (st, Err (None, None))
      | Panic \<Rightarrow> (st, Panic)
      | Ok (sq, msgs) \<Rightarrow>
          if msgs HT_ServerHello \<noteq> None then flight3_parse A gen cfg cache st
          else (case msgs HT_HelloVerifyRequest of
              Some (MsgHelloVerifyRequest h) \<Rightarrow> hello_verify sq h st
            | _ \<Rightarrow> (st, Err (fatal AD_InternalError None))))"

section \<open>Flight 5: the client's key exchange and Finished\<close>

definition flight5_parse :: "crypto_libs \<Rightarrow> handshake_config \<Rightarrow> handshake_cache \<Rightarrow> 'k dtls_state
    \<Rightarrow> 'k dtls_state \<times> (flight, flight_error) outcome" where
  "flight5_parse L cfg cache st =
     (case full_pull_map cache (st_handshake_recv_sequence st) [rule HT_Finished (cfg_initial_epoch cfg + 1) False False] of
        Err _ \<Rightarrow> (st, Err (None, None))
      | Panic \<Rightarrow> (st, Panic)
      | Ok (_, msgs) \<Rightarrow> (case msgs HT_Finished of
            Some (MsgFinished verify_data) \<Rightarrow>
              if st_cipher_suite st = None then (st, Ok Flight5)
              else and_then (st, or_fatal AD_InsufficientSecurity (prf_verify_data_server L (st_master_secret st)
                  (pull_and_merge (finished_rules (cfg_initial_epoch cfg)) cache))) (\<lambda>st expected.
                if expected \<noteq> verify_data then (st, Err (fatal AD_HandshakeFailure (Some ErrVerifyDataMismatch)))
                else (st, Ok Flight5))
          | _ \<Rightarrow> (st, Err (fatal AD_InternalError None))))"

definition flight5_certificate :: "'k sign_libs \<Rightarrow> handshake_config \<Rightarrow> (dtls_certificate option, flight_error) outcome" where
  "flight5_certificate A cfg = (if cfg_local_certificates cfg \<noteq> []
     then omap Some (or_fatal AD_HandshakeFailure (get_certificate A cfg (cfg_server_name cfg))) else Ok None)"

definition flight5_key_exchange :: "handshake_config \<Rightarrow> 'k dtls_state \<Rightarrow> client_key_exchange" where
  "flight5_key_exchange cfg st =
     \<lparr>cke_identity_hint = (if cfg_local_psk_callback cfg = None then []
        else case cfg_local_psk_identity_hint cfg of Some hint \<Rightarrow> hint | None \<Rightarrow> []),
      cke_public_key = (if cfg_local_psk_callback cfg = None
        then case st_local_keypair st of Some kp \<Rightarrow> kp_public_key kp | None \<Rightarrow> [] else [])\<rparr>"

definition flight5_packets :: "handshake_config \<Rightarrow> dtls_certificate option \<Rightarrow> 'k dtls_state \<Rightarrow> packet list" where
  "flight5_packets cfg certificate st =
     (if st_remote_requested_certificate st
      then [plain_packet (MsgCertificate (case certificate of Some cert \<Rightarrow> cert_certificate cert | None \<Rightarrow> []))] else [])
     @ [plain_packet (MsgClientKeyExchange (flight5_key_exchange cfg st))]"

text \<open>The server's key exchange message, once more from the transcript.\<close>

definition flight5_server_key_exchange :: "'k sign_libs \<Rightarrow> (named_curve \<Rightarrow> byte list \<times> 'k) \<Rightarrow> handshake_config \<Rightarrow> handshake_cache
    \<Rightarrow> 'k dtls_state \<Rightarrow> 'k dtls_state \<times> (server_key_exchange, flight_error) outcome" where
  "flight5_server_key_exchange A gen cfg cache st =
     (let data = pull_and_merge [rule HT_ServerKeyExchange (cfg_initial_epoch cfg) False False] cache in
      if data = []
      then and_then (handle_server_key_exchange A gen cfg (ske_psk []) st) (\<lambda>st _. (st, Ok (ske_psk [])))
      else and_then (st, or_fatal AD_UnexpectedMessage (handshake_unmarshal data)) (\<lambda>st (h, _). case hs_message h of
          MsgServerKeyExchange ske \<Rightarrow> (st, Ok ske)
        | _ \<Rightarrow> (st, Err (fatal AD_UnexpectedMessage (Some ErrInvalidContentType)))))"

text \<open>Numbering the packets that are not sent yet and marshalling them.\<close>

fun merge_packets :: "u16 \<Rightarrow> packet list \<Rightarrow> (packet list \<times> byte list \<times> u16, flight_error) outcome" where
  "merge_packets sq [] = Ok ([], [], sq)"
| "merge_packets sq (p # ps) = (case rl_content (pk_record p) of
     Handshake h \<Rightarrow>
       let h = h\<lparr>hs_header := (hs_header h)\<lparr>hh_message_sequence := sq\<rparr>\<rparr>;
           p = p\<lparr>pk_record := (pk_record p)\<lparr>rl_content := Handshake h\<rparr>\<rparr> in
       obind (or_fatal AD_InternalError (handshake_marshal h)) (\<lambda>raw.
       obind (merge_packets (sq + 1) ps) (\<lambda>(ps, merged, sq). Ok (p # ps, raw @ merged, sq)))
   | _ \<Rightarrow> Err (fatal AD_InternalError (Some ErrInvalidContentType)))"

text \<open>Checking the server's signature and certificate.\<close>

definition verify_server :: "'k sign_libs \<Rightarrow> handshake_config \<Rightarrow> byte list \<Rightarrow> byte list \<Rightarrow> server_key_exchange \<Rightarrow> byte list list
    \<Rightarrow> (unit, flight_error) outcome" where
  "verify_server A cfg client_random server_random h certs =
     (if \<not> scheme_listed cfg (ske_algorithm h) then Err (fatal AD_InsufficientSecurity (Some ErrNoAvailableSignatureSchemes))
      else obind (or_fatal AD_BadCertificate (verify_key_signature A
          (value_key_message client_random server_random (ske_public_key h) (ske_named_curve h))
          (ske_algorithm h) (ske_signature h) certs (cfg_insecure_verification cfg))) (\<lambda>_.
        obind (if \<not> cfg_insecure_skip_verify cfg
          then or_fatal AD_BadCertificate (verify_server_cert A certs (cfg_server_cert_verifier cfg) (cfg_server_name cfg))
          else Ok []) (\<lambda>chains. case cfg_verify_peer_certificate cfg of
              Some verify \<Rightarrow> or_fatal AD_BadCertificate (verify certs chains)
            | None \<Rightarrow> Ok ())))"

definition initialize_cipher_suite :: "crypto_libs \<Rightarrow> 'k sign_libs \<Rightarrow> handshake_config \<Rightarrow> handshake_cache \<Rightarrow> server_key_exchange
    \<Rightarrow> byte list \<Rightarrow> 'k dtls_state \<Rightarrow> 'k dtls_state \<times> (unit, flight_error) outcome" where
  "initialize_cipher_suite L A cfg cache h sending_plain_text st =
     (if case st_cipher_suite st of Some cs \<Rightarrow> suite_is_initialized (cs_cipher cs) | None \<Rightarrow> False then (st, Ok ())
      else let client_random = random_marshal (st_local_random st); server_random = random_marshal (st_remote_random st) in
        and_then (case st_cipher_suite st of
            None \<Rightarrow> (st, Ok ())
          | Some cs \<Rightarrow> and_then (st, or_fatal (if st_extended_master_secret st then AD_IllegalParameter else AD_InternalError)
              (derive_master_secret L (st_extended_master_secret st) (st_pre_master_secret st)
                (session_hash (cl_sha256 L) (cfg_initial_epoch cfg) sending_plain_text cache) client_random server_random))
              (\<lambda>st ms. (st\<lparr>st_master_secret := ms\<rparr>, Ok ()))) (\<lambda>st _.
        and_then (st, if cfg_local_psk_callback cfg = None
            then verify_server A cfg client_random server_random h (st_peer_certificates st) else Ok ()) (\<lambda>st _.
        case st_cipher_suite st of
            None \<Rightarrow> (st, Ok ())
          | Some cs \<Rightarrow> and_then (st, or_fatal AD_InternalError
                (suite_init L (cs_cipher cs) (st_master_secret st) client_random server_random True))
              (\<lambda>st c. (st\<lparr>st_cipher_suite := Some (cs\<lparr>cs_cipher := c\<rparr>)\<rparr>, Ok ())))))"

definition flight5_certificate_verify :: "'k sign_libs \<Rightarrow> handshake_config \<Rightarrow> handshake_cache \<Rightarrow> dtls_certificate option \<Rightarrow> byte list \<Rightarrow> u16
    \<Rightarrow> 'k dtls_state \<Rightarrow> 'k dtls_state \<times> (packet list \<times> byte list, flight_error) outcome" where
  "flight5_certificate_verify A cfg cache certificate merged sq st =
     (if st_remote_requested_certificate st \<and> cfg_local_certificates cfg \<noteq> []
      then (case certificate of
          None \<Rightarrow> (st, Panic)
        | Some cert \<Rightarrow>
            let plain_text = pull_and_merge (session_hash_rules (cfg_initial_epoch cfg)) cache @ merged in
            and_then (st, or_fatal AD_InsufficientSecurity
                (select_signature_scheme (cfg_local_signature_schemes cfg) (key_kind (cert_private_key cert)))) (\<lambda>st alg.
            and_then (st, or_fatal AD_InternalError (generate_certificate_verify A plain_text (cert_private_key cert))) (\<lambda>st signature.
            and_then (st\<lparr>st_local_certificates_verify := signature\<rparr>,
                merge_packets sq [plain_packet (MsgCertificateVerify \<lparr>cv_algorithm = alg, cv_signature = signature\<rparr>)]) (\<lambda>st (ps, raw, _).
              (st, Ok (ps, merged @ raw))))))
      else (st, Ok ([], merged)))"

definition flight5_verify_data :: "crypto_libs \<Rightarrow> handshake_config \<Rightarrow> handshake_cache \<Rightarrow> byte list \<Rightarrow> 'k dtls_state
    \<Rightarrow> 'k dtls_state \<times> (unit, flight_error) outcome" where
  "flight5_verify_data L cfg cache merged st =
     (if st_local_verify_data st = [] \<and> st_cipher_suite st \<noteq> None
      then and_then (st, or_fatal AD_InternalError (prf_verify_data_client L (st_master_secret st)
          (pull_and_merge (finished_rules (cfg_initial_epoch cfg)) cache @ merged))) (\<lambda>st d.
        (st\<lparr>st_local_verify_data := d\<rparr>, Ok ()))
      else (st, Ok ()))"

definition flight5_generate :: "crypto_libs \<Rightarrow> 'k sign_libs \<Rightarrow> (named_curve \<Rightarrow> byte list \<times> 'k) \<Rightarrow> handshake_config \<Rightarrow> handshake_cache
    \<Rightarrow> 'k dtls_state \<Rightarrow> 'k dtls_state \<times> (packet list, flight_error) outcome" where
  "flight5_generate L A gen cfg cache st =
     and_then (st, flight5_certificate A cfg) (\<lambda>st certificate.
     let pkts = flight5_packets cfg certificate st in
     and_then (flight5_server_key_exchange A gen cfg cache st) (\<lambda>st server_key_exchange.
     and_then (st, merge_packets (word_of_int (st_handshake_send_sequence st)) pkts) (\<lambda>st (pkts, merged, sq).
     and_then (initialize_cipher_suite L A cfg cache server_key_exchange merged st) (\<lambda>st _.
     and_then (flight5_certificate_verify A cfg cache certificate merged sq st) (\<lambda>st (certificate_verify, merged).
     and_then (flight5_verify_data L cfg cache merged st) (\<lambda>st _.
       (st, Ok (pkts @ certificate_verify @ [cipher_spec_packet, finished_packet (st_local_verify_data st)]))))))))"

section \<open>What a client knows of its server\<close>

text \<open>
  The server has proved that it holds the key of its certificate: its signature of both randoms and its
  key exchange, with a scheme of the configuration, verifies under the certificate, and the certificate
  passed the checks that the configuration asks for.
\<close>

definition server_proved :: "'k sign_libs \<Rightarrow> handshake_config \<Rightarrow> byte list \<Rightarrow> byte list \<Rightarrow> server_key_exchange \<Rightarrow> byte list list \<Rightarrow> bool" where
  "server_proved A cfg client_random server_random ske certs \<longleftrightarrow> certs \<noteq> [] \<and> scheme_listed cfg (ske_algorithm ske)
     \<and> verify_signature A (value_key_message client_random server_random (ske_public_key ske) (ske_named_curve ske))
         (ske_algorithm ske) (ske_signature ske) certs (cfg_insecure_verification cfg) = Ok ()
     \<and> (\<not> cfg_insecure_skip_verify cfg \<longrightarrow> (\<exists>name. sl_server_name A (cfg_server_name cfg) = Ok name
         \<and> cfg_server_cert_verifier cfg (hd certs) (tl certs) name = Ok ()))
     \<and> (\<forall>f. cfg_verify_peer_certificate cfg = Some f \<longrightarrow> (\<exists>chains. f certs chains = Ok ()))"

lemma server_cert_verified:
  "verify_server_cert A certs v n = Ok cs \<longleftrightarrow> certs \<noteq> [] \<and> cs = certs
     \<and> (\<exists>name. sl_server_name A n = Ok name \<and> v (hd certs) (tl certs) name = Ok ())"
  by (cases certs) (auto simp: verify_server_cert_def load_certs_def obind_eq_Ok)

lemma verify_server_Ok: "verify_server A cfg cr sr ske certs = Ok () \<Longrightarrow> server_proved A cfg cr sr ske certs"
  by (auto simp: verify_server_def server_proved_def obind_eq_Ok server_cert_verified verify_key_signature_def verify_signature_def
      split: if_splits option.splits)

text \<open>The key exchange of the server that the transcript holds.\<close>

definition key_exchange_received :: "handshake_config \<Rightarrow> handshake_cache \<Rightarrow> server_key_exchange \<Rightarrow> bool" where
  "key_exchange_received cfg cache ske \<longleftrightarrow> (\<exists>c h rest.
     select_item (rule HT_ServerKeyExchange (cfg_initial_epoch cfg) False False) None cache = Some c
     \<and> handshake_unmarshal (ci_data c) = Ok (h, rest) \<and> hs_message h = MsgServerKeyExchange ske)"

lemma pull_single: "pull_and_merge [r] cache = (case select_item r None cache of None \<Rightarrow> [] | Some c \<Rightarrow> ci_data c)"
  by (simp add: pull_and_merge_def cache_pull_def split: option.splits)

lemma flight5_key_exchange_received:
  assumes "flight5_server_key_exchange A gen cfg cache st = (st', Ok ske)" and "cfg_local_psk_callback cfg = None"
  shows "st' = st" and "key_exchange_received cfg cache ske"
proof -
  let ?d = "pull_and_merge [rule HT_ServerKeyExchange (cfg_initial_epoch cfg) False False] cache"
  have "?d \<noteq> []"
  proof
    assume "?d = []"
    with assms show False
      by (auto simp: flight5_server_key_exchange_def handle_server_key_exchange_def generate_keypair_def ske_psk_def and_then_Ok)
  qed
  with assms(1) obtain h rest where "handshake_unmarshal ?d = Ok (h, rest)"
    "(case hs_message h of MsgServerKeyExchange ske \<Rightarrow> (st, Ok ske)
      | _ \<Rightarrow> (st, Err (fatal AD_UnexpectedMessage (Some ErrInvalidContentType)))) = (st', Ok ske)"
    by (auto simp: flight5_server_key_exchange_def Let_def and_then_Ok)
  then have h: "handshake_unmarshal ?d = Ok (h, rest)" "hs_message h = MsgServerKeyExchange ske" "st' = st"
    by (auto split: handshake_message.splits)
  then show "st' = st" by simp
  from h \<open>?d \<noteq> []\<close> show "key_exchange_received cfg cache ske"
    by (auto simp: key_exchange_received_def pull_single split: option.splits)
qed

lemma initialize_proved:
  assumes "initialize_cipher_suite L A cfg cache ske plain st = (st', Ok u)" and "cfg_local_psk_callback cfg = None"
    and "st_cipher_suite st = Some cs" and "\<not> suite_is_initialized (cs_cipher cs)"
  shows "server_proved A cfg (random_marshal (st_local_random st)) (random_marshal (st_remote_random st)) ske (st_peer_certificates st)"
  using assms by (auto simp: initialize_cipher_suite_def Let_def and_then_Ok intro: verify_server_Ok)

text \<open>
  C21. What a client has checked before it sends its own Finished (outside the preshared-key mode): the key
  exchange it answers is one the transcript holds, the server's signature over the two random values,
  the curve and the public key verifies under the first of the certificates it presented, with a scheme
  of the configuration, and the certificate was accepted by the verifier unless verification is
  switched off, and by the callback where there is one. A server without a certificate is never
  answered.
\<close>

theorem server_key_proved:
  assumes "flight5_generate L A gen cfg cache st = (st', Ok pkts)" and "cfg_local_psk_callback cfg = None"
    and "st_cipher_suite st = Some cs" and "\<not> suite_is_initialized (cs_cipher cs)"
  shows "\<exists>ske. key_exchange_received cfg cache ske
    \<and> server_proved A cfg (random_marshal (st_local_random st)) (random_marshal (st_remote_random st)) ske (st_peer_certificates st)"
proof -
  from assms(1) obtain ske st1 plain st2 where
    ske: "flight5_server_key_exchange A gen cfg cache st = (st1, Ok ske)"
    and init: "initialize_cipher_suite L A cfg cache ske plain st1 = (st2, Ok ())"
    by (auto simp: flight5_generate_def Let_def and_then_Ok)
  from flight5_key_exchange_received [OF ske assms(2)] initialize_proved [OF init assms(2)] assms(3,4) show ?thesis by blast
qed

text \<open>
  C22. A client completes a handshake only with a server that has seen the same messages: the Finished it
  accepts is one of the server's in the protected epoch, and its verify data is the hash that the
  master secret gives for the client's own transcript.
\<close>

theorem server_finished_checked:
  assumes "flight5_parse L cfg cache st = (st', Ok f)" and "st_cipher_suite st \<noteq> None"
  shows "st' = st \<and> f = Flight5 \<and> (\<exists>c \<in> set cache. \<exists>h rest verify_data.
      rule_matches (rule HT_Finished (cfg_initial_epoch cfg + 1) False False) c
      \<and> handshake_unmarshal (ci_data c) = Ok (h, rest) \<and> hs_message h = MsgFinished verify_data
      \<and> prf_verify_data_server L (st_master_secret st) (pull_and_merge (finished_rules (cfg_initial_epoch cfg)) cache) = Ok verify_data)"
proof -
  let ?r = "rule HT_Finished (cfg_initial_epoch cfg + 1) False False"
  from assms obtain sq msgs v where pull: "full_pull_map cache (st_handshake_recv_sequence st) [?r] = Ok (sq, msgs)"
    and v: "msgs HT_Finished = Some (MsgFinished v)" and st': "st' = st" "f = Flight5"
      "prf_verify_data_server L (st_master_secret st) (pull_and_merge (finished_rules (cfg_initial_epoch cfg)) cache) = Ok v"
    by (auto simp: flight5_parse_def and_then_Ok split: outcome.splits option.splits handshake_message.splits if_splits)
  from pulled_from_cache [OF pull v] st' show ?thesis by fastforce
qed

section \<open>The first flight gives up early\<close>

text \<open>
  A client that has sent its first hello gives up with an internal error on any handshake message that is
  neither a HelloVerifyRequest nor a ServerHello: both are optional, so their absence counts as an
  answer without them. The comment of the code says that it keeps reading; a message of the server's
  later flight that overtakes its hello, or one forged by anybody, ends the handshake.
\<close>

theorem flight1_gives_up:
  assumes "\<forall>c \<in> set cache. \<not> (ci_is_client c = False \<and> ci_epoch c = cfg_initial_epoch cfg
      \<and> ci_typ c \<in> {HT_HelloVerifyRequest, HT_ServerHello})"
  shows "flight1_parse A gen cfg cache st = (st, Err (fatal AD_InternalError None))"
proof -
  have "select_item (rule t (cfg_initial_epoch cfg) False True) None cache = None"
    if "t \<in> {HT_HelloVerifyRequest, HT_ServerHello}" for t
    using assms that by (intro select_item_other) auto
  then show ?thesis by (simp add: flight1_parse_def full_pull_map_def flight1_rules_def)
qed

theorem flight1_gives_up_witness:
  "flight1_parse demo_sign demo_gen server_cfg [message_item False 0 1 MsgServerHelloDone] initial_state
    = (initial_state, Err (fatal AD_InternalError None))"
  by (rule flight1_gives_up) simp

end
