(* ===== verification/Dtls_Agreement.thy ===== *)
theory Dtls_Agreement
  imports Dtls_Client_Flights
begin

text \<open>
  The handshake of the two sides together. The theory follows a client and a server that have exchanged
  their hellos through flights 4, 5 and 6, each working on its own state and transcript, and shows that
  the handshake is completed on both sides with the same master secret.
\<close>

section \<open>Transcripts\<close>

text \<open>The entries of a flight of messages, numbered from \<open>n\<close> on.\<close>

fun items_from :: "bool \<Rightarrow> u16 \<Rightarrow> u16 \<Rightarrow> handshake_message list \<Rightarrow> handshake_cache" where
  "items_from is_client epoch n [] = []"
| "items_from is_client epoch n (m # ms) = message_item is_client epoch n m # items_from is_client epoch (n + 1) ms"

text \<open>Two transcripts from which every rule selects the same.\<close>

definition same_view :: "handshake_cache \<Rightarrow> handshake_cache \<Rightarrow> bool" where
  "same_view C S \<longleftrightarrow> (\<forall>r. select_item r None C = select_item r None S)"

lemma same_view_append: "same_view C S \<Longrightarrow> same_view (C @ items) (S @ items)"
  by (simp add: same_view_def select_item_append)

lemma same_view_merge: "same_view C S \<Longrightarrow> pull_and_merge rules C = pull_and_merge rules S"
  by (simp add: same_view_def pull_and_merge_def cache_pull_def)

lemma pull_and_merge_append: "pull_and_merge (as @ bs) cache = pull_and_merge as cache @ pull_and_merge bs cache"
  by (simp add: pull_and_merge_def cache_pull_def)

text \<open>
  A pull whose rules select messages with consecutive numbers, some of the optional ones nothing at all,
  returns exactly these messages.
\<close>

fun pulled :: "handshake_cache \<Rightarrow> int \<Rightarrow> (pull_rule \<times> handshake_message option) list \<Rightarrow> bool" where
  "pulled cache sq [] \<longleftrightarrow> True"
| "pulled cache sq ((r, None) # xs) \<longleftrightarrow> pr_optional r \<and> select_item r None cache = None \<and> pulled cache sq xs"
| "pulled cache sq ((r, Some m) # xs) \<longleftrightarrow> sendable m
     \<and> (\<exists>c e. select_item r None cache = Some (message_item c e (word_of_int sq) m)) \<and> pulled cache (sq + 1) xs"

lemma pulled_select:
  "pulled cache sq xs \<Longrightarrow> distinct (map (\<lambda>x. pr_typ (fst x)) xs) \<Longrightarrow> \<exists>ci'. select_all cache (map fst xs) ci = Ok ci'
    \<and> (\<forall>(r, m) \<in> set xs. ci' (pr_typ r) = (if m = None then ci (pr_typ r) else select_item r None cache))
    \<and> (\<forall>t. t \<notin> (\<lambda>x. pr_typ (fst x)) ` set xs \<longrightarrow> ci' t = ci t)"
proof (induction cache sq xs arbitrary: ci rule: pulled.induct)
  case (2 cache sq r xs)
  from 2(1) [of ci] 2(2,3) obtain ci' where ci': "select_all cache (map fst xs) ci = Ok ci'"
    "\<forall>(r, m) \<in> set xs. ci' (pr_typ r) = (if m = None then ci (pr_typ r) else select_item r None cache)"
    "\<forall>t. t \<notin> (\<lambda>x. pr_typ (fst x)) ` set xs \<longrightarrow> ci' t = ci t" by auto
  from 2(3) have "pr_typ r \<notin> (\<lambda>x. pr_typ (fst x)) ` set xs" by auto
  with ci' 2(2) show ?case by auto
next
  case (3 cache sq r m xs)
  from 3(2) obtain x where x: "select_item r None cache = Some x" by auto
  from 3(2,3) have p: "pulled cache (sq + 1) xs" "distinct (map (\<lambda>x. pr_typ (fst x)) xs)" by simp_all
  from 3(1) [OF p, of "ci(pr_typ r \<mapsto> x)"] obtain ci' where
    ci': "select_all cache (map fst xs) (ci(pr_typ r \<mapsto> x)) = Ok ci'"
    "\<forall>(r', m) \<in> set xs. ci' (pr_typ r') = (if m = None then (ci(pr_typ r \<mapsto> x)) (pr_typ r') else select_item r' None cache)"
    "\<forall>t. t \<notin> (\<lambda>x. pr_typ (fst x)) ` set xs \<longrightarrow> ci' t = (ci(pr_typ r \<mapsto> x)) t" by blast
  have "pr_typ r' \<noteq> pr_typ r" if "(r', m') \<in> set xs" for r' m' using 3(3) that by force
  then have "\<forall>(r', m') \<in> set ((r, Some m) # xs). ci' (pr_typ r') = (if m' = None then ci (pr_typ r') else select_item r' None cache)"
    using ci' 3(3) x by (auto split: prod.splits)
  with ci' x show ?case by auto
qed simp

lemma pulled_parse:
  "pulled cache sq xs \<Longrightarrow> distinct (map (\<lambda>x. pr_typ (fst x)) xs)
    \<Longrightarrow> \<forall>(r, m) \<in> set xs. ci (pr_typ r) = (if m = None then None else select_item r None cache)
    \<Longrightarrow> \<exists>out'. parse_all ci (map fst xs) sq out = Ok (sq + int (length (filter (\<lambda>x. snd x \<noteq> None) xs)), out')
      \<and> (\<forall>(r, m) \<in> set xs. out' (pr_typ r) = (if m = None then out (pr_typ r) else m))
      \<and> (\<forall>t. t \<notin> (\<lambda>x. pr_typ (fst x)) ` set xs \<longrightarrow> out' t = out t)"
proof (induction cache sq xs arbitrary: out rule: pulled.induct)
  case (2 cache sq r xs)
  let ?n = "int (length (filter (\<lambda>x. snd x \<noteq> None) xs))"
  from 2(1) [of out] 2(2-4) obtain out' where out': "parse_all ci (map fst xs) sq out = Ok (sq + ?n, out')"
    "\<forall>(r, m) \<in> set xs. out' (pr_typ r) = (if m = None then out (pr_typ r) else m)"
    "\<forall>t. t \<notin> (\<lambda>x. pr_typ (fst x)) ` set xs \<longrightarrow> out' t = out t" by auto
  from 2(3) have "pr_typ r \<notin> (\<lambda>x. pr_typ (fst x)) ` set xs" by auto
  moreover from 2(4) have "ci (pr_typ r) = None" by simp
  ultimately show ?case using out' by auto
next
  case (3 cache sq r m xs)
  from 3(2) obtain c e where x: "select_item r None cache = Some (message_item c e (word_of_int sq) m)" and m: "sendable m" by auto
  with 3(4) have ci: "ci (pr_typ r) = Some (message_item c e (word_of_int sq) m)" by simp
  obtain rest where u: "handshake_unmarshal (message_bytes (word_of_int sq) m) = Ok (numbered_message (word_of_int sq) m, rest)"
    using message_bytes_parse [OF m] .
  from 3(2-4) have p: "pulled cache (sq + 1) xs" "distinct (map (\<lambda>x. pr_typ (fst x)) xs)"
    "\<forall>(r, m) \<in> set xs. ci (pr_typ r) = (if m = None then None else select_item r None cache)" by simp_all
  from 3(1) [OF p, of "out(pr_typ r \<mapsto> m)"] obtain out' where
    out': "parse_all ci (map fst xs) (sq + 1) (out(pr_typ r \<mapsto> m))
        = Ok (sq + 1 + int (length (filter (\<lambda>x. snd x \<noteq> None) xs)), out')"
    "\<forall>(r', m') \<in> set xs. out' (pr_typ r') = (if m' = None then (out(pr_typ r \<mapsto> m)) (pr_typ r') else m')"
    "\<forall>t. t \<notin> (\<lambda>x. pr_typ (fst x)) ` set xs \<longrightarrow> out' t = (out(pr_typ r \<mapsto> m)) t" by blast
  have "pr_typ r' \<noteq> pr_typ r" if "(r', m') \<in> set xs" for r' m' using 3(3) that by force
  then have "\<forall>(r', m') \<in> set ((r, Some m) # xs). out' (pr_typ r') = (if m' = None then out (pr_typ r') else m')"
    using out' 3(3) by (auto split: prod.splits)
  with out' ci u show ?case by (auto simp: algebra_simps)
qed simp

lemma pull_pulled:
  assumes "pulled cache sq xs" and "distinct (map (\<lambda>x. pr_typ (fst x)) xs)"
  obtains msgs where "full_pull_map cache sq (map fst xs) = Ok (sq + int (length (filter (\<lambda>x. snd x \<noteq> None) xs)), msgs)"
    "\<And>r m. (r, m) \<in> set xs \<Longrightarrow> msgs (pr_typ r) = m"
proof -
  from pulled_select [OF assms, of Map.empty] obtain ci where ci: "select_all cache (map fst xs) Map.empty = Ok ci"
    "\<forall>(r, m) \<in> set xs. ci (pr_typ r) = (if m = None then None else select_item r None cache)" by auto
  from pulled_parse [OF assms ci(2), of Map.empty] ci(1) that show ?thesis
    by (force simp: full_pull_map_def)
qed

section \<open>The server's messages\<close>

definition server_exchange :: "'k dtls_state \<Rightarrow> 'k keypair \<Rightarrow> signature_hash_algorithm \<Rightarrow> byte list \<Rightarrow> server_key_exchange" where
  "server_exchange s kp alg signature = \<lparr>ske_identity_hint = [], ske_elliptic_curve_type = ECT_NamedCurve,
     ske_named_curve = st_named_curve s, ske_public_key = kp_public_key kp, ske_algorithm = alg, ske_signature = signature\<rparr>"

definition server_request :: "handshake_config \<Rightarrow> certificate_request" where
  "server_request cfg = \<lparr>certificate_types = [CCT_RsaSign, CCT_EcdsaSign], cr_signature_hash_algorithms = cfg_local_signature_schemes cfg\<rparr>"

abbreviation asks :: "handshake_config \<Rightarrow> bool" where
  "asks cfg \<equiv> cfg_client_auth cfg \<noteq> NoClientCert"

definition flight4_messages :: "handshake_config \<Rightarrow> 'k dtls_state \<Rightarrow> dtls_certificate \<Rightarrow> server_key_exchange \<Rightarrow> handshake_message list" where
  "flight4_messages cfg s cert ske = [MsgServerHello (flight4_server_hello cfg s), MsgCertificate (cert_certificate cert), MsgServerKeyExchange ske]
     @ (if asks cfg then [MsgCertificateRequest (server_request cfg)] else []) @ [MsgServerHelloDone]"

lemma client_auth_asks: "client_auth_as NoClientCert < client_auth_as a \<longleftrightarrow> a \<noteq> NoClientCert"
  by (cases a) simp_all

lemma flight4_generated:
  assumes "cfg_local_psk_callback cfg = None" and "get_certificate A cfg (cfg_server_name cfg) = Ok cert"
    and "select_signature_scheme (cfg_local_signature_schemes cfg) (key_kind (cert_private_key cert)) = Ok alg"
    and "st_local_keypair s = Some kp"
    and "generate_key_signature A (random_marshal (st_remote_random s)) (random_marshal (st_local_random s))
      (kp_public_key kp) (st_named_curve s) (cert_private_key cert) = Ok signature"
  shows "flight4_generate A cfg s = (s\<lparr>st_local_key_signature := signature\<rparr>,
    Ok (map plain_packet (flight4_messages cfg s cert (server_exchange s kp alg signature))))"
  using assms by (simp add: flight4_generate_def flight4_certificate_def flight4_key_exchange_def flight4_messages_def
      server_exchange_def server_request_def client_auth_asks del: client_auth_as.simps)

section \<open>The client reads them\<close>

text \<open>A transcript of the exchange of hellos: nothing of the later flights is in it.\<close>

definition hellos_only :: "handshake_cache \<Rightarrow> bool" where
  "hellos_only cache \<longleftrightarrow> (\<forall>c \<in> set cache. ci_typ c \<in> {HT_ClientHello, HT_HelloVerifyRequest})"

lemma hellos_select: "hellos_only cache \<Longrightarrow> pr_typ r \<notin> {HT_ClientHello, HT_HelloVerifyRequest} \<Longrightarrow> select_item r x cache = x"
  by (rule select_item_other) (auto simp: hellos_only_def rule_matches_def)

lemma flight4_pulled:
  fixes S :: handshake_cache
  assumes "hellos_only S" and "list_all sendable (flight4_messages cfg s cert ske)"
    and "same_view C (S @ items_from False 0 (word_of_int k) (flight4_messages cfg s cert ske))"
  shows "pulled C k [(rule HT_ServerHello 0 False False, Some (MsgServerHello (flight4_server_hello cfg s))),
      (rule HT_Certificate 0 False True, Some (MsgCertificate (cert_certificate cert))),
      (rule HT_ServerKeyExchange 0 False False, Some (MsgServerKeyExchange ske)),
      (rule HT_CertificateRequest 0 False True, if asks cfg then Some (MsgCertificateRequest (server_request cfg)) else None),
      (rule HT_ServerHelloDone 0 False False, Some MsgServerHelloDone)]"
proof -
  have C: "select_item r None C = select_item r (select_item r None S) (items_from False 0 (word_of_int k) (flight4_messages cfg s cert ske))" for r
    using assms(3) by (simp add: same_view_def select_item_append)
  show ?thesis
    using assms(2) by (auto simp: C hellos_select [OF assms(1)] flight4_messages_def)
qed

text \<open>The parts of two configurations that have to fit, and what a hello exchange makes of them.\<close>

definition srtp_agreed :: "handshake_config \<Rightarrow> srtp_protection_profile \<Rightarrow> bool" where
  "srtp_agreed cfg p \<longleftrightarrow> (if cfg_local_srtp_protection_profiles cfg = [] then p = Srtp_Unsupported
     else p \<noteq> Srtp_Unsupported \<and> p \<in> set (cfg_local_srtp_protection_profiles cfg))"

definition suite_agreed :: "handshake_config \<Rightarrow> cipher_suite \<Rightarrow> bool" where
  "suite_agreed cfg cs \<longleftrightarrow> cipher_suite_for_id (cs_id cs) = Ok cs \<and> cs_id cs \<in> set (cfg_local_cipher_suites cfg)"

definition ems_agreed :: "handshake_config \<Rightarrow> handshake_config \<Rightarrow> bool \<Rightarrow> bool" where
  "ems_agreed scfg ccfg b \<longleftrightarrow> b = (enables_ems scfg \<and> enables_ems ccfg) \<and> (cfg_extended_master_secret ccfg = EMS_Require \<longrightarrow> b)"

lemma enables_ems_iff: "enables_ems cfg \<longleftrightarrow> cfg_extended_master_secret cfg \<noteq> EMS_Disable"
  by (cases "cfg_extended_master_secret cfg") (simp_all add: enables_ems_def)

lemma server_hello_read:
  assumes "suite_agreed ccfg cs" and "st_cipher_suite s = Some cs" and "ems_agreed scfg ccfg (st_extended_master_secret s)"
    and "srtp_agreed ccfg (st_srtp_protection_profile s)"
    and "st_srtp_protection_profile c = Srtp_Unsupported" and "\<not> st_extended_master_secret c"
  shows "flight3_server_hello ccfg (flight4_server_hello scfg s) c
    = (c\<lparr>st_srtp_protection_profile := st_srtp_protection_profile s, st_extended_master_secret := st_extended_master_secret s,
        st_cipher_suite := Some cs, st_remote_random := st_local_random s\<rparr>, Ok ())"
proof -
  let ?p = "st_srtp_protection_profile s" and ?b = "st_extended_master_secret s"
  have match: "find_matching_srtp_profile [?p] (cfg_local_srtp_protection_profiles ccfg) = Some ?p" if "?p \<noteq> Srtp_Unsupported"
    using assms(4) that by (auto simp: srtp_agreed_def find_matching_srtp_profile_def find_equal_iff split: if_splits)
  have suite: "find_matching_cipher_suite [cs_id cs] (cfg_local_cipher_suites ccfg) = Some (cs_id cs)"
    "cipher_suite_for_id (cs_id cs) = Ok cs"
    using assms(1) by (simp_all add: suite_agreed_def find_matching_cipher_suite_def find_equal_iff)
  have ext: "apply_server_extensions ccfg (sh_extensions (flight4_server_hello scfg s)) c
      = (c\<lparr>st_srtp_protection_profile := ?p, st_extended_master_secret := ?b\<rparr>, Ok ())"
    using assms(3,5,6) match
    by (cases "?p = Srtp_Unsupported"; cases ?b)
      (auto simp: flight4_server_hello_def curve_extensions_def ems_agreed_def enables_ems_iff)
  have "cfg_extended_master_secret ccfg = EMS_Require \<longrightarrow> ?b" using assms(3) unfolding ems_agreed_def by blast
  moreover have "cfg_local_srtp_protection_profiles ccfg \<noteq> [] \<longrightarrow> ?p \<noteq> Srtp_Unsupported"
    using assms(4) by (auto simp: srtp_agreed_def)
  moreover have "sh_version (flight4_server_hello scfg s) = PROTOCOL_VERSION1_2" "sh_random (flight4_server_hello scfg s) = st_local_random s"
    "sh_cipher_suite (flight4_server_hello scfg s) = cs_id cs"
    using assms(2) by (simp_all add: flight4_server_hello_def)
  ultimately show ?thesis
    using suite by (auto simp: flight3_server_hello_def ext)
qed

text \<open>The client after it has read the server's flight.\<close>

definition client_ready :: "'k sign_libs \<Rightarrow> (named_curve \<Rightarrow> byte list \<times> 'k) \<Rightarrow> (named_curve \<Rightarrow> byte list \<times> 'k) \<Rightarrow> handshake_config
    \<Rightarrow> 'k dtls_state \<Rightarrow> dtls_certificate \<Rightarrow> 'k dtls_state \<Rightarrow> 'k dtls_state" where
  "client_ready A gs gc scfg s cert c = (let curve = st_named_curve s in
     c\<lparr>st_handshake_recv_sequence := st_handshake_recv_sequence c + (if asks scfg then 5 else 4),
       st_srtp_protection_profile := st_srtp_protection_profile s, st_extended_master_secret := st_extended_master_secret s,
       st_cipher_suite := st_cipher_suite s, st_remote_random := st_local_random s, st_peer_certificates := cert_certificate cert,
       st_pre_master_secret := sl_diffie_hellman A curve (snd (gs curve)) (fst (gc curve)),
       st_local_keypair := Some (elliptic_curve_keypair gc curve), st_remote_requested_certificate := asks scfg\<rparr>)"

lemma flight3_reads:
  assumes "hellos_only S" and "list_all sendable (flight4_messages scfg s cert ske)"
    and "same_view C (S @ items_from False 0 (word_of_int (st_handshake_recv_sequence c)) (flight4_messages scfg s cert ske))"
    and "ske = server_exchange s (elliptic_curve_keypair gs (st_named_curve s)) alg signature"
    and "cfg_local_psk_callback ccfg = None" and "cfg_initial_epoch ccfg = 0"
    and "key_agreement A gs gc" and "st_named_curve s \<noteq> NC_Unsupported"
    and "suite_agreed ccfg cs" and "st_cipher_suite s = Some cs" and "ems_agreed scfg ccfg (st_extended_master_secret s)"
    and "srtp_agreed ccfg (st_srtp_protection_profile s)"
    and "st_srtp_protection_profile c = Srtp_Unsupported" and "\<not> st_extended_master_secret c" and "\<not> st_remote_requested_certificate c"
  shows "flight3_server A gc ccfg C c = (client_ready A gs gc scfg s cert c, Ok Flight5)"
proof -
  let ?k = "st_handshake_recv_sequence c" and ?curve = "st_named_curve s"
  let ?xs = "[(rule HT_ServerHello 0 False False, Some (MsgServerHello (flight4_server_hello scfg s))),
      (rule HT_Certificate 0 False True, Some (MsgCertificate (cert_certificate cert))),
      (rule HT_ServerKeyExchange 0 False False, Some (MsgServerKeyExchange ske)),
      (rule HT_CertificateRequest 0 False True, if asks scfg then Some (MsgCertificateRequest (server_request scfg)) else None),
      (rule HT_ServerHelloDone 0 False False, Some MsgServerHelloDone)]"
  have rules: "flight3_rules ccfg = map fst ?xs" using assms(5,6) by (simp add: flight3_rules_def Let_def)
  obtain msgs where msgs: "full_pull_map C ?k (flight3_rules ccfg) = Ok (?k + int (length (filter (\<lambda>x. snd x \<noteq> None) ?xs)), msgs)"
    "\<And>r m. (r, m) \<in> set ?xs \<Longrightarrow> msgs (pr_typ r) = m"
    using pull_pulled [OF flight4_pulled [OF assms(1-3)]] unfolding rules by auto
  have m: "msgs HT_ServerHello = Some (MsgServerHello (flight4_server_hello scfg s))"
    "msgs HT_Certificate = Some (MsgCertificate (cert_certificate cert))"
    "msgs HT_ServerKeyExchange = Some (MsgServerKeyExchange ske)"
    "msgs HT_CertificateRequest = (if asks scfg then Some (MsgCertificateRequest (server_request scfg)) else None)"
    using msgs(2) [of "rule HT_ServerHello 0 False False"] msgs(2) [of "rule HT_Certificate 0 False True"]
      msgs(2) [of "rule HT_ServerKeyExchange 0 False False"] msgs(2) [of "rule HT_CertificateRequest 0 False True"] by simp_all
  have n: "?k + int (length (filter (\<lambda>x. snd x \<noteq> None) ?xs)) = ?k + (if asks scfg then 5 else 4)" by simp
  have kp: "generate_keypair gc ?curve = Ok (elliptic_curve_keypair gc ?curve)"
    using assms(8) by (cases ?curve) (simp_all add: generate_keypair_def)
  have ske: "ske_named_curve ske = ?curve" "ske_public_key ske = fst (gs ?curve)"
    using assms(4) by (simp_all add: server_exchange_def)
  note hello = server_hello_read [OF assms(9-12), of "c\<lparr>st_handshake_recv_sequence := ?k + (if asks scfg then 5 else 4)\<rparr>"]
  show ?thesis
    using msgs(1) unfolding n
    by (simp add: flight3_server_def Let_def m hello assms(5,10,13-15) take_certificates_def handle_server_key_exchange_def ske kp
        pre_master_secret_Ok(2) [OF assms(7,8)] client_ready_def del: filter.simps)
qed

section \<open>The client answers\<close>

text \<open>Packets with their messages numbered from \<open>n\<close> on, and the bytes of the messages.\<close>

fun numbered_packets :: "u16 \<Rightarrow> handshake_message list \<Rightarrow> packet list" where
  "numbered_packets n [] = []"
| "numbered_packets n (m # ms) =
     (let p = plain_packet m in p\<lparr>pk_record := (pk_record p)\<lparr>rl_content := Handshake (numbered_message n m)\<rparr>\<rparr>)
     # numbered_packets (n + 1) ms"

fun merged_bytes :: "u16 \<Rightarrow> handshake_message list \<Rightarrow> byte list" where
  "merged_bytes n [] = []"
| "merged_bytes n (m # ms) = message_bytes n m @ merged_bytes (n + 1) ms"

lemma merge_plain:
  "list_all sendable ms \<Longrightarrow> merge_packets n (map plain_packet ms)
    = Ok (numbered_packets n ms, merged_bytes n ms, n + word_of_nat (length ms))"
proof (induction ms arbitrary: n)
  case (Cons m ms)
  have m: "(hs_header (handshake_new m))\<lparr>hh_message_sequence := n\<rparr> = hs_header (numbered_message n m)"
    by (simp add: numbered_message_def)
  have h: "(handshake_new m)\<lparr>hs_header := hs_header (numbered_message n m)\<rparr> = numbered_message n m"
    by (simp add: numbered_message_def handshake_new_def)
  from Cons message_bytes_marshal [of m n] show ?case
    by (simp add: plain_packet_def record_layer_new_def Let_def m h add.assoc)
qed simp

lemma merged_bytes_append: "merged_bytes n (as @ bs) = merged_bytes n as @ merged_bytes (n + word_of_nat (length as)) bs"
  by (induction as arbitrary: n) (simp_all add: add.assoc)

lemma numbered_packets_append: "numbered_packets n (as @ bs) = numbered_packets n as @ numbered_packets (n + word_of_nat (length as)) bs"
  by (induction as arbitrary: n) (simp_all add: add.assoc)

lemma fresh_suite: "cipher_suite_for_id i = Ok cs \<Longrightarrow> \<not> suite_is_initialized (cs_cipher cs)"
  by (cases i) (auto simp: new_aes_128_ccm_def new_aes_128_gcm_sha256_def new_aes_256_cbc_sha_def new_psk_aes_128_gcm_sha256_def)

lemma suite_init_Ok:
  assumes "mac_contract L"
  obtains a where "suite_init L sc ms cr sr c = Ok a" "suite_is_initialized a"
proof (cases sc)
  case (Gcm_Suite x)
  from peers_gcm [OF assms, of x ms cr sr c] that Gcm_Suite show ?thesis by (metis option.distinct(1) suite_is_initialized.simps(1))
next
  case (Ccm_Suite t x)
  from peers_ccm [OF assms, of t x ms cr sr c] that Ccm_Suite show ?thesis by (metis option.distinct(1) suite_is_initialized.simps(2))
next
  case (Cbc_Suite x)
  from peers_cbc [OF assms, of x ms cr sr c] that Cbc_Suite show ?thesis by (metis option.distinct(1) suite_is_initialized.simps(3))
qed

lemma derive_Ok:
  assumes "mac_contract L"
  obtains ms where "derive_master_secret L b pms h cr sr = Ok ms"
  using prf_p_hash_Ok [of L] assms that
  unfolding derive_master_secret_def prf_extended_master_secret_def prf_master_secret_def mac_contract_def by (metis (full_types))

lemma verify_data_Ok:
  assumes "mac_contract L"
  obtains v where "prf_verify_data L ms bodies label = Ok v" "length v = 12"
  using prf_p_hash_Ok [of L] assms that unfolding prf_verify_data_def mac_contract_def by metis

text \<open>What the client's configuration makes of the certificates of the server.\<close>

definition accepts_server :: "'k sign_libs \<Rightarrow> handshake_config \<Rightarrow> byte list list \<Rightarrow> bool" where
  "accepts_server A cfg certs \<longleftrightarrow> (\<exists>cs. (if cfg_insecure_skip_verify cfg then cs = []
       else verify_server_cert A certs (cfg_server_cert_verifier cfg) (cfg_server_name cfg) = Ok cs)
     \<and> (\<forall>f. cfg_verify_peer_certificate cfg = Some f \<longrightarrow> f certs cs = Ok ()))"

lemma verify_server_accepts:
  assumes "accepts_server A cfg certs" and "scheme_listed cfg (ske_algorithm ske)"
    and "verify_signature A (value_key_message cr sr (ske_public_key ske) (ske_named_curve ske)) (ske_algorithm ske) (ske_signature ske)
      certs (cfg_insecure_verification cfg) = Ok ()"
  shows "verify_server A cfg cr sr ske certs = Ok ()"
  using assms by (auto simp: accepts_server_def verify_server_def verify_key_signature_def split: option.splits if_splits)

lemma client_initialized:
  assumes "mac_contract L" and "cfg_local_psk_callback cfg = None" and "st_cipher_suite c = Some cs" and "\<not> suite_is_initialized (cs_cipher cs)"
    and "verify_server A cfg (random_marshal (st_local_random c)) (random_marshal (st_remote_random c)) ske (st_peer_certificates c) = Ok ()"
  obtains ms a where
    "derive_master_secret L (st_extended_master_secret c) (st_pre_master_secret c)
      (session_hash (cl_sha256 L) (cfg_initial_epoch cfg) plain cache) (random_marshal (st_local_random c)) (random_marshal (st_remote_random c)) = Ok ms"
    "suite_init L (cs_cipher cs) ms (random_marshal (st_local_random c)) (random_marshal (st_remote_random c)) True = Ok a"
    "initialize_cipher_suite L A cfg cache ske plain c
      = (c\<lparr>st_master_secret := ms, st_cipher_suite := Some (cs\<lparr>cs_cipher := a\<rparr>)\<rparr>, Ok ())"
proof -
  obtain ms where ms: "derive_master_secret L (st_extended_master_secret c) (st_pre_master_secret c)
      (session_hash (cl_sha256 L) (cfg_initial_epoch cfg) plain cache) (random_marshal (st_local_random c)) (random_marshal (st_remote_random c)) = Ok ms"
    using derive_Ok [OF assms(1)] .
  obtain a where a: "suite_init L (cs_cipher cs) ms (random_marshal (st_local_random c)) (random_marshal (st_remote_random c)) True = Ok a"
    using suite_init_Ok [OF assms(1)] .
  show ?thesis
    by (rule that [OF ms a]) (simp add: initialize_cipher_suite_def Let_def assms(2-5) ms a)
qed

text \<open>The client's messages: its certificate if asked for, its key, and the proof that it holds the certificate's key.\<close>

definition chain_of :: "dtls_certificate option \<Rightarrow> byte list list" where
  "chain_of cert = (case cert of Some c \<Rightarrow> cert_certificate c | None \<Rightarrow> [])"

definition key_messages :: "bool \<Rightarrow> dtls_certificate option \<Rightarrow> byte list \<Rightarrow> handshake_message list" where
  "key_messages asked cert public_key = (if asked then [MsgCertificate (chain_of cert)] else [])
     @ [MsgClientKeyExchange \<lparr>cke_identity_hint = [], cke_public_key = public_key\<rparr>]"

definition proof_messages :: "bool \<Rightarrow> dtls_certificate option \<Rightarrow> certificate_verify \<Rightarrow> handshake_message list" where
  "proof_messages asked cert cv = (if asked \<and> cert \<noteq> None then [MsgCertificateVerify cv] else [])"

text \<open>The certificate a configuration uses, if it has one, and the scheme it announces for it.\<close>

definition uses_certificate :: "'k sign_libs \<Rightarrow> handshake_config \<Rightarrow> dtls_certificate option \<Rightarrow> signature_hash_algorithm \<Rightarrow> bool" where
  "uses_certificate A cfg cert alg \<longleftrightarrow> (if cfg_local_certificates cfg = [] then cert = None
     else \<exists>c. cert = Some c \<and> get_certificate A cfg (cfg_server_name cfg) = Ok c
       \<and> select_signature_scheme (cfg_local_signature_schemes cfg) (key_kind (cert_private_key c)) = Ok alg \<and> certified A c)"

lemma certificate_chosen: "uses_certificate A cfg cert alg \<Longrightarrow> flight5_certificate A cfg = Ok cert"
  by (auto simp: uses_certificate_def flight5_certificate_def)

lemma client_proves:
  assumes "uses_certificate A cfg cert alg"
  obtains signature where
    "flight5_certificate_verify A cfg cache cert merged n c
      = (if st_remote_requested_certificate c \<and> cert \<noteq> None then c\<lparr>st_local_certificates_verify := signature\<rparr> else c,
         let ms = proof_messages (st_remote_requested_certificate c) cert \<lparr>cv_algorithm = alg, cv_signature = signature\<rparr>
         in Ok (numbered_packets n ms, merged @ merged_bytes n ms))"
    "sendable (MsgCertificateVerify \<lparr>cv_algorithm = alg, cv_signature = signature\<rparr>)"
    "\<And>d. cert = Some d \<Longrightarrow> signs_with (key_kind (cert_private_key d)) alg'
      \<Longrightarrow> verify_signature A (pull_and_merge (session_hash_rules (cfg_initial_epoch cfg)) cache @ merged) alg' signature (cert_certificate d) insecure = Ok ()"
proof (cases cert)
  case None
  from that [of "[]"] assms None show ?thesis
    by (auto simp: uses_certificate_def flight5_certificate_verify_def proof_messages_def sendable_def certificate_verify_size_def split: if_splits)
next
  case (Some d)
  let ?plain = "pull_and_merge (session_hash_rules (cfg_initial_epoch cfg)) cache @ merged"
  from assms Some have u: "cfg_local_certificates cfg \<noteq> []" "certified A d"
    "select_signature_scheme (cfg_local_signature_schemes cfg) (key_kind (cert_private_key d)) = Ok alg"
    by (auto simp: uses_certificate_def split: if_splits)
  from u(2) obtain signature where sg: "sign_with A (cert_private_key d) ?plain = Ok signature" "length signature \<le> 512"
    "\<And>alg insecure. signs_with (key_kind (cert_private_key d)) alg
       \<Longrightarrow> verify_signature A ?plain alg signature (cert_certificate d) insecure = Ok ()"
    unfolding certified_def by blast
  have send: "sendable (MsgCertificateVerify \<lparr>cv_algorithm = alg, cv_signature = signature\<rparr>)"
    using sg(2) by (simp add: sendable_def certificate_verify_size_def)
  show ?thesis
  proof (rule that [OF _ send])
    show "flight5_certificate_verify A cfg cache cert merged n c
      = (if st_remote_requested_certificate c \<and> cert \<noteq> None then c\<lparr>st_local_certificates_verify := signature\<rparr> else c,
         let ms = proof_messages (st_remote_requested_certificate c) cert \<lparr>cv_algorithm = alg, cv_signature = signature\<rparr>
         in Ok (numbered_packets n ms, merged @ merged_bytes n ms))"
      using Some u sg(1) merge_plain [of "[MsgCertificateVerify \<lparr>cv_algorithm = alg, cv_signature = signature\<rparr>]" n] send
      by (auto simp: flight5_certificate_verify_def proof_messages_def Let_def generate_certificate_verify_def)
  qed (use Some sg(3) in auto)
qed

lemma key_exchange_sendable:
  "length pk \<in> {32..97} \<Longrightarrow> sendable (MsgClientKeyExchange \<lparr>cke_identity_hint = [], cke_public_key = pk\<rparr>)"
  by (auto simp: sendable_def client_key_exchange_size_def)

lemma key_messages_sendable:
  "sendable (MsgCertificate (chain_of cert)) \<Longrightarrow> length pk \<in> {32..97} \<Longrightarrow> list_all sendable (key_messages asked cert pk)"
  using key_exchange_sendable by (simp add: key_messages_def)

lemma client_key_packets:
  assumes "cfg_local_psk_callback cfg = None" and "st_local_keypair c = Some kp"
  shows "flight5_packets cfg cert c = map plain_packet (key_messages (st_remote_requested_certificate c) cert (kp_public_key kp))"
  using assms by (auto simp: flight5_packets_def flight5_key_exchange_def key_messages_def chain_of_def)

lemma exchange_reread:
  assumes "select_item (rule HT_ServerKeyExchange (cfg_initial_epoch cfg) False False) None C = Some (message_item False e n (MsgServerKeyExchange ske))"
    and "sendable (MsgServerKeyExchange ske)"
  shows "flight5_server_key_exchange A gen cfg C c = (c, Ok ske)"
proof -
  obtain rest where "handshake_unmarshal (message_bytes n (MsgServerKeyExchange ske)) = Ok (numbered_message n (MsgServerKeyExchange ske), rest)"
    using message_bytes_parse [OF assms(2)] .
  moreover have "message_bytes n (MsgServerKeyExchange ske) \<noteq> []" using message_bytes_length [OF assms(2), of n] by auto
  ultimately show ?thesis using assms(1) by (simp add: flight5_server_key_exchange_def pull_single)
qed

lemma client_verify_data:
  assumes "mac_contract L" and "st_local_verify_data c = []" and "st_cipher_suite c \<noteq> None"
  obtains v where "flight5_verify_data L cfg cache merged c = (c\<lparr>st_local_verify_data := v\<rparr>, Ok ())" "length v = 12"
proof -
  obtain v where "prf_verify_data_client L (st_master_secret c) (pull_and_merge (finished_rules (cfg_initial_epoch cfg)) cache @ merged) = Ok v"
    "length v = 12"
    unfolding prf_verify_data_client_def using verify_data_Ok [OF assms(1)] .
  with that [of v] assms(2,3) show ?thesis by (simp add: flight5_verify_data_def)
qed

text \<open>The fifth flight, its packets and the secrets it leaves the client with.\<close>

lemma client_answers:
  fixes c :: "'k dtls_state"
  assumes L: "mac_contract L" and psk: "cfg_local_psk_callback cfg = None" and cert: "uses_certificate A cfg cert alg"
    and kp: "st_local_keypair c = Some kp" "length (kp_public_key kp) \<in> {32..97}" and chain: "sendable (MsgCertificate (chain_of cert))"
    and ske: "select_item (rule HT_ServerKeyExchange (cfg_initial_epoch cfg) False False) None C = Some (message_item False e n (MsgServerKeyExchange ske))"
      "sendable (MsgServerKeyExchange ske)"
    and server: "verify_server A cfg (random_marshal (st_local_random c)) (random_marshal (st_remote_random c)) ske (st_peer_certificates c) = Ok ()"
    and suite: "st_cipher_suite c = Some cs" "\<not> suite_is_initialized (cs_cipher cs)" and fresh: "st_local_verify_data c = []"
  defines "j \<equiv> word_of_int (st_handshake_send_sequence c)"
    and "ms1 \<equiv> key_messages (st_remote_requested_certificate c) cert (kp_public_key kp)"
  obtains ms a signature v c' where
    "derive_master_secret L (st_extended_master_secret c) (st_pre_master_secret c)
      (session_hash (cl_sha256 L) (cfg_initial_epoch cfg) (merged_bytes j ms1) C)
      (random_marshal (st_local_random c)) (random_marshal (st_remote_random c)) = Ok ms"
    "suite_init L (cs_cipher cs) ms (random_marshal (st_local_random c)) (random_marshal (st_remote_random c)) True = Ok a"
    "flight5_generate L A gen cfg C c = (c', Ok (numbered_packets j
      (ms1 @ proof_messages (st_remote_requested_certificate c) cert \<lparr>cv_algorithm = alg, cv_signature = signature\<rparr>)
      @ [cipher_spec_packet, finished_packet v]))"
    "st_master_secret c' = ms" "st_cipher_suite c' = Some (cs\<lparr>cs_cipher := a\<rparr>)"
    "st_handshake_recv_sequence c' = st_handshake_recv_sequence c" "st_handshake_send_sequence c' = st_handshake_send_sequence c"
    "st_peer_certificates c' = st_peer_certificates c" "length v = 12"
    "sendable (MsgCertificateVerify \<lparr>cv_algorithm = alg, cv_signature = signature\<rparr>)"
    "\<And>d. cert = Some d \<Longrightarrow> signs_with (key_kind (cert_private_key d)) alg
      \<Longrightarrow> verify_signature A (pull_and_merge (session_hash_rules (cfg_initial_epoch cfg)) C @ merged_bytes j ms1) alg signature (cert_certificate d) insecure = Ok ()"
proof -
  let ?req = "st_remote_requested_certificate c"
  obtain ms a where i: "derive_master_secret L (st_extended_master_secret c) (st_pre_master_secret c)
      (session_hash (cl_sha256 L) (cfg_initial_epoch cfg) (merged_bytes j ms1) C)
      (random_marshal (st_local_random c)) (random_marshal (st_remote_random c)) = Ok ms"
    "suite_init L (cs_cipher cs) ms (random_marshal (st_local_random c)) (random_marshal (st_remote_random c)) True = Ok a"
    "initialize_cipher_suite L A cfg C ske (merged_bytes j ms1) c
      = (c\<lparr>st_master_secret := ms, st_cipher_suite := Some (cs\<lparr>cs_cipher := a\<rparr>)\<rparr>, Ok ())"
    using client_initialized [OF L psk suite server] .
  let ?c1 = "c\<lparr>st_master_secret := ms, st_cipher_suite := Some (cs\<lparr>cs_cipher := a\<rparr>)\<rparr>"
  obtain signature where p: "flight5_certificate_verify A cfg C cert (merged_bytes j ms1) (j + word_of_nat (length ms1)) ?c1
      = (if ?req \<and> cert \<noteq> None then ?c1\<lparr>st_local_certificates_verify := signature\<rparr> else ?c1,
         let ps = proof_messages ?req cert \<lparr>cv_algorithm = alg, cv_signature = signature\<rparr>
         in Ok (numbered_packets (j + word_of_nat (length ms1)) ps, merged_bytes j ms1 @ merged_bytes (j + word_of_nat (length ms1)) ps))"
    "sendable (MsgCertificateVerify \<lparr>cv_algorithm = alg, cv_signature = signature\<rparr>)"
    "\<And>d. cert = Some d \<Longrightarrow> signs_with (key_kind (cert_private_key d)) alg
      \<Longrightarrow> verify_signature A (pull_and_merge (session_hash_rules (cfg_initial_epoch cfg)) C @ merged_bytes j ms1) alg signature (cert_certificate d) insecure = Ok ()"
    using client_proves [OF cert, of C "merged_bytes j ms1" "j + word_of_nat (length ms1)" ?c1] by (auto simp: Let_def)
  define ps where "ps = proof_messages ?req cert \<lparr>cv_algorithm = alg, cv_signature = signature\<rparr>"
  let ?c2 = "if ?req \<and> cert \<noteq> None then ?c1\<lparr>st_local_certificates_verify := signature\<rparr> else ?c1"
  have c2: "st_local_verify_data ?c2 = []" "st_cipher_suite ?c2 \<noteq> None" using fresh by simp_all
  obtain v where v: "flight5_verify_data L cfg C (merged_bytes j (ms1 @ ps)) ?c2 = (?c2\<lparr>st_local_verify_data := v\<rparr>, Ok ())" "length v = 12"
    using client_verify_data [OF L c2] .
  have merge: "merge_packets j (map plain_packet ms1) = Ok (numbered_packets j ms1, merged_bytes j ms1, j + word_of_nat (length ms1))"
    unfolding ms1_def by (rule merge_plain [OF key_messages_sendable [OF chain kp(2)]])
  show ?thesis
  proof (rule that [OF i(1,2) _ _ _ _ _ _ v(2) p(2) p(3)])
    show "flight5_generate L A gen cfg C c = (?c2\<lparr>st_local_verify_data := v\<rparr>, Ok (numbered_packets j
        (ms1 @ proof_messages ?req cert \<lparr>cv_algorithm = alg, cv_signature = signature\<rparr>) @ [cipher_spec_packet, finished_packet v]))"
      using v(1) p(1) merge i(3)
      unfolding flight5_generate_def certificate_chosen [OF cert] and_then_simps client_key_packets [OF psk kp(1)] Let_def
        exchange_reread [OF ske] j_def [symmetric] ms1_def [symmetric] ps_def [symmetric]
      by (simp add: merged_bytes_append numbered_packets_append)
  qed simp_all
qed

section \<open>The server reads them\<close>

lemma select_items_other: "pr_is_client r \<noteq> is_client \<Longrightarrow> select_item r x (items_from is_client e n ms) = x"
  by (induction ms arbitrary: n) (auto simp: rule_matches_def)

lemma flight5_pulled:
  fixes S :: handshake_cache
  assumes "hellos_only S" and "list_all sendable (key_messages asked cert pk)" and "sendable (MsgCertificateVerify cv)"
  shows "pulled (S @ items_from False 0 k sms @ items_from True 0 (word_of_int j) (key_messages asked cert pk @ proof_messages asked cert cv)) j
    [(rule HT_Certificate 0 True True, if asked then Some (MsgCertificate (chain_of cert)) else None),
     (rule HT_ClientKeyExchange 0 True False, Some (MsgClientKeyExchange \<lparr>cke_identity_hint = [], cke_public_key = pk\<rparr>)),
     (rule HT_CertificateVerify 0 True True, if asked \<and> cert \<noteq> None then Some (MsgCertificateVerify cv) else None)]"
proof -
  have "pr_is_client (rule t e True opt) \<noteq> False" for t e opt by (simp add: rule_def)
  with assms show ?thesis
    by (auto simp: select_item_append hellos_select [OF assms(1)] select_items_other key_messages_def proof_messages_def)
qed

lemma transcript_extends:
  assumes "select_item (rule HT_Certificate 0 True False) None S = None" and "select_item (rule HT_ClientKeyExchange 0 True False) None S = None"
  shows "pull_and_merge (session_hash_rules 0) (S @ items_from True 0 j (key_messages asked cert pk @ proof_messages asked cert cv))
    = pull_and_merge (session_hash_rules 0) S @ merged_bytes j (key_messages asked cert pk)"
proof -
  have "select_item \<lparr>pr_typ = t, pr_epoch = 0, pr_is_client = c, pr_optional = False\<rparr> x (items_from True 0 j (key_messages asked cert pk @ proof_messages asked cert cv))
      = x" if "t \<in> {HT_ClientHello, HT_ServerHello, HT_ServerKeyExchange, HT_CertificateRequest, HT_ServerHelloDone} \<or> \<not> c" for t c x
    using that by (auto simp: key_messages_def proof_messages_def rule_matches_def)
  with assms show ?thesis
    by (cases asked) (auto simp: pull_and_merge_def cache_pull_def session_hash_rules_def select_item_append key_messages_def proof_messages_def
        rule_matches_def rule_def split: option.splits)
qed

text \<open>What the server's configuration makes of the certificates of the client.\<close>

definition accepts_client :: "handshake_config \<Rightarrow> dtls_certificate option \<Rightarrow> bool" where
  "accepts_client cfg cert \<longleftrightarrow> (case cert of
     None \<Rightarrow> cfg_client_auth cfg \<notin> {RequireAnyClientCert, RequireAndVerifyClientCert}
   | Some d \<Rightarrow> \<exists>cs. (if cfg_client_auth cfg \<in> {VerifyClientCertIfGiven, RequireAndVerifyClientCert}
         then \<exists>v. cfg_client_cert_verifier cfg = Some v \<and> verify_client_cert (cert_certificate d) v = Ok cs else cs = [])
       \<and> (\<forall>f. cfg_verify_peer_certificate cfg = Some f \<longrightarrow> f (cert_certificate d) cs = Ok ()))"

lemma check_accepts:
  assumes "accepts_client cfg (Some d)" and "cert_certificate d \<noteq> []" and "scheme_listed cfg (cv_algorithm cv)"
    and "verify_signature A (pull_and_merge (session_hash_rules (cfg_initial_epoch cfg)) cache) (cv_algorithm cv) (cv_signature cv)
      (cert_certificate d) (cfg_insecure_verification cfg) = Ok ()"
  shows "flight4_check A cfg cache (cert_certificate d) cv = Ok (cfg_client_auth cfg \<in> {VerifyClientCertIfGiven, RequireAndVerifyClientCert})"
  using assms unfolding flight4_check_def client_auth_rank
  by (auto simp: accepts_client_def verify_certificate_verify_def split: option.splits if_splits)

lemma server_keys:
  assumes "mac_contract L" and "cfg_local_psk_callback cfg = None" and "st_cipher_suite s = Some cs" and "\<not> suite_is_initialized (cs_cipher cs)"
    and "st_local_keypair s = Some kp" and "prf_pre_master_secret A pk (kp_private_key kp) (kp_curve kp) = Ok pms"
    and "derive_master_secret L (st_extended_master_secret s) pms (session_hash (cl_sha256 L) (cfg_initial_epoch cfg) [] cache)
      (random_marshal (st_remote_random s)) (random_marshal (st_local_random s)) = Ok ms"
  obtains b where "suite_init L (cs_cipher cs) ms (random_marshal (st_remote_random s)) (random_marshal (st_local_random s)) False = Ok b"
    "flight4_keys L A cfg cache \<lparr>cke_identity_hint = [], cke_public_key = pk\<rparr> s
      = (s\<lparr>st_master_secret := ms, st_cipher_suite := Some (cs\<lparr>cs_cipher := b\<rparr>)\<rparr>, Ok ())"
proof -
  obtain b where b: "suite_init L (cs_cipher cs) ms (random_marshal (st_remote_random s)) (random_marshal (st_local_random s)) False = Ok b"
    using suite_init_Ok [OF assms(1)] .
  show ?thesis
    by (rule that [OF b]) (simp add: flight4_keys_def flight4_pre_master_secret_def Let_def assms(2-7) b)
qed

text \<open>The server's transcript with its own flight and the client's answer in it.\<close>

definition answered :: "handshake_cache \<Rightarrow> u16 \<Rightarrow> handshake_message list \<Rightarrow> u16 \<Rightarrow> handshake_message list \<Rightarrow> handshake_cache" where
  "answered S k sms j cms = S @ items_from False 0 k sms @ items_from True 0 j cms"

lemma no_finished_yet:
  assumes "hellos_only S"
  shows "select_item (rule HT_Finished 1 True opt) None (answered S k sms j (key_messages asked cert pk @ proof_messages asked cert cv)) = None"
proof -
  have "pr_is_client (rule t e True opt) \<noteq> False" for t e by (simp add: rule_def)
  then show ?thesis
    by (simp add: answered_def select_item_append hellos_select [OF assms] select_items_other key_messages_def proof_messages_def)
qed

lemma finished_read:
  assumes "hellos_only S" and "sendable (MsgFinished v)" and "cfg_initial_epoch cfg = 0"
    and "flight4_auth cfg (s\<lparr>st_handshake_recv_sequence := sq + 1\<rparr>) = Ok Flight6"
  shows "flight4_finished cfg (answered S k sms j (key_messages asked cert pk @ proof_messages asked cert cv)
      @ [message_item True 1 (word_of_int sq) (MsgFinished v)]) sq s = (s\<lparr>st_handshake_recv_sequence := sq + 1\<rparr>, Ok Flight6)"
  using assms(3,4) by (simp add: flight4_finished_def pull_last [OF assms(2)] no_finished_yet [OF assms(1)])

text \<open>The client's certificate, as the server takes it over and checks it.\<close>

definition vouched :: "'k sign_libs \<Rightarrow> handshake_config \<Rightarrow> handshake_cache \<Rightarrow> dtls_certificate option \<Rightarrow> certificate_verify \<Rightarrow> bool" where
  "vouched A cfg cache cert cv \<longleftrightarrow> accepts_client cfg cert \<and> (\<forall>d. cert = Some d \<longrightarrow> cert_certificate d \<noteq> [] \<and> scheme_listed cfg (cv_algorithm cv)
     \<and> verify_signature A (pull_and_merge (session_hash_rules (cfg_initial_epoch cfg)) cache) (cv_algorithm cv) (cv_signature cv)
         (cert_certificate d) (cfg_insecure_verification cfg) = Ok ())"

lemma certificate_taken:
  assumes "vouched A cfg cache cert cv" and "st_peer_certificates s = []" and "asked \<longleftrightarrow> asks cfg"
    and "msgs HT_Certificate = (if asked then Some (MsgCertificate (chain_of cert)) else None)"
    and "msgs HT_CertificateVerify = (if asked \<and> cert \<noteq> None then Some (MsgCertificateVerify cv) else None)"
  obtains s' where "and_then (take_certificates msgs s) (\<lambda>s _. flight4_certificate_verify A cfg cache msgs s) = (s', Ok ())"
    "\<exists>b. s' = s\<lparr>st_peer_certificates := (if asked then chain_of cert else []), st_peer_certificates_verified := b\<rparr>"
    "\<And>sq ms su. flight4_auth cfg (s'\<lparr>st_master_secret := ms, st_cipher_suite := su, st_handshake_recv_sequence := sq\<rparr>) = Ok Flight6"
proof (cases "asked \<and> cert \<noteq> None")
  case True
  then obtain d where d: "cert = Some d" by blast
  have chk: "flight4_check A cfg cache (cert_certificate d) cv = Ok (cfg_client_auth cfg \<in> {VerifyClientCertIfGiven, RequireAndVerifyClientCert})"
    using assms(1) d by (intro check_accepts) (auto simp: vouched_def)
  let ?s = "s\<lparr>st_peer_certificates := cert_certificate d, st_peer_certificates_verified :=
    (cfg_client_auth cfg \<in> {VerifyClientCertIfGiven, RequireAndVerifyClientCert})\<rparr>"
  have "and_then (take_certificates msgs s) (\<lambda>s _. flight4_certificate_verify A cfg cache msgs s) = (?s, Ok ())"
    using True d assms(4,5) chk by (simp add: take_certificates_def flight4_certificate_verify_def chain_of_def)
  moreover have "flight4_auth cfg (?s\<lparr>st_master_secret := ms, st_cipher_suite := su, st_handshake_recv_sequence := sq\<rparr>) = Ok Flight6" for sq ms su
    using assms(1) d by (auto simp: flight4_auth_def vouched_def split: client_auth_type.splits)
  moreover have "\<exists>b. ?s = s\<lparr>st_peer_certificates := (if asked then chain_of cert else []), st_peer_certificates_verified := b\<rparr>"
    using True d by (auto simp: chain_of_def)
  ultimately show ?thesis using that by blast
next
  case False
  let ?s = "if asked then s\<lparr>st_peer_certificates := []\<rparr> else s"
  have "and_then (take_certificates msgs s) (\<lambda>s _. flight4_certificate_verify A cfg cache msgs s) = (?s, Ok ())"
    using False assms(2,4,5) by (auto simp: take_certificates_def flight4_certificate_verify_def chain_of_def)
  moreover have "flight4_auth cfg (?s\<lparr>st_master_secret := ms, st_cipher_suite := su, st_handshake_recv_sequence := sq\<rparr>) = Ok Flight6" for sq ms su
    using assms(1,2,3) False
    by (cases "cfg_client_auth cfg") (auto simp: flight4_auth_def vouched_def accepts_client_def split: if_splits)
  moreover have "\<exists>b. ?s = s\<lparr>st_peer_certificates := (if asked then chain_of cert else []), st_peer_certificates_verified := b\<rparr>"
    using False assms(2) by (auto simp: chain_of_def intro!: exI [of _ "st_peer_certificates_verified s"])
  ultimately show ?thesis using that by blast
qed

lemma server_completes:
  fixes s :: "'k dtls_state" and k :: u16 and sms :: "handshake_message list"
  assumes L: "mac_contract L" and cfg: "cfg_local_psk_callback cfg = None" "cfg_initial_epoch cfg = 0" and S: "hellos_only S"
    and send: "list_all sendable (key_messages (asks cfg) cert pk)" "sendable (MsgCertificateVerify cv)" "sendable (MsgFinished v)"
    and suite: "st_cipher_suite s = Some cs" "\<not> suite_is_initialized (cs_cipher cs)"
    and kp: "st_local_keypair s = Some kp" "prf_pre_master_secret A pk (kp_private_key kp) (kp_curve kp) = Ok pms"
    and peer: "st_peer_certificates s = []"
  defines "j \<equiv> st_handshake_recv_sequence s" and "cms \<equiv> key_messages (asks cfg) cert pk @ proof_messages (asks cfg) cert cv"
  defines "S2 \<equiv> answered S k sms (word_of_int j) cms"
  assumes ms: "derive_master_secret L (st_extended_master_secret s) pms (session_hash (cl_sha256 L) 0 [] S2)
      (random_marshal (st_remote_random s)) (random_marshal (st_local_random s)) = Ok ms"
    and vouched: "vouched A cfg S2 cert cv"
  obtains s' b where
    "suite_init L (cs_cipher cs) ms (random_marshal (st_remote_random s)) (random_marshal (st_local_random s)) False = Ok b"
    "flight4_parse L A cfg (\<lambda>_ c. Ok (c @ [message_item True 1 (word_of_int (j + int (length cms))) (MsgFinished v)])) S2 s = (s', Ok Flight6)"
    "st_master_secret s' = ms" "st_cipher_suite s' = Some (cs\<lparr>cs_cipher := b\<rparr>)" "st_local_verify_data s' = st_local_verify_data s"
    "st_peer_certificates s' = (if asks cfg then chain_of cert else [])" "st_handshake_send_sequence s' = st_handshake_send_sequence s"
proof -
  let ?xs = "[(rule HT_Certificate 0 True True, if asks cfg then Some (MsgCertificate (chain_of cert)) else None),
     (rule HT_ClientKeyExchange 0 True False, Some (MsgClientKeyExchange \<lparr>cke_identity_hint = [], cke_public_key = pk\<rparr>)),
     (rule HT_CertificateVerify 0 True True, if asks cfg \<and> cert \<noteq> None then Some (MsgCertificateVerify cv) else None)]"
  have p: "pulled S2 j ?xs" unfolding S2_def answered_def cms_def by (rule flight5_pulled [OF S send(1,2)])
  obtain msgs where "full_pull_map S2 j (map fst ?xs) = Ok (j + int (length (filter (\<lambda>x. snd x \<noteq> None) ?xs)), msgs)"
    and m: "\<And>r m. (r, m) \<in> set ?xs \<Longrightarrow> msgs (pr_typ r) = m"
    using pull_pulled [OF p] by auto
  moreover have "int (length (filter (\<lambda>x. snd x \<noteq> None) ?xs)) = int (length cms)"
    by (auto simp: cms_def key_messages_def proof_messages_def)
  ultimately have pull: "full_pull_map S2 j (flight4_rules 0) = Ok (j + int (length cms), msgs)"
    by (simp add: flight4_rules_def)
  have msgs: "msgs HT_Certificate = (if asks cfg then Some (MsgCertificate (chain_of cert)) else None)"
    "msgs HT_ClientKeyExchange = Some (MsgClientKeyExchange \<lparr>cke_identity_hint = [], cke_public_key = pk\<rparr>)"
    "msgs HT_CertificateVerify = (if asks cfg \<and> cert \<noteq> None then Some (MsgCertificateVerify cv) else None)"
    using m [of "rule HT_Certificate 0 True True"] m [of "rule HT_ClientKeyExchange 0 True False"] m [of "rule HT_CertificateVerify 0 True True"]
    by simp_all
  obtain s1 verified where s1: "and_then (take_certificates msgs s) (\<lambda>s _. flight4_certificate_verify A cfg S2 msgs s) = (s1, Ok ())"
    "s1 = s\<lparr>st_peer_certificates := (if asks cfg then chain_of cert else []), st_peer_certificates_verified := verified\<rparr>"
    "\<And>sq ms su. flight4_auth cfg (s1\<lparr>st_master_secret := ms, st_cipher_suite := su, st_handshake_recv_sequence := sq\<rparr>) = Ok Flight6"
    using certificate_taken [OF vouched peer refl msgs(1,3)] by metis
  have k: "st_cipher_suite s1 = Some cs" "st_local_keypair s1 = Some kp" "derive_master_secret L (st_extended_master_secret s1) pms
      (session_hash (cl_sha256 L) (cfg_initial_epoch cfg) [] S2) (random_marshal (st_remote_random s1)) (random_marshal (st_local_random s1)) = Ok ms"
    using suite(1) kp(1) ms cfg(2) by (simp_all add: s1(2))
  obtain b where b: "suite_init L (cs_cipher cs) ms (random_marshal (st_remote_random s1)) (random_marshal (st_local_random s1)) False = Ok b"
    "flight4_keys L A cfg S2 \<lparr>cke_identity_hint = [], cke_public_key = pk\<rparr> s1
      = (s1\<lparr>st_master_secret := ms, st_cipher_suite := Some (cs\<lparr>cs_cipher := b\<rparr>)\<rparr>, Ok ())"
    using server_keys [OF L cfg(1) k(1) suite(2) k(2) kp(2) k(3)] .
  let ?s2 = "s1\<lparr>st_master_secret := ms, st_cipher_suite := Some (cs\<lparr>cs_cipher := b\<rparr>)\<rparr>" and ?sq = "j + int (length cms)"
  have fin: "flight4_finished cfg (S2 @ [message_item True 1 (word_of_int ?sq) (MsgFinished v)]) ?sq ?s2
      = (?s2\<lparr>st_handshake_recv_sequence := ?sq + 1\<rparr>, Ok Flight6)"
    unfolding S2_def cms_def by (rule finished_read [OF S send(3) cfg(2)]) (rule s1(3))
  obtain s0 where s0: "take_certificates msgs s = (s0, Ok ())" "flight4_certificate_verify A cfg S2 msgs s0 = (s1, Ok ())"
    using s1(1) by (auto simp: and_then_Ok)
  have "flight4_parse L A cfg (\<lambda>_ c. Ok (c @ [message_item True 1 (word_of_int ?sq) (MsgFinished v)])) S2 s
      = (?s2\<lparr>st_handshake_recv_sequence := ?sq + 1\<rparr>, Ok Flight6)"
    using pull msgs(2) s0 b(2) fin cfg(2) by (simp add: flight4_parse_def j_def)
  with that [of b] b(1) show ?thesis by (simp add: s1(2))
qed

section \<open>The last flight\<close>

lemma server_finishes:
  assumes "mac_contract L" and "st_local_verify_data s = []" and "st_cipher_suite s \<noteq> None" and "cfg_initial_epoch cfg = 0"
  obtains w where "flight6_generate L cfg cache s = (s\<lparr>st_local_verify_data := w\<rparr>, Ok [cipher_spec_packet, finished_packet w])"
    "prf_verify_data_server L (st_master_secret s) (pull_and_merge (finished_rules 0) cache) = Ok w" "length w = 12"
proof -
  obtain w where w: "prf_verify_data_server L (st_master_secret s) (pull_and_merge (finished_rules 0) cache) = Ok w" "length w = 12"
    unfolding prf_verify_data_server_def using verify_data_Ok [OF assms(1)] .
  show ?thesis by (rule that [OF _ w]) (simp add: flight6_generate_def assms(2-4) w(1))
qed

lemma client_accepts:
  assumes "same_view C S" and "prf_verify_data_server L (st_master_secret c) (pull_and_merge (finished_rules 0) S) = Ok w"
    and "sendable (MsgFinished w)" and "cfg_initial_epoch cfg = 0" and "st_cipher_suite c \<noteq> None"
    and "select_item (rule HT_Finished 1 False False) None C = None" and "n = word_of_int (st_handshake_recv_sequence c)"
  shows "flight5_parse L cfg (C @ [message_item False 1 n (MsgFinished w)]) c = (c, Ok Flight5)"
proof -
  let ?i = "message_item False 1 n (MsgFinished w)"
  have "pull_and_merge (finished_rules 0) (C @ [?i]) = pull_and_merge (finished_rules 0) C"
    by (simp add: pull_and_merge_def cache_pull_def finished_rules_def session_hash_rules_def select_item_append rule_matches_def rule_def)
  then have data: "pull_and_merge (finished_rules 0) (C @ [?i]) = pull_and_merge (finished_rules 0) S"
    using same_view_merge [OF assms(1)] by simp
  let ?xs = "[(rule HT_Finished 1 False False, Some (MsgFinished w))]"
  have p: "pulled (C @ [?i]) (st_handshake_recv_sequence c) ?xs"
    using assms(3,6,7) by (auto simp: select_item_append)
  obtain msgs where m: "full_pull_map (C @ [?i]) (st_handshake_recv_sequence c) (map fst ?xs)
      = Ok (st_handshake_recv_sequence c + int (length (filter (\<lambda>x. snd x \<noteq> None) ?xs)), msgs)"
    "\<And>r m. (r, m) \<in> set ?xs \<Longrightarrow> msgs (pr_typ r) = m"
    using pull_pulled [OF p] by auto
  from m(2) [of "rule HT_Finished 1 False False"] have "msgs HT_Finished = Some (MsgFinished w)" by simp
  with m(1) data assms(2,4,5) show ?thesis by (simp add: flight5_parse_def)
qed

end
