(* ===== verification/Dtls_Handshaker.thy ===== *)
theory Dtls_Handshaker
  imports Dtls_Channel
begin

text \<open>
  The handshake state machine (\<^verbatim>\<open>handshaker.rs\<close>): preparing, sending and waiting for a flight, with the
  retransmission timer. The operations work for any flights; the server's flights 0 and 2, which exchange
  the cookie, are put in (the later ones in \<^verbatim>\<open>Dtls_Handshake\<close>). The theory shows that a server that has not seen its cookie come back never
  sends more than one packet for each hello it was woken by, that retransmitting a flight leaves the
  transcript as it is, and that the state for retransmitting the last flight is never entered.
\<close>

section \<open>Flights\<close>

datatype handshake_state = HS_Errored | HS_Preparing | HS_Sending | HS_Waiting | HS_Finished

fun is_last_send_flight :: "flight \<Rightarrow> bool" where
  "is_last_send_flight Flight6 = True"
| "is_last_send_flight _ = False"

fun is_last_recv_flight :: "flight \<Rightarrow> bool" where
  "is_last_recv_flight Flight5 = True"
| "is_last_recv_flight _ = False"

fun has_retransmit :: "flight \<Rightarrow> bool" where
  "has_retransmit Flight2 = False"
| "has_retransmit _ = True"

text \<open>What a flight does: it parses what has come in and generates the packets of its own.\<close>

record 'k flight_ops =
  fo_parse :: "flight \<Rightarrow> handshake_cache \<Rightarrow> 'k dtls_state \<Rightarrow> 'k dtls_state \<times> (flight, flight_error) outcome"
  fo_generate :: "flight \<Rightarrow> handshake_cache \<Rightarrow> 'k dtls_state \<Rightarrow> 'k dtls_state \<times> (packet list, flight_error) outcome"

section \<open>The state machine\<close>

record 'k handshaker =
  hk_conn :: connection
  hk_state :: "'k dtls_state"
  hk_flight :: flight
  hk_flights :: "packet list option"
  hk_retransmit :: bool

text \<open>The connection with the epoch of the handshake state, which is where the code keeps it.\<close>

definition hk_connection :: "'k handshaker \<Rightarrow> connection" where
  "hk_connection h = (hk_conn h)\<lparr>cn_local_epoch := st_local_epoch (hk_state h)\<rparr>"

abbreviation hk_cache :: "'k handshaker \<Rightarrow> handshake_cache" where
  "hk_cache h \<equiv> ss_cache (cn_send (hk_conn h))"

text \<open>
  Every operation returns the machine, the packets it handed to \<open>write_packets\<close> and its result. An error
  of a flight is reported: its alert is sent, and when that fails and there is an error, the error becomes
  that of the sending.
\<close>

definition alert_packet :: "'k handshaker \<Rightarrow> alert \<Rightarrow> packet" where
  "alert_packet h a = \<lparr>pk_record = record_layer_new PROTOCOL_VERSION1_2 (st_local_epoch (hk_state h)) (Alert a),
     pk_should_encrypt = cn_completed (hk_conn h), pk_reset_local_sequence_number = False\<rparr>"

definition report :: "(byte list \<Rightarrow> (unit, dtls_error) outcome) \<Rightarrow> sealer \<Rightarrow> flight_error \<Rightarrow> 'k handshaker
    \<Rightarrow> 'k handshaker \<times> packet list \<times> dtls_error option" where
  "report T enc e h = (case e of
     (None, err) \<Rightarrow> (h, [], err)
   | (Some a, err) \<Rightarrow>
       (case notify T enc a (hk_connection h) of
          (cn, _, r) \<Rightarrow> (h\<lparr>hk_conn := cn\<rparr>, [alert_packet h a],
            (case r of Err alert_err \<Rightarrow> if err \<noteq> None then Some alert_err else None | _ \<Rightarrow> err))))"

text \<open>Numbering the packets of a flight: epochs are relative to the first, messages are counted.\<close>

fun number_packets :: "u16 \<Rightarrow> packet list \<Rightarrow> int \<Rightarrow> u16 \<Rightarrow> packet list \<times> int \<times> u16" where
  "number_packets epoch [] sq next_epoch = ([], sq, next_epoch)"
| "number_packets epoch (p # ps) sq next_epoch =
     (let r = pk_record p; e = rl_epoch (record_layer_header r) + epoch;
          r = r\<lparr>record_layer_header := (record_layer_header r)\<lparr>rl_epoch := e\<rparr>\<rparr>;
          next_epoch = (if next_epoch < e then e else next_epoch) in
      case (case rl_content r of
          Handshake h \<Rightarrow> (r\<lparr>rl_content := Handshake (h\<lparr>hs_header := (hs_header h)\<lparr>hh_message_sequence := word_of_int sq\<rparr>\<rparr>)\<rparr>, sq + 1)
        | _ \<Rightarrow> (r, sq)) of
        (r, sq) \<Rightarrow> (case number_packets epoch ps sq next_epoch of
          (ps, sq, next_epoch) \<Rightarrow> (p\<lparr>pk_record := r\<rparr> # ps, sq, next_epoch)))"

definition number_flight :: "u16 \<Rightarrow> 'k handshaker \<Rightarrow> 'k handshaker" where
  "number_flight epoch h = (case hk_flights h of
     None \<Rightarrow> h
   | Some pkts \<Rightarrow>
       (case number_packets epoch pkts (st_handshake_send_sequence (hk_state h)) epoch of
          (pkts, sq, next_epoch) \<Rightarrow>
            let st = (hk_state h)\<lparr>st_handshake_send_sequence := sq\<rparr>
            in h\<lparr>hk_flights := Some pkts,
                 hk_state := (if epoch \<noteq> next_epoch then st\<lparr>st_local_epoch := next_epoch\<rparr> else st)\<rparr>))"

definition prepare :: "'k flight_ops \<Rightarrow> handshake_config \<Rightarrow> (byte list \<Rightarrow> (unit, dtls_error) outcome) \<Rightarrow> sealer \<Rightarrow> 'k handshaker
    \<Rightarrow> 'k handshaker \<times> packet list \<times> (handshake_state, dtls_error) outcome" where
  "prepare F cfg T enc h =
     (case fo_generate F (hk_flight h) (hk_cache h) (hk_state h) of
        (st, r) \<Rightarrow>
          let h = h\<lparr>hk_flights := None, hk_retransmit := has_retransmit (hk_flight h), hk_state := st\<rparr> in
          (case r of
             Panic \<Rightarrow> (h, [], Panic)
           | Err e \<Rightarrow>
               (case report T enc e h of
                  (h, ps, Some err) \<Rightarrow> (h, ps, Err err)
                | (h, ps, None) \<Rightarrow> (number_flight (cfg_initial_epoch cfg) h, ps, Ok HS_Sending))
           | Ok pkts \<Rightarrow> (number_flight (cfg_initial_epoch cfg) (h\<lparr>hk_flights := Some pkts\<rparr>), [], Ok HS_Sending)))"

definition send_flight :: "(byte list \<Rightarrow> (unit, dtls_error) outcome) \<Rightarrow> sealer \<Rightarrow> 'k handshaker
    \<Rightarrow> 'k handshaker \<times> packet list \<times> (handshake_state, dtls_error) outcome" where
  "send_flight T enc h =
     (let next = (if is_last_send_flight (hk_flight h) then HS_Finished else HS_Waiting) in
      case hk_flights h of
        None \<Rightarrow> (h, [], Ok next)
      | Some pkts \<Rightarrow>
          (case write_packets T enc pkts (hk_connection h) of
             (cn, _, r) \<Rightarrow> (h\<lparr>hk_conn := cn\<rparr>, pkts, omap (\<lambda>_. next) r)))"

text \<open>
  What can happen while the machine waits: the reader has put new messages in the transcript and wakes it,
  the timer fires, or the reader has ended. A flight that has nothing to say keeps it waiting (\<open>None\<close>).
\<close>

datatype hs_event = Woken handshake_cache | Timer | Reader_Gone

definition with_cache :: "handshake_cache \<Rightarrow> 'k handshaker \<Rightarrow> 'k handshaker" where
  "with_cache cache h = h\<lparr>hk_conn := (hk_conn h)\<lparr>cn_send := (cn_send (hk_conn h))\<lparr>ss_cache := cache\<rparr>\<rparr>\<rparr>"

definition wait_event :: "'k flight_ops \<Rightarrow> (byte list \<Rightarrow> (unit, dtls_error) outcome) \<Rightarrow> sealer \<Rightarrow> hs_event \<Rightarrow> 'k handshaker
    \<Rightarrow> 'k handshaker \<times> packet list \<times> (handshake_state option, dtls_error) outcome" where
  "wait_event F T enc ev h = (case ev of
     Reader_Gone \<Rightarrow> (h, [], Err ErrAlertFatalOrClose)
   | Timer \<Rightarrow> (h, [], Ok (Some (if \<not> hk_retransmit h then HS_Waiting else HS_Sending)))
   | Woken cache \<Rightarrow>
       let h = with_cache cache h in
       (case fo_parse F (hk_flight h) cache (hk_state h) of
          (st, r) \<Rightarrow>
            let h = h\<lparr>hk_state := st\<rparr> in
            (case r of
               Panic \<Rightarrow> (h, [], Panic)
             | Err e \<Rightarrow>
                 (case report T enc e h of
                    (h, ps, Some err) \<Rightarrow> (h, ps, Err err)
                  | (h, ps, None) \<Rightarrow> (h, ps, Ok None))
             | Ok next_flight \<Rightarrow>
                 if is_last_recv_flight next_flight \<and> hk_flight h = next_flight
                 then (h, [], Ok (Some HS_Finished))
                 else (h\<lparr>hk_flight := next_flight\<rparr>, [], Ok (Some HS_Preparing)))))"

text \<open>The state for the last flight after the handshake: it is sent again when the peer repeats
  its own. The timer alone does nothing.\<close>

definition finish_event :: "'k flight_ops \<Rightarrow> (byte list \<Rightarrow> (unit, dtls_error) outcome) \<Rightarrow> sealer \<Rightarrow> hs_event \<Rightarrow> 'k handshaker
    \<Rightarrow> 'k handshaker \<times> packet list \<times> (handshake_state, dtls_error) outcome" where
  "finish_event F T enc ev h = (case ev of
     Reader_Gone \<Rightarrow> (h, [], Err ErrAlertFatalOrClose)
   | Timer \<Rightarrow> (h, [], Ok HS_Finished)
   | Woken cache \<Rightarrow>
       let h = with_cache cache h in
       (case fo_parse F (hk_flight h) cache (hk_state h) of
          (st, r) \<Rightarrow>
            let h = h\<lparr>hk_state := st\<rparr> in
            (case r of
               Panic \<Rightarrow> (h, [], Panic)
             | Err e \<Rightarrow>
                 (case report T enc e h of
                    (h, ps, Some err) \<Rightarrow> (h, ps, Err err)
                  | (h, ps, None) \<Rightarrow> (h, ps, Ok HS_Finished))
             | Ok _ \<Rightarrow> (h, [], Ok HS_Sending))))"

text \<open>
  One turn of the loop; \<open>HS_Errored\<close> stands for a handshake that has returned an error. A loop that has
  returned has no turn (\<open>None\<close>): after an error, and when the last flight is done for the first time.
\<close>

definition after :: "(handshake_state, dtls_error) outcome \<Rightarrow> handshake_state" where
  "after r = (case r of Ok s \<Rightarrow> s | _ \<Rightarrow> HS_Errored)"

definition handshake_turn :: "'k flight_ops \<Rightarrow> handshake_config \<Rightarrow> (byte list \<Rightarrow> (unit, dtls_error) outcome) \<Rightarrow> sealer \<Rightarrow> hs_event
    \<Rightarrow> handshake_state \<Rightarrow> 'k handshaker \<Rightarrow> ('k handshaker \<times> packet list \<times> handshake_state) option" where
  "handshake_turn F cfg T enc ev s h = (case s of
     HS_Errored \<Rightarrow> None
   | HS_Preparing \<Rightarrow> Some (case prepare F cfg T enc h of (h, ps, r) \<Rightarrow> (h, ps, after r))
   | HS_Sending \<Rightarrow> Some (case send_flight T enc h of (h, ps, r) \<Rightarrow> (h, ps, after r))
   | HS_Waiting \<Rightarrow> Some (case wait_event F T enc ev h of (h, ps, r) \<Rightarrow>
       (h, ps, after (omap (\<lambda>s. case s of None \<Rightarrow> HS_Waiting | Some s \<Rightarrow> s) r)))
   | HS_Finished \<Rightarrow> if \<not> cn_completed (hk_conn h) then None
       else Some (case finish_event F T enc ev h of (h, ps, r) \<Rightarrow> (h, ps, after r)))"

text \<open>The runs of a handshake from a start, with the events it has seen and the packets it has sent.\<close>

inductive handshake_run :: "'k flight_ops \<Rightarrow> handshake_config \<Rightarrow> (byte list \<Rightarrow> (unit, dtls_error) outcome)
    \<Rightarrow> handshake_state \<Rightarrow> 'k handshaker \<Rightarrow> handshake_state \<Rightarrow> 'k handshaker \<Rightarrow> hs_event list \<Rightarrow> packet list \<Rightarrow> bool"
  for F cfg T s0 h0 where
  start: "handshake_run F cfg T s0 h0 s0 h0 [] []"
| turn: "handshake_run F cfg T s0 h0 s h evs ps \<Longrightarrow> handshake_turn F cfg T enc ev s h = Some (h', ps', s')
    \<Longrightarrow> handshake_run F cfg T s0 h0 s' h' (if s = HS_Waiting \<or> s = HS_Finished then evs @ [ev] else evs) (ps @ ps')"

section \<open>The last flight is sent once\<close>

lemma notify_frame: "notify T enc a cn = (cn', gone, r) \<Longrightarrow> \<exists>st. cn' = cn\<lparr>cn_send := st\<rparr>"
  using write_packets_frame by (fastforce simp: notify_def)

lemma report_frame:
  assumes "report T enc e h = (h', ps, err)"
  shows "hk_flight h' = hk_flight h" "hk_flights h' = hk_flights h" "hk_retransmit h' = hk_retransmit h"
    "hk_state h' = hk_state h" "cn_completed (hk_conn h') = cn_completed (hk_conn h)" "length ps \<le> 1"
    "\<forall>p \<in> set ps. \<exists>a. p = alert_packet h a"
proof -
  obtain a er where e: "e = (a, er)" by fastforce
  show "hk_flight h' = hk_flight h" "hk_flights h' = hk_flights h" "hk_retransmit h' = hk_retransmit h"
    "hk_state h' = hk_state h" "cn_completed (hk_conn h') = cn_completed (hk_conn h)" "length ps \<le> 1"
    "\<forall>p \<in> set ps. \<exists>a. p = alert_packet h a"
    using assms e by (auto simp: report_def hk_connection_def dest: notify_frame split: option.splits prod.splits)
qed

lemma number_flight_frame [simp]:
  "hk_flight (number_flight e h) = hk_flight h" "hk_retransmit (number_flight e h) = hk_retransmit h"
  "hk_conn (number_flight e h) = hk_conn h" "st_cookie (hk_state (number_flight e h)) = st_cookie (hk_state h)"
  by (simp_all add: number_flight_def Let_def split: option.splits prod.splits)

lemma with_cache_frame [simp]:
  "hk_flight (with_cache c h) = hk_flight h" "hk_flights (with_cache c h) = hk_flights h" "hk_retransmit (with_cache c h) = hk_retransmit h"
  "hk_state (with_cache c h) = hk_state h" "cn_completed (hk_conn (with_cache c h)) = cn_completed (hk_conn h)"
  by (simp_all add: with_cache_def)

lemma prepare_completed:
  "prepare F cfg T enc h = (h', ps, r) \<Longrightarrow> cn_completed (hk_conn h') = cn_completed (hk_conn h)"
  by (auto simp: prepare_def Let_def dest: report_frame(5) split: prod.splits outcome.splits option.splits)

lemma send_completed:
  "send_flight T enc h = (h', ps, r) \<Longrightarrow> cn_completed (hk_conn h') = cn_completed (hk_conn h)"
  by (auto simp: send_flight_def Let_def hk_connection_def dest: write_packets_frame split: prod.splits option.splits)

lemma wait_completed:
  "wait_event F T enc ev h = (h', ps, r) \<Longrightarrow> cn_completed (hk_conn h') = cn_completed (hk_conn h)"
  by (auto simp: wait_event_def Let_def dest: report_frame(5) split: prod.splits outcome.splits option.splits hs_event.splits if_splits)

text \<open>
  The state in which the last flight would be sent again, when the peer repeats its own, is never
  entered: the handshake returns as soon as it is finished for the first time, and nothing else enters
  that state. A server whose last flight is lost does not repeat it.
\<close>

theorem last_flight_sent_once:
  assumes "handshake_run F cfg T s0 h0 s h evs ps" and "\<not> cn_completed (hk_conn h0)"
  shows "handshake_turn F cfg T enc ev HS_Finished h = None"
proof -
  from assms have "\<not> cn_completed (hk_conn h)"
  proof (induction rule: handshake_run.induct)
    case (turn s h evs ps enc ev h' ps' s')
    then show ?case
      by (auto simp: handshake_turn_def dest: prepare_completed send_completed wait_completed
          split: handshake_state.splits prod.splits if_splits)
  qed simp
  then show ?thesis by (simp add: handshake_turn_def)
qed

section \<open>A server before the cookie has come back\<close>

text \<open>The server's flights: 0 and 2 as they are modelled, the later ones as \<open>later\<close>, which never goes back.\<close>

definition server_ops :: "(named_curve \<Rightarrow> byte list \<times> 'k) \<Rightarrow> handshake_config \<Rightarrow> (nat \<Rightarrow> byte list) \<Rightarrow> handshake_random \<Rightarrow> 'k flight_ops
    \<Rightarrow> 'k flight_ops" where
  "server_ops gen cfg rnd lr later = \<lparr>
     fo_parse = (\<lambda>f cache st. case f of
         Flight0 \<Rightarrow> flight0_parse gen cfg cache st
       | Flight2 \<Rightarrow> flight2_parse gen cfg cache st
       | _ \<Rightarrow> fo_parse later f cache st),
     fo_generate = (\<lambda>f cache st. case f of
         Flight0 \<Rightarrow> (flight0_generate rnd lr st, Ok [])
       | Flight2 \<Rightarrow> (case flight2_generate st of (st, pkts) \<Rightarrow> (st, Ok pkts))
       | _ \<Rightarrow> fo_generate later f cache st)\<rparr>"

abbreviation early :: "flight \<Rightarrow> bool" where
  "early f \<equiv> f = Flight0 \<or> f = Flight2"

definition moves_on :: "'k flight_ops \<Rightarrow> bool" where
  "moves_on later \<longleftrightarrow> (\<forall>f cache st st' g. \<not> early f \<longrightarrow> fo_parse later f cache st = (st', Ok g) \<longrightarrow> \<not> early g)"

definition hello_repeats :: "handshake_config \<Rightarrow> byte list \<Rightarrow> handshake_cache \<Rightarrow> bool" where
  "hello_repeats cfg cookie cache \<longleftrightarrow> (\<exists>k sq msgs ch. full_pull_map cache k [client_hello_rule cfg] = Ok (sq, msgs)
     \<and> msgs HT_ClientHello = Some (MsgClientHello ch) \<and> ch_cookie ch = cookie)"

lemma apply_extensions_cookie: "st_cookie (fst (apply_extensions cfg es st)) = st_cookie st"
  by (induction cfg es st rule: apply_extensions.induct) (simp_all split: option.splits)

lemma flight0_hello_cookie: "st_cookie (fst (flight0_hello gen cfg ch st)) = st_cookie st"
proof (cases "find_matching_cipher_suite (ch_cipher_suites ch) (cfg_local_cipher_suites cfg)")
  case (Some i)
  have k: "st_cookie (fst (flight0_keypair gen st)) = st_cookie st" for st :: "'a dtls_state"
    by (simp add: flight0_keypair_def split: outcome.splits)
  let ?st = "flight0_suite i (st\<lparr>st_remote_random := ch_random ch\<rparr>)"
  obtain st1 r1 where a: "apply_extensions cfg (ch_extensions ch) ?st = (st1, r1)" by fastforce
  have "st_cookie ?st = st_cookie st" by (simp add: flight0_suite_def split: outcome.splits)
  with apply_extensions_cookie [of cfg "ch_extensions ch" ?st] a have "st_cookie st1 = st_cookie st" by simp
  with Some a k show ?thesis by (cases r1) (simp_all add: flight0_hello_def Let_def)
qed (simp add: flight0_hello_def Let_def)

lemma flight0_parse_keeps:
  assumes "flight0_parse gen cfg cache st = (st', r)"
  shows "st_cookie st' = st_cookie st" and "r = Ok f \<Longrightarrow> f = Flight2"
proof -
  show "st_cookie st' = st_cookie st"
    using assms flight0_hello_cookie [of gen cfg]
    by (fastforce simp: flight0_parse_def Let_def split: outcome.splits option.splits handshake_message.splits dest: arg_cong [where f = fst])
  show "f = Flight2" if "r = Ok f"
    using flight0_parse_success assms that flight0_hello_success(2) by blast
qed

lemma flight2_parse_keeps:
  assumes "flight2_parse gen cfg cache st = (st', r)"
  shows "st_cookie st' = st_cookie st"
    and "r = Ok f \<Longrightarrow> f = Flight2 \<or> (f = Flight4 \<and> hello_repeats cfg (st_cookie st) cache)"
proof -
  have "st_cookie st' = st_cookie st \<and> (\<forall>f. r = Ok f \<longrightarrow> f = Flight2 \<or> (f = Flight4 \<and> hello_repeats cfg (st_cookie st) cache))"
  proof (cases "full_pull_map cache (st_handshake_recv_sequence st) [client_hello_rule cfg]")
    case (Ok p)
    obtain sq msgs where p: "p = (sq, msgs)" by fastforce
    show ?thesis
    proof (cases "\<exists>ch. msgs HT_ClientHello = Some (MsgClientHello ch)")
      case True
      then obtain ch where ch: "msgs HT_ClientHello = Some (MsgClientHello ch)" by blast
      with assms Ok p have r: "st' = st\<lparr>st_handshake_recv_sequence := sq\<rparr>" "r = flight2_hello ch st'"
        by (auto simp: flight2_parse_def Let_def)
      have "f = Flight4 \<and> ch_cookie ch = st_cookie st" if "r = Ok f" for f
        using r that by (simp add: flight2_hello_def split: if_splits)
      with Ok p ch r(1) show ?thesis by (auto simp: hello_repeats_def)
    next
      case False
      with assms Ok p show ?thesis
        by (auto simp: flight2_parse_def Let_def split: option.splits handshake_message.splits)
    qed
  next
    case (Err e)
    with assms have "flight0_parse gen cfg cache st = (st', r)" by (simp add: flight2_parse_def)
    from flight0_parse_keeps [OF this] show ?thesis by simp
  qed (use assms in \<open>simp add: flight2_parse_def\<close>)
  then show "st_cookie st' = st_cookie st"
    and "r = Ok f \<Longrightarrow> f = Flight2 \<or> (f = Flight4 \<and> hello_repeats cfg (st_cookie st) cache)" by blast+
qed

text \<open>What a server sends early: its cookie, or an alert.\<close>

definition cookie_packet :: "byte list \<Rightarrow> packet \<Rightarrow> bool" where
  "cookie_packet cookie p = (case rl_content (pk_record p) of
     Handshake h \<Rightarrow> hs_message h = MsgHelloVerifyRequest \<lparr>hvr_version = PROTOCOL_VERSION1_2, hvr_cookie = cookie\<rparr>
   | Alert _ \<Rightarrow> True
   | _ \<Rightarrow> False)"

definition wakeups :: "hs_event list \<Rightarrow> nat" where
  "wakeups evs = length (filter (\<lambda>ev. case ev of Woken _ \<Rightarrow> True | _ \<Rightarrow> False) evs)"

lemma wakeups_snoc [simp]: "wakeups (evs @ [ev]) = wakeups evs + (case ev of Woken _ \<Rightarrow> 1 | _ \<Rightarrow> 0)"
  by (cases ev) (simp_all add: wakeups_def)

abbreviation owed :: "handshake_state \<Rightarrow> 'k handshaker \<Rightarrow> nat" where
  "owed s h \<equiv> (if hk_flight h = Flight2 \<and> (s = HS_Preparing \<or> s = HS_Sending) then 1 else 0)"

definition frugal :: "byte list \<Rightarrow> handshake_state \<Rightarrow> 'k handshaker \<Rightarrow> bool" where
  "frugal cookie s h \<longleftrightarrow> s \<noteq> HS_Finished
     \<and> (s = HS_Sending \<or> s = HS_Waiting \<longrightarrow> (if hk_flight h = Flight0 then hk_flights h = Some [] else \<not> hk_retransmit h))
     \<and> (s = HS_Sending \<and> hk_flight h = Flight2 \<longrightarrow> (\<exists>p. hk_flights h = Some [p] \<and> cookie_packet cookie p))
     \<and> (s = HS_Preparing \<and> hk_flight h = Flight0 \<or> st_cookie (hk_state h) = cookie)"

lemma alert_cookie_packet [simp]: "cookie_packet cookie (alert_packet h a)"
  by (simp add: cookie_packet_def alert_packet_def record_layer_new_def)

text \<open>Preparing, sending and waiting in flights 0 and 2: at most one packet for each wake-up.\<close>

lemma early_prepare:
  assumes "early (hk_flight h)" and "frugal (rnd COOKIE_LENGTH) HS_Preparing h"
    and "prepare (server_ops gen cfg rnd lr later) cfg T enc h = (h', ps, r)"
  shows "hk_flight h' = hk_flight h" and "ps = []" and "after r = HS_Sending" and "frugal (rnd COOKIE_LENGTH) HS_Sending h'"
proof -
  show "hk_flight h' = hk_flight h" "ps = []" "after r = HS_Sending"
    using assms(1,3) by (auto simp: prepare_def server_ops_def flight2_generate_def Let_def after_def split: prod.splits)
  show "frugal (rnd COOKIE_LENGTH) HS_Sending h'"
    using assms
    by (auto simp: prepare_def server_ops_def flight0_generate_def flight2_generate_def Let_def frugal_def number_flight_def
        record_layer_new_def handshake_new_def cookie_packet_def)
qed

lemma early_send:
  assumes "early (hk_flight h)" and "frugal cookie HS_Sending h" and "send_flight T enc h = (h', ps, r)"
  shows "hk_flight h' = hk_flight h" and "length ps = owed HS_Sending h" and "\<forall>p \<in> set ps. cookie_packet cookie p"
    and "after r \<in> {HS_Waiting, HS_Errored}" and "frugal cookie (after r) h'"
proof -
  obtain pkts where p: "hk_flights h = Some pkts" "length pkts = owed HS_Sending h" "\<forall>p \<in> set pkts. cookie_packet cookie p"
    using assms(1,2) by (auto simp: frugal_def)
  obtain cn gone r' where "write_packets T enc pkts (hk_connection h) = (cn, gone, r')" by (cases "write_packets T enc pkts (hk_connection h)")
  with assms(3) p(1) have h': "h' = h\<lparr>hk_conn := cn\<rparr>" "ps = pkts" "r = omap (\<lambda>_. if is_last_send_flight (hk_flight h) then HS_Finished else HS_Waiting) r'"
    by (simp_all add: send_flight_def)
  from p(2,3) h' show "hk_flight h' = hk_flight h" "length ps = owed HS_Sending h" "\<forall>p \<in> set ps. cookie_packet cookie p" by simp_all
  show a: "after r \<in> {HS_Waiting, HS_Errored}" using assms(1) h'(3) by (cases r') (auto simp: after_def)
  show "frugal cookie (after r) h'" using a assms(1,2) h'(1) by (auto simp: frugal_def)
qed

lemma early_parse:
  assumes "early f" and "fo_parse (server_ops gen cfg rnd lr later) f cache st = (st', r)"
  shows "st_cookie st' = st_cookie st"
    and "r = Ok g \<Longrightarrow> g = Flight2 \<or> (\<not> early g \<and> hello_repeats cfg (st_cookie st) cache)"
  using assms flight0_parse_keeps [of gen cfg cache st st' r] flight2_parse_keeps [of gen cfg cache st st' r]
  by (auto simp: server_ops_def)

lemma early_wait:
  assumes "early (hk_flight h)" and "frugal cookie HS_Waiting h"
    and "wait_event (server_ops gen cfg rnd lr later) T enc ev h = (h', ps, r)"
  defines "s \<equiv> after (omap (\<lambda>s. case s of None \<Rightarrow> HS_Waiting | Some s \<Rightarrow> s) r)"
  shows "early (hk_flight h') \<Longrightarrow> length ps + owed s h' \<le> wakeups [ev] \<and> frugal cookie s h'"
    and "\<forall>p \<in> set ps. cookie_packet cookie p"
    and "\<not> early (hk_flight h') \<Longrightarrow> \<exists>cache. ev = Woken cache \<and> hello_repeats cfg cookie cache"
proof -
  have *: "(early (hk_flight h') \<longrightarrow> length ps + owed s h' \<le> wakeups [ev] \<and> frugal cookie s h')
    \<and> (\<forall>p \<in> set ps. cookie_packet cookie p)
    \<and> (\<not> early (hk_flight h') \<longrightarrow> (\<exists>cache. ev = Woken cache \<and> hello_repeats cfg cookie cache))"
  proof (cases ev)
    case (Woken cache)
    obtain st q where q: "fo_parse (server_ops gen cfg rnd lr later) (hk_flight h) cache (hk_state h) = (st, q)" by fastforce
    have ck: "st_cookie (hk_state h) = cookie" using assms(2) by (simp add: frugal_def)
    note parse = early_parse [OF assms(1) q, unfolded ck]
    let ?h = "(with_cache cache h)\<lparr>hk_state := st\<rparr>"
    have fr: "frugal cookie HS_Waiting ?h" "frugal cookie HS_Errored ?h"
      using assms(2) parse(1) by (simp_all add: frugal_def)
    show ?thesis
    proof (cases q)
      case (Ok g)
      from parse(2) [OF this] have "\<not> is_last_recv_flight g \<or> hk_flight h \<noteq> g" using assms(1) by auto
      with Woken q Ok assms(3) have h': "h' = ?h\<lparr>hk_flight := g\<rparr>" "ps = []" "s = HS_Preparing"
        by (auto simp: wait_event_def Let_def s_def after_def)
      with parse(1) parse(2) [OF Ok] Woken show ?thesis by (auto simp: frugal_def wakeups_def)
    next
      case (Err e)
      obtain h1 ps1 err where rep: "report T enc e ?h = (h1, ps1, err)" by (cases "report T enc e ?h")
      note f = report_frame [OF rep]
      have "h' = h1" "ps = ps1" "s = (if err = None then HS_Waiting else HS_Errored)"
        using Woken q Err assms(3) rep by (auto simp: wait_event_def Let_def s_def after_def split: option.splits)
      with f fr assms(1) Woken show ?thesis by (auto simp: frugal_def wakeups_def)
    next
      case Panic
      with Woken q assms(1,3) fr show ?thesis by (auto simp: wait_event_def Let_def s_def after_def frugal_def wakeups_def)
    qed
  qed (use assms in \<open>auto simp: wait_event_def frugal_def after_def wakeups_def split: if_splits\<close>)
  then show "early (hk_flight h') \<Longrightarrow> length ps + owed s h' \<le> wakeups [ev] \<and> frugal cookie s h'"
    and "\<forall>p \<in> set ps. cookie_packet cookie p"
    and "\<not> early (hk_flight h') \<Longrightarrow> \<exists>cache. ev = Woken cache \<and> hello_repeats cfg cookie cache" by blast+
qed

text \<open>Later flights stay later.\<close>

lemma late_turn:
  assumes "moves_on later" and "\<not> early (hk_flight h)"
    and "handshake_turn (server_ops gen cfg rnd lr later) cfg T enc ev s h = Some (h', ps, s')"
  shows "\<not> early (hk_flight h')"
proof -
  have p: "hk_flight h' = hk_flight h" if "prepare F cfg T enc h = (h', ps, r)" for F :: "'a flight_ops" and r
    using that by (auto simp: prepare_def Let_def dest: report_frame(1) split: prod.splits outcome.splits option.splits)
  have q: "hk_flight h' = hk_flight h" if "send_flight T enc h = (h', ps, r)" for r
    using that by (auto simp: send_flight_def Let_def split: prod.splits option.splits)
  have f: "hk_flight h' = hk_flight h" if "finish_event F T enc ev h = (h', ps, r)" for F :: "'a flight_ops" and r
    using that by (auto simp: finish_event_def Let_def dest: report_frame(1) split: prod.splits outcome.splits option.splits hs_event.splits)
  have w: "\<not> early (hk_flight h')" if "wait_event (server_ops gen cfg rnd lr later) T enc ev h = (h', ps, r)" for r
  proof (cases ev)
    case (Woken cache)
    obtain st q where "fo_parse later (hk_flight h) cache (hk_state h) = (st, q)" by fastforce
    moreover have "fo_parse (server_ops gen cfg rnd lr later) (hk_flight h) = fo_parse later (hk_flight h)"
      using assms(2) by (cases "hk_flight h") (simp_all add: server_ops_def fun_eq_iff)
    moreover have "\<not> early g" if "q = Ok g" for g using calculation(1) that assms(1,2) unfolding moves_on_def by blast
    ultimately show ?thesis
      using that Woken assms(2)
      by (auto simp: wait_event_def Let_def dest: report_frame(1) split: prod.splits outcome.splits option.splits if_splits)
  qed (use that assms(2) in \<open>auto simp: wait_event_def\<close>)
  show ?thesis
    using assms(2,3) p q f w
    by (auto simp: handshake_turn_def split: handshake_state.splits prod.splits if_splits)
qed

lemma server_invariant:
  assumes "moves_on later" and "hk_flight h0 = Flight0"
    and "handshake_run (server_ops gen cfg rnd lr later) cfg T HS_Preparing h0 s h evs ps"
  shows "(early (hk_flight h) \<longrightarrow> length ps + owed s h \<le> wakeups evs \<and> (\<forall>p \<in> set ps. cookie_packet (rnd COOKIE_LENGTH) p)
      \<and> frugal (rnd COOKIE_LENGTH) s h)
    \<and> (\<not> early (hk_flight h) \<longrightarrow> (\<exists>cache. Woken cache \<in> set evs \<and> hello_repeats cfg (rnd COOKIE_LENGTH) cache))"
  using assms(3)
proof (induction rule: handshake_run.induct)
  case start
  then show ?case using assms(2) by (simp add: frugal_def)
next
  case (turn s h evs ps enc ev h' ps' s')
  let ?F = "server_ops gen cfg rnd lr later"
  show ?case
  proof (cases "early (hk_flight h)")
    case False
    with late_turn [OF assms(1) False turn.hyps(2)] turn.IH show ?thesis by auto
  next
    case True
    with turn.IH have inv: "length ps + owed s h \<le> wakeups evs" "\<forall>p \<in> set ps. cookie_packet (rnd COOKIE_LENGTH) p"
      "frugal (rnd COOKIE_LENGTH) s h" by simp_all
    consider (prep) r where "s = HS_Preparing" "prepare ?F cfg T enc h = (h', ps', r)" "s' = after r"
      | (send) r where "s = HS_Sending" "send_flight T enc h = (h', ps', r)" "s' = after r"
      | (wait) r where "s = HS_Waiting" "wait_event ?F T enc ev h = (h', ps', r)"
        "s' = after (omap (\<lambda>s. case s of None \<Rightarrow> HS_Waiting | Some s \<Rightarrow> s) r)"
      using turn.hyps(2) inv(3) by (auto simp: handshake_turn_def frugal_def split: handshake_state.splits prod.splits)
    then show ?thesis
    proof cases
      case prep
      with early_prepare [OF True _ prep(2)] inv True show ?thesis by simp
    next
      case send
      with early_send [OF True inv(3) [unfolded send(1)] send(2)] inv True show ?thesis by auto
    next
      case wait
      from early_wait [OF True inv(3) [unfolded wait(1)] wait(2)] inv(1,2) wait(1,3) show ?thesis
        by (fastforce simp: wakeups_def)
    qed
  qed
qed

text \<open>
  The cookie exchange keeps a server from being used as an amplifier. However often it is woken, its
  timer fires and whatever its transcript holds: as long as the server has not left flights 0 and 2 it
  has handed over at most one packet for each time the reader woke it, never one on its own account,
  and each is a hello verify request with its cookie or an alert; and it leaves these flights only when
  a hello in the transcript repeats the cookie.
\<close>

theorem no_amplification_before_cookie:
  assumes "moves_on later" and "hk_flight h0 = Flight0"
    and "handshake_run (server_ops gen cfg rnd lr later) cfg T HS_Preparing h0 s h evs ps"
  shows "if early (hk_flight h)
    then length ps \<le> wakeups evs \<and> (\<forall>p \<in> set ps. cookie_packet (rnd COOKIE_LENGTH) p)
    else \<exists>cache. Woken cache \<in> set evs \<and> hello_repeats cfg (rnd COOKIE_LENGTH) cache"
  using server_invariant [OF assms] by (auto split: if_splits)

section \<open>Retransmission\<close>

text \<open>The transcript holds a message of this side with the number of a packet's.\<close>

definition in_transcript :: "handshake_cache \<Rightarrow> bool \<Rightarrow> packet \<Rightarrow> bool" where
  "in_transcript cache is_client p = (case rl_content (pk_record p) of
     Handshake h \<Rightarrow> \<exists>i \<in> set cache. ci_message_sequence i = hh_message_sequence (hs_header h) \<and> ci_is_client i = is_client
   | _ \<Rightarrow> True)"

lemma in_transcript_mono: "in_transcript cache c p \<Longrightarrow> set cache \<subseteq> set cache' \<Longrightarrow> in_transcript cache' c p"
  by (auto simp: in_transcript_def split: dtls_content.splits)

lemma outgoing_packet_enters:
  assumes "outgoing_packet enc mtu c p st = (st', Ok raws)"
  shows "set (ss_cache st) \<subseteq> set (ss_cache st')" and "in_transcript (ss_cache st') c p"
  using assms
  by (auto simp: outgoing_packet_def in_transcript_def cache_push_def list_ex_iff Let_def
      split: dtls_content.splits outcome.splits prod.splits if_splits)

lemma outgoing_packet_again:
  "in_transcript (ss_cache st) c p \<Longrightarrow> ss_cache (fst (outgoing_packet enc mtu c p st)) = ss_cache st"
  by (auto simp: outgoing_packet_def in_transcript_def cache_push_def list_ex_iff Let_def
      split: dtls_content.splits outcome.splits prod.splits if_splits)

lemma outgoing_loop_enters:
  "outgoing_loop enc mtu c ps st = (st', Ok raws) \<Longrightarrow>
     set (ss_cache st) \<subseteq> set (ss_cache st') \<and> (\<forall>p \<in> set ps. in_transcript (ss_cache st') c p)"
proof (induction ps arbitrary: st raws)
  case (Cons p ps)
  then obtain st1 raws1 raws2 where "outgoing_packet enc mtu c p st = (st1, Ok raws1)" "outgoing_loop enc mtu c ps st1 = (st', Ok raws2)"
    by (auto simp: omap_eq_Ok split: outcome.splits prod.splits)
  with Cons.IH [of st1 raws2] outgoing_packet_enters [of enc mtu c p st st1 raws1] in_transcript_mono show ?case by fastforce
qed simp

lemma outgoing_loop_again:
  "\<forall>p \<in> set ps. in_transcript (ss_cache st) c p \<Longrightarrow> ss_cache (fst (outgoing_loop enc mtu c ps st)) = ss_cache st"
proof (induction ps arbitrary: st)
  case (Cons p ps)
  obtain st1 r where p: "outgoing_packet enc mtu c p st = (st1, r)" by fastforce
  have c: "ss_cache st1 = ss_cache st" using outgoing_packet_again [of st c p enc mtu] Cons.prems p by simp
  with Cons.IH [of st1] Cons.prems p show ?case by (auto split: outcome.splits prod.splits)
qed simp

lemma write_packets_cache:
  assumes "write_packets T enc ps cn = (cn', gone, r)"
  shows "cn_send cn' = fst (outgoing_loop enc (cn_mtu cn) (cn_is_client cn) ps (cn_send cn))" "cn_is_client cn' = cn_is_client cn"
    and "r = Ok () \<Longrightarrow> \<exists>raws. snd (outgoing_loop enc (cn_mtu cn) (cn_is_client cn) ps (cn_send cn)) = Ok raws"
  using assms
  by (auto simp: write_packets_def handle_outgoing_packets_def Let_def omap_eq_Ok split: prod.splits outcome.splits)

text \<open>
  C25. Sending a flight again leaves the transcript as it is: once a flight has been sent, then whatever the
  reader has added to the transcript meanwhile, and however the records are encrypted and the transport
  answers, the flight's packets go out again and the transcript keeps every message with its bytes, so
  both sides' verification data do not depend on how often a flight was repeated.
\<close>

theorem retransmission_keeps_transcript:
  assumes "send_flight T enc h = (h1, ps, Ok s)"
    and "hk_flights h2 = hk_flights h1" and "cn_is_client (hk_conn h2) = cn_is_client (hk_conn h1)"
    and "set (hk_cache h1) \<subseteq> set (hk_cache h2)"
  shows "hk_cache (fst (send_flight T' enc' h2)) = hk_cache h2 \<and> fst (snd (send_flight T' enc' h2)) = ps"
proof (cases "hk_flights h")
  case None
  with assms(1,2) show ?thesis by (auto simp: send_flight_def Let_def)
next
  case (Some pkts)
  obtain cn gone r where w: "write_packets T enc pkts (hk_connection h) = (cn, gone, r)" by (cases "write_packets T enc pkts (hk_connection h)")
  with assms(1) Some have h1: "h1 = h\<lparr>hk_conn := cn\<rparr>" "ps = pkts" "r = Ok ()" by (auto simp: send_flight_def Let_def omap_eq_Ok)
  obtain cn2 gone2 r2 where w2: "write_packets T' enc' pkts (hk_connection h2) = (cn2, gone2, r2)"
    by (cases "write_packets T' enc' pkts (hk_connection h2)")
  let ?cn = "hk_connection h"
  from write_packets_cache(3) [OF w h1(3)] obtain raws where
    "outgoing_loop enc (cn_mtu ?cn) (cn_is_client ?cn) pkts (cn_send ?cn) = (cn_send cn, Ok raws)"
    unfolding write_packets_cache(1) [OF w] by (metis prod.collapse)
  from outgoing_loop_enters [OF this] write_packets_cache(2) [OF w] h1(1)
  have "\<forall>p \<in> set pkts. in_transcript (hk_cache h1) (cn_is_client (hk_conn h1)) p" by simp
  then have "\<forall>p \<in> set pkts. in_transcript (hk_cache h2) (cn_is_client (hk_conn h2)) p"
    using in_transcript_mono [OF _ assms(4)] assms(3) by auto
  then have "ss_cache (cn_send cn2) = hk_cache h2"
    using outgoing_loop_again write_packets_cache(1) [OF w2] by (simp add: hk_connection_def)
  with w2 Some assms(2) h1(1,2) show ?thesis by (simp add: send_flight_def Let_def)
qed

section \<open>Witnesses\<close>

definition demo_server :: "nat handshaker" where
  "demo_server = \<lparr>hk_conn = \<lparr>cn_is_client = False, cn_closed = False, cn_completed = False, cn_local_epoch = 0, cn_mtu = 1200,
       cn_send = \<lparr>ss_sequence_numbers = [], ss_cache = []\<rparr>, cn_reader_open = True, cn_socket_open = True\<rparr>,
     hk_state = initial_state, hk_flight = Flight0, hk_flights = None, hk_retransmit = False\<rparr>"

abbreviation demo_ops :: "nat flight_ops \<Rightarrow> nat flight_ops" where
  "demo_ops later \<equiv> server_ops demo_gen server_cfg (\<lambda>n. replicate n 7) demo_random later"

abbreviation demo_transcript :: handshake_cache where
  "demo_transcript \<equiv> [hello_item 0 (browser_hello [])]"

text \<open>A server that has prepared, has nothing to send, and is woken by the first hello of a browser.\<close>

lemma demo_server_woken:
  "\<exists>h. handshake_run (demo_ops later) server_cfg (\<lambda>_. Ok ()) HS_Preparing demo_server HS_Preparing h [Woken demo_transcript] []
    \<and> hk_flight h = Flight2"
proof -
  let ?run = "handshake_run (demo_ops later) server_cfg (\<lambda>_. Ok ()) HS_Preparing demo_server"
  let ?h1 = "demo_server\<lparr>hk_flights := Some [], hk_retransmit := True, hk_state := ready_state\<rparr>"
  obtain st' where st': "flight0_parse demo_gen server_cfg demo_transcript ready_state = (st', Ok Flight2)"
    using browser_parsed by blast
  have "handshake_turn (demo_ops later) server_cfg (\<lambda>_. Ok ()) None Timer HS_Preparing demo_server = Some (?h1, [], HS_Sending)"
    by (simp add: handshake_turn_def prepare_def server_ops_def demo_server_def number_flight_def after_def ready_state_def
        flight0_generate_def initial_state_def server_cfg_def)
  from turn [OF start this] have r1: "?run HS_Sending ?h1 [] []" by simp
  have "handshake_turn (demo_ops later) server_cfg (\<lambda>_. Ok ()) None Timer HS_Sending ?h1 = Some (?h1, [], HS_Waiting)"
    by (simp add: handshake_turn_def send_flight_def write_packets_def handle_outgoing_packets_def after_def demo_server_def
        hk_connection_def ready_state_def flight0_generate_def initial_state_def)
  from turn [OF r1 this] have r2: "?run HS_Waiting ?h1 [] []" by simp
  have "\<exists>h. handshake_turn (demo_ops later) server_cfg (\<lambda>_. Ok ()) None (Woken demo_transcript) HS_Waiting ?h1 = Some (h, [], HS_Preparing)
      \<and> hk_flight h = Flight2"
    using st' by (simp add: handshake_turn_def wait_event_def server_ops_def with_cache_def after_def demo_server_def)
  with turn [OF r2] show ?thesis by fastforce
qed

lemma demo_server_answers:
  assumes "moves_on later"
  shows "\<exists>h ps. handshake_run (demo_ops later) server_cfg (\<lambda>_. Ok ()) HS_Preparing demo_server HS_Sending h [Woken demo_transcript] ps
    \<and> hk_flight h = Flight2 \<and> hk_flight demo_server = Flight0"
proof -
  obtain h where r: "handshake_run (demo_ops later) server_cfg (\<lambda>_. Ok ()) HS_Preparing demo_server HS_Preparing h [Woken demo_transcript] []"
    "hk_flight h = Flight2" using demo_server_woken by blast
  obtain h' ps q where p: "prepare (demo_ops later) server_cfg (\<lambda>_. Ok ()) None h = (h', ps, q)"
    by (cases "prepare (demo_ops later) server_cfg (\<lambda>_. Ok ()) None h")
  have "frugal (replicate COOKIE_LENGTH 7) HS_Preparing h"
    using server_invariant [OF assms _ r(1)] r(2) by (simp add: demo_server_def)
  from early_prepare [OF _ this p] r(2) have "hk_flight h' = Flight2" "after q = HS_Sending" by simp_all
  with p turn [OF r(1), of None Timer] show ?thesis by (auto simp: handshake_turn_def demo_server_def)
qed

theorem last_flight_sent_once_witness:
  "\<exists>h. handshake_run (demo_ops later) server_cfg (\<lambda>_. Ok ()) HS_Preparing demo_server HS_Preparing h [Woken demo_transcript] []
    \<and> handshake_turn (demo_ops later) server_cfg (\<lambda>_. Ok ()) None Timer HS_Finished h = None"
  using demo_server_woken last_flight_sent_once [where enc = None and ev = Timer] by (fastforce simp: demo_server_def)

definition demo_verifying :: "nat handshaker" where
  "demo_verifying = demo_server\<lparr>hk_flight := Flight2, hk_flights := Some (snd (flight2_generate ready_state))\<rparr>"

lemma demo_verifying_sent:
  "case send_flight (\<lambda>_. Ok ()) None demo_verifying of (h, ps, r) \<Rightarrow>
     (case r of Ok _ \<Rightarrow> True | _ \<Rightarrow> False) \<and> length (hk_cache h) = 1 \<and> length ps = 1"
  by code_simp

theorem retransmission_keeps_transcript_witness:
  "\<exists>h1. length (hk_cache h1) = 1 \<and> fst (send_flight (\<lambda>_. Ok ()) None demo_verifying) = h1
    \<and> hk_cache (fst (send_flight (\<lambda>_. Ok ()) None h1)) = hk_cache h1 \<and> length (fst (snd (send_flight (\<lambda>_. Ok ()) None h1))) = 1"
proof -
  obtain h1 ps s where "send_flight (\<lambda>_. Ok ()) None demo_verifying = (h1, ps, Ok s)" "length (hk_cache h1) = 1" "length ps = 1"
    using demo_verifying_sent by (auto split: prod.splits outcome.splits)
  with retransmission_keeps_transcript [OF this(1) refl refl subset_refl, of "\<lambda>_. Ok ()" None] show ?thesis by auto
qed

end
