(* ===== verification/Dtls_Key_Exchange.thy ===== *)
theory Dtls_Key_Exchange
  imports Dtls_Agreement Dtls_Handshaker "HOL-Library.Monad_Syntax"
begin

text \<open>
  Flights 4, 5 and 6 of a client and a server over a network that delivers what is sent: the packets of a
  flight are numbered as \<open>prepare\<close> numbers them, sent, entered in both transcripts and read. The theory
  shows that two sides that have exchanged their hellos complete the handshake when their configurations
  fit, with the same master secret on both sides and ciphers that open each other's records.
\<close>

section \<open>What sending a flight does\<close>

text \<open>The entry a packet makes in the transcript when it is sent.\<close>

definition packet_item :: "bool \<Rightarrow> packet \<Rightarrow> handshake_cache" where
  "packet_item is_client p = (case rl_content (pk_record p) of
     Handshake h \<Rightarrow> [\<lparr>ci_typ = hh_type (hs_header h), ci_is_client = is_client, ci_epoch = rl_epoch (record_layer_header (pk_record p)),
       ci_message_sequence = hh_message_sequence (hs_header h), ci_data = (case handshake_marshal h of Ok bs \<Rightarrow> bs | _ \<Rightarrow> [])\<rparr>]
   | _ \<Rightarrow> [])"

definition packet_items :: "bool \<Rightarrow> packet list \<Rightarrow> handshake_cache" where
  "packet_items is_client ps = concat (map (packet_item is_client) ps)"

lemma packet_items_simps [simp]:
  "packet_items c [] = []" "packet_items c (p # ps) = packet_item c p @ packet_items c ps"
  "packet_items c (ps @ qs) = packet_items c ps @ packet_items c qs"
  by (simp_all add: packet_items_def)

text \<open>These are the entries the sending code makes, when none of them was made before.\<close>

lemma outgoing_packet_item:
  assumes "outgoing_packet enc mtu c p st = (st', Ok raws)" and "cache_wf (ss_cache st @ packet_item c p)"
  shows "ss_cache st' = ss_cache st @ packet_item c p"
proof (cases "rl_content (pk_record p)")
  case (Handshake h)
  from assms(1) Handshake obtain raw where raw: "record_layer_marshal (pk_record p) = Ok raw"
    "ss_cache st' = snd (cache_push (drop RECORD_LAYER_HEADER_SIZE raw) (rl_epoch (record_layer_header (pk_record p)))
      (hh_message_sequence (hs_header h)) (hh_type (hs_header h)) c (ss_cache st))"
    by (auto simp: outgoing_packet_def Let_def split: outcome.splits prod.splits)
  from raw(1) Handshake obtain hd bs where hd: "record_layer_header_marshal (record_layer_header (pk_record p)) = Ok hd"
    "handshake_marshal h = Ok bs" "raw = hd @ bs"
    by (auto simp: record_layer_marshal_def obind_eq_Ok)
  from hd(1) have "length hd = RECORD_LAYER_HEADER_SIZE"
    by (auto simp: record_layer_header_marshal_def RECORD_LAYER_HEADER_SIZE_def split: if_splits)
  with raw(2) hd(2,3) assms(2) Handshake show ?thesis
    by (auto simp: cache_push_def packet_item_def cache_wf_def list_ex_iff)
qed (use assms(1) in \<open>auto simp: outgoing_packet_def packet_item_def split: prod.splits\<close>)

lemma outgoing_items:
  "outgoing_loop enc mtu c ps st = (st', Ok raws) \<Longrightarrow> cache_wf (ss_cache st @ packet_items c ps)
    \<Longrightarrow> ss_cache st' = ss_cache st @ packet_items c ps"
proof (induction ps arbitrary: st raws)
  case (Cons p ps)
  from Cons.prems(1) obtain st1 r1 r2 where o: "outgoing_packet enc mtu c p st = (st1, Ok r1)" "outgoing_loop enc mtu c ps st1 = (st', Ok r2)"
    by (auto simp: omap_eq_Ok split: outcome.splits prod.splits)
  from Cons.prems(2) have "cache_wf (ss_cache st @ packet_item c p)" by (auto simp: cache_wf_def)
  from outgoing_packet_item [OF o(1) this] Cons.IH [OF o(2)] Cons.prems(2) show ?case by simp
qed simp

text \<open>Numbering the packets of a flight, as \<open>prepare\<close> does, and entering them in the transcript.\<close>

definition flight_sent :: "bool \<Rightarrow> packet list \<Rightarrow> 'k dtls_state \<Rightarrow> 'k dtls_state \<times> handshake_cache" where
  "flight_sent is_client pkts st = (case number_packets 0 pkts (st_handshake_send_sequence st) 0 of
     (pkts, sq, next_epoch) \<Rightarrow>
       let st = st\<lparr>st_handshake_send_sequence := sq\<rparr>
       in (if next_epoch \<noteq> 0 then st\<lparr>st_local_epoch := next_epoch\<rparr> else st, packet_items is_client pkts))"

lemma flight_sent_number:
  "hk_state (number_flight 0 (h\<lparr>hk_flights := Some pkts\<rparr>)) = fst (flight_sent c pkts (hk_state h))"
  "packet_items c (the (hk_flights (number_flight 0 (h\<lparr>hk_flights := Some pkts\<rparr>)))) = snd (flight_sent c pkts (hk_state h))"
  by (auto simp: number_flight_def flight_sent_def Let_def split: prod.splits)

lemma number_plain:
  "number_packets 0 (map plain_packet ms @ qs) sq 0 = (case number_packets 0 qs (sq + int (length ms)) 0 of
     (rs, sq', e) \<Rightarrow> (numbered_packets (word_of_int sq) ms @ rs, sq', e))"
proof (induction ms arbitrary: sq)
  case (Cons m ms)
  have "numbered_message n m = (handshake_new m)\<lparr>hs_header := (hs_header (handshake_new m))\<lparr>hh_message_sequence := n\<rparr>\<rparr>" for n
    by (simp add: numbered_message_def handshake_new_def)
  then show ?case
    using Cons [of "sq + 1"] by (simp add: plain_packet_def record_layer_new_def Let_def algebra_simps split: prod.splits)
qed simp

lemma number_numbered:
  "number_packets 0 (numbered_packets n ms @ qs) sq 0 = number_packets 0 (map plain_packet ms @ qs) sq 0"
  by (induction ms arbitrary: n sq) (simp_all add: plain_packet_def record_layer_new_def Let_def numbered_message_def handshake_new_def)

lemma items_of_numbered: "packet_items c (numbered_packets n ms) = items_from c 0 n ms"
  by (induction ms arbitrary: n)
    (simp_all add: packet_item_def plain_packet_def record_layer_new_def message_item_def message_bytes_def numbered_message_def handshake_new_def)

lemma sent_plain:
  "flight_sent c (map plain_packet ms) st = (st\<lparr>st_handshake_send_sequence := st_handshake_send_sequence st + int (length ms)\<rparr>,
     items_from c 0 (word_of_int (st_handshake_send_sequence st)) ms)"
  using number_plain [of ms "[]" "st_handshake_send_sequence st"] by (simp add: flight_sent_def items_of_numbered Let_def)

lemma sent_finished:
  "flight_sent c (numbered_packets n ms @ [cipher_spec_packet, finished_packet v]) st
    = (let sq = st_handshake_send_sequence st + int (length ms) in
       (st\<lparr>st_handshake_send_sequence := sq + 1, st_local_epoch := 1\<rparr>,
        items_from c 0 (word_of_int (st_handshake_send_sequence st)) ms @ [message_item c 1 (word_of_int sq) (MsgFinished v)]))"
  by (simp add: flight_sent_def number_numbered number_plain items_of_numbered Let_def cipher_spec_packet_def finished_packet_def
      record_layer_new_def packet_item_def message_item_def message_bytes_def numbered_message_def handshake_new_def)

text \<open>The clock of a random value is sent in whole seconds; this is the value the peer reads.\<close>

definition wire_random :: "handshake_random \<Rightarrow> handshake_random" where
  "wire_random r = r\<lparr>gmt_unix_time := (if gmt_unix_time r < 0 then 0 else uint (word_of_int (gmt_unix_time r div 10 ^ 9) :: u32) * 10 ^ 9)\<rparr>"

lemma wire_random_marshal [simp]: "random_marshal (wire_random r) = random_marshal r"
  by (simp add: wire_random_def random_marshal_def)

lemma wire_random_ok: "length (random_bytes r) = RANDOM_BYTES_LENGTH \<Longrightarrow> random_ok (wire_random r)"
  using uint_bounded [of "word_of_int (gmt_unix_time r div 10 ^ 9) :: u32"] by (simp add: wire_random_def random_ok_def)

section \<open>From the hellos to the second Finished\<close>

text \<open>The packets of a flight that was generated, and the state after a flight was read that leads to \<open>f\<close>.\<close>

fun generated :: "'k dtls_state \<times> (packet list, flight_error) outcome \<Rightarrow> ('k dtls_state \<times> packet list) option" where
  "generated (st, Ok pkts) = Some (st, pkts)"
| "generated (st, _) = None"

fun leads_to :: "flight \<Rightarrow> 'k dtls_state \<times> (flight, flight_error) outcome \<Rightarrow> 'k dtls_state option" where
  "leads_to f (st, Ok g) = (if f = g then Some st else None)"
| "leads_to f (st, _) = None"

text \<open>
  Flights 4, 5 and 6 of a server in state \<open>s\<close> and a client in state \<open>c\<close>, each flight sent, delivered and
  read: what both transcripts hold is threaded through, the server reads the client's Finished from the
  packets it queued until it had the keys, and the result is the two final states.
\<close>

definition key_exchange :: "crypto_libs \<Rightarrow> 'k sign_libs \<Rightarrow> (named_curve \<Rightarrow> byte list \<times> 'k) \<Rightarrow> handshake_config \<Rightarrow> handshake_config
    \<Rightarrow> handshake_cache \<Rightarrow> 'k dtls_state \<Rightarrow> 'k dtls_state \<Rightarrow> ('k dtls_state \<times> 'k dtls_state) option" where
  "key_exchange L A gc scfg ccfg T s c =
     generated (flight4_generate A scfg s) \<bind> (\<lambda>(s, pkts). case flight_sent False pkts s of (s, flight4) \<Rightarrow>
     leads_to Flight5 (flight3_parse A gc ccfg (T @ flight4) c) \<bind> (\<lambda>c.
     generated (flight5_generate L A gc ccfg (T @ flight4) c) \<bind> (\<lambda>(c, pkts). case flight_sent True pkts c of (c, flight5) \<Rightarrow>
     leads_to Flight6 (flight4_parse L A scfg (\<lambda>_ cache. Ok (cache @ filter (\<lambda>i. ci_epoch i \<noteq> 0) flight5))
       (T @ flight4 @ filter (\<lambda>i. ci_epoch i = 0) flight5) s) \<bind> (\<lambda>s.
     generated (flight6_generate L scfg (T @ flight4 @ flight5) s) \<bind> (\<lambda>(s, pkts). case flight_sent False pkts s of (s, flight6) \<Rightarrow>
     leads_to Flight5 (flight5_parse L ccfg (T @ flight4 @ flight5 @ flight6) c) \<bind> (\<lambda>c.
     Some (s, c)))))))"

text \<open>The certificates of the two sides, their keys and schemes, fit both configurations.\<close>

definition server_certificate_fits :: "'k sign_libs \<Rightarrow> handshake_config \<Rightarrow> handshake_config \<Rightarrow> dtls_certificate \<Rightarrow> bool" where
  "server_certificate_fits A scfg ccfg cert \<longleftrightarrow> get_certificate A scfg (cfg_server_name scfg) = Ok cert
     \<and> certified A cert \<and> accepts_server A ccfg (cert_certificate cert) \<and> sendable (MsgCertificate (cert_certificate cert))
     \<and> (\<exists>alg. select_signature_scheme (cfg_local_signature_schemes scfg) (key_kind (cert_private_key cert)) = Ok alg
         \<and> signs_with (key_kind (cert_private_key cert)) alg \<and> scheme_listed ccfg alg)"

definition client_certificate_fits :: "'k sign_libs \<Rightarrow> handshake_config \<Rightarrow> handshake_config \<Rightarrow> dtls_certificate option \<Rightarrow> bool" where
  "client_certificate_fits A scfg ccfg cert \<longleftrightarrow> accepts_client scfg cert \<and> sendable (MsgCertificate (chain_of cert))
     \<and> (\<exists>alg. uses_certificate A ccfg cert alg
         \<and> (\<forall>d. cert = Some d \<longrightarrow> signs_with (key_kind (cert_private_key d)) alg \<and> scheme_listed scfg alg))"

text \<open>
  Two sides that have exchanged their hellos: the numbers of the next messages agree, the server knows
  the client's random value, has a key pair and a suite of the client's, and what the extensions settle
  is settled as both configurations want it.
\<close>

definition numbered_otherwise :: "int \<Rightarrow> cache_item \<Rightarrow> bool" where
  "numbered_otherwise sq i \<longleftrightarrow> (\<exists>is_client e n m. i = message_item is_client e n m \<and> sendable m \<and> n \<noteq> word_of_int sq)"

definition hellos_exchanged :: "(named_curve \<Rightarrow> byte list \<times> 'k) \<Rightarrow> handshake_config \<Rightarrow> handshake_config \<Rightarrow> handshake_cache
    \<Rightarrow> 'k dtls_state \<Rightarrow> 'k dtls_state \<Rightarrow> bool" where
  "hellos_exchanged gs scfg ccfg T s c \<longleftrightarrow> hellos_only T
     \<and> (\<forall>i \<in> set T. ci_typ i = HT_HelloVerifyRequest \<longrightarrow> numbered_otherwise (st_handshake_recv_sequence c) i)
     \<and> st_handshake_send_sequence s = st_handshake_recv_sequence c \<and> st_handshake_send_sequence c = st_handshake_recv_sequence s
     \<and> random_marshal (st_remote_random s) = random_marshal (st_local_random c)
     \<and> length (random_bytes (st_local_random s)) = RANDOM_BYTES_LENGTH
     \<and> st_named_curve s \<noteq> NC_Unsupported \<and> st_local_keypair s = Some (elliptic_curve_keypair gs (st_named_curve s))
     \<and> (\<exists>cs. st_cipher_suite s = Some cs \<and> suite_agreed ccfg cs)
     \<and> ems_agreed scfg ccfg (st_extended_master_secret s) \<and> srtp_agreed ccfg (st_srtp_protection_profile s)
     \<and> st_peer_certificates s = [] \<and> st_local_verify_data s = [] \<and> st_local_verify_data c = []
     \<and> st_srtp_protection_profile c = Srtp_Unsupported \<and> \<not> st_extended_master_secret c \<and> \<not> st_remote_requested_certificate c"

lemma flight3_skips:
  assumes "\<forall>i \<in> set C. ci_typ i = HT_HelloVerifyRequest \<longrightarrow> numbered_otherwise (st_handshake_recv_sequence c) i"
  shows "flight3_parse A gen cfg C c = flight3_server A gen cfg C c"
proof (cases "select_item (rule HT_HelloVerifyRequest (cfg_initial_epoch cfg) False True) None C")
  case (Some i)
  from select_item_Some [OF Some] assms obtain is_client e n m where
    i: "i = message_item is_client e n m" "sendable m" "n \<noteq> word_of_int (st_handshake_recv_sequence c)"
    by (auto simp: numbered_otherwise_def)
  obtain rest where "handshake_unmarshal (message_bytes n m) = Ok (numbered_message n m, rest)" using message_bytes_parse [OF i(2)] .
  with Some i show ?thesis by (simp add: flight3_parse_def full_pull_map_def)
qed (simp add: flight3_parse_def full_pull_map_def)

abbreviation on_wire :: "'k dtls_state \<Rightarrow> 'k dtls_state" where
  "on_wire s \<equiv> s\<lparr>st_local_random := wire_random (st_local_random s)\<rparr>"

lemma hello_on_wire: "message_item is_client e n (MsgServerHello (flight4_server_hello cfg (on_wire s)))
    = message_item is_client e n (MsgServerHello (flight4_server_hello cfg s))"
  by (simp add: message_item_def message_bytes_def handshake_marshal_def numbered_message_def handshake_new_def
      server_hello_marshal_def server_hello_size_def flight4_server_hello_def)

lemma flight4_on_wire:
  "items_from is_client e n (flight4_messages cfg (on_wire s) cert ske) = items_from is_client e n (flight4_messages cfg s cert ske)"
  by (simp add: flight4_messages_def hello_on_wire)

lemma hello_sendable:
  "length (random_bytes (st_local_random s)) = RANDOM_BYTES_LENGTH \<Longrightarrow> sendable (MsgServerHello (flight4_server_hello cfg (on_wire s)))"
  using wire_random_ok [of "st_local_random s"]
  by (simp add: sendable_def server_hello_ok_def flight4_server_hello_def curve_extensions_def extensions_ok_def server_hello_size_def
      extension_size_def RANDOM_BYTES_LENGTH_def)

lemma exchange_sendable:
  "length (kp_public_key kp) \<le> 97 \<Longrightarrow> length signature \<le> 512 \<Longrightarrow> sendable (MsgServerKeyExchange (server_exchange s kp alg signature))"
  by (simp add: sendable_def server_exchange_def server_key_exchange_size_def)

lemma flight4_sent:
  assumes "hellos_exchanged gs scfg ccfg T s c" and "server_certificate_fits A scfg ccfg cert" and "key_agreement A gs gc"
    and "cfg_local_psk_callback scfg = None"
  obtains alg signature where
    "generated (flight4_generate A scfg s) = Some (s\<lparr>st_local_key_signature := signature\<rparr>,
      map plain_packet (flight4_messages scfg s cert (server_exchange s (elliptic_curve_keypair gs (st_named_curve s)) alg signature)))"
    "sendable (MsgServerKeyExchange (server_exchange s (elliptic_curve_keypair gs (st_named_curve s)) alg signature))"
    "scheme_listed ccfg alg"
    "verify_signature A (value_key_message (random_marshal (st_local_random c)) (random_marshal (st_local_random s))
      (fst (gs (st_named_curve s))) (st_named_curve s)) alg signature (cert_certificate cert) (cfg_insecure_verification ccfg) = Ok ()"
proof -
  let ?curve = "st_named_curve s" and ?key = "cert_private_key cert"
  let ?msg = "value_key_message (random_marshal (st_local_random c)) (random_marshal (st_local_random s)) (fst (gs ?curve)) ?curve"
  from assms(1) have h: "random_marshal (st_remote_random s) = random_marshal (st_local_random c)" "?curve \<noteq> NC_Unsupported"
    "st_local_keypair s = Some (elliptic_curve_keypair gs ?curve)"
    by (simp_all add: hellos_exchanged_def)
  from assms(2) obtain alg where f: "get_certificate A scfg (cfg_server_name scfg) = Ok cert" "certified A cert" "signs_with (key_kind ?key) alg"
    "select_signature_scheme (cfg_local_signature_schemes scfg) (key_kind ?key) = Ok alg" "scheme_listed ccfg alg"
    unfolding server_certificate_fits_def by blast
  from f(2,3) obtain signature where sg: "sign_with A ?key ?msg = Ok signature" "length signature \<le> 512"
    "verify_signature A ?msg alg signature (cert_certificate cert) (cfg_insecure_verification ccfg) = Ok ()"
    unfolding certified_def by blast
  from assms(3) h(2) have "length (fst (gs ?curve)) \<le> 97" by (auto simp: key_agreement_def)
  note that [OF _ exchange_sendable f(5) sg(3)]
  with flight4_generated [OF assms(4) f(1,4) h(3), of signature] sg h(1) \<open>length (fst (gs ?curve)) \<le> 97\<close> show ?thesis
    by (simp add: generate_key_signature_def)
qed

text \<open>Two ciphers, each of which opens what the other seals.\<close>

definition understand_each_other :: "crypto_libs \<Rightarrow> suite_cipher \<Rightarrow> suite_cipher \<Rightarrow> bool" where
  "understand_each_other L a b \<longleftrightarrow> (\<forall>rnd h payload raw. fills rnd \<longrightarrow> plain_record h payload raw \<longrightarrow>
     (\<exists>out. suite_encrypt L rnd a h raw = Ok out \<and> sealed h payload out (suite_decrypt L b out))
     \<and> (\<exists>out. suite_encrypt L rnd b h raw = Ok out \<and> sealed h payload out (suite_decrypt L a out)))"

definition sessions_agree :: "crypto_libs \<Rightarrow> 'k dtls_state \<Rightarrow> 'k dtls_state \<Rightarrow> bool" where
  "sessions_agree L s c \<longleftrightarrow> st_master_secret s = st_master_secret c \<and> (\<exists>cs ca sa. st_cipher_suite c = Some (cs\<lparr>cs_cipher := ca\<rparr>)
     \<and> st_cipher_suite s = Some (cs\<lparr>cs_cipher := sa\<rparr>) \<and> understand_each_other L ca sa)"

lemma suites_understand:
  assumes "crypto_contract L" and "suite_init L sc ms cr sr True = Ok a" and "suite_init L sc ms cr sr False = Ok b"
  shows "understand_each_other L a b"
  unfolding understand_each_other_def
  using suite_roundtrip [OF assms(1), where sc = sc and ms = ms and cr = cr and sr = sr and c = True]
    suite_roundtrip [OF assms(1), where sc = sc and ms = ms and cr = cr and sr = sr and c = False] assms(2,3)
  by fastforce

text \<open>What the client does with flight 4: it reads it and answers with flight 5.\<close>

lemma flight4_sendable:
  assumes "length (random_bytes (st_local_random s)) = RANDOM_BYTES_LENGTH" and "sendable (MsgCertificate (cert_certificate cert))"
    and "sendable (MsgServerKeyExchange ske)" and "sendable (MsgCertificateRequest (server_request cfg))"
  shows "list_all sendable (flight4_messages cfg (on_wire s) cert ske)"
  using hello_sendable [OF assms(1)] assms(2-4) by (simp add: flight4_messages_def sendable_def)

lemma exchange_selected:
  assumes "hellos_only T"
  shows "\<exists>n. select_item (rule HT_ServerKeyExchange 0 False False) None (T @ items_from False 0 k (flight4_messages cfg s cert ske))
    = Some (message_item False 0 n (MsgServerKeyExchange ske))"
  using assms by (auto simp: select_item_append hellos_select flight4_messages_def)

lemma flight4_read:
  fixes s c :: "'k dtls_state"
  assumes h: "hellos_exchanged gs scfg ccfg T s c" and kx: "key_agreement A gs gc"
    and cfg: "cfg_local_psk_callback ccfg = None" "cfg_initial_epoch ccfg = 0"
    and send: "sendable (MsgCertificate (cert_certificate cert))" "sendable (MsgServerKeyExchange ske)"
      "sendable (MsgCertificateRequest (server_request scfg))"
    and ske: "ske = server_exchange s (elliptic_curve_keypair gs (st_named_curve s)) alg signature"
  shows "leads_to Flight5 (flight3_parse A gc ccfg (T @ items_from False 0 (word_of_int (st_handshake_send_sequence s))
    (flight4_messages scfg s cert ske)) c) = Some (client_ready A gs gc scfg (on_wire s) cert c)"
proof -
  let ?C = "T @ items_from False 0 (word_of_int (st_handshake_send_sequence s)) (flight4_messages scfg s cert ske)"
  from h obtain cs where h: "hellos_only T" "length (random_bytes (st_local_random s)) = RANDOM_BYTES_LENGTH"
    "\<forall>i \<in> set T. ci_typ i = HT_HelloVerifyRequest \<longrightarrow> numbered_otherwise (st_handshake_recv_sequence c) i"
    "st_handshake_send_sequence s = st_handshake_recv_sequence c" "st_named_curve s \<noteq> NC_Unsupported"
    "st_cipher_suite s = Some cs" "suite_agreed ccfg cs" "ems_agreed scfg ccfg (st_extended_master_secret s)"
    "srtp_agreed ccfg (st_srtp_protection_profile s)" "st_srtp_protection_profile c = Srtp_Unsupported"
    "\<not> st_extended_master_secret c" "\<not> st_remote_requested_certificate c"
    unfolding hellos_exchanged_def by blast
  have "\<forall>i \<in> set ?C. ci_typ i = HT_HelloVerifyRequest \<longrightarrow> numbered_otherwise (st_handshake_recv_sequence c) i"
    using h(3) by (auto simp: flight4_messages_def)
  moreover have "same_view ?C (T @ items_from False 0 (word_of_int (st_handshake_recv_sequence c)) (flight4_messages scfg (on_wire s) cert ske))"
    unfolding flight4_on_wire h(4) by (simp add: same_view_def)
  moreover have "ske = server_exchange (on_wire s) (elliptic_curve_keypair gs (st_named_curve (on_wire s))) alg signature"
    using ske by (simp add: server_exchange_def)
  ultimately show ?thesis
    using flight3_reads [OF h(1) flight4_sendable [OF h(2) send]] cfg kx h(5-12) by (simp add: flight3_skips)
qed

text \<open>The transcript that both sides hash for the master secret, and the client signs.\<close>

lemma transcripts_agree:
  assumes "hellos_only T"
  shows "pull_and_merge (session_hash_rules 0) (answered T k sms j (key_messages asked cert pk @ proof_messages asked cert cv))
      = pull_and_merge (session_hash_rules 0) (T @ items_from False 0 k sms) @ merged_bytes j (key_messages asked cert pk)"
    and "session_hash sha 0 [] (answered T k sms j (key_messages asked cert pk @ proof_messages asked cert cv))
      = session_hash sha 0 (merged_bytes j (key_messages asked cert pk)) (T @ items_from False 0 k sms)"
proof -
  have "pr_is_client (rule t e True opt) \<noteq> False" for t e opt by (simp add: rule_def)
  then have "select_item (rule t 0 True False) None (T @ items_from False 0 k sms) = None" if "t \<notin> {HT_ClientHello, HT_HelloVerifyRequest}" for t
    using that by (simp add: select_item_append hellos_select [OF assms] select_items_other)
  then show merge: "pull_and_merge (session_hash_rules 0) (answered T k sms j (key_messages asked cert pk @ proof_messages asked cert cv))
      = pull_and_merge (session_hash_rules 0) (T @ items_from False 0 k sms) @ merged_bytes j (key_messages asked cert pk)"
    using transcript_extends [of "T @ items_from False 0 k sms"] by (simp add: answered_def)
  show "session_hash sha 0 [] (answered T k sms j (key_messages asked cert pk @ proof_messages asked cert cv))
      = session_hash sha 0 (merged_bytes j (key_messages asked cert pk)) (T @ items_from False 0 k sms)"
    using merge by (simp add: session_hash_def pull_and_merge_def)
qed

lemma certified_chain: "certified A d \<Longrightarrow> signs_with (key_kind (cert_private_key d)) alg \<Longrightarrow> cert_certificate d \<noteq> []"
  by (auto simp: certified_def verify_signature_def)

lemma flight5_sent:
  fixes s c :: "'k dtls_state"
  assumes L: "mac_contract L" and h: "hellos_exchanged gs scfg ccfg T s c" and kx: "key_agreement A gs gc"
    and cfg: "cfg_local_psk_callback ccfg = None" "cfg_initial_epoch ccfg = 0" "cfg_initial_epoch scfg = 0"
    and ske: "ske = server_exchange s (elliptic_curve_keypair gs (st_named_curve s)) alg signature" "sendable (MsgServerKeyExchange ske)"
      "scheme_listed ccfg alg"
      "verify_signature A (value_key_message (random_marshal (st_local_random c)) (random_marshal (st_local_random s))
        (fst (gs (st_named_curve s))) (st_named_curve s)) alg signature (cert_certificate scert) (cfg_insecure_verification ccfg) = Ok ()"
    and certs: "server_certificate_fits A scfg ccfg scert" "client_certificate_fits A scfg ccfg ccert"
  defines "k \<equiv> word_of_int (st_handshake_send_sequence s)" and "j \<equiv> word_of_int (st_handshake_recv_sequence s)"
    and "sms \<equiv> flight4_messages scfg s scert ske" and "pk \<equiv> fst (gc (st_named_curve s))"
    and "pms \<equiv> sl_diffie_hellman A (st_named_curve s) (snd (gs (st_named_curve s))) (fst (gc (st_named_curve s)))"
  obtains cs ms a cv v c' where
    "st_cipher_suite s = Some cs" "\<not> suite_is_initialized (cs_cipher cs)"
    "derive_master_secret L (st_extended_master_secret s) pms (session_hash (cl_sha256 L) 0 []
       (answered T k sms j (key_messages (asks scfg) ccert pk @ proof_messages (asks scfg) ccert cv)))
      (random_marshal (st_remote_random s)) (random_marshal (st_local_random s)) = Ok ms"
    "suite_init L (cs_cipher cs) ms (random_marshal (st_remote_random s)) (random_marshal (st_local_random s)) True = Ok a"
    "generated (flight5_generate L A gc ccfg (T @ items_from False 0 k sms) (client_ready A gs gc scfg (on_wire s) scert c)) = Some (c',
      numbered_packets j (key_messages (asks scfg) ccert pk @ proof_messages (asks scfg) ccert cv) @ [cipher_spec_packet, finished_packet v])"
    "st_master_secret c' = ms" "st_cipher_suite c' = Some (cs\<lparr>cs_cipher := a\<rparr>)" "st_peer_certificates c' = cert_certificate scert"
    "st_handshake_send_sequence c' = st_handshake_recv_sequence s" "length v = 12"
    "word_of_int (st_handshake_recv_sequence c') = k + word_of_nat (length sms)"
    "sendable (MsgCertificateVerify cv)"
    "vouched A scfg (answered T k sms j (key_messages (asks scfg) ccert pk @ proof_messages (asks scfg) ccert cv)) ccert cv"
proof -
  let ?c = "client_ready A gs gc scfg (on_wire s) scert c" and ?curve = "st_named_curve s"
  from h obtain cs where h: "hellos_only T" "?curve \<noteq> NC_Unsupported" "st_cipher_suite s = Some cs" "suite_agreed ccfg cs"
    "st_handshake_send_sequence s = st_handshake_recv_sequence c" "st_handshake_send_sequence c = st_handshake_recv_sequence s"
    "random_marshal (st_remote_random s) = random_marshal (st_local_random c)" "st_local_verify_data c = []"
    unfolding hellos_exchanged_def by blast
  have fresh: "\<not> suite_is_initialized (cs_cipher cs)" using h(4) fresh_suite by (auto simp: suite_agreed_def)
  from certs(2) obtain calg where calg: "uses_certificate A ccfg ccert calg" "sendable (MsgCertificate (chain_of ccert))" "accepts_client scfg ccert"
    "\<And>d. ccert = Some d \<Longrightarrow> signs_with (key_kind (cert_private_key d)) calg \<and> scheme_listed scfg calg"
    unfolding client_certificate_fits_def by blast
  have c: "st_local_keypair ?c = Some (elliptic_curve_keypair gc ?curve)" "st_cipher_suite ?c = Some cs" "st_local_verify_data ?c = []"
    "random_marshal (st_local_random ?c) = random_marshal (st_remote_random s)" "random_marshal (st_remote_random ?c) = random_marshal (st_local_random s)"
    "st_peer_certificates ?c = cert_certificate scert" "st_remote_requested_certificate ?c = asks scfg" "st_pre_master_secret ?c = pms"
    "st_extended_master_secret ?c = st_extended_master_secret s" "st_handshake_send_sequence ?c = st_handshake_recv_sequence s"
    "st_handshake_recv_sequence ?c = st_handshake_send_sequence s + int (length sms)"
    using h by (simp_all add: client_ready_def Let_def pms_def sms_def flight4_messages_def)
  have pk: "length (kp_public_key (elliptic_curve_keypair gc ?curve)) \<in> {32..97}" using kx h(2) by (simp add: key_agreement_def)
  obtain n where sel: "select_item (rule HT_ServerKeyExchange (cfg_initial_epoch ccfg) False False) None (T @ items_from False 0 k sms)
      = Some (message_item False 0 n (MsgServerKeyExchange ske))"
    using exchange_selected [OF h(1), of k scfg s scert ske] cfg(2) unfolding sms_def by auto
  have srv: "verify_server A ccfg (random_marshal (st_local_random ?c)) (random_marshal (st_remote_random ?c)) ske (st_peer_certificates ?c) = Ok ()"
    unfolding c using certs(1) ske h(7) by (intro verify_server_accepts) (auto simp: server_certificate_fits_def server_exchange_def)
  obtain ms a sg v c' where a: "derive_master_secret L (st_extended_master_secret ?c) (st_pre_master_secret ?c) (session_hash (cl_sha256 L) (cfg_initial_epoch ccfg)
        (merged_bytes j (key_messages (asks scfg) ccert pk)) (T @ items_from False 0 k sms)) (random_marshal (st_local_random ?c)) (random_marshal (st_remote_random ?c)) = Ok ms"
    "suite_init L (cs_cipher cs) ms (random_marshal (st_local_random ?c)) (random_marshal (st_remote_random ?c)) True = Ok a"
    "flight5_generate L A gc ccfg (T @ items_from False 0 k sms) ?c = (c', Ok (numbered_packets j (key_messages (asks scfg) ccert pk
       @ proof_messages (asks scfg) ccert \<lparr>cv_algorithm = calg, cv_signature = sg\<rparr>) @ [cipher_spec_packet, finished_packet v]))"
    "st_master_secret c' = ms" "st_cipher_suite c' = Some (cs\<lparr>cs_cipher := a\<rparr>)" "st_handshake_recv_sequence c' = st_handshake_recv_sequence ?c"
    "st_handshake_send_sequence c' = st_handshake_send_sequence ?c" "st_peer_certificates c' = st_peer_certificates ?c" "length v = 12"
    "sendable (MsgCertificateVerify \<lparr>cv_algorithm = calg, cv_signature = sg\<rparr>)"
    "\<And>d. ccert = Some d \<Longrightarrow> signs_with (key_kind (cert_private_key d)) calg
      \<Longrightarrow> verify_signature A (pull_and_merge (session_hash_rules (cfg_initial_epoch ccfg)) (T @ items_from False 0 k sms)
        @ merged_bytes j (key_messages (asks scfg) ccert pk)) calg sg (cert_certificate d) (cfg_insecure_verification scfg) = Ok ()"
    using client_answers [OF L cfg(1) calg(1) c(1) pk calg(2) sel ske(2) srv c(2) fresh c(3)]
    unfolding c(7,10) j_def [symmetric] keypair_fields pk_def [symmetric] by metis
  have "cert_certificate d \<noteq> []" if "ccert = Some d" for d
    using that calg(1) calg(4) [OF that] certified_chain by (auto simp: uses_certificate_def split: if_splits)
  then have "vouched A scfg (answered T k sms j (key_messages (asks scfg) ccert pk @ proof_messages (asks scfg) ccert \<lparr>cv_algorithm = calg, cv_signature = sg\<rparr>)) ccert
      \<lparr>cv_algorithm = calg, cv_signature = sg\<rparr>"
    using calg(3,4) a(11) cfg(2,3) by (simp add: vouched_def transcripts_agree(1) [OF h(1)])
  with that [OF h(3) fresh, of "\<lparr>cv_algorithm = calg, cv_signature = sg\<rparr>" ms a c' v] a c cfg(2) show ?thesis
    by (simp add: transcripts_agree(2) [OF h(1)] k_def)
qed

lemma finished_sendable: "length v = 12 \<Longrightarrow> sendable (MsgFinished v)"
  by (simp add: sendable_def)

lemma flight5_read:
  fixes s :: "'k dtls_state" and k :: u16 and sms :: "handshake_message list" and n :: int and sg :: "byte list"
  assumes L: "mac_contract L" and cfg: "cfg_local_psk_callback cfg = None" "cfg_initial_epoch cfg = 0" and T: "hellos_only T"
    and kx: "key_agreement A gs gc" "st_named_curve s \<noteq> NC_Unsupported"
      "st_local_keypair s = Some (elliptic_curve_keypair gs (st_named_curve s))"
    and suite: "st_cipher_suite s = Some cs" "\<not> suite_is_initialized (cs_cipher cs)" and peer: "st_peer_certificates s = []"
    and send: "sendable (MsgCertificate (chain_of cert))" "sendable (MsgCertificateVerify cv)" "length v = 12"
  defines "pk \<equiv> fst (gc (st_named_curve s))"
    and "pms \<equiv> sl_diffie_hellman A (st_named_curve s) (snd (gs (st_named_curve s))) (fst (gc (st_named_curve s)))"
  defines "cms \<equiv> key_messages (asks cfg) cert pk @ proof_messages (asks cfg) cert cv"
  defines "S2 \<equiv> answered T k sms (word_of_int (st_handshake_recv_sequence s)) cms"
    and "s2 \<equiv> s\<lparr>st_local_key_signature := sg, st_handshake_send_sequence := n\<rparr>"
  assumes ms: "derive_master_secret L (st_extended_master_secret s) pms (session_hash (cl_sha256 L) 0 [] S2)
      (random_marshal (st_remote_random s)) (random_marshal (st_local_random s)) = Ok ms"
    and vouched: "vouched A cfg S2 cert cv"
  obtains s' b where
    "suite_init L (cs_cipher cs) ms (random_marshal (st_remote_random s)) (random_marshal (st_local_random s)) False = Ok b"
    "leads_to Flight6 (flight4_parse L A cfg (\<lambda>_ c. Ok (c @ [message_item True 1
      (word_of_int (st_handshake_recv_sequence s + int (length cms))) (MsgFinished v)])) S2 s2) = Some s'"
    "st_master_secret s' = ms" "st_cipher_suite s' = Some (cs\<lparr>cs_cipher := b\<rparr>)" "st_local_verify_data s' = st_local_verify_data s"
    "st_peer_certificates s' = (if asks cfg then chain_of cert else [])" "st_handshake_send_sequence s' = n"
proof -
  have f: "st_handshake_recv_sequence s2 = st_handshake_recv_sequence s" "st_extended_master_secret s2 = st_extended_master_secret s"
    "st_remote_random s2 = st_remote_random s" "st_local_random s2 = st_local_random s" "st_local_verify_data s2 = st_local_verify_data s"
    "st_handshake_send_sequence s2 = n"
    by (simp_all add: s2_def)
  have s2: "st_cipher_suite s2 = Some cs" "st_local_keypair s2 = Some (elliptic_curve_keypair gs (st_named_curve s))" "st_peer_certificates s2 = []"
    using suite(1) kx(3) peer by (simp_all add: s2_def)
  have pk: "list_all sendable (key_messages (asks cfg) cert pk)"
    using kx(1,2) send(1) by (intro key_messages_sendable) (simp_all add: key_agreement_def pk_def)
  have pms: "prf_pre_master_secret A pk (kp_private_key (elliptic_curve_keypair gs (st_named_curve s)))
      (kp_curve (elliptic_curve_keypair gs (st_named_curve s))) = Ok pms"
    using pre_master_secret_Ok(1) [OF kx(1,2)] by (simp add: pk_def pms_def)
  note * = server_completes [OF L cfg T pk send(2) finished_sendable [OF send(3)] s2(1) suite(2) s2(2) pms s2(3),
      of k sms, unfolded f, folded cms_def, folded S2_def, OF ms vouched]
  show ?thesis
    by (rule *) (rule that, simp_all)
qed

lemma answer_split:
  "filter (\<lambda>i. ci_epoch i = 0) (items_from c 0 n ms) = items_from c 0 n ms" "filter (\<lambda>i. ci_epoch i \<noteq> 0) (items_from c 0 n ms) = []"
  by (induction ms arbitrary: n; simp)+

lemma no_server_finished:
  assumes "hellos_only T"
  shows "select_item (rule HT_Finished 1 False False) None (T @ items_from False 0 k (flight4_messages cfg s cert ske)
    @ items_from True 0 j cms @ [message_item True 1 n m]) = None"
proof -
  have "select_item (rule HT_Finished 1 False False) x (items_from True 0 j cms) = x" for x
    by (rule select_items_other) (simp add: rule_def)
  then show ?thesis using assms by (auto simp: select_item_append hellos_select flight4_messages_def)
qed

text \<open>
  Two sides whose configurations and certificates fit, and who have exchanged their hellos, complete the
  handshake: every flight is generated and read, whatever suite, curve and client authentication is in
  force, and at the end both have the same master secret, ciphers that open each other's records, each
  the other's certificates (the server none when it asked for none), and both send in the protected epoch.
  The cryptographic functions are only assumed to do their job: key agreement is symmetric, signatures
  of certified keys verify, and decryption inverts encryption.
\<close>

lemma key_exchange_completes:
  assumes "crypto_contract L" and "key_agreement A gs gc"
    and "hellos_exchanged gs scfg ccfg T s c"
    and "server_certificate_fits A scfg ccfg scert" and "client_certificate_fits A scfg ccfg ccert"
    and "sendable (MsgCertificateRequest (server_request scfg))"
    and "cfg_local_psk_callback scfg = None" and "cfg_initial_epoch scfg = 0"
    and "cfg_local_psk_callback ccfg = None" and "cfg_initial_epoch ccfg = 0"
  shows "\<exists>s' c'. key_exchange L A gc scfg ccfg T s c = Some (s', c') \<and> sessions_agree L s' c'
    \<and> st_peer_certificates c' = cert_certificate scert
    \<and> st_peer_certificates s' = (if asks scfg then chain_of ccert else [])
    \<and> st_local_epoch s' = 1 \<and> st_local_epoch c' = 1"
proof -
  let ?curve = "st_named_curve s" and ?k = "word_of_int (st_handshake_send_sequence s) :: u16" and ?j = "word_of_int (st_handshake_recv_sequence s) :: u16"
  let ?pk = "fst (gc ?curve)" and ?pms = "sl_diffie_hellman A ?curve (snd (gs ?curve)) (fst (gc ?curve))"
  have L: "mac_contract L" using assms(1) by (simp add: crypto_contract_def)
  have h: "hellos_only T" "?curve \<noteq> NC_Unsupported" "st_local_keypair s = Some (elliptic_curve_keypair gs ?curve)" "st_peer_certificates s = []"
    "st_local_verify_data s = []"
    using assms(3) by (simp_all add: hellos_exchanged_def)
  obtain alg signature where f4: "generated (flight4_generate A scfg s) = Some (s\<lparr>st_local_key_signature := signature\<rparr>,
      map plain_packet (flight4_messages scfg s scert (server_exchange s (elliptic_curve_keypair gs ?curve) alg signature)))"
    "sendable (MsgServerKeyExchange (server_exchange s (elliptic_curve_keypair gs ?curve) alg signature))" "scheme_listed ccfg alg"
    "verify_signature A (value_key_message (random_marshal (st_local_random c)) (random_marshal (st_local_random s))
      (fst (gs ?curve)) ?curve) alg signature (cert_certificate scert) (cfg_insecure_verification ccfg) = Ok ()"
    using flight4_sent [OF assms(3,4,2,7)] .
  define ske where "ske = server_exchange s (elliptic_curve_keypair gs ?curve) alg signature"
  define sms where "sms = flight4_messages scfg s scert ske"
  let ?s = "s\<lparr>st_local_key_signature := signature, st_handshake_send_sequence := st_handshake_send_sequence s + int (length sms)\<rparr>"
  have cert: "sendable (MsgCertificate (cert_certificate scert))" "sendable (MsgCertificate (chain_of ccert))"
    using assms(4,5) by (simp_all add: server_certificate_fits_def client_certificate_fits_def)
  note f3 = flight4_read [OF assms(3,2,9,10) cert(1) f4(2) [folded ske_def] assms(6) ske_def, folded sms_def]
  obtain cs ms a cv v c' where f5: "st_cipher_suite s = Some cs" "\<not> suite_is_initialized (cs_cipher cs)"
    "derive_master_secret L (st_extended_master_secret s) ?pms (session_hash (cl_sha256 L) 0 []
       (answered T ?k sms ?j (key_messages (asks scfg) ccert ?pk @ proof_messages (asks scfg) ccert cv)))
      (random_marshal (st_remote_random s)) (random_marshal (st_local_random s)) = Ok ms"
    "suite_init L (cs_cipher cs) ms (random_marshal (st_remote_random s)) (random_marshal (st_local_random s)) True = Ok a"
    "generated (flight5_generate L A gc ccfg (T @ items_from False 0 ?k sms) (client_ready A gs gc scfg (on_wire s) scert c)) = Some (c',
      numbered_packets ?j (key_messages (asks scfg) ccert ?pk @ proof_messages (asks scfg) ccert cv) @ [cipher_spec_packet, finished_packet v])"
    "st_master_secret c' = ms" "st_cipher_suite c' = Some (cs\<lparr>cs_cipher := a\<rparr>)" "st_peer_certificates c' = cert_certificate scert"
    "st_handshake_send_sequence c' = st_handshake_recv_sequence s" "length v = 12"
    "word_of_int (st_handshake_recv_sequence c') = ?k + word_of_nat (length sms)" "sendable (MsgCertificateVerify cv)"
    "vouched A scfg (answered T ?k sms ?j (key_messages (asks scfg) ccert ?pk @ proof_messages (asks scfg) ccert cv)) ccert cv"
    using flight5_sent [OF L assms(3,2,9,10,8) ske_def f4(2) [folded ske_def] f4(3,4) assms(4,5), folded sms_def] .
  define cms where "cms = key_messages (asks scfg) ccert ?pk @ proof_messages (asks scfg) ccert cv"
  let ?fin = "message_item True 1 (word_of_int (st_handshake_recv_sequence s + int (length cms))) (MsgFinished v)"
  obtain s' b where f6: "suite_init L (cs_cipher cs) ms (random_marshal (st_remote_random s)) (random_marshal (st_local_random s)) False = Ok b"
    "leads_to Flight6 (flight4_parse L A scfg (\<lambda>_ c. Ok (c @ [?fin])) (answered T ?k sms ?j cms) ?s) = Some s'"
    "st_master_secret s' = ms" "st_cipher_suite s' = Some (cs\<lparr>cs_cipher := b\<rparr>)" "st_local_verify_data s' = st_local_verify_data s"
    "st_peer_certificates s' = (if asks scfg then chain_of ccert else [])"
    "st_handshake_send_sequence s' = st_handshake_send_sequence s + int (length sms)"
    using flight5_read [OF L assms(7,8) h(1) assms(2) h(2,3) f5(1,2) h(4) cert(2) f5(12,10,3,13)] unfolding cms_def .
  let ?T = "T @ items_from False 0 ?k sms @ items_from True 0 ?j cms @ [?fin]"
  obtain w where w: "flight6_generate L scfg ?T s' = (s'\<lparr>st_local_verify_data := w\<rparr>, Ok [cipher_spec_packet, finished_packet w])"
    "prf_verify_data_server L ms (pull_and_merge (finished_rules 0) ?T) = Ok w" "length w = 12"
    using server_finishes [OF L, of s' scfg ?T] f6(3,4,5) h(5) assms(8) by auto
  let ?c = "c'\<lparr>st_handshake_send_sequence := st_handshake_recv_sequence s + int (length cms) + 1, st_local_epoch := 1\<rparr>"
  have f7: "flight5_parse L ccfg (?T @ [message_item False 1 (word_of_int (st_handshake_send_sequence s + int (length sms))) (MsgFinished w)]) ?c = (?c, Ok Flight5)"
    using f5(6,7,11) w(2) assms(10) no_server_finished [OF h(1)] finished_sendable [OF w(3)]
    by (intro client_accepts [where S = ?T]) (simp_all add: same_view_def sms_def)
  note sent = sent_plain sent_finished [where ms = "[]", simplified] sent_finished
  have "key_exchange L A gc scfg ccfg T s c = Some (s'\<lparr>st_local_verify_data := w, st_handshake_send_sequence := st_handshake_send_sequence s + int (length sms) + 1,
      st_local_epoch := 1\<rparr>, ?c)"
    using f4(1) f3 f5(5,9) f6(2,7) w(1) f7
    by (simp add: key_exchange_def ske_def [symmetric] sms_def [symmetric] cms_def [symmetric] sent Let_def answer_split answered_def)
  moreover have "sessions_agree L (s'\<lparr>st_local_verify_data := w, st_handshake_send_sequence := st_handshake_send_sequence s + int (length sms) + 1,
      st_local_epoch := 1\<rparr>) ?c"
    using suites_understand [OF assms(1) f5(4) f6(1)] f6(3,4) f5(6,7) unfolding sessions_agree_def by auto
  ultimately show ?thesis using f6(6) f5(8) by simp
qed

end
