(* ===== verification/Dtls_Handshake.thy ===== *)
theory Dtls_Handshake
  imports Dtls_Key_Exchange
begin

text \<open>
  A whole handshake: every flight of a client and a server, from the first hello to the second Finished,
  over a network that delivers what is sent. The theory shows that it is completed, from fresh states,
  whenever the two configurations fit.
\<close>

section \<open>The exchange of hellos\<close>

text \<open>
  Flights 1, 0, 2, 1, 3 and 2: the client's hello, the server's cookie and the hello with the cookie. The
  result is the transcript and the two states. \<open>rnd\<close> gives the random bytes of the cookie, \<open>lrs\<close> and
  \<open>lrc\<close> are the random values of the two sides.
\<close>

definition cookie_exchange :: "'k sign_libs \<Rightarrow> (named_curve \<Rightarrow> byte list \<times> 'k) \<Rightarrow> (named_curve \<Rightarrow> byte list \<times> 'k)
    \<Rightarrow> (nat \<Rightarrow> byte list) \<Rightarrow> handshake_random \<Rightarrow> handshake_random \<Rightarrow> handshake_config \<Rightarrow> handshake_config
    \<Rightarrow> 'k dtls_state \<Rightarrow> 'k dtls_state \<Rightarrow> (handshake_cache \<times> 'k dtls_state \<times> 'k dtls_state) option" where
  "cookie_exchange A gs gc rnd lrs lrc scfg ccfg s c =
     (case flight1_generate lrc ccfg c of (c, pkts) \<Rightarrow> case flight_sent True pkts c of (c, flight1) \<Rightarrow>
     leads_to Flight2 (flight0_parse gs scfg flight1 (flight0_generate rnd lrs s)) \<bind> (\<lambda>s.
     case flight2_generate s of (s, pkts) \<Rightarrow> case flight_sent False pkts s of (s, flight2) \<Rightarrow>
     leads_to Flight3 (flight1_parse A gc ccfg (flight1 @ flight2) c) \<bind> (\<lambda>c.
     case flight3_generate ccfg c of (c, pkts) \<Rightarrow> case flight_sent True pkts c of (c, flight3) \<Rightarrow>
     leads_to Flight4 (flight2_parse gs scfg (flight1 @ flight2 @ flight3) s) \<bind> (\<lambda>s.
     Some (flight1 @ flight2 @ flight3, s, c)))))"

definition complete_handshake :: "crypto_libs \<Rightarrow> 'k sign_libs \<Rightarrow> (named_curve \<Rightarrow> byte list \<times> 'k) \<Rightarrow> (named_curve \<Rightarrow> byte list \<times> 'k)
    \<Rightarrow> (nat \<Rightarrow> byte list) \<Rightarrow> handshake_random \<Rightarrow> handshake_random \<Rightarrow> handshake_config \<Rightarrow> handshake_config
    \<Rightarrow> 'k dtls_state \<Rightarrow> 'k dtls_state \<Rightarrow> ('k dtls_state \<times> 'k dtls_state) option" where
  "complete_handshake L A gs gc rnd lrs lrc scfg ccfg s c =
     cookie_exchange A gs gc rnd lrs lrc scfg ccfg s c \<bind> (\<lambda>(T, s, c). key_exchange L A gc scfg ccfg T s c)"

text \<open>
  The two configurations have a suite and, where the client asks for one, an SRTP profile in common, agree
  on the extended master secret, and the client's hello is within its length fields.
\<close>

definition hellos_fit :: "handshake_config \<Rightarrow> handshake_config \<Rightarrow> bool" where
  "hellos_fit scfg ccfg \<longleftrightarrow> (\<exists>i \<in> set (cfg_local_cipher_suites ccfg). i \<in> set (cfg_local_cipher_suites scfg))
     \<and> CS_Unsupported \<notin> set (cfg_local_cipher_suites scfg) \<and> Srtp_Unsupported \<notin> set (cfg_local_srtp_protection_profiles scfg)
     \<and> (cfg_local_srtp_protection_profiles ccfg \<noteq> []
         \<longrightarrow> (\<exists>p \<in> set (cfg_local_srtp_protection_profiles ccfg). p \<in> set (cfg_local_srtp_protection_profiles scfg)))
     \<and> (cfg_extended_master_secret scfg = EMS_Require \<longrightarrow> cfg_extended_master_secret ccfg \<noteq> EMS_Disable)
     \<and> (cfg_extended_master_secret ccfg = EMS_Require \<longrightarrow> cfg_extended_master_secret scfg \<noteq> EMS_Disable)
     \<and> length (cfg_local_cipher_suites ccfg) < 32768 \<and> extensions_ok (hello_extensions ccfg)"

text \<open>A state in which nothing of a handshake has happened.\<close>

definition fresh :: "'k dtls_state \<Rightarrow> bool" where
  "fresh st \<longleftrightarrow> st_handshake_send_sequence st = 0 \<and> st_handshake_recv_sequence st = 0 \<and> st_local_keypair st = None
     \<and> st_srtp_protection_profile st = Srtp_Unsupported \<and> \<not> st_extended_master_secret st \<and> st_peer_certificates st = []
     \<and> \<not> st_remote_requested_certificate st \<and> st_local_verify_data st = []"

section \<open>The client's hello\<close>

lemma client_hello_on_wire: "message_item is_client e n (MsgClientHello (client_hello_of cfg (on_wire c)))
    = message_item is_client e n (MsgClientHello (client_hello_of cfg c))"
  by (simp add: message_item_def message_bytes_def handshake_marshal_def numbered_message_def handshake_new_def
      client_hello_marshal_def client_hello_size_def client_hello_of_def)

lemma client_hello_sendable:
  assumes "hellos_fit scfg ccfg" and "length (random_bytes (st_local_random c)) = RANDOM_BYTES_LENGTH" and "length (st_cookie c) \<le> 20"
  shows "sendable (MsgClientHello (client_hello_of ccfg (on_wire c)))"
  using assms wire_random_ok [OF assms(2)]
  by (auto simp: sendable_def client_hello_ok_def client_hello_of_def hellos_fit_def default_compression_methods_def
      client_hello_size_def extensions_ok_def RANDOM_BYTES_LENGTH_def)

lemma hello_curve: "cfg_local_psk_callback cfg = None \<Longrightarrow> final_curve (hello_extensions cfg) d = NC_P256"
  by (simp add: hello_extensions_def curve_extensions_def select_curve_def)

lemma hello_profile:
  assumes "hellos_fit scfg ccfg"
  shows "srtp_agreed ccfg (final_profile scfg (hello_extensions ccfg) Srtp_Unsupported)"
proof (cases "cfg_local_srtp_protection_profiles ccfg = []")
  case True
  then show ?thesis by (simp add: hello_extensions_def curve_extensions_def srtp_agreed_def)
next
  case False
  with assms obtain p where p: "find_matching_srtp_profile (cfg_local_srtp_protection_profiles ccfg) (cfg_local_srtp_protection_profiles scfg) = Some p"
    using matching_None [of "cfg_local_srtp_protection_profiles ccfg"] unfolding hellos_fit_def find_matching_srtp_profile_def by fastforce
  with matching_Some have "p \<in> set (cfg_local_srtp_protection_profiles ccfg)" "p \<in> set (cfg_local_srtp_protection_profiles scfg)"
    unfolding find_matching_srtp_profile_def by fast+
  with p False assms show ?thesis by (auto simp: hello_extensions_def curve_extensions_def srtp_agreed_def hellos_fit_def)
qed

lemma hello_ems: "offers_ems (hello_extensions cfg) \<longleftrightarrow> enables_ems cfg"
  by (simp add: hello_extensions_def curve_extensions_def offers_ems_def) auto

lemma hello_accepted:
  assumes "hellos_fit scfg ccfg" and "cfg_local_psk_callback ccfg = None"
  shows "hello_acceptable scfg (client_hello_of ccfg c) st"
  using assms
  by (auto simp: hello_acceptable_def client_hello_of_def hellos_fit_def hello_ems enables_ems_iff hello_extensions_def curve_extensions_def)

text \<open>The server after the first hello.\<close>

definition hello_read :: "handshake_config \<Rightarrow> handshake_config \<Rightarrow> (named_curve \<Rightarrow> byte list \<times> 'k) \<Rightarrow> handshake_random \<Rightarrow> 'k dtls_state \<Rightarrow> bool" where
  "hello_read scfg ccfg gs random s \<longleftrightarrow> st_remote_random s = random \<and> st_named_curve s = NC_P256
     \<and> st_local_keypair s = Some (elliptic_curve_keypair gs NC_P256)
     \<and> (\<exists>cs. st_cipher_suite s = Some cs \<and> suite_agreed ccfg cs)
     \<and> ems_agreed scfg ccfg (st_extended_master_secret s) \<and> srtp_agreed ccfg (st_srtp_protection_profile s)
     \<and> st_peer_certificates s = [] \<and> st_local_verify_data s = [] \<and> st_handshake_recv_sequence s = 1"

lemma hello_suite:
  assumes "hellos_fit scfg ccfg"
  shows "\<exists>cs. st_cipher_suite (with_suite scfg (client_hello_of ccfg c) st) = Some cs \<and> suite_agreed ccfg cs"
proof -
  have "\<exists>s \<in> set (ch_cipher_suites (client_hello_of ccfg c)). s \<in> set (cfg_local_cipher_suites scfg)"
    using assms by (simp add: hellos_fit_def client_hello_of_def)
  then obtain i where i: "find_matching_cipher_suite (ch_cipher_suites (client_hello_of ccfg c)) (cfg_local_cipher_suites scfg) = Some i"
    unfolding suite_found by blast
  with matching_Some have mem: "i \<in> set (cfg_local_cipher_suites ccfg)" "i \<in> set (cfg_local_cipher_suites scfg)"
    unfolding find_matching_cipher_suite_def by (fastforce simp: client_hello_of_def)+
  with assms have "i \<noteq> CS_Unsupported" by (auto simp: hellos_fit_def)
  then obtain cs where "cipher_suite_for_id i = Ok cs" by (cases i) auto
  with i mem cipher_suite_for_id_id [OF this] show ?thesis by (simp add: with_suite_def flight0_suite_def suite_agreed_def)
qed

lemma with_suite_more:
  "st_remote_random (with_suite cfg ch st) = ch_random ch" "st_peer_certificates (with_suite cfg ch st) = st_peer_certificates st"
  "st_local_verify_data (with_suite cfg ch st) = st_local_verify_data st" "st_local_random (with_suite cfg ch st) = st_local_random st"
  by (simp_all add: with_suite_def flight0_suite_def split: option.splits outcome.splits)

lemma flight0_reads:
  assumes "hellos_fit scfg ccfg" and "cfg_local_psk_callback ccfg = None" and "cfg_initial_epoch scfg = 0" and "fresh s"
    and "length (random_bytes (st_local_random c)) = RANDOM_BYTES_LENGTH" and "st_cookie c = []"
  obtains s' where "leads_to Flight2 (flight0_parse gs scfg [message_item True 0 0 (MsgClientHello (client_hello_of ccfg c))] (flight0_generate rnd lrs s)) = Some s'"
    "hello_read scfg ccfg gs (wire_random (st_local_random c)) s'" "st_cookie s' = rnd COOKIE_LENGTH" "st_local_random s' = lrs"
proof -
  let ?ch = "client_hello_of ccfg (on_wire c)" and ?s = "(flight0_generate rnd lrs s)\<lparr>st_handshake_recv_sequence := 1\<rparr>"
  let ?es = "hello_extensions ccfg" and ?T = "[message_item True 0 0 (MsgClientHello ?ch)]"
  let ?xs = "[(rule HT_ClientHello 0 True False, Some (MsgClientHello ?ch))]"
  have p: "pulled ?T 0 ?xs" using client_hello_sendable [OF assms(1,5)] assms(6) by auto
  obtain msgs where m: "full_pull_map ?T 0 (map fst ?xs) = Ok (0 + int (length (filter (\<lambda>x. snd x \<noteq> None) ?xs)), msgs)"
    "\<And>r m. (r, m) \<in> set ?xs \<Longrightarrow> msgs (pr_typ r) = m"
    using pull_pulled [OF p] by auto
  have r: "client_hello_rule scfg = rule HT_ClientHello 0 True False" using assms(3) by (simp add: client_hello_rule_def rule_def)
  have parse: "flight0_parse gs scfg ?T (flight0_generate rnd lrs s) = flight0_hello gs scfg ?ch ?s"
    using m(1) m(2) [of "rule HT_ClientHello 0 True False"] by (simp add: flight0_parse_def r)
  have s: "st_local_keypair ?s = None" "st_srtp_protection_profile ?s = Srtp_Unsupported" "\<not> st_extended_master_secret ?s"
    "st_peer_certificates ?s = []" "st_local_verify_data ?s = []" "st_cookie ?s = rnd COOKIE_LENGTH" "st_local_random ?s = lrs"
    using assms(4) by (simp_all add: flight0_generate_def fresh_def)
  let ?s1 = "(applied scfg ?es (with_suite scfg ?ch ?s))\<lparr>st_local_keypair := Some (elliptic_curve_keypair gs NC_P256)\<rparr>"
  have es: "ch_extensions ?ch = ?es" by (simp add: client_hello_of_def)
  have "flight0_hello gs scfg ?ch ?s = (?s1, Ok Flight2)"
    unfolding flight0_hello_ok [OF hello_accepted [OF assms(1,2)]] es
    using s(1) by (simp add: flight0_keypair_def applied_frame with_suite_frame hello_curve [OF assms(2)] generate_keypair_def)
  then have "leads_to Flight2 (flight0_parse gs scfg [message_item True 0 0 (MsgClientHello (client_hello_of ccfg c))] (flight0_generate rnd lrs s)) = Some ?s1"
    using parse unfolding client_hello_on_wire by simp
  moreover have "hello_read scfg ccfg gs (wire_random (st_local_random c)) ?s1"
    using hello_suite [OF assms(1), of "on_wire c" ?s] hello_profile [OF assms(1)] s assms(1)
    by (auto simp: hello_read_def applied_def with_suite_frame with_suite_more hello_curve [OF assms(2)] hello_ems ems_agreed_def enables_ems_iff
        client_hello_of_def hellos_fit_def)
  ultimately show ?thesis using that [of ?s1] s(6,7) by (simp add: applied_def with_suite_frame with_suite_more)
qed

section \<open>The cookie\<close>

definition verify_request :: "byte list \<Rightarrow> handshake_message" where
  "verify_request cookie = MsgHelloVerifyRequest \<lparr>hvr_version = PROTOCOL_VERSION1_2, hvr_cookie = cookie\<rparr>"

lemma verify_request_sendable: "length cookie \<le> 20 \<Longrightarrow> sendable (verify_request cookie)"
  by (simp add: verify_request_def sendable_def hello_verify_request_size_def)

lemma request_number: "length cookie \<le> 20 \<Longrightarrow> numbered_otherwise 1 (message_item False 0 0 (verify_request cookie))"
  using verify_request_sendable [of cookie] unfolding numbered_otherwise_def by (metis of_int_1 zero_neq_one)

lemma flight2_packets: "flight2_generate s = (s\<lparr>st_handshake_send_sequence := 0\<rparr>, map plain_packet [verify_request (st_cookie s)])"
  by (simp add: flight2_generate_def verify_request_def plain_packet_def)

lemma flight1_reads:
  assumes "length cookie \<le> 20" and "cfg_initial_epoch cfg = 0" and "st_handshake_recv_sequence c = 0"
  shows "leads_to Flight3 (flight1_parse A gen cfg [message_item True 0 0 (MsgClientHello ch), message_item False 0 0 (verify_request cookie)] c)
    = Some (c\<lparr>st_cookie := cookie, st_handshake_recv_sequence := 1\<rparr>)"
proof -
  let ?T = "[message_item True 0 0 (MsgClientHello ch), message_item False 0 0 (verify_request cookie)]"
  let ?xs = "[(rule HT_HelloVerifyRequest 0 False True, Some (verify_request cookie)), (rule HT_ServerHello 0 False True, None)]"
  have p: "pulled ?T 0 ?xs" using verify_request_sendable [OF assms(1)] by (auto simp: verify_request_def)
  obtain msgs where m: "full_pull_map ?T 0 (map fst ?xs) = Ok (0 + int (length (filter (\<lambda>x. snd x \<noteq> None) ?xs)), msgs)"
    "\<And>r m. (r, m) \<in> set ?xs \<Longrightarrow> msgs (pr_typ r) = m"
    using pull_pulled [OF p] by auto
  have "msgs HT_HelloVerifyRequest = Some (verify_request cookie)" "msgs HT_ServerHello = None"
    using m(2) [of "rule HT_HelloVerifyRequest 0 False True"] m(2) [of "rule HT_ServerHello 0 False True"] by simp_all
  with m(1) assms(2,3) show ?thesis by (simp add: flight1_parse_def flight1_rules_def verify_request_def hello_verify_def)
qed

lemma flight2_reads:
  assumes "sendable (MsgClientHello ch)" and "ch_version ch = PROTOCOL_VERSION1_2" and "ch_cookie ch = st_cookie s" and "st_cookie s \<noteq> []"
    and "cfg_initial_epoch cfg = 0" and "st_handshake_recv_sequence s = 1"
  shows "leads_to Flight4 (flight2_parse gen cfg [message_item True 0 0 (MsgClientHello ch1), message_item False 0 0 (verify_request cookie),
      message_item True 0 1 (MsgClientHello ch)] s) = Some (s\<lparr>st_handshake_recv_sequence := 2\<rparr>)"
proof -
  let ?T = "[message_item True 0 0 (MsgClientHello ch1), message_item False 0 0 (verify_request cookie), message_item True 0 1 (MsgClientHello ch)]"
  let ?xs = "[(rule HT_ClientHello 0 True False, Some (MsgClientHello ch))]"
  have p: "pulled ?T 1 ?xs" using assms(1) by (auto simp: verify_request_def)
  obtain msgs where m: "full_pull_map ?T 1 (map fst ?xs) = Ok (1 + int (length (filter (\<lambda>x. snd x \<noteq> None) ?xs)), msgs)"
    "\<And>r m. (r, m) \<in> set ?xs \<Longrightarrow> msgs (pr_typ r) = m"
    using pull_pulled [OF p] by auto
  have "client_hello_rule cfg = rule HT_ClientHello 0 True False" using assms(5) by (simp add: client_hello_rule_def rule_def)
  with m(1) m(2) [of "rule HT_ClientHello 0 True False"] assms show ?thesis by (simp add: flight2_parse_def flight2_hello_def)
qed

lemma hellos_exchange:
  assumes "hellos_fit scfg ccfg" and "cfg_local_psk_callback ccfg = None" and "cfg_initial_epoch scfg = 0" and "cfg_initial_epoch ccfg = 0"
    and "fresh s" and "fresh c" and "fills rnd"
    and "length (random_bytes lrs) = RANDOM_BYTES_LENGTH" and "length (random_bytes lrc) = RANDOM_BYTES_LENGTH"
  obtains T s' c' where "cookie_exchange A gs gc rnd lrs lrc scfg ccfg s c = Some (T, s', c')" "hellos_exchanged gs scfg ccfg T s' c'"
proof -
  define c1 where "c1 = c\<lparr>st_local_epoch := 0, st_remote_epoch := 0, st_named_curve := DEFAULT_NAMED_CURVE, st_cookie := [], st_local_random := lrc\<rparr>"
  have c1: "st_cookie c1 = []" "st_local_random c1 = lrc" "st_handshake_send_sequence c1 = 0" "st_handshake_recv_sequence c1 = 0"
    "st_local_verify_data c1 = []" "st_srtp_protection_profile c1 = Srtp_Unsupported" "\<not> st_extended_master_secret c1"
    "\<not> st_remote_requested_certificate c1"
    using assms(6) by (simp_all add: c1_def fresh_def)
  have g1: "flight1_generate lrc ccfg c = (c1, map plain_packet [MsgClientHello (client_hello_of ccfg c1)])"
    by (simp add: flight1_generate_def c1_def Let_def)
  obtain s1 where s1: "leads_to Flight2 (flight0_parse gs scfg [message_item True 0 0 (MsgClientHello (client_hello_of ccfg c1))] (flight0_generate rnd lrs s)) = Some s1"
    "hello_read scfg ccfg gs (wire_random lrc) s1" "st_cookie s1 = rnd COOKIE_LENGTH" "st_local_random s1 = lrs"
    using flight0_reads [OF assms(1,2,3,5), of c1] assms(9) c1(1,2) by metis
  have cookie: "length (st_cookie s1) = 20" "st_cookie s1 \<noteq> []"
    using assms(7) s1(3) by (auto simp: fills_def COOKIE_LENGTH_def) (metis COOKIE_LENGTH_def list.size(3) zero_neq_numeral)
  define c2 where "c2 = c1\<lparr>st_handshake_send_sequence := 1, st_cookie := st_cookie s1, st_handshake_recv_sequence := 1\<rparr>"
  define s2 where "s2 = s1\<lparr>st_handshake_send_sequence := 1\<rparr>"
  have f1: "leads_to Flight3 (flight1_parse A gc ccfg [message_item True 0 0 (MsgClientHello (client_hello_of ccfg c1)),
      message_item False 0 0 (verify_request (st_cookie s1))] (c1\<lparr>st_handshake_send_sequence := 1\<rparr>)) = Some c2"
    using flight1_reads [of "st_cookie s1" ccfg "c1\<lparr>st_handshake_send_sequence := 1\<rparr>"] assms(4) cookie(1) c1(4) by (simp add: c2_def)
  have c2: "st_local_random c2 = lrc" "st_cookie c2 = st_cookie s1" "st_handshake_send_sequence c2 = 1"
    using c1 by (simp_all add: c2_def)
  have "sendable (MsgClientHello (client_hello_of ccfg (on_wire c2)))" using client_hello_sendable [OF assms(1), of c2] assms(9) c2 cookie(1) by simp
  from flight2_reads [OF this, of s2 scfg gs "client_hello_of ccfg c1" "st_cookie s1"] cookie(2) c2(2) s1(2) assms(3)
  have f2: "leads_to Flight4 (flight2_parse gs scfg [message_item True 0 0 (MsgClientHello (client_hello_of ccfg c1)),
      message_item False 0 0 (verify_request (st_cookie s1)), message_item True 0 1 (MsgClientHello (client_hello_of ccfg c2))] s2)
      = Some (s2\<lparr>st_handshake_recv_sequence := 2\<rparr>)"
    by (simp add: client_hello_on_wire hello_read_def s2_def) (simp add: client_hello_of_def)
  have g3: "flight3_generate ccfg c2 = (c2, map plain_packet [MsgClientHello (client_hello_of ccfg c2)])"
    by (simp add: flight3_generate_def)
  let ?T = "[message_item True 0 0 (MsgClientHello (client_hello_of ccfg c1)), message_item False 0 0 (verify_request (st_cookie s1)),
    message_item True 0 1 (MsgClientHello (client_hello_of ccfg c2))]"
  have "cookie_exchange A gs gc rnd lrs lrc scfg ccfg s c = Some (?T, s2\<lparr>st_handshake_recv_sequence := 2\<rparr>, c2\<lparr>st_handshake_send_sequence := 2\<rparr>)"
    using s1(1) f1 f2 c1(3) c2(3)
    by (simp add: cookie_exchange_def g1 g3 sent_plain flight2_packets s2_def del: list.map)
  moreover have "hellos_exchanged gs scfg ccfg ?T (s2\<lparr>st_handshake_recv_sequence := 2\<rparr>) (c2\<lparr>st_handshake_send_sequence := 2\<rparr>)"
    using s1(2,4) c1 assms(8) request_number [of "st_cookie s1"] cookie(1)
    by (auto simp: hellos_exchanged_def hellos_only_def hello_read_def s2_def c2_def verify_request_def)
  ultimately show ?thesis by (rule that)
qed

section \<open>The flights in the state machine\<close>

text \<open>
  All flights of a server and of a client, as the state machine runs them: of the flights that the other
  side sends there is none on this side. \<open>drain\<close> is what the reader makes of the packets it has queued.
\<close>

definition later_flights :: "crypto_libs \<Rightarrow> 'k sign_libs \<Rightarrow> ('k dtls_state \<Rightarrow> handshake_cache \<Rightarrow> (handshake_cache, string) outcome)
    \<Rightarrow> handshake_config \<Rightarrow> 'k flight_ops" where
  "later_flights L A drain cfg = \<lparr>
     fo_parse = (\<lambda>f cache st. if f = Flight4 then flight4_parse L A cfg drain cache st else flight6_parse cfg cache st),
     fo_generate = (\<lambda>f cache st. if f = Flight4 then flight4_generate A cfg st else flight6_generate L cfg cache st)\<rparr>"

definition server_flights :: "crypto_libs \<Rightarrow> 'k sign_libs \<Rightarrow> ('k dtls_state \<Rightarrow> handshake_cache \<Rightarrow> (handshake_cache, string) outcome)
    \<Rightarrow> (named_curve \<Rightarrow> byte list \<times> 'k) \<Rightarrow> (nat \<Rightarrow> byte list) \<Rightarrow> handshake_random \<Rightarrow> handshake_config \<Rightarrow> 'k flight_ops" where
  "server_flights L A drain gen rnd lr cfg = server_ops gen cfg rnd lr (later_flights L A drain cfg)"

definition client_flights :: "crypto_libs \<Rightarrow> 'k sign_libs \<Rightarrow> (named_curve \<Rightarrow> byte list \<times> 'k) \<Rightarrow> handshake_random \<Rightarrow> handshake_config
    \<Rightarrow> 'k flight_ops" where
  "client_flights L A gen lr cfg = \<lparr>
     fo_parse = (\<lambda>f cache st. case f of
         Flight1 \<Rightarrow> flight1_parse A gen cfg cache st
       | Flight3 \<Rightarrow> flight3_parse A gen cfg cache st
       | _ \<Rightarrow> flight5_parse L cfg cache st),
     fo_generate = (\<lambda>f cache st. case f of
         Flight1 \<Rightarrow> (case flight1_generate lr cfg st of (st, pkts) \<Rightarrow> (st, Ok pkts))
       | Flight3 \<Rightarrow> (case flight3_generate cfg st of (st, pkts) \<Rightarrow> (st, Ok pkts))
       | _ \<Rightarrow> flight5_generate L A gen cfg cache st)\<rparr>"

lemma flight4_finished_next: "flight4_finished cfg cache sq st = (st', Ok f) \<Longrightarrow> f = Flight6"
  by (auto simp: flight4_finished_def flight4_auth_def Let_def
      split: outcome.splits option.splits handshake_message.splits client_auth_type.splits if_splits)

lemma flight4_parse_next: "flight4_parse L A cfg drain cache st = (st', Ok f) \<Longrightarrow> f = Flight6"
  by (auto simp: flight4_parse_def and_then_Ok split: outcome.splits option.splits handshake_message.splits
      dest!: flight4_finished_next)

lemma flight6_parse_next: "flight6_parse cfg cache st = (st', Ok f) \<Longrightarrow> f = Flight6"
  by (auto simp: flight6_parse_def split: outcome.splits option.splits handshake_message.splits)

lemma later_flights_move_on: "moves_on (later_flights L A drain cfg)"
  by (auto simp: moves_on_def later_flights_def dest: flight4_parse_next flight6_parse_next split: if_splits)

text \<open>
  C24. The cookie exchange keeps a server from being used as an amplifier. However often it is woken, its
  timer fires and whatever its transcript holds: as long as the server has not left flights 0 and 2 it
  has handed over at most one packet for each time the reader woke it, never one on its own account,
  and each is a hello verify request with its cookie or an alert; and it leaves these flights, for good,
  only when a hello in the transcript repeats the cookie.
\<close>

theorem server_no_amplification:
  assumes "hk_flight h0 = Flight0"
    and "handshake_run (server_flights L A drain gen rnd lr cfg) cfg T HS_Preparing h0 s h evs ps"
  shows "if early (hk_flight h)
    then length ps \<le> wakeups evs \<and> (\<forall>p \<in> set ps. cookie_packet (rnd COOKIE_LENGTH) p)
    else \<exists>cache. Woken cache \<in> set evs \<and> hello_repeats cfg (rnd COOKIE_LENGTH) cache"
  using no_amplification_before_cookie [OF later_flights_move_on assms(1) assms(2) [unfolded server_flights_def]] .

theorem server_no_amplification_witness:
  "\<exists>s h ps. handshake_run (server_flights demo_crypto demo_sign (\<lambda>_. Ok) demo_gen (\<lambda>n. replicate n 7) demo_random server_cfg)
      server_cfg (\<lambda>_. Ok ()) HS_Preparing demo_server s h [Woken demo_transcript] ps
    \<and> hk_flight h = Flight2 \<and> s = HS_Sending \<and> length ps \<le> 1"
proof -
  obtain h ps where r: "handshake_run (server_flights demo_crypto demo_sign (\<lambda>_. Ok) demo_gen (\<lambda>n. replicate n 7) demo_random server_cfg)
      server_cfg (\<lambda>_. Ok ()) HS_Preparing demo_server HS_Sending h [Woken demo_transcript] ps"
    "hk_flight h = Flight2" "hk_flight demo_server = Flight0"
    using demo_server_answers [OF later_flights_move_on] unfolding server_flights_def by blast
  with server_no_amplification [OF r(3,1)] show ?thesis by (auto simp: wakeups_def)
qed

section \<open>The whole handshake\<close>

text \<open>
  C4. Two sides whose configurations and certificates fit complete the handshake, from fresh states and over a
  network that delivers what is sent: every flight is generated and read, whatever suite, signature
  scheme, SRTP profile and client authentication is in force, and at the end both sides have the same
  master secret, ciphers that open each other's records, the certificates of the other (the server
  none if it asked for none), and send in the protected epoch. The cryptographic functions are only
  assumed to do their job: key agreement is symmetric, the signatures of certified keys verify, and
  decryption inverts encryption.
\<close>

theorem handshake_completes:
  assumes "crypto_contract L" and "key_agreement A gs gc" and "fills rnd"
    and "length (random_bytes lrs) = RANDOM_BYTES_LENGTH" and "length (random_bytes lrc) = RANDOM_BYTES_LENGTH"
    and "fresh s" and "fresh c" and "hellos_fit scfg ccfg"
    and "server_certificate_fits A scfg ccfg scert" and "client_certificate_fits A scfg ccfg ccert"
    and "sendable (MsgCertificateRequest (server_request scfg))"
    and "cfg_local_psk_callback scfg = None" and "cfg_initial_epoch scfg = 0"
    and "cfg_local_psk_callback ccfg = None" and "cfg_initial_epoch ccfg = 0"
  shows "\<exists>s' c'. complete_handshake L A gs gc rnd lrs lrc scfg ccfg s c = Some (s', c') \<and> sessions_agree L s' c'
    \<and> st_peer_certificates c' = cert_certificate scert
    \<and> st_peer_certificates s' = (if asks scfg then chain_of ccert else [])
    \<and> st_local_epoch s' = 1 \<and> st_local_epoch c' = 1"
proof -
  obtain T s1 c1 where h: "cookie_exchange A gs gc rnd lrs lrc scfg ccfg s c = Some (T, s1, c1)" "hellos_exchanged gs scfg ccfg T s1 c1"
    using hellos_exchange [OF assms(8,14,13,15,6,7,3-5)] .
  from key_exchange_completes [OF assms(1,2) h(2) assms(9-15)] show ?thesis
    by (simp add: complete_handshake_def h(1))
qed

section \<open>Witness\<close>

text \<open>The default configuration on both sides, the server asking for a certificate.\<close>

definition demo_certificate :: dtls_certificate where
  "demo_certificate = \<lparr>cert_certificate = [[48]], cert_private_key = \<lparr>key_kind = Ecdsa256, key_serialized_der = [1]\<rparr>\<rparr>"

lemma demo_agreement: "key_agreement demo_sign demo_gen demo_gen"
  by (simp add: key_agreement_def demo_sign_def demo_gen_def)

lemma demo_certified: "certified demo_sign demo_certificate"
  by (auto simp: certified_def demo_sign_def demo_certificate_def sign_with_def signs_with_def verify_signature_def pick_verify_alg_def)

lemma demo_scheme: "select_signature_scheme (cfg_local_signature_schemes server_cfg) Ecdsa256 = Ok \<lparr>sha_hash = HA_Sha256, sha_signature = SA_Ecdsa\<rparr>"
  by (simp add: server_cfg_def default_signature_schemes_def is_compatible_def)

lemma demo_certificate_used: "get_certificate demo_sign server_cfg (cfg_server_name server_cfg) = Ok demo_certificate"
  using first_certificate_used [of server_cfg demo_sign] by (simp add: server_cfg_def demo_certificate_def)

lemma demo_fits:
  "server_certificate_fits demo_sign server_cfg server_cfg demo_certificate"
  "client_certificate_fits demo_sign server_cfg server_cfg (Some demo_certificate)"
  "hellos_fit server_cfg server_cfg" "sendable (MsgCertificateRequest (server_request server_cfg))" "fresh initial_state"
proof -
  have listed: "scheme_listed server_cfg \<lparr>sha_hash = HA_Sha256, sha_signature = SA_Ecdsa\<rparr>"
    "signs_with Ecdsa256 \<lparr>sha_hash = HA_Sha256, sha_signature = SA_Ecdsa\<rparr>" "key_kind (cert_private_key demo_certificate) = Ecdsa256"
    "cert_certificate demo_certificate = [[48]]"
    by (simp_all add: scheme_listed_def server_cfg_def default_signature_schemes_def signs_with_def demo_certificate_def)
  have accepts: "accepts_server demo_sign server_cfg [[48]]" "accepts_client server_cfg (Some demo_certificate)"
    by (auto simp: accepts_server_def accepts_client_def server_cfg_def)
  show "server_certificate_fits demo_sign server_cfg server_cfg demo_certificate"
    using demo_certificate_used demo_certified demo_scheme listed accepts demo_sendable(1) by (simp add: server_certificate_fits_def)
  have "uses_certificate demo_sign server_cfg (Some demo_certificate) \<lparr>sha_hash = HA_Sha256, sha_signature = SA_Ecdsa\<rparr>"
    using demo_certificate_used demo_certified demo_scheme listed by (simp add: uses_certificate_def) (simp add: server_cfg_def)
  with accepts listed demo_sendable(1) show "client_certificate_fits demo_sign server_cfg server_cfg (Some demo_certificate)"
    unfolding client_certificate_fits_def chain_of_def by auto
  show "hellos_fit server_cfg server_cfg"
    by (auto simp: hellos_fit_def server_cfg_def default_cipher_suites_def new_aes_128_gcm_sha256_def new_aes_256_cbc_sha_def
        setting_engine_profiles_def hello_extensions_def curve_extensions_def enables_ems_def extensions_ok_def extension_size_def
        default_signature_schemes_def)
  show "sendable (MsgCertificateRequest (server_request server_cfg))"
    by (simp add: sendable_def server_request_def server_cfg_def default_signature_schemes_def certificate_request_size_def
        certificate_request_ok_def)
  show "fresh initial_state" by (simp add: fresh_def initial_state_def)
qed

theorem handshake_completes_witness:
  "\<exists>s' c'. complete_handshake demo_crypto demo_sign demo_gen demo_gen (\<lambda>n. replicate n 7) demo_random demo_random
      server_cfg server_cfg initial_state initial_state = Some (s', c')
    \<and> sessions_agree demo_crypto s' c' \<and> st_peer_certificates c' = [[48]] \<and> st_peer_certificates s' = [[48]]"
proof -
  have "fills (\<lambda>n. replicate n 7)" "length (random_bytes demo_random) = RANDOM_BYTES_LENGTH" "cfg_local_psk_callback server_cfg = None"
    "cfg_initial_epoch server_cfg = 0" "asks server_cfg"
    by (simp_all add: fills_def demo_random_def RANDOM_BYTES_LENGTH_def server_cfg_def)
  with handshake_completes [OF demo_crypto_contract demo_agreement _ _ _ demo_fits(5,5,3,1,2,4), of "\<lambda>n. replicate n 7" demo_random demo_random]
  show ?thesis by (auto simp: chain_of_def demo_certificate_def)
qed

text \<open>The client of this handshake: what it has checked when it sends flight 5, and when it is done.\<close>

lemma demo_hellos:
  obtains T and s c :: "nat dtls_state" where "hellos_exchanged demo_gen server_cfg server_cfg T s c"
proof -
  have "fills (\<lambda>n. replicate n 7)" "length (random_bytes demo_random) = RANDOM_BYTES_LENGTH" "cfg_local_psk_callback server_cfg = None"
    "cfg_initial_epoch server_cfg = 0"
    by (simp_all add: fills_def demo_random_def RANDOM_BYTES_LENGTH_def server_cfg_def)
  then show ?thesis
    using hellos_exchange [OF demo_fits(3) _ _ _ demo_fits(5,5), of "\<lambda>n. replicate n 7" demo_random demo_random demo_sign demo_gen] that by metis
qed

theorem server_key_proved_witness:
  "\<exists>cache c c' pkts ske. flight5_generate demo_crypto demo_sign demo_gen server_cfg cache c = (c', Ok pkts)
    \<and> key_exchange_received server_cfg cache ske
    \<and> server_proved demo_sign server_cfg (random_marshal (st_local_random c)) (random_marshal (st_remote_random c)) ske (st_peer_certificates c)"
proof -
  obtain T and s c :: "nat dtls_state" where h: "hellos_exchanged demo_gen server_cfg server_cfg T s c" using demo_hellos .
  have cfg: "cfg_local_psk_callback server_cfg = None" "cfg_initial_epoch server_cfg = 0" and L: "mac_contract demo_crypto"
    using demo_crypto_contract by (simp_all add: server_cfg_def crypto_contract_def)
  obtain alg signature where f4: "sendable (MsgServerKeyExchange (server_exchange s (elliptic_curve_keypair demo_gen (st_named_curve s)) alg signature))"
    "scheme_listed server_cfg alg"
    "verify_signature demo_sign (value_key_message (random_marshal (st_local_random c)) (random_marshal (st_local_random s))
      (fst (demo_gen (st_named_curve s))) (st_named_curve s)) alg signature (cert_certificate demo_certificate) (cfg_insecure_verification server_cfg) = Ok ()"
    using flight4_sent [OF h demo_fits(1) demo_agreement cfg(1)] by metis
  let ?c = "client_ready demo_sign demo_gen demo_gen server_cfg (on_wire s) demo_certificate c"
  obtain cs cache c' pkts where f5: "st_cipher_suite s = Some cs" "\<not> suite_is_initialized (cs_cipher cs)"
    "generated (flight5_generate demo_crypto demo_sign demo_gen server_cfg cache ?c) = Some (c', pkts)"
    using flight5_sent [OF L h demo_agreement cfg cfg(2) refl f4 demo_fits(1,2)] by metis
  from f5(3) have g: "flight5_generate demo_crypto demo_sign demo_gen server_cfg cache ?c = (c', Ok pkts)"
    by (auto elim!: generated.elims)
  have "st_cipher_suite ?c = Some cs" using f5(1) by (simp add: client_ready_def Let_def)
  from server_key_proved [OF g cfg(1) this f5(2)] g show ?thesis by blast
qed

lemma flight5_parse_state: "flight5_parse L cfg cache c = (c', r) \<Longrightarrow> c' = c"
  by (auto simp: flight5_parse_def and_then_def split: outcome.splits option.splits handshake_message.splits if_splits)

theorem server_finished_checked_witness:
  "\<exists>cache (c :: nat dtls_state). flight5_parse demo_crypto server_cfg cache c = (c, Ok Flight5)
    \<and> (\<exists>i \<in> set cache. \<exists>h rest verify_data. rule_matches (rule HT_Finished 1 False False) i
      \<and> handshake_unmarshal (ci_data i) = Ok (h, rest) \<and> hs_message h = MsgFinished verify_data
      \<and> prf_verify_data_server demo_crypto (st_master_secret c) (pull_and_merge (finished_rules 0) cache) = Ok verify_data)"
proof -
  obtain T and s c :: "nat dtls_state" where h: "hellos_exchanged demo_gen server_cfg server_cfg T s c" using demo_hellos .
  have cfg: "cfg_local_psk_callback server_cfg = None" "cfg_initial_epoch server_cfg = 0" by (simp_all add: server_cfg_def)
  from key_exchange_completes [OF demo_crypto_contract demo_agreement h demo_fits(1,2,4) cfg cfg] obtain s' c' where
    k: "key_exchange demo_crypto demo_sign demo_gen server_cfg server_cfg T s c = Some (s', c')" "sessions_agree demo_crypto s' c'" by blast
  from k(1) obtain cache c1 where "leads_to Flight5 (flight5_parse demo_crypto server_cfg cache c1) = Some c'"
    by (auto simp: key_exchange_def bind_eq_Some_conv case_prod_unfold)
  then have f: "flight5_parse demo_crypto server_cfg cache c1 = (c', Ok Flight5)"
    by (auto elim!: leads_to.elims split: if_splits)
  with flight5_parse_state have "c1 = c'" by blast
  with f have g: "flight5_parse demo_crypto server_cfg cache c' = (c', Ok Flight5)" by simp
  have "cfg_initial_epoch server_cfg + 1 = 1" "st_cipher_suite c' \<noteq> None" using cfg(2) k(2) by (auto simp: sessions_agree_def)
  with server_finished_checked [OF g] cfg(2) have "\<exists>i \<in> set cache. \<exists>h rest verify_data. rule_matches (rule HT_Finished 1 False False) i
      \<and> handshake_unmarshal (ci_data i) = Ok (h, rest) \<and> hs_message h = MsgFinished verify_data
      \<and> prf_verify_data_server demo_crypto (st_master_secret c') (pull_and_merge (finished_rules 0) cache) = Ok verify_data"
    by simp
  with g show ?thesis by (intro exI [of _ cache] exI [of _ c'] conjI)
qed

end
