(* ===== verification/Spec2Isabelle.thy ===== *)
theory Spec2Isabelle
  imports End_To_End Client_Progress Dtls_Unauthenticated Dtls_Panics Dtls_Handshake
begin

text \<open>
  A verification library for the browser-to-network fetch path of \<^verbatim>\<open>autonomi-webrtc-direct-poc\<close>.

  \<^bold>\<open>The program.\<close> A proxy process (\<^verbatim>\<open>crates/proxy\<close>) answers, over WebRTC-Direct streams, the question
  which bytes are stored under a content address; it reads them from a self-encrypted local file or from
  the live network. A browser client (\<^verbatim>\<open>crates/wasm-client\<close>, driven by \<^verbatim>\<open>web/src/retrieve.js\<close> over
  \<^verbatim>\<open>web/src/fetch-client.js\<close>) starts from the address of a data map, asks for the chunks the map names,
  checks every answer against the address it asked for, resolves wrapped maps and decrypts. The two talk
  through vendored copies of \<^verbatim>\<open>libp2p-webrtc\<close> and \<^verbatim>\<open>webrtc-dtls\<close>, which the repository patches: the
  server chooses the first curve of the client it can do, and offers no 256-bit SRTP profile.

  \<^bold>\<open>The theories.\<close>

  \<^item> \<open>Prelude\<close>: results with panics (\<open>outcome\<close>), big-endian integers, bytes and UTF-8, cutting lists into
    pieces, reachability, and the locales of the library: codecs that read back what they write, codecs of
    fixed width, and simulations of one step system by another.

  \<^item> \<open>Client_Address\<close>: \<^verbatim>\<open>parse_hex_address\<close>, \<^verbatim>\<open>hex_digit\<close>, \<^verbatim>\<open>parse_address\<close>, \<^verbatim>\<open>hex\<close> of
    \<^verbatim>\<open>wasm-client/src/lib.rs\<close>. Printing and parsing are inverse, with white space around the text too;
    which inputs are errors.

  \<^item> \<open>Client_Retrieval\<close>: \<^verbatim>\<open>Retrieval\<close> of the same file (begin, required addresses, supply, advance,
    finish) as a record and state-passing functions, and \<^verbatim>\<open>retrieve\<close> of \<^verbatim>\<open>retrieve.js\<close>. Only verified
    chunks are decrypted in any reachable state; no network can make one address yield two plaintexts
    without a hash collision; a network that serves the named chunks yields the plaintext.

  \<^item> \<open>Client_Progress\<close>: the same client against specifications: the flat encoding of addresses, exact
    acceptance of chunks, a simulation by an ideal content-addressed store, the number of phases the
    driver needs, and the worker pool \<^verbatim>\<open>forEachConcurrently\<close> as a step relation, in which
    requests succeed or fail: every interleaving that completes ends in the state of the sequential
    download, and every one ends, in success or in rejection.

  \<^item> \<open>Proxy_Protocol\<close>: every function of \<^verbatim>\<open>proxy/src/protocol.rs\<close> over streams with arbitrary
    deliveries and transport failures, and the browser's decoder. What was written is decoded or an early
    end is reported, under any fragmentation, with at most 16 KiB between flushes.

  \<^item> \<open>Proxy_Source\<close>: \<^verbatim>\<open>proxy/src/source.rs\<close> and \<^verbatim>\<open>handle_request\<close>. The contract of a
    content-addressed source is a locale that the in-memory source implements.

  \<^item> \<open>Proxy_Main\<close> and \<open>Proxy_Process\<close>: \<^verbatim>\<open>proxy/src/main.rs\<close> over an explicit filesystem: the identity
    files and their survival of restarts, the choice of the source, the dump, the advertised address, and
    \<^verbatim>\<open>main\<close> as a whole with the address it listens on.

  \<^item> \<open>End_To_End\<close>: both halves composed, from a file on the proxy's disk to the plaintext in the browser.

  \<^item> \<open>Dtls_Types\<close>, \<open>Dtls_Extensions\<close>, \<open>Dtls_Messages\<close>, \<open>Dtls_Record\<close>: the wire format of
    \<^verbatim>\<open>vendor/webrtc-dtls\<close>, from enumerations to records and datagrams, in both directions. Well-formed
    values survive the wire; how a datagram is split.

  \<^item> \<open>Dtls_Panics\<close>: on exactly which bytes the parser of handshake messages panics.

  \<^item> \<open>Dtls_Fragment\<close>: \<^verbatim>\<open>fragment_handshake\<close> of \<^verbatim>\<open>conn/mod.rs\<close> and \<^verbatim>\<open>fragment_buffer\<close>. Reassembly
    ends on every input a peer can send and inverts fragmentation under reordering and duplication; the
    size limit of the buffer does not count headers.

  \<^item> \<open>Dtls_Cache\<close>: \<^verbatim>\<open>handshake_cache.rs\<close>. What a flight is given by the transcript cache.

  \<^item> \<open>Dtls_Negotiation\<close>: cipher suites, signature schemes, the server's flights 0 and 2 with the
    repository's curve patch, and the SRTP profiles the patched transport offers. Which hellos are
    accepted and with what result, the cookie exchange, and that the 256-bit profile is never selected.

  \<^item> \<open>Dtls_Sending\<close>: \<^verbatim>\<open>handle_outgoing_packets\<close> of \<^verbatim>\<open>conn/mod.rs\<close> and what it calls. No record number
    is used twice, and a message sent in any datagrams is reassembled to the bytes of the sender's own
    transcript.

  \<^item> \<open>Dtls_Receiving\<close>: \<^verbatim>\<open>handle_incoming_packet\<close>, \<^verbatim>\<open>read_and_buffer\<close> and \<^verbatim>\<open>handle_queued_packets\<close>
    of the same file. Handling a record always ends, no record takes effect twice, and what an
    unauthenticated alert does to an established connection.

  \<^item> \<open>Dtls_Ciphers\<close> and \<open>Dtls_Crypto\<close>: padding, the PRF with the keys derived from it, and the protection
    of records by the GCM, CCM and CBC suites (\<^verbatim>\<open>crypto/\<close>, \<^verbatim>\<open>prf/\<close>, \<^verbatim>\<open>cipher_suite/\<close>). Two sides that share
    a master secret understand each other with every suite; the PRF is that of the RFC; padding is read
    back exactly.

  \<^item> \<open>Dtls_Channel\<close>: \<^verbatim>\<open>read\<close>, \<^verbatim>\<open>write\<close>, \<^verbatim>\<open>close\<close> and the reader task of \<^verbatim>\<open>conn/mod.rs\<close>. What one side
    writes the other reads, in order, as far as the datagrams arrive and fit the reader's buffer of 8192
    bytes: sender, suites and reader composed; larger writes succeed and are lost.

  \<^item> \<open>Dtls_Unauthenticated\<close>: how records that nobody has authenticated end or silence a connection.

  \<^item> \<open>Dtls_Handshaker\<close>: the state machine of \<^verbatim>\<open>handshaker.rs\<close> over any flights. Before its cookie has
    come back a server sends at most one packet for each wake-up; retransmission leaves the transcript
    unchanged; the last flight is sent once.

  \<^item> \<open>Dtls_Signatures\<close>: signing and verifying, certificate chains, the premaster secret (\<^verbatim>\<open>crypto/mod.rs\<close>,
    \<^verbatim>\<open>prf/mod.rs\<close>) and the choice of a certificate (\<^verbatim>\<open>handshaker.rs\<close>). Which scheme a key signs with.

  \<^item> \<open>Dtls_Server_Flights\<close> and \<open>Dtls_Client_Flights\<close>: \<^verbatim>\<open>flight4.rs\<close> and \<^verbatim>\<open>flight6.rs\<close>, \<^verbatim>\<open>flight1.rs\<close>,
    \<^verbatim>\<open>flight3.rs\<close> and \<^verbatim>\<open>flight5.rs\<close>, each function whole and with its error paths. What each side knows of
    the other when it goes on: the client's certificate was proved or none was needed, the server's key
    exchange was signed, its Finished matches the transcript; the server does not compare the client's.

  \<^item> \<open>Dtls_Agreement\<close>, \<open>Dtls_Key_Exchange\<close> and \<open>Dtls_Handshake\<close>: client and server together. What each
    flight makes of the packets of the one before it, over transcripts from which both read the same;
    all flights put into the state machine; and that a handshake between fitting configurations is
    completed from fresh states, with the same master secret and ciphers that understand each other.

  \<^bold>\<open>Conventions.\<close> A Rust \<^verbatim>\<open>Result\<close> is an \<open>outcome\<close> whose third value \<open>Panic\<close> stands for an index out of
  range, a failed \<^verbatim>\<open>expect\<close> or a slice error. Machine integers are words; the additions and casts of the
  DTLS codecs wrap as in the release profile. Sequence numbers held as \<^verbatim>\<open>isize\<close> are \<open>int\<close>. Code of other
  packages is an argument of the definitions: BLAKE3, \<^verbatim>\<open>self_encryption\<close>, \<^verbatim>\<open>rmp_serde\<close>, the network
  client, the key and certificate encodings, \<^verbatim>\<open>hex\<close>, libp2p's multiaddr parser and listener, SHA-256,
  HMAC and AES, signatures, elliptic curves and certificate verifiers, the replay detector, key
  generation and random bytes. What is relied on is a named
  hypothesis: \<open>verify_sound\<close> and \<open>verify_total\<close> (chunk verification is the hash comparison),
  \<open>xorname_width\<close> (addresses have 32 bytes), \<open>encryption_contract\<close> (what was encrypted decrypts),
  \<open>identity_roundtrip\<close> (encodings of keys and certificates read back), \<open>multiaddr_format\<close> (the text format
  of multiaddrs), \<open>crypto_contract\<close> (authenticated encryption and CBC are inverted by decryption, MACs
  have their lengths), \<open>replay_contract\<close> and \<open>accepts_newer\<close> (what a replay detector refuses and accepts),
  \<open>recv_contract\<close> (a datagram that fits the buffer is received whole, a larger one cut off or an error),
  \<open>key_agreement\<close> (both sides of a key agreement get the same secret) and \<open>certified\<close> (what the key of a
  certificate signs verifies under the certificate); each has an instance in the witnesses. \<open>keeps_number\<close>
  (encryption leaves the number of a record readable) is proved of the cipher suites, and \<open>moves_on\<close>
  (a later flight does not go back to the cookie exchange) of the server's flights.

  \<^bold>\<open>Bounds.\<close> The driver's loop runs at most \<open>MAX_ROUNDS = 16\<close> rounds, as in the source, and
  \<open>Client_Progress\<close> proves that two are enough for every map. The other loops are structural or end by a
  measure; only \<open>append_message\<close>, whose recursion follows offsets a peer chooses, and \<open>drain_messages\<close>, which
  calls it, are partial functions, and both are proved to return on every buffer that can arise.

  \<^bold>\<open>Limits.\<close> The statements about a served file cover data maps that are flat or wrapped once
  (\<open>resolves_to\<close>). The concurrent downloads take the answer of the network to an address not to depend on
  the moment of the request. Delivery of data takes the datagrams that arrive to arrive in order. The
  composed handshake hands the messages of one side to the other without the record layer, whose own
  theorems are separate. The bounded channel of delivered data is a list.

  \<^bold>\<open>Not modelled.\<close> The set-up of a DTLS connection and its tasks from a configuration, the listener, and
  the timers and channels between the tasks (calls of the async runtime; the state machine sees them as
  events); the generation of certificates and their files (calls of \<^verbatim>\<open>rcgen\<close>); the ICE, SDP and UDP parts
  of \<^verbatim>\<open>libp2p-webrtc\<close>; dialling, backpressure and closing in \<^verbatim>\<open>fetch-client.js\<close> (calls of js-libp2p);
  argument parsing and logging; the web page; the texts of error messages.
\<close>

end
